(* ===== verification/Prelude.thy ===== *)
theory Prelude
  imports
    Main
    "HOL-Library.Word"
begin

unbundle bit_operations_syntax

text \<open>
  The prelude of the development: the result type of a C function, its bind, the named
  collections the component theories feed, and generic facts on lists that several
  components share.

  A C function that can go wrong is modelled by a function into \<open>'a cres\<close>:
  \<^item> \<open>Inr x\<close>: it returned \<open>x\<close>;
  \<^item> \<open>Inl UB\<close>: it reached undefined behaviour (an out-of-bounds access, a read of an
    indeterminate value, a shift by too much, a null pointer dereferenced);
  \<^item> \<open>Inl Hang\<close>: it blocks for ever (a blocking system call that never completes);
  \<^item> \<open>Inl (Exit n)\<close>: the process ends by \<open>exit (n)\<close>, \<open>unexpected_exit\<close> included.
\<close>

datatype fault = UB | Hang | Exit int

type_synonym 'a cres = "fault + 'a"

type_synonym byte = "8 word"

type_synonym u16 = "16 word"

type_synonym u32 = "32 word"

type_synonym u64 = "64 word"

named_theorems cres_simps "evaluation of C results"

named_theorems frame_simps "fields an operation does not touch"

named_theorems bounds_intros "length bounds of the fixed-size C buffers"

section \<open>Sequencing C results\<close>

definition cbind :: "'a cres \<Rightarrow> ('a \<Rightarrow> 'b cres) \<Rightarrow> 'b cres" where
  "cbind m f = (case m of Inl e \<Rightarrow> Inl e | Inr x \<Rightarrow> f x)"

definition cmap :: "('a \<Rightarrow> 'b) \<Rightarrow> 'a cres \<Rightarrow> 'b cres" where
  "cmap f m = cbind m (\<lambda>x. Inr (f x))"

lemma cbind_Inr [simp, cres_simps]: "cbind (Inr x) f = f x"
  by (simp add: cbind_def)

lemma cbind_Inl [simp, cres_simps]: "cbind (Inl e) f = Inl e"
  by (simp add: cbind_def)

lemma cbind_eq_Inr [cres_simps]: "cbind m f = Inr y \<longleftrightarrow> (\<exists>x. m = Inr x \<and> f x = Inr y)"
  by (cases m) auto

lemma cbind_eq_Inl [cres_simps]:
  "cbind m f = Inl e \<longleftrightarrow> m = Inl e \<or> (\<exists>x. m = Inr x \<and> f x = Inl e)"
  by (cases m) auto

lemma cmap_Inr [simp, cres_simps]: "cmap f (Inr x) = Inr (f x)"
  by (simp add: cmap_def)

lemma cmap_Inl [simp, cres_simps]: "cmap f (Inl e) = Inl e"
  by (simp add: cmap_def)

lemma cbind_InrE [elim]:
  assumes "cbind m f = Inr y"
  obtains x where "m = Inr x" "f x = Inr y"
  using assms by (cases m) auto

lemma cbind_cong [fundef_cong]:
  "m = m' \<Longrightarrow> (\<And>x. m' = Inr x \<Longrightarrow> f x = g x) \<Longrightarrow> cbind m f = cbind m' g"
  by (cases m') auto

lemma cbind_assoc: "cbind (cbind m f) g = cbind m (\<lambda>x. cbind (f x) g)"
  by (cases m) auto

section \<open>Lists\<close>

lemma takeWhile_no_hit: "(\<forall>x \<in> set xs. P x) \<Longrightarrow> takeWhile P (xs @ y # ys) = xs @ takeWhile P (y # ys)"
  by (induction xs) auto

lemma dropWhile_no_hit: "(\<forall>x \<in> set xs. P x) \<Longrightarrow> dropWhile P (xs @ y # ys) = dropWhile P (y # ys)"
  by (induction xs) auto

lemma length_dropWhile_Cons:
  assumes "dropWhile P xs = y # ys"
  shows "length ys < length xs"
proof -
  have "length (dropWhile P xs) \<le> length xs" by (rule length_dropWhile_le)
  with assms show ?thesis by simp
qed

lemma take_eq_self: "length xs \<le> n \<Longrightarrow> take n xs = xs"
  by simp

lemma find_Some_split:
  "find P xs = Some x \<Longrightarrow> \<exists>ys zs. xs = ys @ x # zs \<and> P x \<and> (\<forall>y \<in> set ys. \<not> P y)"
proof (induction xs)
  case (Cons a xs)
  show ?case
  proof (cases "P a")
    case True
    with Cons.prems have "a # xs = [] @ x # xs \<and> P x \<and> (\<forall>y \<in> set []. \<not> P y)" by simp
    then show ?thesis by blast
  next
    case False
    with Cons obtain ys zs where "xs = ys @ x # zs \<and> P x \<and> (\<forall>y \<in> set ys. \<not> P y)" by auto
    with False have "a # xs = (a # ys) @ x # zs \<and> P x \<and> (\<forall>y \<in> set (a # ys). \<not> P y)" by simp
    then show ?thesis by blast
  qed
qed simp

lemma find_append: "find P (xs @ ys) = (case find P xs of Some x \<Rightarrow> Some x | None \<Rightarrow> find P ys)"
  by (induction xs) auto

end
