(* ===== verification/CString.thy ===== *)
theory CString
  imports Prelude
begin

text \<open>
  C strings: the functions of \<open>src/string2.c\<close> and the string functions of the C library
  that the program calls (\<open>strncpy\<close>, \<open>strsep\<close>, \<open>strcasecmp\<close>, \<open>strcasestr\<close>,
  \<open>sscanf\<close> with \<open>%i\<close> and \<open>%li\<close>, \<open>printf\<close> of integers). A C string is the list of
  its characters before the terminating NUL; a buffer of \<open>n\<close> bytes holds a string of at
  most \<open>n - 1\<close> characters. The library functions follow the BSD C library, the platform
  the program is written for (it uses \<open>sin_len\<close>).
\<close>

section \<open>Characters\<close>

abbreviation chr_cr :: char where
  "chr_cr \<equiv> CHR 0x0D"

abbreviation chr_lf :: char where
  "chr_lf \<equiv> CHR 0x0A"

abbreviation chr_tab :: char where
  "chr_tab \<equiv> CHR 0x09"

abbreviation chr_quote :: char where
  "chr_quote \<equiv> CHR 0x27"

abbreviation chr_dquote :: char where
  "chr_dquote \<equiv> CHR 0x22"

abbreviation chr_backslash :: char where
  "chr_backslash \<equiv> CHR 0x5C"

abbreviation ccode :: "char \<Rightarrow> nat" where
  "ccode c \<equiv> (of_char c :: nat)"

definition c_isdigit :: "char \<Rightarrow> bool" where
  "c_isdigit c \<longleftrightarrow> 48 \<le> ccode c \<and> ccode c \<le> 57"

definition c_isspace :: "char \<Rightarrow> bool" where
  "c_isspace c \<longleftrightarrow> c = CHR '' '' \<or> (9 \<le> ccode c \<and> ccode c \<le> 13)"

definition c_tolower :: "char \<Rightarrow> char" where
  "c_tolower c = (if 65 \<le> ccode c \<and> ccode c \<le> 90 then char_of (ccode c + 32) else c)"

definition lower_str :: "string \<Rightarrow> string" where
  "lower_str s = map c_tolower s"

lemma length_lower_str [simp]: "length (lower_str s) = length s"
  by (simp add: lower_str_def)

lemma c_tolower_idem [simp]: "c_tolower (c_tolower c) = c_tolower c"
  by (auto simp: c_tolower_def)

lemma lower_str_idem [simp]: "lower_str (lower_str s) = lower_str s"
  by (simp add: lower_str_def)

lemma lower_str_simps [simp]: "lower_str [] = []" "lower_str (c # s) = c_tolower c # lower_str s"
  by (simp_all add: lower_str_def)

lemma lower_str_append [simp]: "lower_str (s @ t) = lower_str s @ lower_str t"
  by (simp add: lower_str_def)

section \<open>Copies into fixed-size buffers\<close>

text \<open>
  \<open>strncpy (d, s, n); d[n-1] = 0\<close>: the copy is cut to \<open>n - 1\<close> characters.
\<close>

definition strncpy_term :: "nat \<Rightarrow> string \<Rightarrow> string" where
  "strncpy_term n s = take (n - 1) s"

text \<open>
  \<open>strncpy (d, s, n - 1)\<close> into an \<open>n\<close>-byte buffer whose last byte nobody wrote: the
  terminator is only there when the source is shorter than \<open>n - 1\<close>; otherwise the string
  that is read back runs past the buffer.
\<close>

definition strncpy_open :: "nat \<Rightarrow> string \<Rightarrow> string cres" where
  "strncpy_open n s = (if length s < n - 1 then Inr s else Inl UB)"

lemma length_strncpy_term [bounds_intros]: "0 < n \<Longrightarrow> length (strncpy_term n s) < n"
  by (simp add: strncpy_term_def)

lemma strncpy_term_short: "length s < n \<Longrightarrow> strncpy_term n s = s"
  by (simp add: strncpy_term_def)

lemma strncpy_open_Inr [simp]: "strncpy_open n s = Inr t \<longleftrightarrow> t = s \<and> length s < n - 1"
  by (auto simp: strncpy_open_def)

section \<open>strsep\<close>

text \<open>
  \<open>strsep (&p, delims)\<close>: the token up to the first delimiter, and the pointer behind that
  delimiter, \<open>None\<close> (a null pointer) when there was none. On a null pointer it returns null.
\<close>

fun strsep :: "char list \<Rightarrow> string option \<Rightarrow> string option \<times> string option" where
  "strsep ds None = (None, None)"
| "strsep ds (Some s) =
     (Some (takeWhile (\<lambda>c. c \<notin> set ds) s),
      (case dropWhile (\<lambda>c. c \<notin> set ds) s of [] \<Rightarrow> None | _ # r \<Rightarrow> Some r))"

definition ptr_len :: "string option \<Rightarrow> nat" where
  "ptr_len p = (case p of None \<Rightarrow> 0 | Some s \<Rightarrow> Suc (length s))"

lemma ptr_len_simps [simp]: "ptr_len None = 0" "ptr_len (Some s) = Suc (length s)"
  by (simp_all add: ptr_len_def)

lemma strsep_decreases:
  assumes "p \<noteq> None"
  shows "ptr_len (snd (strsep ds p)) < ptr_len p"
proof -
  obtain s where p: "p = Some s" using assms by blast
  show ?thesis
    by (auto simp: p split: list.splits dest: length_dropWhile_Cons)
qed

lemma strsep_le: "ptr_len (snd (strsep ds p)) \<le> ptr_len p"
  using strsep_decreases [of p ds] by (cases p) auto

lemma strsep_pair_less: "(t, p') = strsep ds (Some s) \<Longrightarrow> ptr_len p' < ptr_len (Some s)"
  using strsep_decreases [of "Some s" ds] by (metis option.distinct(1) snd_conv)

lemma strsep_pair_le: "(t, p') = strsep ds p \<Longrightarrow> ptr_len p' \<le> ptr_len p"
  using strsep_le [of ds p] by (metis snd_conv)

lemma strsep_tok:
  "\<forall>c \<in> set t. c \<notin> set ds \<Longrightarrow> d \<in> set ds \<Longrightarrow> strsep ds (Some (t @ d # r)) = (Some t, Some r)"
  by (simp add: takeWhile_no_hit dropWhile_no_hit)

lemma strsep_last:
  "\<forall>c \<in> set t. c \<notin> set ds \<Longrightarrow> strsep ds (Some t) = (Some t, None)"
  by (simp add: takeWhile_eq_all_conv [THEN iffD2] dropWhile_eq_Nil_conv [THEN iffD2])

declare strsep.simps(2) [simp del]

lemma strsep_char_tok: "c \<notin> set t \<Longrightarrow> strsep [c] (Some (t @ c # r)) = (Some t, Some r)"
  by (rule strsep_tok) auto

lemma strsep_char_last: "c \<notin> set t \<Longrightarrow> strsep [c] (Some t) = (Some t, None)"
  by (rule strsep_last) auto

section \<open>Case-insensitive comparison and search\<close>

definition strcasecmp_eq :: "string \<Rightarrow> string \<Rightarrow> bool" where
  "strcasecmp_eq s t \<longleftrightarrow> lower_str s = lower_str t"

text \<open>\<open>strcasestr (s, f) != NULL\<close>.\<close>

fun strcasestr :: "string \<Rightarrow> string \<Rightarrow> bool" where
  "strcasestr s f =
     (take (length f) (lower_str s) = lower_str f \<or>
      (case s of [] \<Rightarrow> False | _ # t \<Rightarrow> strcasestr t f))"

declare strcasestr.simps [simp del]

lemma strcasestr_iff: "strcasestr s f \<longleftrightarrow> (\<exists>u v. lower_str s = u @ lower_str f @ v)"
proof (induction s f rule: strcasestr.induct)
  case (1 s f)
  show ?case
  proof (cases "take (length f) (lower_str s) = lower_str f")
    case True
    then have "lower_str s = [] @ lower_str f @ drop (length f) (lower_str s)"
      by (metis append_Nil append_take_drop_id)
    with True show ?thesis by (subst strcasestr.simps) blast
  next
    case False
    have "(\<exists>u v. lower_str s = u @ lower_str f @ v) \<longleftrightarrow>
          (case s of [] \<Rightarrow> False | _ # t \<Rightarrow> \<exists>u v. lower_str t = u @ lower_str f @ v)"
    proof (cases s)
      case Nil
      with False show ?thesis by (auto simp: lower_str_def)
    next
      case (Cons c t)
      have nil: "lower_str s \<noteq> lower_str f @ v" for v
        using False by (metis append_eq_conv_conj length_lower_str)
      have "(\<exists>u v. lower_str s = u @ lower_str f @ v) \<longleftrightarrow>
            (\<exists>u v. lower_str t = u @ lower_str f @ v)" (is "?L \<longleftrightarrow> ?R")
      proof
        assume ?L
        then obtain u v where uv: "lower_str s = u @ lower_str f @ v" by blast
        then obtain x u' where "u = x # u'" using nil by (cases u) auto
        with uv Cons show ?R by auto
      next
        assume ?R
        then obtain u v where "lower_str t = u @ lower_str f @ v" by blast
        then have "lower_str s = (c_tolower c # u) @ lower_str f @ v" using Cons by simp
        then show ?L by blast
      qed
      then show ?thesis using Cons by simp
    qed
    with False "1.IH" show ?thesis
      by (subst strcasestr.simps) (simp split: list.splits)
  qed
qed

section \<open>Numbers as text\<close>

definition digit_char :: "nat \<Rightarrow> char" where
  "digit_char d = char_of (48 + d)"

fun show_nat :: "nat \<Rightarrow> string" where
  "show_nat n = (if n < 10 then [digit_char n] else show_nat (n div 10) @ [digit_char (n mod 10)])"

declare show_nat.simps [simp del]

definition show_int :: "int \<Rightarrow> string" where
  "show_int i = (if i < 0 then CHR ''-'' # show_nat (nat (- i)) else show_nat (nat i))"

definition digits_val :: "nat \<Rightarrow> string \<Rightarrow> nat" where
  "digits_val a s = foldl (\<lambda>acc c. acc * 10 + (ccode c - 48)) a s"

lemma of_char_digit_char [simp]: "d < 10 \<Longrightarrow> ccode (digit_char d) = 48 + d"
  by (simp add: digit_char_def)

lemma c_isdigit_digit_char [simp]: "d < 10 \<Longrightarrow> c_isdigit (digit_char d)"
  by (simp add: c_isdigit_def)

lemma show_nat_digits: "c \<in> set (show_nat n) \<Longrightarrow> c_isdigit c"
proof (induction n rule: show_nat.induct)
  case (1 n)
  then show ?case by (auto simp: show_nat.simps [of n] split: if_splits)
qed

lemma show_nat_nonempty [simp]: "show_nat n \<noteq> []"
  by (simp add: show_nat.simps [of n])

lemma digits_val_show_nat [simp]: "digits_val 0 (show_nat n) = n"
proof (induction n rule: show_nat.induct)
  case (1 n)
  show ?case
  proof (cases "n < 10")
    case True
    then show ?thesis by (simp add: show_nat.simps [of n] digits_val_def)
  next
    case False
    with 1 have "digits_val 0 (show_nat (n div 10)) = n div 10" by simp
    with False show ?thesis by (simp add: show_nat.simps [of n] digits_val_def)
  qed
qed

lemma show_nat_inj: "show_nat m = show_nat n \<Longrightarrow> m = n"
  by (metis digits_val_show_nat)

lemma show_nat_head: "10 \<le> n \<Longrightarrow> hd (show_nat n) \<noteq> CHR ''0''"
proof (induction n rule: show_nat.induct)
  case (1 n)
  show ?case
  proof (cases "n div 10 < 10")
    case True
    have "n div 10 \<noteq> 0" using "1.prems" by simp
    then have "digit_char (n div 10) \<noteq> CHR ''0''"
      using True of_char_digit_char [of "n div 10"] by force
    then show ?thesis using "1.prems" True
      by (simp add: show_nat.simps [of n] show_nat.simps [of "n div 10"])
  next
    case False
    with 1 show ?thesis by (simp add: show_nat.simps [of n])
  qed
qed

lemma length_show_nat_le: "n < 10 ^ k \<Longrightarrow> 0 < k \<Longrightarrow> length (show_nat n) \<le> k"
proof (induction k arbitrary: n)
  case (Suc k)
  show ?case
  proof (cases "n < 10")
    case True
    then show ?thesis by (simp add: show_nat.simps [of n])
  next
    case False
    then have "k \<noteq> 0" using Suc.prems by (cases k) auto
    moreover have "n div 10 < 10 ^ k" using Suc.prems by (simp add: less_mult_imp_div_less mult.commute)
    ultimately have "length (show_nat (n div 10)) \<le> k" using Suc.IH by simp
    with False show ?thesis by (simp add: show_nat.simps [of n])
  qed
qed simp

section \<open>sscanf with one integer conversion\<close>

text \<open>
  The value of a digit in bases up to 16, and the longest run of digits below the base.
\<close>

definition hex_val :: "char \<Rightarrow> nat option" where
  "hex_val c =
     (if c_isdigit c then Some (ccode c - 48)
      else if 97 \<le> ccode (c_tolower c) \<and> ccode (c_tolower c) \<le> 102 then Some (ccode (c_tolower c) - 87)
      else None)"

definition is_digit_of :: "nat \<Rightarrow> char \<Rightarrow> bool" where
  "is_digit_of b c = (case hex_val c of None \<Rightarrow> False | Some d \<Rightarrow> d < b)"

definition scan_val :: "nat \<Rightarrow> string \<Rightarrow> nat" where
  "scan_val b s = foldl (\<lambda>acc c. acc * b + the (hex_val c)) 0 (takeWhile (is_digit_of b) s)"

text \<open>
  The unsigned part of a \<open>%i\<close> conversion: \<open>0x\<close> and a hexadecimal digit start a
  hexadecimal number, any other leading \<open>0\<close> an octal one, a non-zero digit a decimal one;
  no digit at all is a matching failure.
\<close>

definition scan_mag :: "string \<Rightarrow> nat option" where
  "scan_mag s =
     (case s of
        [] \<Rightarrow> None
      | c # r \<Rightarrow>
          if c = CHR ''0'' then
            (case r of
               x # h # _ \<Rightarrow>
                 if c_tolower x = CHR ''x'' \<and> is_digit_of 16 h then Some (scan_val 16 (tl r))
                 else Some (scan_val 8 s)
             | _ \<Rightarrow> Some (scan_val 8 s))
          else if c_isdigit c then Some (scan_val 10 s)
          else None)"

definition scan_signed :: "string \<Rightarrow> int option" where
  "scan_signed s0 =
     (let s = dropWhile c_isspace s0
      in case s of
           [] \<Rightarrow> None
         | c # r \<Rightarrow>
             if c = CHR ''-'' then map_option (\<lambda>n. - int n) (scan_mag r)
             else if c = CHR ''+'' then map_option int (scan_mag r)
             else map_option int (scan_mag s))"

text \<open>
  \<open>%li\<close> stores the value clamped to 64 bits, \<open>%i\<close> the low 32 bits of that value, read
  as two's complement. \<open>None\<close> is a conversion count other than 1.
\<close>

definition clamp64 :: "int \<Rightarrow> int" where
  "clamp64 i = max (- (2 ^ 63)) (min (2 ^ 63 - 1) i)"

definition sscanf_li :: "string \<Rightarrow> int option" where
  "sscanf_li s = map_option clamp64 (scan_signed s)"

definition sscanf_i :: "string \<Rightarrow> int option" where
  "sscanf_i s = map_option (signed_take_bit 31 \<circ> clamp64) (scan_signed s)"

lemma sscanf_i_range: "sscanf_i s = Some v \<Longrightarrow> - (2 ^ 31) \<le> v \<and> v < 2 ^ 31"
  using signed_take_bit_int_greater_eq_minus_exp [of 31] signed_take_bit_int_less_exp [of 31]
  by (auto simp: sscanf_i_def)

lemma hex_val_digit: "c_isdigit c \<Longrightarrow> hex_val c = Some (ccode c - 48)"
  by (simp add: hex_val_def)

lemma is_digit_of_10: "c_isdigit c \<Longrightarrow> is_digit_of 10 c"
  by (auto simp: is_digit_of_def hex_val_digit c_isdigit_def)

lemma scan_val_digits:
  assumes "\<forall>c \<in> set s. c_isdigit c"
  shows "scan_val 10 s = digits_val 0 s"
proof -
  have tw: "takeWhile (is_digit_of 10) s = s"
    using assms is_digit_of_10 by (simp add: takeWhile_eq_all_conv)
  have fv: "foldl (\<lambda>acc c. acc * 10 + the (hex_val c)) a s = foldl (\<lambda>acc c. acc * 10 + (ccode c - 48)) a s" for a
    using assms by (induction s arbitrary: a) (auto simp: hex_val_digit)
  show ?thesis by (simp only: scan_val_def digits_val_def tw fv)
qed

text \<open>A decimal printed by \<open>%i\<close> is read back by \<open>%i\<close>.\<close>

lemma scan_mag_show_nat: "scan_mag (show_nat n) = Some n"
proof (cases "n = 0")
  case True
  then show ?thesis
    by (simp add: show_nat.simps [of 0] scan_mag_def digit_char_def scan_val_def is_digit_of_def
        hex_val_def c_isdigit_def)
next
  case False
  obtain c r where s: "show_nat n = c # r" by (cases "show_nat n") auto
  have d: "\<forall>x \<in> set (show_nat n). c_isdigit x" using show_nat_digits by blast
  have "c \<noteq> CHR ''0''"
  proof (cases "n < 10")
    case True
    then have "ccode c = 48 + n" using s by (simp add: show_nat.simps [of n] flip: of_char_digit_char)
    with False show ?thesis by auto
  next
    case False
    then show ?thesis using show_nat_head [of n] s by simp
  qed
  moreover have "scan_val 10 (show_nat n) = n" using d by (simp add: scan_val_digits)
  ultimately show ?thesis using d s by (simp add: scan_mag_def)
qed

lemma scan_signed_show_nat: "scan_signed (show_nat n) = Some (int n)"
proof -
  obtain c r where s: "show_nat n = c # r" by (cases "show_nat n") auto
  then have "c_isdigit c" using show_nat_digits [of c n] by simp
  then have "\<not> c_isspace c" "c \<noteq> CHR ''-''" "c \<noteq> CHR ''+''"
    by (auto simp: c_isdigit_def c_isspace_def)
  then show ?thesis
    using scan_mag_show_nat [of n] s by (simp add: scan_signed_def Let_def)
qed

lemma sscanf_i_show_nat: "n < 2 ^ 31 \<Longrightarrow> sscanf_i (show_nat n) = Some (int n)"
  by (simp add: sscanf_i_def scan_signed_show_nat clamp64_def signed_take_bit_int_eq_self)

end
