(* ===== verification/Config_Line.thy ===== *)
theory Config_Line
  imports CString
begin

text \<open>
  The three routines of \<open>src/config_file.c\<close> that turn the bytes of a file into the text of a
  configuration line: \<open>read_line\<close>, the removal of spaces and comments, and the substitution of
  environment variables. What \<open>read\<close> gives is a script, whose end is the end of the file.
\<close>

definition MAX_LINE_LENGTH :: nat where "MAX_LINE_LENGTH = 10240"

section \<open>Reading a line\<close>

datatype file_read = Fr_char char | Fr_intr | Fr_fail

text \<open>
  The flags \<open>cr\<close> and \<open>lf\<close> live across the calls for one file. The result is the return code
  (0 error, 1 a line, 2 end of file), the buffer, the flags and what is left of the file.
\<close>

fun read_line :: "nat \<Rightarrow> string \<Rightarrow> bool \<Rightarrow> bool \<Rightarrow> file_read list \<Rightarrow> nat \<times> string \<times> bool \<times> bool \<times> file_read list" where
  "read_line buflen buf cr lf [] = (2, buf, cr, lf, [])"
| "read_line buflen buf cr lf (Fr_intr # s) = read_line buflen buf cr lf s"
| "read_line buflen buf cr lf (Fr_fail # s) = (0, buf, cr, lf, s)"
| "read_line buflen buf cr lf (Fr_char c # s) =
     (if c = chr_lf \<and> cr then read_line buflen buf False False s
      else if c = chr_cr \<and> lf then read_line buflen buf False False s
      else if c = chr_lf then (1, buf, cr, True, s)
      else if c = chr_cr then (1, buf, True, lf, s)
      else
        let buf = buf @ [c]
        in if length buf \<ge> buflen - 1 then (0, buf, False, False, s)
           else read_line buflen buf False False s)"

lemma read_line_rest: "read_line buflen buf cr lf s = (rc, b, cr', lf', r) \<Longrightarrow> length r \<le> length s"
  by (induction buflen buf cr lf s rule: read_line.induct) (auto simp: Let_def split: if_splits)

lemma read_line_shorter: "read_line buflen buf cr lf s = (Suc 0, b, cr', lf', r) \<Longrightarrow> length r < length s"
proof (induction buflen buf cr lf s rule: read_line.induct)
  case (4 buflen buf cr lf c s)
  then show ?case by (fastforce simp: Let_def split: if_splits)
qed (auto simp: less_SucI)

lemma read_line_bounded:
  "read_line buflen buf cr lf s = (rc, b, cr', lf', r) \<Longrightarrow> length buf < buflen - 1 \<Longrightarrow> length b < buflen"
  by (induction buflen buf cr lf s rule: read_line.induct) (auto simp: Let_def split: if_splits)

text \<open>A line as a C string: what comes behind a zero byte is not seen.\<close>

definition c_str :: "string \<Rightarrow> string" where
  "c_str buf = takeWhile (\<lambda>c. c \<noteq> CHR 0x00) buf"

text \<open>
  The lines the two parsers get from a file when nothing stops them before, and the return code
  that ends the file.
\<close>

function read_lines :: "bool \<Rightarrow> bool \<Rightarrow> file_read list \<Rightarrow> string list \<times> nat" where
  "read_lines cr lf s =
     (case read_line MAX_LINE_LENGTH [] cr lf s of
        (rc, buf, cr', lf', r) \<Rightarrow> if rc = 1 then apfst (Cons buf) (read_lines cr' lf' r) else ([], rc))"
  by pat_completeness auto
termination
  by (relation "measure (\<lambda>(cr, lf, s). length s)") (auto dest!: sym [of "(_, _)" "read_line _ _ _ _ _"] read_line_shorter)

declare read_lines.simps [simp del]

definition file_of :: "string \<Rightarrow> file_read list" where
  "file_of s = map Fr_char s"

lemma file_of_simps [simp]:
  "file_of [] = []" "file_of (c # s) = Fr_char c # file_of s" "file_of (s @ t) = file_of s @ file_of t"
  by (simp_all add: file_of_def)

definition line_ok :: "string \<Rightarrow> bool" where
  "line_ok l \<longleftrightarrow> chr_cr \<notin> set l \<and> chr_lf \<notin> set l \<and> length l < MAX_LINE_LENGTH - 1"

lemma read_line_text:
  assumes "chr_cr \<notin> set l" and "chr_lf \<notin> set l" and "length (buf @ l) < n - 1"
  shows "read_line n buf cr lf (file_of l @ s) = read_line n (buf @ l) (cr \<and> l = []) (lf \<and> l = []) s"
  using assms
proof (induction l arbitrary: buf cr lf)
  case (Cons c l)
  moreover have "c \<noteq> chr_cr" "c \<noteq> chr_lf" using Cons.prems by auto
  ultimately show ?case using Cons.IH [of "buf @ [c]" False False] by (simp add: Let_def)
qed simp

definition eols :: "string list" where
  "eols = [[chr_lf], [chr_cr], [chr_cr, chr_lf], [chr_lf, chr_cr]]"

text \<open>One line and what it leaves for the next, for either half of a line break.\<close>

lemma read_lines_lf:
  "line_ok l \<Longrightarrow> read_lines False lf (file_of l @ Fr_char chr_lf # s) = apfst (Cons l) (read_lines False True s)"
  by (subst read_lines.simps) (simp add: line_ok_def read_line_text MAX_LINE_LENGTH_def)

lemma read_lines_cr:
  "line_ok l \<Longrightarrow> read_lines cr False (file_of l @ Fr_char chr_cr # s) = apfst (Cons l) (read_lines True False s)"
  by (subst read_lines.simps) (simp add: line_ok_def read_line_text MAX_LINE_LENGTH_def)

lemma read_lines_eat:
  "read_lines True False (Fr_char chr_lf # s) = read_lines False False s"
  "read_lines False True (Fr_char chr_cr # s) = read_lines False False s"
  by (simp_all add: read_lines.simps [of True False "Fr_char chr_lf # s"]
      read_lines.simps [of False True "Fr_char chr_cr # s"] read_lines.simps [of False False s])

lemma read_lines_end: "line_ok l \<Longrightarrow> read_lines cr lf (file_of l) = ([], 2)"
  using read_line_text [of l "[]" MAX_LINE_LENGTH cr lf "[]"]
  by (subst read_lines.simps) (simp add: line_ok_def)

lemma read_lines_text:
  assumes "e \<in> set eols" and "list_all line_ok ls" and "line_ok rest"
  shows "read_lines False False (file_of (concat (map (\<lambda>l. l @ e) ls) @ rest)) = (ls, 2)"
proof -
  let ?text = "\<lambda>ls. file_of (concat (map (\<lambda>l. l @ e) ls)) @ file_of rest"
  have "list_all line_ok ls \<Longrightarrow>
    (e = [chr_lf] \<longrightarrow> (\<forall>lf. read_lines False lf (?text ls) = (ls, 2))) \<and>
    (e = [chr_cr] \<longrightarrow> (\<forall>cr. read_lines cr False (?text ls) = (ls, 2))) \<and>
    (e = [chr_cr, chr_lf] \<or> e = [chr_lf, chr_cr] \<longrightarrow> read_lines False False (?text ls) = (ls, 2))"
    by (induction ls) (auto simp: read_lines_end [OF assms(3)] read_lines_lf read_lines_cr read_lines_eat)
  then show ?thesis using assms(1,2) by (auto simp: eols_def)
qed

text \<open>
  Whichever of the four line breaks a file uses throughout, the parsers get exactly its
  lines, empty ones included, with nothing of the breaks in them; but what stands behind the
  last line break is never parsed.
\<close>

theorem read_lines_of_text:
  assumes "e \<in> set eols" and "list_all line_ok ls" and "line_ok rest"
  shows "read_lines False False (file_of (concat (map (\<lambda>l. l @ e) ls) @ rest)) = (ls, 2)"
  by (rule read_lines_text [OF assms])

theorem read_lines_of_text_witness:
  "read_lines False False (file_of (''main'' @ [chr_cr, chr_lf] @ [chr_cr, chr_lf] @ ''ulimit 9'')) = ([''main'', []], 2)"
proof -
  have "[chr_cr, chr_lf] \<in> set eols" "list_all line_ok [''main'', []]" "line_ok ''ulimit 9''"
    by (simp_all add: eols_def line_ok_def MAX_LINE_LENGTH_def)
  from read_lines_of_text [OF this] show ?thesis by simp
qed

section \<open>Spaces and comments\<close>

text \<open>
  One step of \<open>remove_extra_spaces_and_comments_from_config_line\<close>; the flags are \<open>escape\<close>,
  \<open>need_a_space\<close>, \<open>quote_single\<close> and \<open>quote_double\<close>. The result is the output and the quotes
  that are open at its end.
\<close>

definition check_for_space :: "bool \<Rightarrow> string \<Rightarrow> string" where
  "check_for_space need out = (if need then out @ '' '' else out)"

fun strip_loop :: "bool \<Rightarrow> bool \<Rightarrow> bool \<Rightarrow> bool \<Rightarrow> string \<Rightarrow> string \<Rightarrow> string \<times> bool \<times> bool" where
  "strip_loop esc need qs qd out [] = (out, qs, qd)"
| "strip_loop esc need qs qd out (c # s) =
     (if c = chr_backslash \<and> \<not> esc then strip_loop True need qs qd out s
      else if esc then strip_loop False False qs qd (check_for_space need out @ [c]) s
      else if (qs \<and> c = chr_quote) \<or> (qd \<and> c = chr_dquote) then strip_loop esc need False False (out @ [c]) s
      else if qs \<or> qd then strip_loop esc need qs qd (out @ [c]) s
      else if c = chr_quote then strip_loop esc False True qd (check_for_space need out @ [c]) s
      else if c = chr_dquote then strip_loop esc False qs True (check_for_space need out @ [c]) s
      else if c = CHR ''#'' then (out, qs, qd)
      else if out = [] \<and> (c = CHR '' '' \<or> c = chr_tab) then strip_loop esc need qs qd out s
      else if c = CHR '' '' \<or> c = chr_tab then strip_loop esc True qs qd out s
      else strip_loop esc False qs qd (check_for_space need out @ [c]) s)"

text \<open>\<open>None\<close> is the return code 0. An output that does not fit \<open>outbuflen\<close> overflows.\<close>

definition remove_extra_spaces_and_comments_from_config_line :: "nat \<Rightarrow> string \<Rightarrow> string option cres" where
  "remove_extra_spaces_and_comments_from_config_line outbuflen inbuf =
     (case strip_loop False False False False [] inbuf of
        (out, qs, qd) \<Rightarrow>
          if length out \<ge> outbuflen then Inl UB
          else if qs then Inr None
          else if qd then Inr None
          else Inr (Some out))"

text \<open>The output is never longer than the input: the line buffers, all of one size, do not overflow here.\<close>

lemma if_length_fst:
  "(P \<Longrightarrow> length (fst a) \<le> n) \<Longrightarrow> (\<not> P \<Longrightarrow> length (fst b) \<le> n) \<Longrightarrow> length (fst (if P then a else b)) \<le> n"
  by simp

lemma strip_loop_length_le:
  "length (fst (strip_loop esc need qs qd out s)) \<le> length out + length s + (if need then 1 else 0)"
proof (induction s arbitrary: esc need qs qd out)
  case (Cons c s)
  show ?case unfolding strip_loop.simps
    by (intro if_length_fst order.trans [OF Cons.IH]) (simp_all add: check_for_space_def)
qed simp

lemma strip_loop_length: "strip_loop False False qs qd out s = (r, q1, q2) \<Longrightarrow> length r \<le> length out + length s"
  using strip_loop_length_le [of False False qs qd out s] by simp

lemma remove_extra_spaces_never_overflows:
  assumes "length inbuf < n"
  shows "remove_extra_spaces_and_comments_from_config_line n inbuf \<noteq> Inl e"
proof -
  obtain r q1 q2 where "strip_loop False False False False [] inbuf = (r, q1, q2)" by (metis prod_cases3)
  with strip_loop_length [OF this] assms show ?thesis by (simp add: remove_extra_spaces_and_comments_from_config_line_def)
qed

lemma remove_extra_spaces_length:
  "remove_extra_spaces_and_comments_from_config_line n inbuf = Inr (Some out) \<Longrightarrow> length out < n"
  by (auto simp: remove_extra_spaces_and_comments_from_config_line_def split: prod.splits if_splits)

text \<open>
  What a line means: words separated by blanks. A word is a sequence of plain characters,
  escaped characters and quoted texts; the quotes stay in the output, the backslashes do not.
\<close>

datatype atom = Plain char | Escaped char | Quoted string | Dquoted string

definition is_blank :: "char \<Rightarrow> bool" where
  "is_blank c \<longleftrightarrow> c = CHR '' '' \<or> c = chr_tab"

fun atom_ok :: "atom \<Rightarrow> bool" where
  "atom_ok (Plain c) = (\<not> is_blank c \<and> c \<notin> {chr_backslash, chr_quote, chr_dquote, CHR ''#''})"
| "atom_ok (Escaped c) = True"
| "atom_ok (Quoted s) = (chr_backslash \<notin> set s \<and> chr_quote \<notin> set s)"
| "atom_ok (Dquoted s) = (chr_backslash \<notin> set s \<and> chr_dquote \<notin> set s)"

fun atom_src :: "atom \<Rightarrow> string" where
  "atom_src (Plain c) = [c]"
| "atom_src (Escaped c) = [chr_backslash, c]"
| "atom_src (Quoted s) = chr_quote # s @ [chr_quote]"
| "atom_src (Dquoted s) = chr_dquote # s @ [chr_dquote]"

fun atom_val :: "atom \<Rightarrow> string" where
  "atom_val (Plain c) = [c]"
| "atom_val (Escaped c) = [c]"
| "atom_val (Quoted s) = chr_quote # s @ [chr_quote]"
| "atom_val (Dquoted s) = chr_dquote # s @ [chr_dquote]"

definition word_src :: "atom list \<Rightarrow> string" where "word_src w = concat (map atom_src w)"
definition word_val :: "atom list \<Rightarrow> string" where "word_val w = concat (map atom_val w)"

lemma word_simps [simp]:
  "word_src [] = []" "word_src (a # w) = atom_src a @ word_src w"
  "word_val [] = []" "word_val (a # w) = atom_val a @ word_val w"
  by (simp_all add: word_src_def word_val_def)

lemma atom_val_nonempty [simp]: "atom_val a \<noteq> []"
  by (cases a) auto

fun join_words :: "string list \<Rightarrow> string" where
  "join_words [] = []"
| "join_words [w] = w"
| "join_words (w # v # ws) = w @ '' '' @ join_words (v # ws)"

text \<open>A line as blanks and words in turn, and what may come behind the last word.\<close>

definition line_layout :: "(string \<times> atom list) list \<Rightarrow> string" where
  "line_layout segs = concat (map (\<lambda>(b, w). b @ word_src w) segs)"

definition seg_ok :: "string \<times> atom list \<Rightarrow> bool" where
  "seg_ok = (\<lambda>(b, w). list_all is_blank b \<and> w \<noteq> [] \<and> list_all atom_ok w)"

definition line_tail :: "string \<Rightarrow> bool" where
  "line_tail t \<longleftrightarrow> (case dropWhile is_blank t of [] \<Rightarrow> True | c # _ \<Rightarrow> c = CHR ''#'')"

lemma strip_quoted:
  "chr_backslash \<notin> set s \<Longrightarrow> chr_quote \<notin> set s \<Longrightarrow>
     strip_loop False need True False out (s @ chr_quote # t) = strip_loop False need False False (out @ s @ [chr_quote]) t"
  by (induction s arbitrary: out) auto

lemma strip_dquoted:
  "chr_backslash \<notin> set s \<Longrightarrow> chr_dquote \<notin> set s \<Longrightarrow>
     strip_loop False need False True out (s @ chr_dquote # t) = strip_loop False need False False (out @ s @ [chr_dquote]) t"
  by (induction s arbitrary: out) auto

lemma strip_atom:
  "atom_ok a \<Longrightarrow> strip_loop False need False False out (atom_src a @ t) =
     strip_loop False False False False (check_for_space need out @ atom_val a) t"
  by (cases a) (auto simp: strip_quoted strip_dquoted is_blank_def)

lemma strip_word:
  "list_all atom_ok w \<Longrightarrow> w \<noteq> [] \<Longrightarrow> strip_loop False need False False out (word_src w @ t) =
     strip_loop False False False False (check_for_space need out @ word_val w) t"
proof (induction w arbitrary: need out)
  case (Cons a w)
  then show ?case by (cases "w = []") (simp_all add: strip_atom check_for_space_def)
qed simp

lemma strip_blanks:
  "list_all is_blank b \<Longrightarrow> strip_loop False need False False out (b @ t) =
     strip_loop False (if out \<noteq> [] \<and> b \<noteq> [] then True else need) False False out t"
  by (induction b arbitrary: need) (auto simp: is_blank_def)

lemma strip_tail:
  assumes "line_tail t"
  shows "strip_loop False need False False out t = (out, False, False)"
proof -
  let ?b = "takeWhile is_blank t" and ?r = "dropWhile is_blank t"
  have "list_all is_blank ?b" by (simp add: list_all_iff) (meson set_takeWhileD)
  then have "strip_loop False need False False out (?b @ ?r) =
      strip_loop False (if out \<noteq> [] \<and> ?b \<noteq> [] then True else need) False False out ?r"
    by (rule strip_blanks)
  moreover have "strip_loop False need' False False out ?r = (out, False, False)" for need'
  proof (cases ?r)
    case Nil
    then show ?thesis by (simp only: strip_loop.simps)
  next
    case (Cons c r)
    then have "c = CHR ''#''" using assms by (simp add: line_tail_def)
    then show ?thesis unfolding Cons by simp
  qed
  ultimately show ?thesis unfolding takeWhile_dropWhile_id by simp
qed

lemma strip_layout:
  assumes "list_all seg_ok segs" and "list_all (\<lambda>(b, w). b \<noteq> []) segs" and "out \<noteq> []" and "line_tail t"
  shows "strip_loop False False False False out (line_layout segs @ t) =
    (out @ concat (map (\<lambda>(b, w). '' '' @ word_val w) segs), False, False)"
  using assms
proof (induction segs arbitrary: out)
  case Nil
  then show ?case by (simp add: line_layout_def strip_tail)
next
  case (Cons s segs)
  obtain b w where s: "s = (b, w)" by (cases s)
  have "strip_loop False False False False out (line_layout (s # segs) @ t) =
      strip_loop False False False False (out @ '' '' @ word_val w) (line_layout segs @ t)"
    using Cons.prems by (simp add: s line_layout_def seg_ok_def strip_blanks strip_word check_for_space_def)
  then show ?case using Cons.IH [of "out @ '' '' @ word_val w"] Cons.prems by (simp add: s)
qed

lemma join_words_Cons: "join_words (w # ws) = w @ concat (map (\<lambda>v. '' '' @ v) ws)"
  by (induction ws arbitrary: w) auto

lemma line_normal_form:
  assumes "list_all seg_ok segs" and "list_all (\<lambda>(b, w). b \<noteq> []) (tl segs)" and "line_tail t"
    and "length (line_layout segs @ t) < n"
  shows "remove_extra_spaces_and_comments_from_config_line n (line_layout segs @ t) =
    Inr (Some (join_words (map (\<lambda>(b, w). word_val w) segs)))"
proof -
  have "strip_loop False False False False [] (line_layout segs @ t) =
      (join_words (map (\<lambda>(b, w). word_val w) segs), False, False)"
  proof (cases segs)
    case Nil
    then show ?thesis by (simp add: line_layout_def strip_tail assms(3))
  next
    case (Cons s r)
    obtain b w where s: "s = (b, w)" by (cases s)
    have w: "list_all is_blank b" "w \<noteq> []" "list_all atom_ok w" using assms(1) by (simp_all add: Cons s seg_ok_def)
    then have "word_val w \<noteq> []" by (cases w) auto
    then have "strip_loop False False False False (word_val w) (line_layout r @ t) =
        (word_val w @ concat (map (\<lambda>(b, w). '' '' @ word_val w) r), False, False)"
      using strip_layout [of r "word_val w" t] assms by (simp add: Cons)
    moreover have "strip_loop False False False False [] (line_layout segs @ t) =
        strip_loop False False False False (word_val w) (line_layout r @ t)"
      using w by (simp add: Cons s line_layout_def strip_blanks strip_word check_for_space_def)
    ultimately show ?thesis by (simp add: Cons s join_words_Cons case_prod_unfold comp_def)
  qed
  from this strip_loop_length [OF this] assms(4) show ?thesis by (simp add: remove_extra_spaces_and_comments_from_config_line_def)
qed

text \<open>
  C37: a configuration line is brought to its normal form: the words of the line, each as it is
  written but for its backslashes, one space between them, no space around them, no comment;
  spaces and the comment sign inside quotes or behind a backslash are part of the word.
\<close>

theorem config_line_normal_form:
  assumes "list_all seg_ok segs" and "list_all (\<lambda>(b, w). b \<noteq> []) (tl segs)" and "line_tail t"
    and "length (line_layout segs @ t) < n"
  shows "remove_extra_spaces_and_comments_from_config_line n (line_layout segs @ t) =
    Inr (Some (join_words (map (\<lambda>(b, w). word_val w) segs)))"
  by (rule line_normal_form [OF assms])

theorem config_line_normal_form_witness:
  "remove_extra_spaces_and_comments_from_config_line 100 (''  a   b'' @ [chr_quote] @ ''c # d'' @ [chr_quote] @ ''  # note'') =
     Inr (Some (''a b'' @ [chr_quote] @ ''c # d'' @ [chr_quote]))"
proof -
  let ?segs = "[(''  '', [Plain (CHR ''a'')]), (''   '', [Plain (CHR ''b''), Quoted ''c # d''])]"
  have "list_all seg_ok ?segs" "list_all (\<lambda>(b, w). b \<noteq> []) (tl ?segs)" "line_tail ''  # note''"
    "length (line_layout ?segs @ ''  # note'') < 100"
    by (simp_all add: seg_ok_def is_blank_def line_tail_def line_layout_def)
  from config_line_normal_form [OF this] show ?thesis by (simp add: line_layout_def)
qed

section \<open>Environment variables\<close>

definition is_env_char :: "char \<Rightarrow> bool" where
  "is_env_char c \<longleftrightarrow> (97 \<le> ccode c \<and> ccode c \<le> 122) \<or> (65 \<le> ccode c \<and> ccode c \<le> 90) \<or>
     (48 \<le> ccode c \<and> ccode c \<le> 57) \<or> c = CHR ''_''"

text \<open>
  The loop of \<open>replace_environment_variables_in_string\<close>. \<open>start\<close> is the name that has been read
  since the opening brace, \<open>None\<close> outside of one. A name of exactly 8192 characters passes the
  check and is terminated one byte behind its buffer. Nothing checks the length of the output:
  a return of any kind terminates it.
\<close>

fun replace_loop :: "(string \<Rightarrow> string option) \<Rightarrow> nat \<Rightarrow> string option \<Rightarrow> string \<Rightarrow> string \<Rightarrow> string option cres" where
  "replace_loop getenv outbuflen start out [] =
     (if length out \<ge> outbuflen then Inl UB else Inr (case start of None \<Rightarrow> Some out | Some _ \<Rightarrow> None))"
| "replace_loop getenv outbuflen start out (c # s) =
     (if length out \<ge> outbuflen then Inl UB
      else if c = CHR ''$'' \<and> s \<noteq> [] \<and> hd s = CHR ''{'' then replace_loop getenv outbuflen (Some []) out (tl s)
      else (case start of
              None \<Rightarrow> replace_loop getenv outbuflen None (out @ [c]) s
            | Some name \<Rightarrow>
                if is_env_char c then replace_loop getenv outbuflen (Some (name @ [c])) out s
                else if c = CHR ''}'' then
                  if name = [] then Inr None
                  else if length name > 8192 then Inr None
                  else if length name = 8192 then Inl UB
                  else
                    let value = (case getenv name of None \<Rightarrow> [] | Some v \<Rightarrow> strncpy_term 8192 v)
                    in replace_loop getenv outbuflen None (out @ value) s
                else Inr None))"

definition replace_environment_variables_in_string ::
  "(string \<Rightarrow> string option) \<Rightarrow> nat \<Rightarrow> string \<Rightarrow> string option cres" where
  "replace_environment_variables_in_string getenv outbuflen inbuf = replace_loop getenv outbuflen None [] inbuf"

datatype piece = Text string | Var string

fun piece_ok :: "piece \<Rightarrow> bool" where
  "piece_ok (Text s) = (CHR ''$'' \<notin> set s)"
| "piece_ok (Var v) = (v \<noteq> [] \<and> list_all is_env_char v \<and> length v < 8192)"

fun piece_src :: "piece \<Rightarrow> string" where
  "piece_src (Text s) = s"
| "piece_src (Var v) = ''${'' @ v @ ''}''"

fun piece_val :: "(string \<Rightarrow> string option) \<Rightarrow> piece \<Rightarrow> string" where
  "piece_val getenv (Text s) = s"
| "piece_val getenv (Var v) = (case getenv v of None \<Rightarrow> [] | Some x \<Rightarrow> take 8191 x)"

lemma env_char_not: "is_env_char c \<Longrightarrow> c \<noteq> CHR ''$'' \<and> c \<noteq> CHR ''}'' \<and> c \<noteq> CHR ''{''"
  by (auto simp: is_env_char_def)

lemma replace_over: "n \<le> length out \<Longrightarrow> replace_loop getenv n start out s = Inl UB"
  by (cases s) auto

lemma replace_text:
  "CHR ''$'' \<notin> set s \<Longrightarrow>
     replace_loop getenv n None out (s @ t) =
       (if length (out @ s) \<le> n then replace_loop getenv n None (out @ s) t else Inl UB)"
proof (induction s arbitrary: out)
  case (Cons c s)
  have "replace_loop getenv n None out ((c # s) @ t) =
      (if n \<le> length out then Inl UB else replace_loop getenv n None (out @ [c]) (s @ t))"
    using Cons.prems by auto
  with Cons.IH [of "out @ [c]"] Cons.prems show ?case by auto
qed (simp add: replace_over)

lemma replace_name:
  "list_all is_env_char v \<Longrightarrow> length out < n \<Longrightarrow>
     replace_loop getenv n (Some u) out (v @ t) = replace_loop getenv n (Some (u @ v)) out t"
  by (induction v arbitrary: u) (auto dest: env_char_not)

lemma replace_var:
  assumes "v \<noteq> []" and "list_all is_env_char v" and "length v < 8192"
  shows "replace_loop getenv n None out (''${'' @ v @ ''}'' @ t) =
    (if length out < n then replace_loop getenv n None (out @ piece_val getenv (Var v)) t else Inl UB)"
proof (cases "length out < n")
  case True
  then have "replace_loop getenv n None out (''${'' @ v @ ''}'' @ t) = replace_loop getenv n (Some v) out (''}'' @ t)"
    using replace_name [OF assms(2), of out n getenv "[]" "''}'' @ t"] by simp
  also have "... = replace_loop getenv n None (out @ piece_val getenv (Var v)) t"
    using assms True by (simp add: is_env_char_def strncpy_term_def Let_def split: option.splits)
  finally show ?thesis using True by simp
qed (simp add: replace_over)

lemma replace_pieces_loop:
  "list_all piece_ok ps \<Longrightarrow>
     replace_loop getenv n None out (concat (map piece_src ps) @ t) =
       (if length (out @ concat (map (piece_val getenv) ps)) \<le> n
        then replace_loop getenv n None (out @ concat (map (piece_val getenv) ps)) t else Inl UB)"
proof (induction ps arbitrary: out)
  case (Cons p ps)
  show ?case
  proof (cases p)
    case (Text s)
    then show ?thesis using Cons.IH [of "out @ s"] Cons.prems replace_text [of s getenv n out] by simp
  next
    case (Var v)
    then have "replace_loop getenv n None out (concat (map piece_src (p # ps)) @ t) =
        (if length out < n then replace_loop getenv n None (out @ piece_val getenv p) (concat (map piece_src ps) @ t) else Inl UB)"
      using Cons.prems replace_var [of v getenv n out "concat (map piece_src ps) @ t"] by simp
    with Cons.IH [of "out @ piece_val getenv p"] Cons.prems show ?thesis
      by (auto simp: replace_over)
  qed
qed (simp add: replace_over)

lemma replace_pieces:
  assumes "list_all piece_ok ps" and "length (concat (map (piece_val getenv) ps)) < n"
  shows "replace_environment_variables_in_string getenv n (concat (map piece_src ps)) =
    Inr (Some (concat (map (piece_val getenv) ps)))"
  using replace_pieces_loop [OF assms(1), of getenv n "[]" "[]"] assms(2)
  by (simp add: replace_environment_variables_in_string_def)

text \<open>
  The start of a reference that is never finished: an empty name, a character that no name has,
  or the end of the line before the closing brace.
\<close>

definition unfinished :: "string \<Rightarrow> bool" where
  "unfinished t \<longleftrightarrow>
     (\<exists>v r. t = ''${'' @ v @ r \<and> list_all is_env_char v \<and>
        (case r of [] \<Rightarrow> True
         | c # r' \<Rightarrow> \<not> is_env_char c \<and> \<not> (c = CHR ''$'' \<and> r' \<noteq> [] \<and> hd r' = CHR ''{'') \<and> (c = CHR ''}'' \<longrightarrow> v = [])))"

lemma replace_unfinished:
  assumes "unfinished t" and "length out < n"
  shows "replace_loop getenv n None out t = Inr None"
proof -
  obtain v r where t: "t = ''${'' @ v @ r" "list_all is_env_char v"
    and r: "case r of [] \<Rightarrow> True
      | c # r' \<Rightarrow> \<not> is_env_char c \<and> \<not> (c = CHR ''$'' \<and> r' \<noteq> [] \<and> hd r' = CHR ''{'') \<and> (c = CHR ''}'' \<longrightarrow> v = [])"
    using assms(1) by (auto simp: unfinished_def)
  have "replace_loop getenv n None out t = replace_loop getenv n (Some v) out r"
    using t(1) assms(2) replace_name [OF t(2) assms(2), of getenv "[]" r] by simp
  also have "... = Inr None" using r assms(2) by (cases r) auto
  finally show ?thesis .
qed

text \<open>
  C40: the environment variables of a line, which consists of texts without a dollar sign and of
  references with a name of 1 to 8191 letters, digits and underscores. Every reference is
  replaced by the value of its variable, cut at 8191 characters (by nothing when there is no
  such variable), and the texts are unchanged, exactly when the outcome fits the buffer with its
  terminator; otherwise the code writes behind the buffer. A line that goes on with a reference
  that is not finished is refused, or it has written behind the buffer before.
\<close>

theorem replace_environment_variables_correct:
  assumes "list_all piece_ok ps"
  shows "let out = concat (map (piece_val getenv) ps) in
    replace_environment_variables_in_string getenv n (concat (map piece_src ps)) =
      (if length out < n then Inr (Some out) else Inl UB) \<and>
    (\<forall>t. unfinished t \<longrightarrow>
       replace_environment_variables_in_string getenv n (concat (map piece_src ps) @ t) =
         (if length out < n then Inr None else Inl UB))"
proof -
  let ?out = "concat (map (piece_val getenv) ps)"
  note run = replace_pieces_loop [OF assms, of getenv n "[]"]
  have "replace_environment_variables_in_string getenv n (concat (map piece_src ps)) =
      (if length ?out < n then Inr (Some ?out) else Inl UB)"
    using run [of "[]"] by (simp add: replace_environment_variables_in_string_def)
  moreover have "replace_environment_variables_in_string getenv n (concat (map piece_src ps) @ t) =
      (if length ?out < n then Inr None else Inl UB)" if "unfinished t" for t
    using run [of t] replace_unfinished [OF that, of ?out n getenv] replace_over [of n ?out getenv None t]
    by (auto simp: replace_environment_variables_in_string_def)
  ultimately show ?thesis unfolding Let_def by blast
qed

theorem replace_environment_variables_correct_witness:
  "let env = [''HOME'' \<mapsto> ''/root''] in
   replace_environment_variables_in_string env 100 ''f ${HOME}/x'' = Inr (Some ''f /root/x'') \<and>
   replace_environment_variables_in_string env 9 ''f ${HOME}/x'' = Inl UB \<and>
   replace_environment_variables_in_string env 100 ''f ${HOME}/x${A-B}'' = Inr None"
proof -
  let ?ps = "[Text ''f '', Var ''HOME'', Text ''/x'']"
  have ok: "list_all piece_ok ?ps" by (simp add: is_env_char_def)
  have "''${A-B}'' = ''${'' @ ''A'' @ ''-B}''" by simp
  moreover have "list_all is_env_char ''A''" "\<not> is_env_char (CHR ''-'')" by (simp_all add: is_env_char_def)
  ultimately have "unfinished ''${A-B}''"
    unfolding unfinished_def by (intro exI [of _ "''A''"] exI [of _ "''-B}''"]) simp
  with replace_environment_variables_correct [OF ok, of "[''HOME'' \<mapsto> ''/root'']" 100]
    replace_environment_variables_correct [OF ok, of "[''HOME'' \<mapsto> ''/root'']" 9]
  show ?thesis by (simp add: Let_def)
qed

section \<open>Lines that are in normal form already\<close>

definition plain_char :: "char \<Rightarrow> bool" where
  "plain_char c \<longleftrightarrow> \<not> is_blank c \<and> c \<notin> {chr_backslash, chr_quote, chr_dquote, CHR ''#'', CHR ''$'', CHR 0x00, chr_cr, chr_lf}"

definition plain_word :: "string \<Rightarrow> bool" where
  "plain_word w \<longleftrightarrow> w \<noteq> [] \<and> list_all plain_char w"

definition plain_segs :: "string list \<Rightarrow> (string \<times> atom list) list" where
  "plain_segs ws = (case ws of [] \<Rightarrow> [] | w # r \<Rightarrow> ([], map Plain w) # map (\<lambda>v. ('' '', map Plain v)) r)"

lemma word_plain [simp]: "word_src (map Plain w) = w" "word_val (map Plain w) = w"
  by (induction w) auto

lemma line_layout_plain: "line_layout (plain_segs ws) = join_words ws"
  by (cases ws) (auto simp: plain_segs_def line_layout_def join_words_Cons comp_def intro!: arg_cong [where f = concat])

lemma plain_segs_ok:
  assumes "list_all plain_word ws"
  shows "list_all seg_ok (plain_segs ws)" and "list_all (\<lambda>(b, w). b \<noteq> []) (tl (plain_segs ws))"
    and "map (\<lambda>(b, w). word_val w) (plain_segs ws) = ws"
proof -
  have w: "map Plain w \<noteq> [] \<and> list_all atom_ok (map Plain w)" if "plain_word w" for w
    using that by (auto simp: plain_word_def plain_char_def list_all_iff)
  have seg: "seg_ok (b, map Plain v)" if "v \<in> set ws" and "list_all is_blank b" for v b
    using w [of v] assms that by (simp add: seg_ok_def list_all_iff)
  have "list_all is_blank '' ''" by (simp add: is_blank_def)
  then show "list_all seg_ok (plain_segs ws)"
    unfolding list_all_iff [of seg_ok] by (cases ws) (auto simp: plain_segs_def intro: seg)
  show "list_all (\<lambda>(b, w). b \<noteq> []) (tl (plain_segs ws))" "map (\<lambda>(b, w). word_val w) (plain_segs ws) = ws"
    by (cases ws; simp add: plain_segs_def list_all_iff comp_def)+
qed

lemma join_words_chars: "x \<in> set (join_words ws) \<Longrightarrow> x = CHR '' '' \<or> (\<exists>w \<in> set ws. x \<in> set w)"
  by (induction ws rule: join_words.induct) auto

lemma join_plain_chars:
  "list_all plain_word ws \<Longrightarrow> x \<in> set (join_words ws) \<Longrightarrow> x \<notin> {CHR ''$'', CHR 0x00, chr_cr, chr_lf}"
  by (auto dest!: join_words_chars simp: plain_word_def plain_char_def list_all_iff)

lemma remove_extra_spaces_plain:
  assumes "list_all plain_word ws" and "length (join_words ws) < n"
  shows "remove_extra_spaces_and_comments_from_config_line n (join_words ws) = Inr (Some (join_words ws))"
  using line_normal_form [OF plain_segs_ok(1,2) [OF assms(1)], of "[]" n] assms
  by (simp add: line_layout_plain plain_segs_ok(3) line_tail_def)

lemma replace_plain:
  "list_all plain_word ws \<Longrightarrow> length (join_words ws) < n \<Longrightarrow>
     replace_environment_variables_in_string getenv n (join_words ws) = Inr (Some (join_words ws))"
  using replace_pieces [of "[Text (join_words ws)]" getenv n] join_plain_chars by fastforce

lemma c_str_plain: "list_all plain_word ws \<Longrightarrow> c_str (join_words ws) = join_words ws"
  unfolding c_str_def takeWhile_eq_all_conv using join_plain_chars by fastforce

lemma line_ok_plain: "list_all plain_word ws \<Longrightarrow> length (join_words ws) < MAX_LINE_LENGTH - 1 \<Longrightarrow> line_ok (join_words ws)"
  unfolding line_ok_def using join_plain_chars by fastforce

end
