(* ===== verification/String2.thy ===== *)
theory String2
  imports CString "HOL-Library.Sublist"
begin

text \<open>
  The string predicates of \<open>src/string2.c\<close>, in the file's order. \<open>string_ends_with\<close> copies
  its first argument into a 1000-byte array on the stack without a bound, so it is undefined
  on strings of 1000 characters and more; the other functions are total.
\<close>

section \<open>The functions\<close>

definition string_starts_with :: "string \<Rightarrow> string \<Rightarrow> bool" where
  "string_starts_with str start =
     (let len_str = length str; len_start = length start in
      if len_str \<ge> len_start then take len_start str = take len_start start else False)"

definition ends_with_buf :: nat where
  "ends_with_buf = 1000"

definition string_ends_with :: "string \<Rightarrow> string \<Rightarrow> bool cres" where
  "string_ends_with str end_str =
     (if length str \<ge> ends_with_buf then Inl UB
      else
        let lower = map c_tolower str; len_str = length lower; len_end = length end_str in
        if len_str < len_end then Inr False
        else Inr (drop (len_str - len_end) lower = end_str))"

definition string_contains :: "string \<Rightarrow> string \<Rightarrow> bool" where
  "string_contains str needle = strcasestr str needle"

fun string_count_char_instances :: "string \<Rightarrow> char \<Rightarrow> nat" where
  "string_count_char_instances [] delimiter = 0"
| "string_count_char_instances (c # ptr) delimiter =
     (if c = delimiter then 1 else 0) + string_count_char_instances ptr delimiter"

fun all_digits :: "string \<Rightarrow> bool" where
  "all_digits [] = True"
| "all_digits (c # ptr) = (if \<not> c_isdigit c then False else all_digits ptr)"

definition string_is_a_number :: "string \<Rightarrow> bool" where
  "string_is_a_number str = (case str of [] \<Rightarrow> False | _ \<Rightarrow> all_digits str)"

section \<open>What they compute\<close>

lemma string_starts_with_iff: "string_starts_with s p \<longleftrightarrow> prefix p s"
  by (auto simp: string_starts_with_def Let_def prefix_def)
     (metis append_take_drop_id)

lemma string_starts_with_append [simp]: "string_starts_with (p @ s) p"
  by (simp add: string_starts_with_iff)

lemma string_ends_with_eq:
  "string_ends_with s e = (if length s < 1000 then Inr (suffix e (lower_str s)) else Inl UB)"
proof (cases "length s < 1000")
  case True
  have "(length e \<le> length s \<and> drop (length s - length e) (lower_str s) = e) = suffix e (lower_str s)"
    by (metis append_take_drop_id length_lower_str suffix_def suffix_length_le
        suffix_take suffix_drop length_drop diff_diff_cancel append_eq_conv_conj length_append
        add_diff_cancel_right')
  with True show ?thesis
    by (auto simp: string_ends_with_def ends_with_buf_def lower_str_def Let_def)
next
  case False
  then show ?thesis by (simp add: string_ends_with_def ends_with_buf_def)
qed

lemma string_ends_with_defined: "length s < 1000 \<Longrightarrow> \<exists>b. string_ends_with s e = Inr b"
  by (simp add: string_ends_with_eq)

lemma string_contains_iff: "string_contains s f \<longleftrightarrow> sublist (lower_str f) (lower_str s)"
  by (auto simp: string_contains_def strcasestr_iff sublist_def)

lemma string_count_char_instances_eq: "string_count_char_instances s d = count_list s d"
  by (induction s) auto

lemma string_is_a_number_iff: "string_is_a_number s \<longleftrightarrow> s \<noteq> [] \<and> (\<forall>c \<in> set s. c_isdigit c)"
proof -
  have "all_digits s = (\<forall>c \<in> set s. c_isdigit c)" by (induction s) auto
  then show ?thesis by (cases s) (auto simp: string_is_a_number_def)
qed

lemma string_is_a_number_show_nat: "string_is_a_number (show_nat n)"
  using show_nat_digits by (auto simp: string_is_a_number_iff)

end
