(* ===== verification/Inet.thy ===== *)
theory Inet
  imports String2
begin

text \<open>
  The parts of the socket library the program relies on for addresses: byte order
  (\<open>htonl\<close>, \<open>ntohl\<close>, \<open>htons\<close>, \<open>ntohs\<close> on a little-endian machine), the four octets of
  an IPv4 address, and the dotted-decimal text form read by \<open>inet_pton\<close> and written by
  \<open>inet_ntop\<close>. \<open>inet_pton\<close> takes exactly four decimal octets of one to three digits without
  leading zeros, each at most 255.
\<close>

section \<open>Byte order\<close>

definition htonl :: "u32 \<Rightarrow> u32" where
  "htonl w = push_bit 24 (take_bit 8 w) OR push_bit 16 (take_bit 8 (drop_bit 8 w))
             OR push_bit 8 (take_bit 8 (drop_bit 16 w)) OR take_bit 8 (drop_bit 24 w)"

definition ntohl :: "u32 \<Rightarrow> u32" where
  "ntohl = htonl"

definition htons :: "int \<Rightarrow> u16" where
  "htons p = (let w = (word_of_int p :: u16) in push_bit 8 w OR drop_bit 8 w)"

definition ntohs :: "u16 \<Rightarrow> int" where
  "ntohs w = uint (push_bit 8 w OR drop_bit 8 w)"

definition swap32 :: "nat \<Rightarrow> nat" where
  "swap32 n = (if n < 8 then 24 + n else if n < 16 then 8 + n else if n < 24 then n - 8 else n - 24)"

lemma bit_htonl: "bit (htonl w) n \<longleftrightarrow> n < 32 \<and> bit w (swap32 n)"
  by (auto simp: htonl_def swap32_def bit_simps not_less)

lemma ntohl_htonl [simp]: "ntohl (htonl w) = w"
  by (rule bit_word_eqI) (auto simp: ntohl_def bit_htonl swap32_def)

lemma htonl_ntohl [simp]: "htonl (ntohl w) = w"
  using ntohl_htonl [of w] by (simp add: ntohl_def)

definition swap16 :: "nat \<Rightarrow> nat" where
  "swap16 n = (if n < 8 then 8 + n else n - 8)"

lemma bit_swap_u16:
  "bit (push_bit 8 w OR drop_bit 8 w :: u16) n \<longleftrightarrow> n < 16 \<and> bit w (swap16 n)"
proof (cases "n < 16")
  case True
  then show ?thesis by (auto simp: swap16_def bit_simps not_less dest: bit_imp_le_length)
next
  case False
  then show ?thesis by (auto simp: bit_simps dest: bit_imp_le_length)
qed

lemma ntohs_htons [simp]: "ntohs (htons p) = p mod 65536"
proof -
  let ?w = "word_of_int p :: u16"
  let ?v = "push_bit 8 ?w OR drop_bit 8 ?w"
  have "push_bit 8 ?v OR drop_bit 8 ?v = ?w"
    by (rule bit_word_eqI, simp only: bit_swap_u16) (auto simp: swap16_def bit_simps split: if_splits)
  then show ?thesis
    by (simp add: ntohs_def htons_def Let_def uint_word_of_int take_bit_eq_mod)
qed

lemma ntohs_range: "0 \<le> ntohs w" "ntohs w < 65536"
  using uint_lt2p [of "push_bit 8 w OR drop_bit 8 w"] by (simp_all add: ntohs_def)

lemma htons_mod: "htons (p mod 65536) = htons p"
proof -
  have "word_of_int (p mod 65536) = (word_of_int p :: u16)"
    by (simp add: word_of_int_eq_iff take_bit_eq_mod)
  then show ?thesis by (simp add: htons_def)
qed

section \<open>Octets\<close>

definition of_octets :: "byte \<Rightarrow> byte \<Rightarrow> byte \<Rightarrow> byte \<Rightarrow> u32" where
  "of_octets a b c d =
     push_bit 24 (ucast a) OR push_bit 16 (ucast b) OR push_bit 8 (ucast c) OR ucast d"

definition octet :: "nat \<Rightarrow> u32 \<Rightarrow> byte" where
  "octet k w = ucast (drop_bit (8 * k) w)"

lemma bit_octet: "bit (octet k w) n \<longleftrightarrow> n < 8 \<and> bit w (8 * k + n)"
  by (simp add: octet_def bit_simps)

lemma bit_of_octets:
  "bit (of_octets a b c d) n \<longleftrightarrow>
     (if n < 8 then bit d n else if n < 16 then bit c (n - 8)
      else if n < 24 then bit b (n - 16) else n < 32 \<and> bit a (n - 24))"
  by (auto simp: of_octets_def bit_simps dest: bit_imp_le_length)

lemma octet_of_octets [simp]:
  "octet 0 (of_octets a b c d) = d"
  "octet 1 (of_octets a b c d) = c"
  "octet (Suc 0) (of_octets a b c d) = c"
  "octet 2 (of_octets a b c d) = b"
  "octet 3 (of_octets a b c d) = a"
  by (rule bit_word_eqI; simp add: bit_octet bit_of_octets)+

lemma of_octets_octet [simp]:
  "of_octets (octet 3 w) (octet 2 w) (octet 1 w) (octet 0 w) = w"
  "of_octets (octet 3 w) (octet 2 w) (octet (Suc 0) w) (octet 0 w) = w"
  by (rule bit_word_eqI; auto simp: bit_octet bit_of_octets)+

lemma of_octets_inj:
  "of_octets a b c d = of_octets a' b' c' d' \<Longrightarrow> a = a' \<and> b = b' \<and> c = c' \<and> d = d'"
  by (metis octet_of_octets(1,2,4,5))

lemma of_octets_shifts:
  "of_octets a b c d =
     push_bit 8 (push_bit 8 (push_bit 8 (0 OR ucast a) OR ucast b) OR ucast c) OR ucast d"
  by (rule bit_word_eqI) (auto simp: of_octets_def bit_simps dest: bit_imp_le_length)

section \<open>Dotted-decimal text\<close>

definition parse_octet :: "string \<Rightarrow> byte option" where
  "parse_octet s =
     (if s \<noteq> [] \<and> length s \<le> 3 \<and> list_all c_isdigit s
         \<and> (length s = 1 \<or> hd s \<noteq> CHR ''0'') \<and> digits_val 0 s \<le> 255
      then Some (of_nat (digits_val 0 s)) else None)"

fun split_dots :: "string \<Rightarrow> string list" where
  "split_dots [] = [[]]"
| "split_dots (c # s) =
     (if c = CHR ''.'' then [] # split_dots s
      else (case split_dots s of [] \<Rightarrow> [[c]] | t # ts \<Rightarrow> (c # t) # ts))"

text \<open>\<open>inet_pton (AF_INET, s, &addr)\<close>: the address in network order, \<open>None\<close> on a bad text.\<close>

definition inet_pton4 :: "string \<Rightarrow> u32 option" where
  "inet_pton4 s =
     (case split_dots s of
        [a, b, c, d] \<Rightarrow>
          (case (parse_octet a, parse_octet b, parse_octet c, parse_octet d) of
             (Some a', Some b', Some c', Some d') \<Rightarrow> Some (htonl (of_octets a' b' c' d'))
           | _ \<Rightarrow> None)
      | _ \<Rightarrow> None)"

definition show_octet :: "byte \<Rightarrow> string" where
  "show_octet b = show_nat (unat b)"

text \<open>\<open>inet_ntop (AF_INET, &addr, ...)\<close> of an address in network order.\<close>

definition inet_ntop4 :: "u32 \<Rightarrow> string" where
  "inet_ntop4 w =
     (let h = ntohl w in
      show_octet (octet 3 h) @ ''.'' @ show_octet (octet 2 h) @ ''.'' @
      show_octet (octet 1 h) @ ''.'' @ show_octet (octet 0 h))"

lemma show_octet_no_dot: "CHR ''.'' \<notin> set (show_octet b)"
  using show_nat_digits [of "CHR ''.''" "unat b"] by (auto simp: show_octet_def c_isdigit_def)

lemma unat_byte_less: "unat (b :: byte) < 256"
  using unsigned_less [of b, where 'a = nat] by simp

lemma length_show_octet: "length (show_octet b) \<le> 3"
  using length_show_nat_le [of "unat b" 3] unat_byte_less [of b] by (simp add: show_octet_def)

lemma parse_show_octet [simp]: "parse_octet (show_octet b) = Some b"
proof -
  have d: "list_all c_isdigit (show_octet b)"
    using show_nat_digits by (auto simp: show_octet_def list_all_iff)
  have "length (show_octet b) = 1 \<or> hd (show_octet b) \<noteq> CHR ''0''"
    using show_nat_head [of "unat b"] by (cases "unat b < 10") (auto simp: show_octet_def show_nat.simps [of "unat b"])
  moreover have "unat b \<le> 255" using unat_byte_less [of b] by simp
  ultimately show ?thesis
    using d length_show_octet [of b] by (simp add: parse_octet_def) (simp add: show_octet_def)
qed

lemma split_dots_no_dot: "CHR ''.'' \<notin> set t \<Longrightarrow> split_dots t = [t]"
  by (induction t) auto

lemma split_dots_dot: "CHR ''.'' \<notin> set t \<Longrightarrow> split_dots (t @ CHR ''.'' # s) = t # split_dots s"
  by (induction t) auto

lemma inet_pton_ntop [simp]: "inet_pton4 (inet_ntop4 w) = Some w"
proof -
  have "split_dots (inet_ntop4 w) =
        [show_octet (octet 3 (ntohl w)), show_octet (octet 2 (ntohl w)),
         show_octet (octet 1 (ntohl w)), show_octet (octet 0 (ntohl w))]"
    by (simp add: inet_ntop4_def Let_def split_dots_dot split_dots_no_dot show_octet_no_dot)
  then show ?thesis by (simp add: inet_pton4_def)
qed

lemma inet_ntop4_inj: "inet_ntop4 a = inet_ntop4 b \<Longrightarrow> a = b"
  by (metis inet_pton_ntop option.inject)

lemma length_inet_ntop4: "length (inet_ntop4 w) \<le> 15"
proof -
  note l = length_show_octet
  show ?thesis
    using l [of "octet 3 (ntohl w)"] l [of "octet 2 (ntohl w)"]
      l [of "octet 1 (ntohl w)"] l [of "octet 0 (ntohl w)"]
    by (simp add: inet_ntop4_def Let_def)
qed

lemma inet_ntop4_nonempty [simp]: "inet_ntop4 w \<noteq> []"
  by (simp add: inet_ntop4_def Let_def show_octet_def)

end
