(* ===== verification/Host_Id.thy ===== *)
theory Host_Id
  imports Inet
begin

text \<open>
  \<open>src/host_id.h\<close> and \<open>src/host_id.c\<close>: the identity of a host, a name, an address and a
  port. The union of socket addresses is a datatype with one constructor per family the
  code writes; ports and IPv4 addresses inside a socket address are in network order, as in
  the code. \<open>MAX_DNS\<close> bounds the name.
\<close>

definition MAX_DNS :: nat where "MAX_DNS = 260"

record sockaddr_in =
  sin_port :: u16
  sin_addr :: u32

record sockaddr_in6 =
  sin6_port :: u16
  sin6_addr :: "byte list"

datatype sockaddr = AF_UNSPEC | AF_INET sockaddr_in | AF_INET6 sockaddr_in6

record host_id =
  hid_name :: string
  hid_addr :: sockaddr
  hid_port :: int

section \<open>The operations\<close>

definition host_id_init :: "host_id \<Rightarrow> host_id" where
  "host_id_init h = h\<lparr>hid_name := [], hid_addr := AF_UNSPEC, hid_port := 0\<rparr>"

definition host_id_has_name :: "host_id \<Rightarrow> bool" where
  "host_id_has_name h = (if hid_name h = [] then False else True)"

definition host_id_has_addr :: "host_id \<Rightarrow> bool" where
  "host_id_has_addr h = (if hid_addr h = AF_UNSPEC then False else True)"

text \<open>
  The IPv6 text form (\<open>inet_ntop\<close> of the C library): the groups in hexadecimal, the first
  longest run of at least two zero groups replaced by \<open>::\<close>, an embedded IPv4 address in
  dotted form.
\<close>

definition hex_char :: "nat \<Rightarrow> char" where
  "hex_char d = (if d < 10 then char_of (48 + d) else char_of (87 + d))"

fun show_hex :: "nat \<Rightarrow> string" where
  "show_hex n = (if n < 16 then [hex_char n] else show_hex (n div 16) @ [hex_char (n mod 16)])"

declare show_hex.simps [simp del]

fun groups6 :: "byte list \<Rightarrow> nat list" where
  "groups6 (a # b # r) = (unat a * 256 + unat b) # groups6 r"
| "groups6 _ = []"

definition zero_run :: "nat list \<Rightarrow> nat \<Rightarrow> nat" where
  "zero_run ws i = length (takeWhile (\<lambda>w. w = 0) (drop i ws))"

definition best_run :: "nat list \<Rightarrow> nat \<times> nat" where
  "best_run ws =
     foldl (\<lambda>(b, l) i. if zero_run ws i > l then (i, zero_run ws i) else (b, l)) (0, 0) [0..<8]"

definition ntop6_group :: "nat list \<Rightarrow> nat \<Rightarrow> nat \<Rightarrow> nat \<Rightarrow> string" where
  "ntop6_group ws base len i =
     (if len \<ge> 2 \<and> base \<le> i \<and> i < base + len then (if i = base then '':'' else [])
      else (if i = 0 then [] else '':'') @ show_hex (ws ! i))"

definition inet_ntop6 :: "byte list \<Rightarrow> string" where
  "inet_ntop6 bs =
     (let ws = groups6 bs; (base, len) = best_run ws;
          v4 = (len \<ge> 2 \<and> base = 0 \<and> (len = 6 \<or> (len = 7 \<and> ws ! 7 \<noteq> 1) \<or> (len = 5 \<and> ws ! 5 = 65535)));
          tail4 = inet_ntop4 (htonl (of_octets (bs ! 12) (bs ! 13) (bs ! 14) (bs ! 15)))
      in if v4 then concat (map (ntop6_group ws base len) [0..<6]) @ '':'' @ tail4
         else concat (map (ntop6_group ws base len) [0..<8])
              @ (if len \<ge> 2 \<and> base + len = 8 then '':'' else []))"

text \<open>
  \<open>inet_ntop\<close> returns null when the text and its terminator do not fit in the size it is
  given, which here is \<open>len - 1\<close>.
\<close>

definition host_id_addr_str :: "host_id \<Rightarrow> nat \<Rightarrow> string option" where
  "host_id_addr_str h len =
     (let fit = (\<lambda>s. if length s + 1 \<le> len - 1 then Some s else None)
      in case hid_addr h of
           AF_INET sa \<Rightarrow> fit (inet_ntop4 (sin_addr sa))
         | AF_INET6 sa \<Rightarrow> fit (inet_ntop6 (sin6_addr sa))
         | AF_UNSPEC \<Rightarrow> None)"

definition host_id_name_or_addr_str :: "host_id \<Rightarrow> nat \<Rightarrow> string option" where
  "host_id_name_or_addr_str h len =
     (if host_id_has_name h then Some (hid_name h)
      else if host_id_has_addr h then host_id_addr_str h len
      else None)"

definition host_id_get_name :: "host_id \<Rightarrow> string" where
  "host_id_get_name h = hid_name h"

definition host_id_get_port :: "host_id \<Rightarrow> int" where
  "host_id_get_port h = hid_port h"

text \<open>\<open>%s\<close> of a possibly null string prints \<open>(null)\<close>; \<open>snprintf (buf, n, ...)\<close> keeps \<open>n - 1\<close> characters.\<close>

definition printf_s :: "string option \<Rightarrow> string" where
  "printf_s s = (case s of None \<Rightarrow> ''(null)'' | Some t \<Rightarrow> t)"

definition snprintf_cut :: "nat \<Rightarrow> string \<Rightarrow> string" where
  "snprintf_cut n s = take (n - 1) s"

definition host_id_str :: "host_id \<Rightarrow> nat \<Rightarrow> string" where
  "host_id_str h len =
     snprintf_cut (len - 1)
       (if host_id_has_name h \<and> host_id_has_addr h then
          host_id_get_name h @ '':'' @ show_int (host_id_get_port h) @ '':''
          @ printf_s (host_id_addr_str h 1023)
        else if host_id_has_name h then
          host_id_get_name h @ '':'' @ show_int (host_id_get_port h)
        else if host_id_has_addr h then
          printf_s (host_id_addr_str h 1023) @ '':'' @ show_int (host_id_get_port h)
        else ''(unknown):'' @ show_int (host_id_get_port h))"

definition host_id_set_name :: "host_id \<Rightarrow> string \<Rightarrow> host_id" where
  "host_id_set_name h s = h\<lparr>hid_name := strncpy_term MAX_DNS s\<rparr>"

definition host_id_set_port :: "host_id \<Rightarrow> int \<Rightarrow> host_id" where
  "host_id_set_port h p =
     (let h1 = h\<lparr>hid_port := p\<rparr>
      in case hid_addr h1 of
           AF_INET sa \<Rightarrow> h1\<lparr>hid_addr := AF_INET (sa\<lparr>sin_port := htons p\<rparr>)\<rparr>
         | AF_INET6 sa \<Rightarrow> h1\<lparr>hid_addr := AF_INET6 (sa\<lparr>sin6_port := htons p\<rparr>)\<rparr>
         | AF_UNSPEC \<Rightarrow> h1)"

definition host_id_set_addr_in :: "host_id \<Rightarrow> sockaddr_in \<Rightarrow> host_id" where
  "host_id_set_addr_in h sa = h\<lparr>hid_addr := AF_INET sa, hid_port := ntohs (sin_port sa)\<rparr>"

definition host_id_set_addr_in6 :: "host_id \<Rightarrow> sockaddr_in6 \<Rightarrow> host_id" where
  "host_id_set_addr_in6 h sa = h\<lparr>hid_addr := AF_INET6 sa, hid_port := ntohs (sin6_port sa)\<rparr>"

text \<open>The byte array is read at the indices the code reads; a shorter one is out of bounds.\<close>

definition host_id_set_addr_in_from_byte_array :: "host_id \<Rightarrow> byte list \<Rightarrow> int \<Rightarrow> host_id cres" where
  "host_id_set_addr_in_from_byte_array h ipv4 p =
     (if length ipv4 < 4 then Inl UB
      else
        let a0 = (0 :: u32);
            a1 = push_bit 8 (a0 OR ucast (ipv4 ! 0));
            a2 = push_bit 8 (a1 OR ucast (ipv4 ! 1));
            a3 = push_bit 8 (a2 OR ucast (ipv4 ! 2));
            a4 = a3 OR ucast (ipv4 ! 3)
        in Inr (h\<lparr>hid_port := p,
                   hid_addr := AF_INET \<lparr>sin_port = htons p, sin_addr = htonl a4\<rparr>\<rparr>))"

definition host_id_set_addr_in6_from_byte_array :: "host_id \<Rightarrow> byte list \<Rightarrow> int \<Rightarrow> host_id cres" where
  "host_id_set_addr_in6_from_byte_array h ipv6 p =
     (if length ipv6 < 16 then Inl UB
      else Inr (h\<lparr>hid_port := p,
                   hid_addr := AF_INET6 \<lparr>sin6_port = htons p, sin6_addr = take 16 ipv6\<rparr>\<rparr>))"

definition host_id_get_addr :: "host_id \<Rightarrow> sockaddr" where
  "host_id_get_addr h = hid_addr h"

text \<open>The bytes written to the buffer; their number is the return value.\<close>

definition host_id_get_addr_as_byte_array :: "host_id \<Rightarrow> int \<Rightarrow> byte list" where
  "host_id_get_addr_as_byte_array h buflen =
     (case hid_addr h of
        AF_INET sa \<Rightarrow>
          if buflen < 4 then []
          else
            let a = ntohl (sin_addr sa)
            in [octet 3 a, octet 2 a, octet 1 a, octet 0 a]
      | AF_INET6 sa \<Rightarrow> if buflen < 16 then [] else take 16 (sin6_addr sa)
      | AF_UNSPEC \<Rightarrow> [])"

section \<open>Well-formed host identities\<close>

text \<open>
  The name fits its buffer, and the port that is stored twice (\<open>h->port\<close> and in the socket
  address) agrees, up to the 16 bits a socket address holds.
\<close>

definition addr_port :: "sockaddr \<Rightarrow> int option" where
  "addr_port a =
     (case a of AF_UNSPEC \<Rightarrow> None
      | AF_INET sa \<Rightarrow> Some (ntohs (sin_port sa))
      | AF_INET6 sa \<Rightarrow> Some (ntohs (sin6_port sa)))"

definition addr_wf :: "sockaddr \<Rightarrow> bool" where
  "addr_wf a = (case a of AF_INET6 sa \<Rightarrow> length (sin6_addr sa) = 16 | _ \<Rightarrow> True)"

definition host_id_ok :: "host_id \<Rightarrow> bool" where
  "host_id_ok h \<longleftrightarrow>
     length (hid_name h) < MAX_DNS \<and> addr_wf (hid_addr h) \<and>
     (case addr_port (hid_addr h) of None \<Rightarrow> True | Some p \<Rightarrow> p = hid_port h mod 65536)"

lemma host_id_ok_init [simp, intro]: "host_id_ok (host_id_init h)"
  by (simp add: host_id_ok_def host_id_init_def addr_port_def MAX_DNS_def addr_wf_def)

lemma host_id_ok_set_name [intro]: "host_id_ok h \<Longrightarrow> host_id_ok (host_id_set_name h s)"
  by (simp add: host_id_ok_def host_id_set_name_def length_strncpy_term MAX_DNS_def split: option.splits)

lemma host_id_ok_set_port [intro]: "host_id_ok h \<Longrightarrow> host_id_ok (host_id_set_port h p)"
  by (auto simp: host_id_ok_def host_id_set_port_def addr_port_def addr_wf_def split: sockaddr.splits)

lemma host_id_ok_set_addr_in [intro]: "host_id_ok h \<Longrightarrow> host_id_ok (host_id_set_addr_in h sa)"
  using ntohs_range [of "sin_port sa"]
  by (auto simp: host_id_ok_def host_id_set_addr_in_def addr_port_def addr_wf_def)

lemma host_id_ok_set_addr_in6_bytes:
  "host_id_ok h \<Longrightarrow> host_id_set_addr_in6_from_byte_array h bs p = Inr h' \<Longrightarrow> host_id_ok h'"
  by (auto simp: host_id_ok_def host_id_set_addr_in6_from_byte_array_def addr_port_def addr_wf_def
      split: if_splits)

lemma host_id_ok_set_addr_in_bytes:
  "host_id_ok h \<Longrightarrow> host_id_set_addr_in_from_byte_array h bs p = Inr h' \<Longrightarrow> host_id_ok h'"
  by (auto simp: host_id_ok_def host_id_set_addr_in_from_byte_array_def addr_port_def addr_wf_def
      split: if_splits)

lemma host_id_set_name_sel [simp]:
  "hid_addr (host_id_set_name h s) = hid_addr h"
  "hid_port (host_id_set_name h s) = hid_port h"
  "hid_name (host_id_set_name h s) = strncpy_term MAX_DNS s"
  by (simp_all add: host_id_set_name_def)

lemma host_id_set_port_sel [simp]:
  "hid_name (host_id_set_port h p) = hid_name h"
  "hid_port (host_id_set_port h p) = p"
  by (simp_all add: host_id_set_port_def Let_def split: sockaddr.splits)

lemma host_id_set_addr_in_sel [simp]:
  "hid_name (host_id_set_addr_in h sa) = hid_name h"
  "hid_port (host_id_set_addr_in h sa) = ntohs (sin_port sa)"
  "hid_addr (host_id_set_addr_in h sa) = AF_INET sa"
  by (simp_all add: host_id_set_addr_in_def)

lemma host_id_set_addr_in_from_bytes_eq:
  "host_id_set_addr_in_from_byte_array h [a, b, c, d] p =
     Inr (h\<lparr>hid_port := p,
            hid_addr := AF_INET \<lparr>sin_port = htons p, sin_addr = htonl (of_octets a b c d)\<rparr>\<rparr>)"
  by (simp add: host_id_set_addr_in_from_byte_array_def of_octets_shifts Let_def)

text \<open>The address text always fits the buffers the callers pass (260 bytes and more).\<close>

lemma host_id_addr_str_ipv4:
  "17 \<le> len \<Longrightarrow> hid_addr h = AF_INET sa \<Longrightarrow> host_id_addr_str h len = Some (inet_ntop4 (sin_addr sa))"
  using length_inet_ntop4 [of "sin_addr sa"] by (simp add: host_id_addr_str_def Let_def)

lemma length_show_hex_le: "n < 16 ^ k \<Longrightarrow> 0 < k \<Longrightarrow> length (show_hex n) \<le> k"
proof (induction k arbitrary: n)
  case (Suc k)
  show ?case
  proof (cases "n < 16")
    case True
    then show ?thesis by (simp add: show_hex.simps [of n])
  next
    case False
    then have "k \<noteq> 0" using Suc.prems by (cases k) auto
    moreover have "n div 16 < 16 ^ k" using Suc.prems by (simp add: less_mult_imp_div_less mult.commute)
    ultimately have "length (show_hex (n div 16)) \<le> k" using Suc.IH by simp
    with False show ?thesis by (simp add: show_hex.simps [of n])
  qed
qed simp

lemma groups6_bound: "w \<in> set (groups6 bs) \<Longrightarrow> w < 65536"
proof (induction bs rule: groups6.induct)
  case (1 a b r)
  have "unat a * 256 + unat b < 65536"
    using unsigned_less [of a, where ?'a = nat] unsigned_less [of b, where ?'a = nat] by simp
  with 1 show ?case by auto
qed auto

lemma length_groups6: "length (groups6 bs) = length bs div 2"
  by (induction bs rule: groups6.induct) auto

lemma length_ntop6_group:
  assumes "length bs = 16" and "i < 8"
  shows "length (ntop6_group (groups6 bs) b l i) \<le> 5"
proof -
  have "groups6 bs ! i \<in> set (groups6 bs)" using assms by (intro nth_mem) (simp add: length_groups6)
  then have "groups6 bs ! i < 16 ^ 4" using groups6_bound by fastforce
  then have "length (show_hex (groups6 bs ! i)) \<le> 4" by (rule length_show_hex_le) simp
  then show ?thesis by (auto simp: ntop6_group_def)
qed

lemma length_concat_groups:
  assumes "length bs = 16" and "n \<le> 8"
  shows "length (concat (map (ntop6_group (groups6 bs) b l) [0..<n])) \<le> 5 * n"
  using assms(2)
proof (induction n)
  case (Suc n)
  then show ?case using length_ntop6_group [OF assms(1), of n b l] by simp
qed simp

lemma length_inet_ntop6:
  assumes "length bs = 16"
  shows "length (inet_ntop6 bs) \<le> 46"
proof -
  obtain b l where bl: "best_run (groups6 bs) = (b, l)" by fastforce
  show ?thesis
    using length_concat_groups [OF assms, of 8 b l] length_concat_groups [OF assms, of 6 b l]
      length_inet_ntop4 [of "htonl (of_octets (bs ! 12) (bs ! 13) (bs ! 14) (bs ! 15))"]
    by (auto simp: inet_ntop6_def Let_def bl simp del: upt.simps upt_rec_numeral map_append)
qed

lemma host_id_addr_str_fits:
  assumes "host_id_ok h" and "host_id_has_addr h" and "48 \<le> len"
  shows "\<exists>s. host_id_addr_str h len = Some s \<and> length s \<le> 46"
proof (cases "hid_addr h")
  case AF_UNSPEC
  with assms(2) show ?thesis by (simp add: host_id_has_addr_def)
next
  case (AF_INET sa)
  then show ?thesis
    using assms(3) length_inet_ntop4 [of "sin_addr sa"] by (simp add: host_id_addr_str_def Let_def)
next
  case (AF_INET6 sa)
  then have "length (sin6_addr sa) = 16" using assms(1) by (simp add: host_id_ok_def addr_wf_def)
  from length_inet_ntop6 [OF this] AF_INET6 show ?thesis
    using assms(3) by (simp add: host_id_addr_str_def Let_def)
qed

text \<open>
  The four address bytes of a SOCKS request survive the host identity: stored with
  \<open>host_id_set_addr_in_from_byte_array\<close>, they come back unchanged and in order from
  \<open>host_id_get_addr_as_byte_array\<close>, the dotted text of the identity parses to the stored
  address, the port is the one given, and the identity stays well-formed.
\<close>

theorem host_id_bytes_roundtrip:
  assumes "host_id_ok h" and "length bs = 4"
  shows "\<exists>h' sa. host_id_set_addr_in_from_byte_array h bs p = Inr h' \<and> host_id_ok h' \<and>
           host_id_get_addr_as_byte_array h' 4 = bs \<and> host_id_get_port h' = p \<and>
           hid_addr h' = AF_INET sa \<and>
           inet_pton4 (printf_s (host_id_addr_str h' MAX_DNS)) = Some (sin_addr sa)"
proof -
  obtain a b c d where bs: "bs = [a, b, c, d]"
    using assms(2) by (auto simp: numeral_eq_Suc length_Suc_conv)
  let ?sa = "\<lparr>sin_port = htons p, sin_addr = htonl (of_octets a b c d)\<rparr>"
  let ?h = "h\<lparr>hid_port := p, hid_addr := AF_INET ?sa\<rparr>"
  have set: "host_id_set_addr_in_from_byte_array h bs p = Inr ?h"
    by (simp add: bs host_id_set_addr_in_from_bytes_eq)
  have ok: "host_id_ok ?h" using host_id_ok_set_addr_in_bytes [OF assms(1) set] .
  have "host_id_get_addr_as_byte_array ?h 4 = bs"
    by (simp add: host_id_get_addr_as_byte_array_def Let_def bs)
  moreover have "inet_pton4 (printf_s (host_id_addr_str ?h MAX_DNS)) = Some (sin_addr ?sa)"
    by (subst host_id_addr_str_ipv4 [where sa = ?sa]) (simp_all add: MAX_DNS_def printf_s_def)
  ultimately show ?thesis
    using set ok by (auto simp: host_id_get_port_def)
qed

theorem host_id_bytes_roundtrip_witness:
  "let h = \<lparr>hid_name = ''x'', hid_addr = AF_UNSPEC, hid_port = 0\<rparr>; bs = [1, 2, 3, 4 :: byte]
   in host_id_ok h \<and> length bs = 4 \<and>
      (\<exists>h'. host_id_set_addr_in_from_byte_array h bs 1234 = Inr h' \<and>
            host_id_get_addr_as_byte_array h' 4 = bs)"
proof -
  let ?h = "\<lparr>hid_name = ''x'', hid_addr = AF_UNSPEC, hid_port = 0\<rparr>"
  have ok: "host_id_ok ?h" by (simp add: host_id_ok_def addr_port_def MAX_DNS_def addr_wf_def)
  have len: "length [1, 2, 3, 4 :: byte] = 4" by simp
  show ?thesis using ok len host_id_bytes_roundtrip [OF ok len, of 1234] by (auto simp: Let_def)
qed

end
