(* ===== verification/Log_Level.thy ===== *)
theory Log_Level
  imports CString
begin

text \<open>
  Log levels: \<open>src/log_level.h\<close> and \<open>src/log_level.c\<close>. The levels are the integers the
  header defines; the table of names is the array \<open>log_levels\<close> with its terminating entry
  left out (the loops stop at its null name).
\<close>

definition LOG_LEVEL_INVALID :: int where "LOG_LEVEL_INVALID = -1"

definition LOG_LEVEL_TRACE2 :: int where "LOG_LEVEL_TRACE2 = 0"

definition LOG_LEVEL_TRACE :: int where "LOG_LEVEL_TRACE = 1"

definition LOG_LEVEL_DEBUG :: int where "LOG_LEVEL_DEBUG = 2"

definition LOG_LEVEL_INFO :: int where "LOG_LEVEL_INFO = 3"

definition LOG_LEVEL_WARN :: int where "LOG_LEVEL_WARN = 4"

definition LOG_LEVEL_ERROR :: int where "LOG_LEVEL_ERROR = 5"

lemmas log_level_defs =
  LOG_LEVEL_INVALID_def LOG_LEVEL_TRACE2_def LOG_LEVEL_TRACE_def LOG_LEVEL_DEBUG_def
  LOG_LEVEL_INFO_def LOG_LEVEL_WARN_def LOG_LEVEL_ERROR_def

definition log_levels :: "(int \<times> string) list" where
  "log_levels =
     [(LOG_LEVEL_TRACE2, ''trace2''),
      (LOG_LEVEL_TRACE, ''trace''),
      (LOG_LEVEL_DEBUG, ''debug''),
      (LOG_LEVEL_INFO, ''info''),
      (LOG_LEVEL_WARN, ''warn''),
      (LOG_LEVEL_ERROR, ''error'')]"

definition log_level_str :: "int \<Rightarrow> string option" where
  "log_level_str level = map_option snd (find (\<lambda>(l, n). l = level) log_levels)"

definition log_level_str_upper_fixedwidth :: "int \<Rightarrow> string option" where
  "log_level_str_upper_fixedwidth level =
     (if level = LOG_LEVEL_TRACE2 then Some ''TRACE2''
      else if level = LOG_LEVEL_TRACE then Some ''TRACE ''
      else if level = LOG_LEVEL_DEBUG then Some ''DEBUG ''
      else if level = LOG_LEVEL_INFO then Some ''INFO  ''
      else if level = LOG_LEVEL_WARN then Some ''WARN  ''
      else if level = LOG_LEVEL_ERROR then Some ''ERROR ''
      else None)"

definition log_level_from_str :: "string option \<Rightarrow> int" where
  "log_level_from_str level_str =
     (case level_str of
        None \<Rightarrow> LOG_LEVEL_INVALID
      | Some s \<Rightarrow>
          (case find (\<lambda>(l, n). strcasecmp_eq n s) log_levels of
             Some (l, n) \<Rightarrow> l
           | None \<Rightarrow> LOG_LEVEL_INVALID))"

text \<open>
  \<open>src/log.h\<close>: each source of log messages has a level and a log file. A log file is
  unique by its name, which stands for the pointer; \<open>None\<close> is the null pointer (standard
  output).
\<close>

record log_config =
  lc_level :: int
  lc_file :: "string option"

definition log_config_init :: "log_config \<Rightarrow> log_config" where
  "log_config_init conf = conf\<lparr>lc_level := LOG_LEVEL_INFO, lc_file := None\<rparr>"

section \<open>Names and levels correspond\<close>

definition valid_level :: "int \<Rightarrow> bool" where
  "valid_level l \<longleftrightarrow> LOG_LEVEL_TRACE2 \<le> l \<and> l \<le> LOG_LEVEL_ERROR"

lemma valid_level_cases: "valid_level l \<longleftrightarrow> l \<in> {0, 1, 2, 3, 4, 5}"
  by (auto simp: valid_level_def log_level_defs)

lemma log_level_str_valid: "(\<exists>s. log_level_str l = Some s) \<longleftrightarrow> valid_level l"
  by (auto simp: valid_level_cases log_level_str_def log_levels_def log_level_defs)

lemma log_level_from_str_range:
  "log_level_from_str s = LOG_LEVEL_INVALID \<or> valid_level (log_level_from_str s)"
  by (auto simp: log_level_from_str_def log_levels_def log_level_defs valid_level_def split: option.splits)

lemma strcasecmp_eq_refl [simp]: "strcasecmp_eq s s"
  by (simp add: strcasecmp_eq_def)

lemma log_level_names_lower: "(l, n) \<in> set log_levels \<Longrightarrow> lower_str n = n"
  by (auto simp: log_levels_def c_tolower_def)

lemma log_level_from_str_eq:
  "log_level_from_str (Some s) =
     (let t = lower_str s in
      if t = ''trace2'' then 0 else if t = ''trace'' then 1 else if t = ''debug'' then 2
      else if t = ''info'' then 3 else if t = ''warn'' then 4 else if t = ''error'' then 5 else -1)"
  by (auto simp: log_level_from_str_def log_levels_def log_level_defs strcasecmp_eq_def c_tolower_def Let_def)

text \<open>
  Parsing the printed name of a level gives the level back, in any mix of upper and
  lower case, and only such texts give a level: for a valid level \<open>l\<close>, \<open>log_level_from_str\<close>
  returns \<open>l\<close> exactly on the spellings of \<open>log_level_str l\<close>.
\<close>

theorem log_level_roundtrip:
  assumes "valid_level l"
  shows "\<exists>n. log_level_str l = Some n \<and>
           (\<forall>s. log_level_from_str (Some s) = l \<longleftrightarrow> lower_str s = n)"
  using assms unfolding valid_level_cases
  by (auto simp: log_level_from_str_eq log_level_str_def log_levels_def log_level_defs Let_def)

theorem log_level_roundtrip_witness:
  "valid_level 4 \<and> log_level_str 4 = Some ''warn'' \<and> log_level_from_str (Some ''WaRN'') = 4"
proof -
  have v: "valid_level 4" by (simp add: valid_level_cases)
  have n: "log_level_str 4 = Some ''warn''" by (simp add: log_level_str_def log_levels_def log_level_defs)
  have "lower_str ''WaRN'' = ''warn''" by code_simp
  then show ?thesis using v n log_level_roundtrip [OF v] by auto
qed

end
