(* ===== verification/Ssh_Tunnel.thy ===== *)
theory Ssh_Tunnel
  imports Log_Level String2
begin

text \<open>
  \<open>src/ssh_tunnel.h\<close> and \<open>src/ssh_tunnel.c\<close>: the tunnels, their list and the three special
  ones. Memory fresh from \<open>malloc\<close> is an argument (\<open>mem\<close>) whose fields the code then sets:
  what it does not set keeps the value \<open>mem\<close> happens to have. Allocation itself is taken to
  succeed. A pointer to a tunnel is its \<open>id\<close>, which is unique (drawn from \<open>ssh_id_pool\<close>).
\<close>

record ssh_tunnel =
  st_id :: nat
  st_name :: string
  st_socks_port :: int
  st_command :: string
  st_log :: log_config
  st_mark :: int
  st_connection_count :: int
  st_pid :: int
  st_start_time :: int
  st_last_update_time :: int
  st_parent_stdin_fd :: int
  st_parent_stdout_fd :: int
  st_parent_stderr_fd :: int
  st_child_stdin_fd :: int
  st_child_stdout_fd :: int
  st_child_stderr_fd :: int

type_synonym tun_ref = nat

text \<open>The globals \<open>ssh_id_pool\<close>, \<open>ssh_tunnel_direct\<close>, \<open>ssh_tunnel_socks_proxy\<close>, \<open>ssh_tunnel_null\<close>.\<close>

record ssh_globals =
  ssh_id_pool :: nat
  ssh_tunnel_direct :: tun_ref
  ssh_tunnel_socks_proxy :: tun_ref
  ssh_tunnel_null :: tun_ref

definition new_ssh_tunnel :: "ssh_tunnel \<Rightarrow> ssh_globals \<Rightarrow> ssh_tunnel \<times> ssh_globals" where
  "new_ssh_tunnel mem g =
     (let g1 = g\<lparr>ssh_id_pool := ssh_id_pool g + 1\<rparr>
      in (mem\<lparr>st_id := ssh_id_pool g1,
              st_command := [], st_socks_port := 0, st_name := [],
              st_pid := -1, st_start_time := 0, st_last_update_time := 0,
              st_parent_stdin_fd := -1, st_parent_stdout_fd := -1, st_parent_stderr_fd := -1,
              st_child_stdin_fd := -1, st_child_stdout_fd := -1, st_child_stderr_fd := -1\<rparr>,
          g1))"

text \<open>The template is not looked at.\<close>

definition new_ssh_tunnel_from_template ::
  "ssh_tunnel \<Rightarrow> ssh_globals \<Rightarrow> ssh_tunnel \<Rightarrow> ssh_tunnel \<times> ssh_globals" where
  "new_ssh_tunnel_from_template mem g template = new_ssh_tunnel mem g"

definition insert_ssh_tunnel :: "ssh_tunnel list \<Rightarrow> ssh_tunnel \<Rightarrow> ssh_tunnel list" where
  "insert_ssh_tunnel head ssh = ssh # head"

text \<open>\<open>strncpy (ssh->name, s, sizeof (ssh->name) - 1)\<close>, 200 bytes.\<close>

definition set_ssh_name :: "ssh_tunnel \<Rightarrow> string \<Rightarrow> ssh_tunnel cres" where
  "set_ssh_name ssh s = cmap (\<lambda>n. ssh\<lparr>st_name := n\<rparr>) (strncpy_open 200 s)"

definition ssh_tunnel_init ::
  "ssh_tunnel \<Rightarrow> ssh_tunnel \<Rightarrow> ssh_tunnel \<Rightarrow> ssh_tunnel list \<Rightarrow> ssh_globals
     \<Rightarrow> (ssh_tunnel list \<times> ssh_globals) cres" where
  "ssh_tunnel_init mem1 mem2 mem3 head g =
     (let (d, g) = new_ssh_tunnel mem1 g; g = g\<lparr>ssh_tunnel_direct := st_id d\<rparr>
      in cbind (set_ssh_name d ''direct'') (\<lambda>d.
         let head = insert_ssh_tunnel head d;
             (s, g) = new_ssh_tunnel mem2 g; g = g\<lparr>ssh_tunnel_socks_proxy := st_id s\<rparr>
         in cbind (set_ssh_name s ''socks_proxy'') (\<lambda>s.
            let head = insert_ssh_tunnel head s;
                (n, g) = new_ssh_tunnel mem3 g; g = g\<lparr>ssh_tunnel_null := st_id n\<rparr>
            in cbind (set_ssh_name n ''null'') (\<lambda>n.
               Inr (insert_ssh_tunnel head n, g)))))"

definition ssh_tunnel_str :: "ssh_tunnel \<Rightarrow> nat \<Rightarrow> string" where
  "ssh_tunnel_str ssh buflen =
     take (buflen - 2)
       (show_nat (st_id ssh) @ '':'' @ st_name ssh @ '':'' @ show_int (st_socks_port ssh) @ '':''
        @ [chr_dquote] @ st_command ssh @ [chr_dquote])"

text \<open>
  \<open>name:port:command\<close>. The port conversion is not checked (a bad port leaves 0), and the
  copies are unterminated when the text fills the buffer.
\<close>

definition parse_ssh_tunnel_spec ::
  "ssh_tunnel \<Rightarrow> ssh_globals \<Rightarrow> string \<Rightarrow> (ssh_tunnel option \<times> ssh_globals) cres" where
  "parse_ssh_tunnel_spec mem g str =
     (let (ssh, g) = new_ssh_tunnel mem g;
          (nm, p1) = strsep '':'' (Some str);
          (port_str, command) = strsep '':'' p1
      in case (nm, port_str, command) of
           (Some n, Some ps, Some cmd) \<Rightarrow>
             cbind (strncpy_open 201 n) (\<lambda>n.
             cbind (strncpy_open 8193 cmd) (\<lambda>cmd.
               Inr (Some (ssh\<lparr>st_name := n,
                              st_socks_port := (case sscanf_i ps of Some v \<Rightarrow> v | None \<Rightarrow> st_socks_port ssh),
                              st_command := cmd\<rparr>), g)))
         | _ \<Rightarrow> Inr (None, g))"

section \<open>Finding tunnels\<close>

text \<open>The search loop shared by the rule parser and the configuration parser.\<close>

definition find_ssh_by_name :: "ssh_tunnel list \<Rightarrow> string \<Rightarrow> ssh_tunnel option" where
  "find_ssh_by_name ssh_list n = find (\<lambda>ssh. st_name ssh = n) ssh_list"

text \<open>Following a pointer.\<close>

definition deref_ssh :: "ssh_tunnel list \<Rightarrow> tun_ref \<Rightarrow> ssh_tunnel option" where
  "deref_ssh ssh_list r = find (\<lambda>ssh. st_id ssh = r) ssh_list"

text \<open>Ids are distinct and were drawn from the pool.\<close>

definition tunnels_ok :: "ssh_tunnel list \<Rightarrow> ssh_globals \<Rightarrow> bool" where
  "tunnels_ok ts g \<longleftrightarrow> distinct (map st_id ts) \<and> (\<forall>t \<in> set ts. st_id t \<le> ssh_id_pool g)"

lemma tunnels_ok_new:
  assumes "tunnels_ok ts g" and "new_ssh_tunnel mem g = (t, g')"
  shows "tunnels_ok (insert_ssh_tunnel ts (t\<lparr>st_name := n\<rparr>)) g'"
  using assms
  by (fastforce simp: tunnels_ok_def new_ssh_tunnel_def insert_ssh_tunnel_def Let_def)

lemma find_ssh_by_name_Some:
  "find_ssh_by_name ts n = Some t \<Longrightarrow> t \<in> set ts \<and> st_name t = n"
  by (auto simp: find_ssh_by_name_def find_Some_iff)

lemma deref_ssh_mem:
  assumes "distinct (map st_id ts)" and "t \<in> set ts"
  shows "deref_ssh ts (st_id t) = Some t"
  using assms by (induction ts) (auto simp: deref_ssh_def)

text \<open>
  After start-up the list holds exactly the three special tunnels, under distinct ids
  that the three globals point to, with the names a rule can route via and with no port and
  no command, so that only the list grows when the configuration is read.
\<close>

theorem ssh_tunnel_init_correct:
  assumes "ssh_tunnel_init m1 m2 m3 [] g = Inr (ts, g')"
  shows "tunnels_ok ts g' \<and> map st_name ts = [''null'', ''socks_proxy'', ''direct''] \<and>
         (\<forall>t \<in> set ts. st_command t = [] \<and> st_socks_port t = 0 \<and> st_pid t = -1) \<and>
         map st_id ts = [ssh_tunnel_null g', ssh_tunnel_socks_proxy g', ssh_tunnel_direct g'] \<and>
         map_option st_id (find_ssh_by_name ts ''direct'') = Some (ssh_tunnel_direct g') \<and>
         map_option st_id (find_ssh_by_name ts ''null'') = Some (ssh_tunnel_null g')"
  using assms
  by (auto simp: ssh_tunnel_init_def new_ssh_tunnel_def set_ssh_name_def cmap_def strncpy_open_def
      insert_ssh_tunnel_def tunnels_ok_def find_ssh_by_name_def Let_def)

text \<open>Memory that happens to be zero, for concrete runs.\<close>

definition zero_tunnel :: ssh_tunnel where
  "zero_tunnel =
     \<lparr>st_id = 0, st_name = [], st_socks_port = 0, st_command = [],
      st_log = \<lparr>lc_level = 0, lc_file = None\<rparr>, st_mark = 0, st_connection_count = 0,
      st_pid = 0, st_start_time = 0, st_last_update_time = 0,
      st_parent_stdin_fd = 0, st_parent_stdout_fd = 0, st_parent_stderr_fd = 0,
      st_child_stdin_fd = 0, st_child_stdout_fd = 0, st_child_stderr_fd = 0\<rparr>"

definition zero_ssh_globals :: ssh_globals where
  "zero_ssh_globals =
     \<lparr>ssh_id_pool = 0, ssh_tunnel_direct = 0, ssh_tunnel_socks_proxy = 0, ssh_tunnel_null = 0\<rparr>"

theorem ssh_tunnel_init_correct_witness:
  "\<exists>ts g'. ssh_tunnel_init zero_tunnel zero_tunnel zero_tunnel [] zero_ssh_globals = Inr (ts, g') \<and>
           tunnels_ok ts g' \<and> map st_name ts = [''null'', ''socks_proxy'', ''direct'']"
proof -
  obtain ts g' where init:
    "ssh_tunnel_init zero_tunnel zero_tunnel zero_tunnel [] zero_ssh_globals = Inr (ts, g')"
    by (simp add: ssh_tunnel_init_def new_ssh_tunnel_def set_ssh_name_def cmap_def strncpy_open_def
        Let_def)
  from ssh_tunnel_init_correct [OF init] init show ?thesis by auto
qed

end
