(* ===== verification/Route_Rule.thy ===== *)
theory Route_Rule
  imports Host_Id Ssh_Tunnel
begin

text \<open>
  \<open>src/route_rule.h\<close> and \<open>src/route_rule.c\<close>: a routing rule, the list of rules and the
  parser of a rule's text. An IPv4 address or mask is kept in 32 bits: the code stores it in
  an \<open>unsigned long\<close>, but every value it assigns fits 32 bits. The null-terminated array of
  at most \<open>ROUTE_RULE_MAX_SSH_TUNNELS_PER_RULE - 1\<close> tunnels is the list of its pointers.
\<close>

definition ROUTE_RULE_MAX_SSH_TUNNELS_PER_RULE :: nat where
  "ROUTE_RULE_MAX_SSH_TUNNELS_PER_RULE = 100"

record route_rule =
  rr_id :: nat
  rr_match_is :: string
  rr_match_starts_with :: string
  rr_match_ends_with :: string
  rr_match_contains :: string
  rr_match_port :: int
  rr_have_match_ipv4 :: bool
  rr_match_ipv4_addr :: u32
  rr_match_ipv4_mask :: u32
  rr_resolve_dns :: bool
  rr_have_map_ipv4 :: bool
  rr_map_ipv4_addr :: u32
  rr_map_ipv4_mask :: u32
  rr_have_to_ipv4 :: bool
  rr_to_ipv4_addr :: u32
  rr_to_ipv4_mask :: u32
  rr_tunnel :: "tun_ref list"
  rr_file_name :: string
  rr_file_line_number :: int

definition new_route_rule :: "nat \<Rightarrow> route_rule \<times> nat" where
  "new_route_rule pool =
     (let pool = pool + 1
      in (\<lparr>rr_id = pool,
           rr_match_is = [], rr_match_starts_with = [], rr_match_ends_with = [],
           rr_match_contains = [], rr_match_port = 0,
           rr_have_match_ipv4 = False, rr_match_ipv4_addr = 0, rr_match_ipv4_mask = 0,
           rr_resolve_dns = False,
           rr_have_map_ipv4 = False, rr_map_ipv4_addr = 0, rr_map_ipv4_mask = 0,
           rr_have_to_ipv4 = False, rr_to_ipv4_addr = 0, rr_to_ipv4_mask = 0,
           rr_tunnel = [], rr_file_name = [], rr_file_line_number = -1\<rparr>,
          pool))"

fun insert_route_rule :: "route_rule list \<Rightarrow> route_rule \<Rightarrow> route_rule list" where
  "insert_route_rule [] route = [route]"
| "insert_route_rule (r # rest) route = r # insert_route_rule rest route"

text \<open>
  \<open>route_rule_grab_param\<close>: the new value of the field when the command is the expected one;
  a missing parameter is copied through a null pointer.
\<close>

definition route_rule_grab_param :: "string \<Rightarrow> string \<Rightarrow> string option \<Rightarrow> nat \<Rightarrow> string option cres" where
  "route_rule_grab_param expected_cmd cmd src dstlen =
     (if expected_cmd = cmd then
        (case src of None \<Rightarrow> Inl UB | Some s \<Rightarrow> Inr (Some (strncpy_term dstlen s)))
      else Inr None)"

definition convert_string_to_ipv4_ulong :: "string \<Rightarrow> u32 option" where
  "convert_string_to_ipv4_ulong ipaddr_string = map_option ntohl (inet_pton4 ipaddr_string)"

text \<open>\<open>(0xffffffff << (32 - prefix)) & 0xffffffff\<close> on 32 bits: a shift by 32 or more, or by less than 0, is undefined.\<close>

definition prefix_mask :: "int \<Rightarrow> u32 cres" where
  "prefix_mask plen =
     (if 0 \<le> 32 - plen \<and> 32 - plen < 32
      then Inr (push_bit (nat (32 - plen)) 0xffffffff AND 0xffffffff)
      else Inl UB)"

definition route_rule_grab_netv4 ::
  "string \<Rightarrow> string \<Rightarrow> string option \<Rightarrow> (u32 \<times> u32) option cres" where
  "route_rule_grab_netv4 expected_cmd cmd param =
     (if param \<noteq> None \<and> cmd = expected_cmd then
        let (ipaddr, p1) = strsep ''/'' param;
            (mask, p2) = strsep ''/'' p1
        in case ipaddr of
             None \<Rightarrow> Inr None
           | Some ip \<Rightarrow>
               (case convert_string_to_ipv4_ulong ip of
                  None \<Rightarrow> Inr None
                | Some addr \<Rightarrow>
                    (case mask of
                       None \<Rightarrow> Inr (Some (addr, 0xffffffff))
                     | Some m \<Rightarrow>
                         (case convert_string_to_ipv4_ulong m of
                            Some mm \<Rightarrow> Inr (Some (addr, mm))
                          | None \<Rightarrow>
                              (case sscanf_i m of
                                 None \<Rightarrow> Inr None
                               | Some plen \<Rightarrow> cmap (\<lambda>mm. Some (addr, mm)) (prefix_mask plen)))))
      else Inr None)"

text \<open>
  One command of the rule and its parameter: the updated rule, or \<open>None\<close> when nothing took
  the command (\<open>got_it == 0\<close>).
\<close>

definition route_rule_command ::
  "string \<Rightarrow> string option \<Rightarrow> route_rule \<Rightarrow> route_rule option cres" where
  "route_rule_command cmd param route =
     cbind (route_rule_grab_param ''is'' cmd param MAX_DNS) (\<lambda>x1.
     case x1 of Some s \<Rightarrow> Inr (Some (route\<lparr>rr_match_is := s\<rparr>)) | None \<Rightarrow>
     cbind (route_rule_grab_param ''startsWith'' cmd param MAX_DNS) (\<lambda>x2.
     case x2 of Some s \<Rightarrow> Inr (Some (route\<lparr>rr_match_starts_with := s\<rparr>)) | None \<Rightarrow>
     cbind (route_rule_grab_param ''endsWith'' cmd param MAX_DNS) (\<lambda>x3.
     case x3 of Some s \<Rightarrow> Inr (Some (route\<lparr>rr_match_ends_with := s\<rparr>)) | None \<Rightarrow>
     cbind (route_rule_grab_param ''contains'' cmd param MAX_DNS) (\<lambda>x4.
     case x4 of Some s \<Rightarrow> Inr (Some (route\<lparr>rr_match_contains := s\<rparr>)) | None \<Rightarrow>
     (case (if param \<noteq> None \<and> cmd = ''port'' then sscanf_i (the param) else None) of
        Some v \<Rightarrow> Inr (Some (route\<lparr>rr_match_port := v\<rparr>)) | None \<Rightarrow>
     cbind (route_rule_grab_netv4 ''network'' cmd param) (\<lambda>x6.
     case x6 of Some (a, m) \<Rightarrow>
       Inr (Some (route\<lparr>rr_have_match_ipv4 := True, rr_match_ipv4_addr := a, rr_match_ipv4_mask := m\<rparr>))
     | None \<Rightarrow>
     cbind (route_rule_grab_netv4 ''map'' cmd param) (\<lambda>x7.
     case x7 of Some (a, m) \<Rightarrow>
       Inr (Some (route\<lparr>rr_have_map_ipv4 := True, rr_map_ipv4_addr := a, rr_map_ipv4_mask := m\<rparr>))
     | None \<Rightarrow>
     cbind (route_rule_grab_netv4 ''to'' cmd param) (\<lambda>x8.
     case x8 of Some (a, m) \<Rightarrow>
       Inr (Some (route\<lparr>rr_have_to_ipv4 := True, rr_to_ipv4_addr := a, rr_to_ipv4_mask := m\<rparr>))
     | None \<Rightarrow> Inr None))))))))"

text \<open>
  The first loop: commands up to \<open>via\<close>, a failure or the end of the text. The result is
  \<open>okay\<close>, the pointer to the rest and the rule.
\<close>

function parse_rule_cmds ::
  "string option \<Rightarrow> route_rule \<Rightarrow> (bool \<times> string option \<times> route_rule) cres" where
  "parse_rule_cmds None route = Inr (True, None, route)"
| "parse_rule_cmds (Some s) route =
     (let (cmd, p1) = strsep '' '' (Some s)
      in case cmd of
           None \<Rightarrow> Inr (True, p1, route)
         | Some c \<Rightarrow>
             if c = ''resolveDNS'' then parse_rule_cmds p1 (route\<lparr>rr_resolve_dns := True\<rparr>)
             else if c = ''via'' then Inr (True, p1, route)
             else
               let (param, p2) = strsep '' '' p1
               in cbind (route_rule_command c param route) (\<lambda>res.
                    case res of
                      None \<Rightarrow> Inr (False, p2, route)
                    | Some route' \<Rightarrow> parse_rule_cmds p2 route'))"
  by pat_completeness auto
termination
proof (relation "measure (\<lambda>(p, r). ptr_len p)", goal_cases)
  case (2 s route x cmd p1 c)
  then show ?case using strsep_pair_less [of cmd p1 "'' ''" s] by (simp del: strsep.simps)
next
  case (3 s route x cmd p1 c y param p2 res route')
  then have "ptr_len p1 < ptr_len (Some s)" "ptr_len p2 \<le> ptr_len p1"
    using strsep_pair_less [of cmd p1 "'' ''" s] strsep_pair_le [of param p2 "'' ''" p1]
    by (simp_all del: strsep.simps)
  then show ?case by simp
qed simp

text \<open>
  The second loop: the names after \<open>via\<close>, separated by spaces and commas. An unknown name
  fails; a name beyond the capacity of the array is ignored.
\<close>

function parse_rule_vias ::
  "ssh_tunnel list \<Rightarrow> string option \<Rightarrow> route_rule \<Rightarrow> bool \<times> route_rule" where
  "parse_rule_vias ssh_list None route = (True, route)"
| "parse_rule_vias ssh_list (Some s) route =
     (let (ssh_name, p1) = strsep '' ,'' (Some s)
      in if ssh_name \<noteq> None \<and> ssh_name \<noteq> Some [] then
           case find_ssh_by_name ssh_list (the ssh_name) of
             None \<Rightarrow> (False, route)
           | Some ssh \<Rightarrow>
               if length (rr_tunnel route) < ROUTE_RULE_MAX_SSH_TUNNELS_PER_RULE - 1
               then parse_rule_vias ssh_list p1 (route\<lparr>rr_tunnel := rr_tunnel route @ [st_id ssh]\<rparr>)
               else parse_rule_vias ssh_list p1 route
         else parse_rule_vias ssh_list p1 route)"
  by pat_completeness auto
termination
  by (relation "measure (\<lambda>(l, p, r). ptr_len p)")
     (auto dest!: strsep_pair_less simp del: strsep.simps)

declare parse_rule_cmds.simps(2) [simp del] parse_rule_vias.simps(2) [simp del]

definition parse_route_rule_spec ::
  "nat \<Rightarrow> string \<Rightarrow> string option \<Rightarrow> int \<Rightarrow> ssh_tunnel list \<Rightarrow> (route_rule option \<times> nat) cres" where
  "parse_route_rule_spec pool strIn filename line_num ssh_list =
     (let (route, pool) = new_route_rule pool;
          route = route\<lparr>rr_file_name := (case filename of None \<Rightarrow> [] | Some f \<Rightarrow> strncpy_term 4096 f),
                        rr_file_line_number := line_num\<rparr>
      in cbind (parse_rule_cmds (Some strIn) route) (\<lambda>(okay, p, route).
           if \<not> okay then Inr (None, pool)
           else
             let (okay, route) = parse_rule_vias ssh_list p route
             in Inr (if okay then Some route else None, pool)))"

end
