(* ===== verification/Client_Connection.thy ===== *)
theory Client_Connection
  imports Route_Rule
begin

text \<open>
  \<open>src/client_connection.h\<close> and \<open>src/client_connection.c\<close>: the state of one connection and
  the operations on it. The pointer to the routing rule is the rule (rules do not change
  once read), the pointer to a tunnel is its id, the pointer to the service is its id. The
  links \<open>prev\<close> and \<open>next\<close> belong to the list of connections. A connection is written by
  its own thread under its mutex; the operations here are the bodies of these critical
  sections, so the calls to lock and unlock have no counterpart.
\<close>

definition CCSTATUS_OKAY :: int where "CCSTATUS_OKAY = 0"

definition CCSTATUS_ERROR :: int where "CCSTATUS_ERROR = 1"

definition CCSTATUS_ERR_INTERNAL :: int where "CCSTATUS_ERR_INTERNAL = 2"

definition CCSTATUS_ERR_NETWORK :: int where "CCSTATUS_ERR_NETWORK = 3"

lemmas ccstatus_defs =
  CCSTATUS_OKAY_def CCSTATUS_ERROR_def CCSTATUS_ERR_INTERNAL_def CCSTATUS_ERR_NETWORK_def

record client_connection =
  cc_id :: nat
  cc_srv :: nat
  cc_fd_in :: int
  cc_fd_out :: int
  cc_pthread_create_called :: bool
  cc_pthread_create_value :: int
  cc_thread_should_exit :: bool
  cc_thread_has_exited :: bool
  cc_src_host :: host_id
  cc_bytes_tx :: u64
  cc_bytes_rx :: u64
  cc_start_time :: int
  cc_end_time :: int
  cc_status :: int
  cc_statusName :: string
  cc_statusDescription :: string
  cc_route :: "route_rule option"
  cc_tunnel :: "tun_ref option"
  cc_socks_version :: int
  cc_socks_command :: int
  cc_socks_command_original :: int
  cc_socks_address_type :: int
  cc_socks_address_type_original :: int
  cc_dst_host :: host_id
  cc_dst_host_original :: host_id
  cc_urlPath :: string
  cc_JSONStatusRequested :: bool
  cc_JSONStatusReady :: bool
  cc_JSONStatusStr :: "string option"
  cc_JSONStatusLen :: int

text \<open>
  \<open>memory\<close> is what \<open>malloc\<close> returned, \<open>None\<close> for none: the SOCKS fields and the value of
  \<open>pthread_create\<close> keep what it holds. The service is null, written 0. The counter of the
  numbers is unbounded here; in the code it has 64 bits.
\<close>

definition new_client_connection :: "client_connection option \<Rightarrow> nat \<Rightarrow> int \<Rightarrow> (client_connection \<times> nat) cres" where
  "new_client_connection memory id_pool now =
     (let id_pool = id_pool + 1
      in case memory of None \<Rightarrow> Inl (Exit 40) | Some mem \<Rightarrow>
         Inr (mem\<lparr>cc_id := id_pool, cc_srv := 0, cc_fd_in := -1, cc_fd_out := -1,
              cc_thread_should_exit := False, cc_thread_has_exited := False,
              cc_pthread_create_called := False,
              cc_bytes_rx := 0, cc_bytes_tx := 0,
              cc_start_time := now, cc_end_time := 0,
              cc_status := CCSTATUS_OKAY, cc_statusName := [], cc_statusDescription := [],
              cc_src_host := host_id_init (cc_src_host mem),
              cc_route := None, cc_tunnel := None, cc_urlPath := [],
              cc_dst_host := host_id_init (cc_dst_host mem),
              cc_dst_host_original := host_id_init (cc_dst_host_original mem),
              cc_JSONStatusRequested := False, cc_JSONStatusReady := False,
              cc_JSONStatusStr := None, cc_JSONStatusLen := 0\<rparr>,
          id_pool))"

definition client_connection_str :: "client_connection \<Rightarrow> nat \<Rightarrow> string" where
  "client_connection_str con buflen = host_id_str (cc_src_host con) buflen"

text \<open>
  The status texts are copied into buffers of 128 and 1024 bytes; a null text leaves the
  empty string.
\<close>

definition set_client_connection_status ::
  "client_connection \<Rightarrow> int \<Rightarrow> string option \<Rightarrow> string option \<Rightarrow> client_connection" where
  "set_client_connection_status con status statusName statusDescription =
     con\<lparr>cc_status := status,
         cc_statusName := (case statusName of None \<Rightarrow> [] | Some s \<Rightarrow> take 127 s),
         cc_statusDescription := (case statusDescription of None \<Rightarrow> [] | Some s \<Rightarrow> take 1023 s)\<rparr>"

text \<open>\<open>socks_connect_str_destination\<close> (src/socks_connection.c) compares the current destination with itself.\<close>

definition socks_connect_str_destination :: "client_connection \<Rightarrow> nat \<Rightarrow> string" where
  "socks_connect_str_destination con buflen =
     (let addr1 = host_id_str (cc_dst_host con) 1024;
          addr2 = host_id_str (cc_dst_host con) 1024
      in if addr1 = addr2 then take (buflen - 1) addr1
         else take (buflen - 1) (addr1 @ ''(changed to '' @ addr2 @ '')''))"

section \<open>Frame of the status\<close>

lemma set_status_frame [simp, frame_simps]:
  "cc_dst_host (set_client_connection_status con s n d) = cc_dst_host con"
  "cc_dst_host_original (set_client_connection_status con s n d) = cc_dst_host_original con"
  "cc_route (set_client_connection_status con s n d) = cc_route con"
  "cc_tunnel (set_client_connection_status con s n d) = cc_tunnel con"
  "cc_fd_in (set_client_connection_status con s n d) = cc_fd_in con"
  "cc_fd_out (set_client_connection_status con s n d) = cc_fd_out con"
  "cc_bytes_tx (set_client_connection_status con s n d) = cc_bytes_tx con"
  "cc_bytes_rx (set_client_connection_status con s n d) = cc_bytes_rx con"
  "cc_socks_version (set_client_connection_status con s n d) = cc_socks_version con"
  "cc_socks_command (set_client_connection_status con s n d) = cc_socks_command con"
  "cc_socks_address_type (set_client_connection_status con s n d) = cc_socks_address_type con"
  "cc_status (set_client_connection_status con s n d) = s"
  "cc_id (set_client_connection_status con s n d) = cc_id con"
  "cc_thread_has_exited (set_client_connection_status con s n d) = cc_thread_has_exited con"
  "cc_end_time (set_client_connection_status con s n d) = cc_end_time con"
  by (simp_all add: set_client_connection_status_def)

text \<open>
  The destination text never shows a change of destination: the code formats the current
  destination twice where the original one was meant.
\<close>

lemma socks_connect_str_destination_current:
  "socks_connect_str_destination con n = take (n - 1) (host_id_str (cc_dst_host con) 1024)"
  by (simp add: socks_connect_str_destination_def Let_def)

text \<open>What the main thread sets when it answers a request for the status document (\<open>src/server.c\<close>).\<close>

definition answer_status :: "string option \<Rightarrow> client_connection \<Rightarrow> client_connection" where
  "answer_status json con =
     con\<lparr>cc_JSONStatusStr := json, cc_JSONStatusLen := (case json of None \<Rightarrow> 0 | Some s \<Rightarrow> int (length s)),
         cc_JSONStatusReady := True\<rparr>"

text \<open>A connection whose identities are well-formed.\<close>

definition con_ok :: "client_connection \<Rightarrow> bool" where
  "con_ok con \<longleftrightarrow>
     host_id_ok (cc_src_host con) \<and> host_id_ok (cc_dst_host con) \<and> host_id_ok (cc_dst_host_original con)"

lemma con_ok_new: "new_client_connection mem p now = Inr (con, p') \<Longrightarrow> con_ok con"
  by (auto simp: new_client_connection_def con_ok_def Let_def split: option.splits)

lemma con_ok_status [simp]: "con_ok (set_client_connection_status con s n d) \<longleftrightarrow> con_ok con"
  by (simp add: con_ok_def set_client_connection_status_def)

text \<open>A connection as it looks when a client has just been accepted, for concrete runs.\<close>

definition blank_connection :: client_connection where
  "blank_connection =
     (let h = \<lparr>hid_name = [], hid_addr = AF_UNSPEC, hid_port = 0\<rparr>
      in \<lparr>cc_id = 1, cc_srv = 0, cc_fd_in = 5, cc_fd_out = -1, cc_pthread_create_called = True,
          cc_pthread_create_value = 0, cc_thread_should_exit = False, cc_thread_has_exited = False,
          cc_src_host = h, cc_bytes_tx = 0, cc_bytes_rx = 0, cc_start_time = 0, cc_end_time = 0,
          cc_status = 0, cc_statusName = [], cc_statusDescription = [], cc_route = None,
          cc_tunnel = None, cc_socks_version = 5, cc_socks_command = 1, cc_socks_command_original = 1,
          cc_socks_address_type = 1, cc_socks_address_type_original = 1, cc_dst_host = h,
          cc_dst_host_original = h, cc_urlPath = [], cc_JSONStatusRequested = False,
          cc_JSONStatusReady = False, cc_JSONStatusStr = None, cc_JSONStatusLen = 0\<rparr>)"

end
