(* ===== verification/Service.thy ===== *)
theory Service
  imports Client_Connection
begin

text \<open>
  \<open>src/service.h\<close>, \<open>src/service.c\<close>, \<open>src/listen_socket.c\<close> and the constructors and
  specification parsers of the three services (\<open>src/service_socks.c\<close>,
  \<open>src/service_port_forward.c\<close>, \<open>src/service_http.c\<close>). The sub-structures that start with a
  \<open>struct service\<close> are extensions of the record; the function pointers are tags.
\<close>

section \<open>The service structures\<close>

definition SERVICE_TYPE_NONE :: int where "SERVICE_TYPE_NONE = 0"
definition SERVICE_TYPE_SOCKS :: int where "SERVICE_TYPE_SOCKS = 1"
definition SERVICE_TYPE_PORT_FORWARD :: int where "SERVICE_TYPE_PORT_FORWARD = 2"
definition SERVICE_TYPE_HTTP :: int where "SERVICE_TYPE_HTTP = 3"

lemmas service_type_defs =
  SERVICE_TYPE_NONE_def SERVICE_TYPE_SOCKS_def SERVICE_TYPE_PORT_FORWARD_def SERVICE_TYPE_HTTP_def

datatype service_fn = Default_fn | Socks_fn | Port_forward_fn | Http_fn

record service =
  srv_id :: nat
  srv_type :: int
  srv_bind_address :: string
  srv_port :: int
  srv_fd :: int
  srv_str :: service_fn
  srv_connection_handler :: service_fn

record service_port_forward = service +
  pf_remote_host :: string
  pf_remote_port :: int

record service_http = service +
  http_base_dir :: string

definition new_service :: "int \<Rightarrow> nat \<Rightarrow> service \<times> nat" where
  "new_service ty service_id_pool =
     (let service_id_pool = service_id_pool + 1
      in (\<lparr>srv_id = service_id_pool, srv_type = ty, srv_bind_address = [], srv_port = 0, srv_fd = -1,
           srv_str = Default_fn, srv_connection_handler = Default_fn\<rparr>, service_id_pool))"

definition insert_service :: "'a list \<Rightarrow> 'a \<Rightarrow> 'a list" where
  "insert_service head srv = srv # head"

definition service_type_str :: "int \<Rightarrow> string" where
  "service_type_str ty =
     (if ty = SERVICE_TYPE_SOCKS then ''SOCKS''
      else if ty = SERVICE_TYPE_PORT_FORWARD then ''FWD''
      else if ty = SERVICE_TYPE_HTTP then ''HTTP''
      else ''Unknown/Error'')"

definition service_default_str :: "'a service_scheme \<Rightarrow> nat \<Rightarrow> string" where
  "service_default_str srv buflen =
     take (buflen - 2)
       (show_nat (srv_id srv) @ '':'' @ service_type_str (srv_type srv) @ '':'' @ show_int (srv_port srv))"

definition service_port_forward_str :: "service_port_forward \<Rightarrow> nat \<Rightarrow> string" where
  "service_port_forward_str fwd buflen =
     take (buflen - 2)
       (show_nat (srv_id fwd) @ '':FWD:'' @ srv_bind_address fwd @ '':'' @ show_int (srv_port fwd)
        @ '':'' @ pf_remote_host fwd @ '':'' @ show_int (pf_remote_port fwd))"

definition service_http_str :: "service_http \<Rightarrow> nat \<Rightarrow> string" where
  "service_http_str http buflen =
     take (buflen - 2) (show_nat (srv_id http) @ '':HTTP:'' @ show_int (srv_port http))"

section \<open>The constructors of the three services\<close>

definition new_service_socks :: "nat \<Rightarrow> service \<times> nat" where
  "new_service_socks pool =
     (let (s, pool) = new_service SERVICE_TYPE_SOCKS pool
      in (s\<lparr>srv_str := Socks_fn, srv_connection_handler := Socks_fn\<rparr>, pool))"

definition new_service_port_forward :: "nat \<Rightarrow> service_port_forward \<times> nat" where
  "new_service_port_forward pool =
     (let (s, pool) = new_service SERVICE_TYPE_PORT_FORWARD pool
      in ((service.extend s (service_port_forward.fields [] 0))
            \<lparr>srv_str := Port_forward_fn, srv_connection_handler := Port_forward_fn\<rparr>, pool))"

definition new_service_http :: "nat \<Rightarrow> service_http \<times> nat" where
  "new_service_http pool =
     (let (s, pool) = new_service SERVICE_TYPE_HTTP pool
      in ((service.extend s (service_http.fields []))
            \<lparr>srv_str := Http_fn, srv_connection_handler := Http_fn\<rparr>, pool))"

section \<open>The specification parsers\<close>

text \<open>
  The loop the three parsers share: \<open>part\<close> is the body of the switch, on the index of the
  part and its text; it gives \<open>None\<close> when it clears \<open>okay\<close>.
\<close>

function spec_parts :: "(nat \<Rightarrow> string \<Rightarrow> 's \<Rightarrow> 's option cres) \<Rightarrow> nat \<Rightarrow> string option \<Rightarrow> 's \<Rightarrow> 's option cres" where
  "spec_parts part index None s = Inr (Some s)"
| "spec_parts part index (Some str) s =
     (case strsep '':'' (Some str) of
        (None, p) \<Rightarrow> Inr (Some s)
      | (Some token, p) \<Rightarrow>
          cbind (part (index + 1) token s) (\<lambda>r.
          case r of None \<Rightarrow> Inr None | Some s \<Rightarrow> spec_parts part (index + 1) p s))"
  by pat_completeness auto
termination
  by (relation "measure (\<lambda>(part, index, p, s). ptr_len p)")
    (auto dest: strsep_pair_less strsep_pair_less [OF sym])

text \<open>The cases of the switch that are common: the address and the port.\<close>

definition spec_bind_address :: "string \<Rightarrow> 'a service_scheme \<Rightarrow> 'a service_scheme option cres" where
  "spec_bind_address token s = cmap (\<lambda>t. Some (s\<lparr>srv_bind_address := t\<rparr>)) (strncpy_open 300 token)"

definition spec_port :: "string \<Rightarrow> 'a service_scheme \<Rightarrow> 'a service_scheme option cres" where
  "spec_port token s =
     Inr (case sscanf_i token of None \<Rightarrow> None | Some v \<Rightarrow> Some (s\<lparr>srv_port := v\<rparr>))"

definition socks_part :: "nat \<Rightarrow> string \<Rightarrow> service \<Rightarrow> service option cres" where
  "socks_part index token s =
     (if index = 1 then spec_bind_address token s
      else if index = 2 then spec_port token s
      else Inr None)"

definition port_forward_part :: "nat \<Rightarrow> string \<Rightarrow> service_port_forward \<Rightarrow> service_port_forward option cres" where
  "port_forward_part index token s =
     (if index = 1 then spec_bind_address token s
      else if index = 2 then spec_port token s
      else if index = 3 then cmap (\<lambda>t. Some (s\<lparr>pf_remote_host := t\<rparr>)) (strncpy_open 300 token)
      else if index = 4 then
        Inr (case sscanf_i token of None \<Rightarrow> None | Some v \<Rightarrow> Some (s\<lparr>pf_remote_port := v\<rparr>))
      else Inr None)"

definition http_part :: "nat \<Rightarrow> string \<Rightarrow> service_http \<Rightarrow> service_http option cres" where
  "http_part index token s =
     (if index = 1 then spec_bind_address token s
      else if index = 2 then spec_port token s
      else if index = 3 then cmap (\<lambda>t. Some (s\<lparr>http_base_dir := t\<rparr>)) (strncpy_open 4096 token)
      else Inr None)"

text \<open>
  The SOCKS parser builds a service before it looks at the text and another one behind, so a
  SOCKS service takes two ids.
\<close>

definition parse_service_socks_spec :: "string \<Rightarrow> nat \<Rightarrow> (service option \<times> nat) cres" where
  "parse_service_socks_spec strIn pool =
     (let (leaked, pool) = new_service_socks pool;
          parts = string_count_char_instances strIn (CHR '':'') + 1
      in if parts < 1 \<or> parts > 2 then Inr (None, pool)
         else
           let (socks, pool) = new_service_socks pool;
               (index, socks) = (if parts = 1 then (1, socks\<lparr>srv_bind_address := ''127.0.0.1''\<rparr>) else (0, socks))
           in cmap (\<lambda>r. (r, pool)) (spec_parts socks_part index (Some strIn) socks))"

definition parse_service_port_forward_spec :: "string \<Rightarrow> nat \<Rightarrow> (service_port_forward option \<times> nat) cres" where
  "parse_service_port_forward_spec strIn pool =
     (let parts = string_count_char_instances strIn (CHR '':'') + 1
      in if parts < 3 \<or> parts > 4 then Inr (None, pool)
         else
           let (fwd, pool) = new_service_port_forward pool;
               (index, fwd) = (if parts = 3 then (1, fwd\<lparr>srv_bind_address := ''127.0.0.1''\<rparr>) else (0, fwd))
           in cmap (\<lambda>r. (r, pool)) (spec_parts port_forward_part index (Some strIn) fwd))"

definition parse_service_http_spec :: "string \<Rightarrow> nat \<Rightarrow> (service_http option \<times> nat) cres" where
  "parse_service_http_spec strIn pool =
     (let parts = string_count_char_instances strIn (CHR '':'') + 1
      in if parts < 2 \<or> parts > 3 then Inr (None, pool)
         else
           let (http, pool) = new_service_http pool;
               (index, http) = (if parts = 2 then (1, http\<lparr>srv_bind_address := ''127.0.0.1''\<rparr>) else (0, http))
           in cmap (\<lambda>r. (r, pool)) (spec_parts http_part index (Some strIn) http))"

section \<open>Listening\<close>

text \<open>
  The outcomes of the system calls; \<open>le_host\<close> is \<open>gethostbyname\<close>, with the first address in
  network order.
\<close>

record listen_env =
  le_socket :: int
  le_reuseaddr :: int
  le_reuseport :: int
  le_host :: "string \<Rightarrow> u32 option"
  le_bind :: int
  le_listen :: int

text \<open>The descriptor and the address it is bound to. A host that is not found is a null pointer.\<close>

definition listen_socket :: "listen_env \<Rightarrow> string \<Rightarrow> int \<Rightarrow> (int \<times> sockaddr_in) cres" where
  "listen_socket env listenInterface port =
     (if le_socket env < 0 then Inl (Exit 31)
      else if le_reuseaddr env = -1 then Inl (Exit 32)
      else if le_reuseport env = -1 then Inl (Exit 33)
      else if take 4 listenInterface \<noteq> ''127.'' then Inl (Exit 35)
      else (case le_host env listenInterface of
              None \<Rightarrow> Inl UB
            | Some a \<Rightarrow>
                let server_addr = \<lparr>sin_port = htons port, sin_addr = a\<rparr>
                in if le_bind env < 0 then Inl (Exit 36)
                   else if le_listen env < 0 then Inl (Exit 37)
                   else Inr (le_socket env, server_addr)))"

definition service_listen :: "listen_env \<Rightarrow> 'a service_scheme \<Rightarrow> 'a service_scheme cres" where
  "service_listen env srv =
     cmap (\<lambda>(fd, addr). srv\<lparr>srv_fd := fd\<rparr>) (listen_socket env (srv_bind_address srv) (srv_port srv))"

section \<open>Specifications are read back\<close>

lemma colon_free_show_nat [simp]: "CHR '':'' \<notin> set (show_nat n)"
  using show_nat_digits [of "CHR '':''" n] by (auto simp: c_isdigit_def)

lemma count_no_colon [simp]: "CHR '':'' \<notin> set s \<Longrightarrow> string_count_char_instances s (CHR '':'') = 0"
  by (simp add: string_count_char_instances_eq count_list_0_iff)

lemma count_append [simp]:
  "string_count_char_instances (s @ t) d = string_count_char_instances s d + string_count_char_instances t d"
  by (simp add: string_count_char_instances_eq)

lemma spec_parts_tok:
  assumes "CHR '':'' \<notin> set t"
  shows "spec_parts part i (Some (t @ CHR '':'' # r)) s =
    cbind (part (i + 1) t s) (\<lambda>x. case x of None \<Rightarrow> Inr None | Some s \<Rightarrow> spec_parts part (i + 1) (Some r) s)"
  by (subst spec_parts.simps(2)) (simp add: strsep_char_tok [OF assms] del: spec_parts.simps)

lemma spec_parts_last:
  assumes "CHR '':'' \<notin> set t"
  shows "spec_parts part i (Some t) s = part (i + 1) t s"
proof -
  have "strsep '':'' (Some t) = (Some t, None)" using assms by (intro strsep_last) auto
  then show ?thesis by (cases "part (i + 1) t s") (auto split: option.splits)
qed

text \<open>The text of a service, with its address or without.\<close>

definition bind_prefix :: "string option \<Rightarrow> string" where
  "bind_prefix b = (case b of None \<Rightarrow> [] | Some a \<Rightarrow> a @ '':'')"

definition bind_of :: "string option \<Rightarrow> string" where
  "bind_of b = (case b of None \<Rightarrow> ''127.0.0.1'' | Some a \<Rightarrow> a)"

definition spec_word :: "nat \<Rightarrow> string \<Rightarrow> bool" where
  "spec_word n s \<longleftrightarrow> CHR '':'' \<notin> set s \<and> length s < n"

lemma spec_bind_address_ok [simp]:
  "spec_word 299 t \<Longrightarrow> spec_bind_address t s = Inr (Some (s\<lparr>srv_bind_address := t\<rparr>))"
  by (simp add: spec_bind_address_def strncpy_open_def spec_word_def)

lemma spec_port_ok [simp]: "p < 2 ^ 31 \<Longrightarrow> spec_port (show_nat p) s = Inr (Some (s\<lparr>srv_port := int p\<rparr>))"
  by (simp add: spec_port_def sscanf_i_show_nat)

text \<open>
  C31: the three service specifications are read as they are written: address (127.0.0.1 when
  it is left out), port, and what the service adds are exactly those of the text, the service
  gets its type and its handler, and a fresh id (the SOCKS service the second of two).
\<close>

theorem parse_service_specs_roundtrip:
  assumes "case b of None \<Rightarrow> True | Some a \<Rightarrow> spec_word 299 a" and "p < 2 ^ 31"
    and "spec_word 299 host" and "q < 2 ^ 31" and "spec_word 4095 dir"
  shows "parse_service_socks_spec (bind_prefix b @ show_nat p) pool =
      Inr (Some \<lparr>srv_id = pool + 2, srv_type = SERVICE_TYPE_SOCKS, srv_bind_address = bind_of b, srv_port = int p,
                 srv_fd = -1, srv_str = Socks_fn, srv_connection_handler = Socks_fn\<rparr>, pool + 2) \<and>
    parse_service_port_forward_spec (bind_prefix b @ show_nat p @ '':'' @ host @ '':'' @ show_nat q) pool =
      Inr (Some \<lparr>srv_id = pool + 1, srv_type = SERVICE_TYPE_PORT_FORWARD, srv_bind_address = bind_of b,
                 srv_port = int p, srv_fd = -1, srv_str = Port_forward_fn,
                 srv_connection_handler = Port_forward_fn, pf_remote_host = host, pf_remote_port = int q\<rparr>, pool + 1) \<and>
    parse_service_http_spec (bind_prefix b @ show_nat p @ '':'' @ dir) pool =
      Inr (Some \<lparr>srv_id = pool + 1, srv_type = SERVICE_TYPE_HTTP, srv_bind_address = bind_of b, srv_port = int p,
                 srv_fd = -1, srv_str = Http_fn, srv_connection_handler = Http_fn, http_base_dir = dir\<rparr>, pool + 1)"
proof -
  have w: "CHR '':'' \<notin> set host" "length host < 299" "CHR '':'' \<notin> set dir" "length dir < 4095"
    using assms(3,5) by (simp_all add: spec_word_def)
  have c: "string_count_char_instances (CHR '':'' # s) (CHR '':'') = 1 + string_count_char_instances s (CHR '':'')" for s
    by simp
  note defs = parse_service_socks_spec_def parse_service_port_forward_spec_def parse_service_http_spec_def
    new_service_socks_def new_service_port_forward_def new_service_http_def new_service_def
    socks_part_def port_forward_part_def http_part_def bind_prefix_def bind_of_def Let_def
    spec_parts_tok spec_parts_last service.defs service_port_forward.defs service_http.defs
  show ?thesis
  proof (cases b)
    case None
    show ?thesis using assms(2,4) w unfolding None
      by (simp add: defs sscanf_i_show_nat strncpy_open_def del: spec_parts.simps)
  next
    case (Some a)
    then have a: "CHR '':'' \<notin> set a" "spec_word 299 a" using assms(1) by (simp_all add: spec_word_def)
    show ?thesis using assms(2,4) w a unfolding Some
      by (simp add: defs sscanf_i_show_nat strncpy_open_def del: spec_parts.simps)
  qed
qed

theorem parse_service_specs_roundtrip_witness:
  "spec_word 299 ''web.corp'' \<and>
   (\<exists>s. parse_service_port_forward_spec (bind_prefix None @ show_nat 123 @ '':web.corp:'' @ show_nat 321) 4 =
      Inr (Some s, 5) \<and> srv_bind_address s = ''127.0.0.1'' \<and> srv_port s = 123 \<and> pf_remote_host s = ''web.corp'' \<and>
      pf_remote_port s = 321)"
proof -
  have w: "spec_word 299 ''web.corp''" "spec_word 4095 ''html''" by (simp_all add: spec_word_def)
  from parse_service_specs_roundtrip [of None 123 "''web.corp''" 321 "''html''" 4] w show ?thesis by (simp add: bind_of_def)
qed

text \<open>
  The proxy listens on nothing whose text does not start with 127.: in every other case
  the process has ended (with 35) before it binds, and when it listens, the address bound is
  the one the resolver gives for that text and the port the 16 bits of the service's.
\<close>

theorem service_listen_loopback:
  "service_listen env srv = Inr srv' \<Longrightarrow>
     (\<exists>rest. srv_bind_address srv = ''127.'' @ rest) \<and> srv_fd srv' = le_socket env \<and> 0 \<le> le_socket env \<and>
     srv' = srv\<lparr>srv_fd := srv_fd srv'\<rparr> \<and>
     (\<exists>a. le_host env (srv_bind_address srv) = Some a \<and>
        listen_socket env (srv_bind_address srv) (srv_port srv) =
          Inr (srv_fd srv', \<lparr>sin_port = htons (srv_port srv), sin_addr = a\<rparr>))"
  unfolding service_listen_def listen_socket_def cmap_def
  by (auto simp: Let_def split: if_splits option.splits) (metis append_take_drop_id append_Cons append_Nil)

definition willing_net :: "u32 \<Rightarrow> listen_env" where
  "willing_net a = \<lparr>le_socket = 3, le_reuseaddr = 0, le_reuseport = 0, le_host = (\<lambda>_. Some a), le_bind = 0, le_listen = 0\<rparr>"

theorem service_listen_loopback_witness:
  "\<exists>srv'. service_listen (willing_net (htonl 0x7f000001)) (fst (new_service 1 0)\<lparr>srv_bind_address := ''127.0.0.1''\<rparr>) = Inr srv' \<and>
     srv_fd srv' = 3"
proof -
  obtain srv' where run: "service_listen (willing_net (htonl 0x7f000001))
      (fst (new_service 1 0)\<lparr>srv_bind_address := ''127.0.0.1''\<rparr>) = Inr srv'"
    by (simp add: service_listen_def listen_socket_def willing_net_def)
  from service_listen_loopback [OF this] run show ?thesis by (simp add: willing_net_def)
qed

text \<open>A host name that starts with 127. passes the same check, wherever it leads.\<close>

lemma listen_socket_name_passes:
  "listen_socket (willing_net (htonl 0x08080808)) ''127.example.org'' 1080 =
     Inr (3, \<lparr>sin_port = htons 1080, sin_addr = htonl 0x08080808\<rparr>)"
  by (simp add: listen_socket_def willing_net_def)

end
