(* ===== verification/Registry.thy ===== *)
theory Registry
  imports CString
begin

text \<open>
  Objects that are found by name or made when they are new: log files, proxy instances and
  ssh tunnels are kept in linked lists searched from the head, each with a way of its own to
  insert. What the configuration parser relies on is stated and proved once here.
\<close>

locale registry =
  fixes key :: "'a \<Rightarrow> string"
    and norm :: "string \<Rightarrow> string"
    and lookup :: "'a list \<Rightarrow> string \<Rightarrow> 'a option"
    and add :: "'a list \<Rightarrow> 'a \<Rightarrow> 'a list"
  assumes lookup_find: "lookup xs k = find (\<lambda>x. key x = norm k) xs"
    and norm_key: "norm (key x) = key x"
    and set_add: "set (add xs x) = insert x (set xs)"
    and length_add: "length (add xs x) = Suc (length xs)"
    and distinct_add: "distinct (map key xs) \<Longrightarrow> key x \<notin> key ` set xs \<Longrightarrow> distinct (map key (add xs x))"
begin

text \<open>Find, or make and insert.\<close>

definition obtain_obj :: "'a \<Rightarrow> 'a list \<Rightarrow> 'a \<times> 'a list" where
  "obtain_obj fresh xs = (case lookup xs (key fresh) of Some x \<Rightarrow> (x, xs) | None \<Rightarrow> (fresh, add xs fresh))"

lemma lookup_Some: "lookup xs k = Some x \<Longrightarrow> x \<in> set xs \<and> key x = norm k"
  by (auto simp: lookup_find find_Some_iff)

lemma lookup_None: "lookup xs k = None \<longleftrightarrow> norm k \<notin> key ` set xs"
  by (simp add: lookup_find find_None_iff image_iff) metis

lemma lookup_mem:
  assumes "distinct (map key xs)" and "x \<in> set xs"
  shows "lookup xs (key x) = Some x"
  using assms by (induction xs) (auto simp: lookup_find norm_key)

lemma obtain_distinct: "distinct (map key xs) \<Longrightarrow> distinct (map key (snd (obtain_obj fresh xs)))"
  by (auto simp: obtain_obj_def lookup_None norm_key distinct_add split: option.splits)

lemma obtain_key: "key (fst (obtain_obj fresh xs)) = key fresh"
  by (auto simp: obtain_obj_def norm_key dest: lookup_Some split: option.splits)

lemma obtain_keeps: "set xs \<subseteq> set (snd (obtain_obj fresh xs))"
  by (auto simp: obtain_obj_def set_add split: option.splits)

lemma obtain_mem: "fst (obtain_obj fresh xs) \<in> set (snd (obtain_obj fresh xs))"
  by (auto simp: obtain_obj_def set_add dest: lookup_Some split: option.splits)

text \<open>A second request for the same name gives the same object and changes nothing.\<close>

lemma obtain_again:
  assumes "distinct (map key xs)" and "obtain_obj fresh xs = (x, ys)" and "key fresh' = key fresh"
  shows "obtain_obj fresh' ys = (x, ys)"
proof -
  have "lookup ys (key x) = Some x"
    using lookup_mem [of ys x] obtain_distinct [OF assms(1), of fresh] obtain_mem [of fresh xs] assms(2) by simp
  moreover have "key x = key fresh'" using obtain_key [of fresh xs] assms(2,3) by simp
  ultimately show ?thesis by (simp add: obtain_obj_def)
qed

text \<open>What other names stand for does not change.\<close>

lemma obtain_other:
  assumes "distinct (map key xs)" and "norm k \<noteq> key fresh"
  shows "lookup (snd (obtain_obj fresh xs)) k = lookup xs k"
proof (cases "lookup xs (key fresh)")
  case None
  then have r: "snd (obtain_obj fresh xs) = add xs fresh" by (simp add: obtain_obj_def)
  have d: "distinct (map key (add xs fresh))" using None assms(1) by (simp add: lookup_None norm_key distinct_add)
  show ?thesis
  proof (cases "lookup xs k")
    case None
    then have "norm k \<notin> key ` set (add xs fresh)" using assms(2) by (auto simp: lookup_None set_add)
    then show ?thesis using None r lookup_None [of "add xs fresh" k] by simp
  next
    case (Some x)
    then have "x \<in> set (add xs fresh)" "key x = norm k" using lookup_Some set_add by blast+
    with lookup_mem [OF d] Some r show ?thesis by (metis lookup_find norm_key)
  qed
qed (simp add: obtain_obj_def)

end

text \<open>Looking up and replacing by name, on the model's lists.\<close>

definition update_first :: "('a \<Rightarrow> bool) \<Rightarrow> ('a \<Rightarrow> 'a) \<Rightarrow> 'a list \<Rightarrow> 'a list" where
  "update_first P f xs =
     takeWhile (\<lambda>x. \<not> P x) xs @ (case dropWhile (\<lambda>x. \<not> P x) xs of [] \<Rightarrow> [] | x # r \<Rightarrow> f x # r)"

lemma update_first_simps [simp]:
  "update_first P f [] = []"
  "update_first P f (x # xs) = (if P x then f x # xs else x # update_first P f xs)"
  by (simp_all add: update_first_def)

lemma map_update_first: "(\<And>x. g (f x) = g x) \<Longrightarrow> map g (update_first P f xs) = map g xs"
  by (induction xs) auto

lemma length_update_first [simp]: "length (update_first P f xs) = length xs"
  by (induction xs) auto

end
