(* ===== verification/Log_File.thy ===== *)
theory Log_File
  imports Log_Level Registry
begin

text \<open>
  \<open>src/log_file.h\<close> and \<open>src/log_file.c\<close>: the log files, found or made by name, written to
  and rotated. The mutex guards the bodies modelled here. The result of \<open>open\<close> is a
  parameter; the file system of the rotation is a map from names to contents.
\<close>

definition LOG_FILE_NAME_MAX_LEN :: nat where "LOG_FILE_NAME_MAX_LEN = 2048"
definition LOG_FILE_DEFAULT_BYTE_COUNT_MAX :: int where "LOG_FILE_DEFAULT_BYTE_COUNT_MAX = 1024 * 1024 * 20"
definition LOG_FILE_DEFAULT_FILE_ROTATE_COUNT :: int where "LOG_FILE_DEFAULT_FILE_ROTATE_COUNT = 4"

record log_file =
  lf_file_name :: string
  lf_fd :: int
  lf_byte_count :: int
  lf_can_rotate :: bool
  lf_byte_count_max :: int
  lf_file_rotate_count :: int

definition new_log_file :: "string option \<Rightarrow> log_file" where
  "new_log_file filename =
     (let name = strncpy_term LOG_FILE_NAME_MAX_LEN (case filename of None \<Rightarrow> ''-'' | Some f \<Rightarrow> f)
      in \<lparr>lf_file_name = name, lf_fd = -1, lf_byte_count = 0, lf_can_rotate = (name \<noteq> ''-''),
          lf_byte_count_max = LOG_FILE_DEFAULT_BYTE_COUNT_MAX,
          lf_file_rotate_count = LOG_FILE_DEFAULT_FILE_ROTATE_COUNT\<rparr>)"

definition insert_log_file :: "log_file list \<Rightarrow> log_file \<Rightarrow> log_file list" where
  "insert_log_file head log = log # head"

definition new_log_file_from_template :: "log_file \<Rightarrow> string \<Rightarrow> log_file" where
  "new_log_file_from_template template filename =
     (new_log_file (Some filename))
       \<lparr>lf_byte_count_max := lf_byte_count_max template, lf_file_rotate_count := lf_file_rotate_count template\<rparr>"

definition log_file_str :: "log_file \<Rightarrow> nat \<Rightarrow> string cres" where
  "log_file_str log buflen = (if length (lf_file_name log) < buflen then Inr (lf_file_name log) else Inl UB)"

text \<open>\<open>strncmp\<close> over the first 2047 characters.\<close>

definition find_log_file :: "log_file list \<Rightarrow> string \<Rightarrow> log_file option" where
  "find_log_file head filename =
     find (\<lambda>log. take (LOG_FILE_NAME_MAX_LEN - 1) (lf_file_name log) = take (LOG_FILE_NAME_MAX_LEN - 1) filename) head"

definition find_or_create_log_file :: "log_file list \<Rightarrow> log_file option \<Rightarrow> string \<Rightarrow> log_file \<times> log_file list" where
  "find_or_create_log_file head template filename =
     (case find_log_file head filename of
        Some log \<Rightarrow> (log, head)
      | None \<Rightarrow>
          let log = (case template of Some t \<Rightarrow> new_log_file_from_template t filename
                     | None \<Rightarrow> new_log_file (Some filename))
          in (log, insert_log_file head log))"

section \<open>Opening and writing\<close>

text \<open>
  \<open>open_rc\<close> is the result of \<open>open\<close>. The offset that \<open>lseek (fd, 0, SEEK_CUR)\<close> reports behind
  an \<open>open\<close> is 0, also for a file that has contents and is opened for appending.
\<close>

definition log_file_open :: "int \<Rightarrow> log_file \<Rightarrow> log_file" where
  "log_file_open open_rc log =
     (if lf_fd log \<ge> 0 then log
      else if lf_file_name log = ''-'' then log\<lparr>lf_fd := 1\<rparr>
      else if open_rc < 0 then log
      else log\<lparr>lf_fd := open_rc, lf_byte_count := 0\<rparr>)"

text \<open>The log file afterwards and the descriptor the text goes to, if it goes anywhere.\<close>

definition log_file_write :: "int \<Rightarrow> log_file option \<Rightarrow> string \<Rightarrow> log_file option \<times> (int \<times> string) option" where
  "log_file_write open_rc log buf =
     (case log of
        None \<Rightarrow> (None, Some (1, buf))
      | Some l \<Rightarrow>
          let l = (if lf_fd l < 0 then log_file_open open_rc l else l)
          in if lf_fd l < 0 then (Some l, None)
             else (Some (l\<lparr>lf_byte_count := lf_byte_count l + int (length buf)\<rparr>), Some (lf_fd l, buf)))"

section \<open>Rotation\<close>

type_synonym 'c file_map = "string \<Rightarrow> 'c option"

text \<open>A name that does not exist is passed over (\<open>ENOENT\<close>).\<close>

definition sys_rename :: "'c file_map \<Rightarrow> string \<Rightarrow> string \<Rightarrow> 'c file_map" where
  "sys_rename fs oldfile newfile =
     (case fs oldfile of None \<Rightarrow> fs | Some c \<Rightarrow> fs(oldfile := None, newfile := Some c))"

definition rotated_name :: "string \<Rightarrow> nat \<Rightarrow> string" where
  "rotated_name name i = (if i > 0 then name @ ''.'' @ show_nat i else name)"

text \<open>
  The loop for \<open>i - 1\<close> down to 0. \<open>denied\<close> says which renames fail with another error. A name
  that does not fit the 2048 bytes of the local buffers overflows them.
\<close>

fun rotate_loop :: "(string \<Rightarrow> string \<Rightarrow> bool) \<Rightarrow> string \<Rightarrow> nat \<Rightarrow> 'c file_map \<Rightarrow> 'c file_map cres" where
  "rotate_loop denied name 0 fs = Inr fs"
| "rotate_loop denied name (Suc i) fs =
     (let oldfile = rotated_name name i; newfile = rotated_name name (Suc i)
      in if length newfile \<ge> LOG_FILE_NAME_MAX_LEN then Inl UB
         else if denied oldfile newfile then Inl (Exit 4)
         else rotate_loop denied name i (sys_rename fs oldfile newfile))"

text \<open>Closing a descriptor that is not open ends the process.\<close>

definition log_file_rotate ::
  "(string \<Rightarrow> string \<Rightarrow> bool) \<Rightarrow> 'c file_map \<Rightarrow> log_file \<Rightarrow> ('c file_map \<times> log_file) cres" where
  "log_file_rotate denied fs log =
     (if \<not> lf_can_rotate log then Inr (fs, log)
      else if lf_byte_count log < lf_byte_count_max log then Inr (fs, log)
      else
        cbind (rotate_loop denied (lf_file_name log) (nat (lf_file_rotate_count log)) fs) (\<lambda>fs.
        if lf_fd log < 0 then Inl (Exit 3)
        else Inr (fs, log\<lparr>lf_fd := -1, lf_byte_count := 0\<rparr>)))"

section \<open>One log file per name\<close>

definition log_key :: "log_file \<Rightarrow> string" where
  "log_key log = take (LOG_FILE_NAME_MAX_LEN - 1) (lf_file_name log)"

interpretation logs: registry log_key "take (LOG_FILE_NAME_MAX_LEN - 1)" find_log_file insert_log_file
  by unfold_locales (auto simp: log_key_def find_log_file_def insert_log_file_def)

definition fresh_log :: "log_file option \<Rightarrow> string \<Rightarrow> log_file" where
  "fresh_log template filename =
     (case template of Some t \<Rightarrow> new_log_file_from_template t filename | None \<Rightarrow> new_log_file (Some filename))"

lemma fresh_log_key: "log_key (fresh_log template filename) = take (LOG_FILE_NAME_MAX_LEN - 1) filename"
  by (simp add: fresh_log_def log_key_def new_log_file_from_template_def new_log_file_def strncpy_term_def Let_def
      split: option.splits)

lemma find_log_file_norm: "find_log_file head (take (LOG_FILE_NAME_MAX_LEN - 1) filename) = find_log_file head filename"
  by (simp add: find_log_file_def)

lemma find_or_create_obtains:
  "find_or_create_log_file head template filename = logs.obtain_obj (fresh_log template filename) head"
  unfolding logs.obtain_obj_def fresh_log_key find_log_file_norm
  by (simp add: find_or_create_log_file_def fresh_log_def Let_def split: option.splits)

text \<open>
  For a given name only one log file exists: \<open>find_or_create_log_file\<close> keeps the names
  distinct, gives a file of that name, keeps every file there was, leaves what every other
  name stands for, and asked again for the same name gives the same file and creates nothing.
\<close>

theorem find_or_create_unique:
  assumes "distinct (map log_key head)" and "find_or_create_log_file head template filename = (log, head')"
  shows "distinct (map log_key head') \<and> log_key log = take 2047 filename \<and> log \<in> set head' \<and> set head \<subseteq> set head' \<and>
    find_or_create_log_file head' template' filename = (log, head') \<and>
    (take 2047 other \<noteq> take 2047 filename \<longrightarrow> find_log_file head' other = find_log_file head other)"
proof -
  let ?x = "fresh_log template filename"
  have o: "logs.obtain_obj ?x head = (log, head')" using assms(2) by (simp add: find_or_create_obtains)
  have n: "LOG_FILE_NAME_MAX_LEN - 1 = 2047" by (simp add: LOG_FILE_NAME_MAX_LEN_def)
  have "find_or_create_log_file head' template' filename = (log, head')"
    using logs.obtain_again [OF assms(1) o, of "fresh_log template' filename"]
    by (simp add: find_or_create_obtains fresh_log_key)
  moreover have "take 2047 other \<noteq> take 2047 filename \<longrightarrow> find_log_file head' other = find_log_file head other"
    using logs.obtain_other [OF assms(1), of other ?x, unfolded fresh_log_key n o snd_conv] by blast
  ultimately show ?thesis
    using logs.obtain_distinct [OF assms(1), of ?x] logs.obtain_key [of ?x head] logs.obtain_mem [of ?x head]
      logs.obtain_keeps [of head ?x] unfolding o fresh_log_key n fst_conv snd_conv by blast
qed

theorem find_or_create_unique_witness:
  "let log = new_log_file (Some ''a.log'') in
   find_or_create_log_file [log] None ''a.log'' = (log, [log]) \<and>
   find_log_file [log] ''b.log'' = find_log_file [log] ''b.log''"
proof -
  let ?log = "new_log_file (Some ''a.log'')"
  have r: "find_or_create_log_file [?log] None ''a.log'' = (?log, [?log])"
    by (simp add: find_or_create_log_file_def find_log_file_def new_log_file_def strncpy_term_def Let_def)
  have d: "distinct (map log_key [?log])" by simp
  from find_or_create_unique [OF d r, of None "''b.log''"] show ?thesis unfolding Let_def by blast
qed

section \<open>Rotation shifts\<close>

lemma rotated_name_inj: "rotated_name name i = rotated_name name j \<longleftrightarrow> i = j"
proof
  assume "rotated_name name i = rotated_name name j"
  then show "i = j" by (auto simp: rotated_name_def dest: show_nat_inj split: if_splits)
qed simp

text \<open>What the name number \<open>j\<close> stands for behind the loop for the numbers below \<open>k\<close>.\<close>

definition shifted :: "'c file_map \<Rightarrow> string \<Rightarrow> nat \<Rightarrow> nat \<Rightarrow> 'c option" where
  "shifted fs name k j =
     (if j > k then fs (rotated_name name j)
      else if j = 0 then (if k = 0 then fs name else None)
      else (case fs (rotated_name name (j - 1)) of
              Some c \<Rightarrow> Some c
            | None \<Rightarrow> if j = k then fs (rotated_name name j) else None))"

lemma rotate_loop_shifts:
  assumes "\<forall>i < k. \<not> denied (rotated_name name i) (rotated_name name (Suc i))"
    and "\<forall>i \<le> k. length (rotated_name name i) < LOG_FILE_NAME_MAX_LEN"
  shows "\<exists>fs'. rotate_loop denied name k fs = Inr fs' \<and> (\<forall>j. fs' (rotated_name name j) = shifted fs name k j) \<and>
    (\<forall>f. f \<notin> range (rotated_name name) \<longrightarrow> fs' f = fs f)"
  using assms
proof (induction k arbitrary: fs)
  case 0
  then show ?case by (auto simp: shifted_def rotated_name_def)
next
  case (Suc k)
  let ?fs = "sys_rename fs (rotated_name name k) (rotated_name name (Suc k))"
  obtain fs' where ih: "rotate_loop denied name k ?fs = Inr fs'" "\<forall>j. fs' (rotated_name name j) = shifted ?fs name k j"
    "\<forall>f. f \<notin> range (rotated_name name) \<longrightarrow> fs' f = ?fs f"
    using Suc.IH [of ?fs] Suc.prems by auto
  have "rotate_loop denied name (Suc k) fs = Inr fs'"
    using ih(1) Suc.prems by (simp add: Let_def not_le)
  moreover have "shifted ?fs name k j = shifted fs name (Suc k) j" for j
  proof -
    have r: "?fs (rotated_name name i) = (case fs (rotated_name name k) of None \<Rightarrow> fs (rotated_name name i)
        | Some c \<Rightarrow> if i = Suc k then Some c else if i = k then None else fs (rotated_name name i))" for i
      by (auto simp: sys_rename_def rotated_name_inj split: option.splits)
    have r0: "rotated_name name 0 = name" by (simp add: rotated_name_def)
    have rn: "?fs name = (case fs (rotated_name name k) of None \<Rightarrow> fs name
        | Some c \<Rightarrow> if 0 = Suc k then Some c else if 0 = k then None else fs name)"
      using r [of 0] unfolding r0 .
    consider "j > Suc k" | "j = Suc k" | "j = 0" | "0 < j" "j \<le> k" by linarith
    then show ?thesis
    proof cases
      case 3
      then show ?thesis using rn r0 by (cases k; cases "fs (rotated_name name k)") (simp_all add: shifted_def)
    next
      case 4
      then have "j - 1 \<noteq> k" "j - 1 \<noteq> Suc k" by linarith+
      then have "?fs (rotated_name name (j - 1)) = fs (rotated_name name (j - 1))"
        by (cases "fs (rotated_name name k)") (simp_all add: r)
      moreover have "?fs (rotated_name name k) = None" by (cases "fs (rotated_name name k)") (simp_all add: r)
      ultimately show ?thesis using 4 by (cases "fs (rotated_name name (j - 1))") (simp_all add: shifted_def)
    qed (cases "fs (rotated_name name k)"; simp add: shifted_def r)+
  qed
  moreover have "?fs f = fs f" if "f \<notin> range (rotated_name name)" for f
    using that by (auto simp: sys_rename_def split: option.splits)
  ultimately show ?case using ih by auto
qed

text \<open>
  C39: a rotation keeps the newest files: when a log that is full is rotated with a count of
  \<open>n > 0\<close> (and no rename fails, and the names fit), what was in \<open>name\<close> is in \<open>name.1\<close>, what
  was in \<open>name.i\<close> is in \<open>name.(i+1)\<close> for each \<open>i < n\<close>, a number whose predecessor did not exist
  is free (except \<open>name.n\<close>, which then stays what it was), and \<open>name\<close> itself is gone so that the
  next message creates it anew. No file but \<open>name\<close>, \<open>name.1\<close>, ..., \<open>name.n\<close> is touched, in
  particular none with a higher number; the log is closed and its count reset.
\<close>

theorem log_file_rotate_keeps:
  assumes "lf_can_rotate log" and "lf_byte_count_max log \<le> lf_byte_count log" and "0 \<le> lf_fd log"
    and "lf_file_rotate_count log = int n" and "0 < n"
    and "\<forall>i < n. \<not> denied (rotated_name (lf_file_name log) i) (rotated_name (lf_file_name log) (Suc i))"
    and "\<forall>i \<le> n. length (rotated_name (lf_file_name log) i) < 2048"
  shows "\<exists>fs'. log_file_rotate denied fs log = Inr (fs', log\<lparr>lf_fd := -1, lf_byte_count := 0\<rparr>) \<and>
    fs' (lf_file_name log) = None \<and>
    (\<forall>i < n. fs' (rotated_name (lf_file_name log) (i + 1)) =
       (case fs (rotated_name (lf_file_name log) i) of
          Some c \<Rightarrow> Some c
        | None \<Rightarrow> if i + 1 = n then fs (rotated_name (lf_file_name log) n) else None)) \<and>
    (\<forall>f. f \<notin> rotated_name (lf_file_name log) ` {..n} \<longrightarrow> fs' f = fs f)"
proof -
  let ?name = "lf_file_name log"
  obtain fs' where l: "rotate_loop denied ?name n fs = Inr fs'" "\<forall>j. fs' (rotated_name ?name j) = shifted fs ?name n j"
    "\<forall>f. f \<notin> range (rotated_name ?name) \<longrightarrow> fs' f = fs f"
    using rotate_loop_shifts [OF assms(6), of fs] assms(7) by (auto simp: LOG_FILE_NAME_MAX_LEN_def)
  have "fs' ?name = None" using l(2) [rule_format, of 0] assms(5) by (simp add: shifted_def rotated_name_def)
  moreover have "fs' (rotated_name ?name (i + 1)) = (case fs (rotated_name ?name i) of
      Some c \<Rightarrow> Some c | None \<Rightarrow> if i + 1 = n then fs (rotated_name ?name n) else None)" if "i < n" for i
    using l(2) [rule_format, of "i + 1"] that by (auto simp: shifted_def split: option.split)
  moreover have "fs' f = fs f" if "f \<notin> rotated_name ?name ` {..n}" for f
  proof (cases "f \<in> range (rotated_name ?name)")
    case True
    then obtain j where "f = rotated_name ?name j" "j > n" using \<open>f \<notin> rotated_name ?name ` {..n}\<close> by force
    then show ?thesis using l(2) by (simp add: shifted_def)
  qed (use l(3) in simp)
  ultimately show ?thesis using l(1) assms(1-4) by (auto simp: log_file_rotate_def)
qed

theorem log_file_rotate_keeps_witness:
  "let log = (new_log_file (Some ''a''))\<lparr>lf_byte_count := 30000000, lf_fd := 5\<rparr> in
   \<exists>fs'. log_file_rotate (\<lambda>_ _. False) [''a'' \<mapsto> 7, rotated_name ''a'' 1 \<mapsto> (8::nat)] log =
       Inr (fs', log\<lparr>lf_fd := -1, lf_byte_count := 0\<rparr>) \<and> fs' ''a'' = None \<and> fs' (rotated_name ''a'' 2) = Some 8"
proof -
  let ?log = "(new_log_file (Some ''a''))\<lparr>lf_byte_count := 30000000, lf_fd := 5\<rparr>"
  let ?fs = "[''a'' \<mapsto> 7, rotated_name ''a'' 1 \<mapsto> (8::nat)]"
  have n: "lf_file_name ?log = ''a''" "lf_can_rotate ?log" "lf_byte_count_max ?log = 20971520"
    "lf_file_rotate_count ?log = int 4"
    by (simp_all add: new_log_file_def strncpy_term_def LOG_FILE_NAME_MAX_LEN_def LOG_FILE_DEFAULT_BYTE_COUNT_MAX_def
        LOG_FILE_DEFAULT_FILE_ROTATE_COUNT_def Let_def)
  have "length (rotated_name ''a'' i) < 2048" if "i \<le> 4" for i :: nat
  proof -
    have "i \<in> {0, 1, 2, 3, 4}" using that by auto
    then show ?thesis by (auto simp: rotated_name_def show_nat.simps [of "Suc 0"] show_nat.simps [of 2] show_nat.simps [of 3] show_nat.simps [of 4])
  qed
  then obtain fs' where "log_file_rotate (\<lambda>_ _. False) ?fs ?log = Inr (fs', ?log\<lparr>lf_fd := -1, lf_byte_count := 0\<rparr>)"
    "fs' ''a'' = None" "\<forall>i < 4. fs' (rotated_name ''a'' (i + 1)) = (case ?fs (rotated_name ''a'' i) of
      Some c \<Rightarrow> Some c | None \<Rightarrow> if i + 1 = 4 then ?fs (rotated_name ''a'' 4) else None)"
    using log_file_rotate_keeps [of ?log 4 "\<lambda>_ _. False" ?fs, unfolded n(1)] n by auto
  moreover from this(3) [rule_format, of 1] have "fs' (rotated_name ''a'' 2) = Some 8" by (simp add: numeral_2_eq_2)
  ultimately show ?thesis unfolding Let_def by blast
qed

text \<open>
  A log that is full at once, because its limit is 0, is closed before anything has opened it:
  the process ends.
\<close>

lemma rotate_unopened_exits:
  "lf_can_rotate log \<Longrightarrow> lf_byte_count_max log \<le> lf_byte_count log \<Longrightarrow> lf_fd log < 0 \<Longrightarrow> lf_file_rotate_count log \<le> 0 \<Longrightarrow>
     log_file_rotate denied fs log = Inl (Exit 3)"
  by (simp add: log_file_rotate_def)

end
