(* ===== verification/Proxy_Instance.thy ===== *)
theory Proxy_Instance
  imports Service Log_File
begin

text \<open>
  \<open>src/proxy_instance.h\<close> and \<open>src/proxy_instance.c\<close>, and \<open>src/main_config.h\<close> with
  \<open>src/main_config.c\<close>. The list of services holds the three sub-structures of \<open>service\<close>; a
  log file is referred to by its name, which is unique.
\<close>

datatype any_service = Socks_srv service | Port_forward_srv service_port_forward | Http_srv service_http

record proxy_instance =
  pi_name :: string
  pi_log :: log_config
  pi_service_list :: "any_service list"
  pi_route_rule_list :: "route_rule list"
  pi_client_connection_list :: "client_connection list"

definition new_proxy_instance :: "log_config \<Rightarrow> proxy_instance" where
  "new_proxy_instance mem =
     \<lparr>pi_name = ''x'', pi_log = (log_config_init mem)\<lparr>lc_level := LOG_LEVEL_ERROR\<rparr>, pi_service_list = [],
      pi_route_rule_list = [], pi_client_connection_list = []\<rparr>"

fun insert_proxy_instance :: "proxy_instance list \<Rightarrow> proxy_instance \<Rightarrow> proxy_instance list" where
  "insert_proxy_instance [] pinst = [pinst]"
| "insert_proxy_instance (p # ps) pinst = p # insert_proxy_instance ps pinst"

definition new_proxy_instance_from_template :: "log_config \<Rightarrow> proxy_instance option \<Rightarrow> proxy_instance" where
  "new_proxy_instance_from_template mem template =
     (let pinst = new_proxy_instance mem
      in case template of
           None \<Rightarrow> pinst
         | Some t \<Rightarrow> pinst\<lparr>pi_log := (pi_log pinst)\<lparr>lc_level := lc_level (pi_log t), lc_file := lc_file (pi_log t)\<rparr>\<rparr>)"

text \<open>A level without a name formats a null pointer.\<close>

definition proxy_instance_str :: "proxy_instance \<Rightarrow> nat \<Rightarrow> string cres" where
  "proxy_instance_str pinst buflen =
     (case log_level_str (lc_level (pi_log pinst)) of
        None \<Rightarrow> Inl UB
      | Some l \<Rightarrow>
          Inr (take (buflen - 1)
            (pi_name pinst @ '' log verbosity '' @ l @ '' to '' @
              (case lc_file (pi_log pinst) of None \<Rightarrow> ''STDOUT'' | Some f \<Rightarrow> f))))"

text \<open>The search loop of the configuration parser, and the name it gives a new instance.\<close>

definition find_proxy_by_name :: "proxy_instance list \<Rightarrow> string \<Rightarrow> proxy_instance option" where
  "find_proxy_by_name proxies n = find (\<lambda>p. n = pi_name p) proxies"

definition set_proxy_name :: "proxy_instance \<Rightarrow> string \<Rightarrow> proxy_instance cres" where
  "set_proxy_name proxy s = cmap (\<lambda>n. proxy\<lparr>pi_name := n\<rparr>) (strncpy_open 1024 s)"

lemma insert_proxy_instance_append: "insert_proxy_instance ps p = ps @ [p]"
  by (induction ps) auto

interpretation proxies: registry pi_name "\<lambda>n. n" find_proxy_by_name insert_proxy_instance
  by unfold_locales (auto simp: find_proxy_by_name_def insert_proxy_instance_append eq_commute)

interpretation tunnels: registry st_name "\<lambda>n. n" find_ssh_by_name insert_ssh_tunnel
  by unfold_locales (auto simp: find_ssh_by_name_def insert_ssh_tunnel_def)

record main_config =
  mc_ulimit :: int
  mc_log :: log_config

definition main_config_init :: "main_config \<Rightarrow> main_config" where
  "main_config_init main_conf = main_conf\<lparr>mc_ulimit := 4096, mc_log := log_config_init (mc_log main_conf)\<rparr>"

end
