(* ===== verification/Config_File.thy ===== *)
theory Config_File
  imports Config_Line Proxy_Instance "HOL-Library.List_Lexorder" "HOL-Library.Char_ord"
begin

text \<open>
  \<open>src/config_file.c\<close>, from the lines to the configuration: the sections, their entries, the
  rule files and the rule directories, and the files that include others. The file system and
  the environment are parameters. A pointer to a log file is its name, to a proxy instance its
  name, to a tunnel its id; the objects that hold the defaults are not in the lists.
\<close>

record config_env =
  ce_open :: "string \<Rightarrow> file_read list option"
  ce_getenv :: "string \<Rightarrow> string option"
  ce_dir :: "string \<Rightarrow> (string \<times> bool) list option"
  ce_ssh_mem :: "nat \<Rightarrow> ssh_tunnel"
  ce_log_mem :: "nat \<Rightarrow> log_config"

text \<open>What the pointers passed to \<open>config_file_parse\<close> reach, with the three id pools.\<close>

record config =
  cf_log_files :: "log_file list"
  cf_log_default :: log_file
  cf_main :: main_config
  cf_proxies :: "proxy_instance list"
  cf_proxy_default :: proxy_instance
  cf_tunnels :: "ssh_tunnel list"
  cf_ssh_default :: ssh_tunnel
  cf_globals :: ssh_globals
  cf_rule_pool :: nat
  cf_service_pool :: nat

datatype 'k obj_ref = Default | Named 'k

text \<open>The variables \<open>main\<close>, \<open>log_current\<close>, \<open>proxy_current\<close> and \<open>ssh_current\<close>, one of which is set at most.\<close>

datatype config_section =
  No_section | Main_section | Log_section "string obj_ref" | Proxy_section "string obj_ref" | Ssh_section "tun_ref obj_ref"

section \<open>Fields\<close>

definition match_start :: "string \<Rightarrow> string \<Rightarrow> string option" where
  "match_start line match = (if string_starts_with line match then Some (drop (length match) line) else None)"

text \<open>The value to store; \<open>None\<close> is the return code 0.\<close>

definition config_set_long :: "string \<Rightarrow> string \<Rightarrow> int option" where
  "config_set_long line field = (case match_start line field of None \<Rightarrow> None | Some v \<Rightarrow> sscanf_li v)"

definition config_set_int :: "string \<Rightarrow> string \<Rightarrow> int option" where
  "config_set_int line field = (case match_start line field of None \<Rightarrow> None | Some v \<Rightarrow> sscanf_i v)"

definition config_set_string :: "string \<Rightarrow> string \<Rightarrow> nat \<Rightarrow> string option cres" where
  "config_set_string line field dstLen =
     (case match_start line field of
        None \<Rightarrow> Inr None
      | Some v \<Rightarrow> if length v = 0 then Inr None else cmap Some (strncpy_open dstLen v))"

definition STRING_BUF :: nat where "STRING_BUF = 8192"

section \<open>Sections\<close>

definition config_file_parse_main :: "string \<Rightarrow> bool" where
  "config_file_parse_main line \<longleftrightarrow> line = ''main''"

definition config_file_parse_log_file :: "string \<Rightarrow> config \<Rightarrow> (string obj_ref \<times> config) option cres" where
  "config_file_parse_log_file line cf =
     (if \<not> string_starts_with line ''logfile '' then Inr None
      else
        let sect = drop 8 line
        in if length sect \<le> 0 then Inl (Exit 1)
           else if sect = ''default'' then Inr (Some (Default, cf))
           else
             let (log, logs) = find_or_create_log_file (cf_log_files cf) (Some (cf_log_default cf)) sect
             in Inr (Some (Named (lf_file_name log), cf\<lparr>cf_log_files := logs\<rparr>)))"

definition config_file_parse_proxy_instance ::
  "config_env \<Rightarrow> string \<Rightarrow> config \<Rightarrow> (string obj_ref \<times> config) option cres" where
  "config_file_parse_proxy_instance env line cf =
     (if \<not> string_starts_with line ''proxy '' then Inr None
      else
        let sect = drop 6 line
        in if length sect \<le> 0 then Inl (Exit 1)
           else if sect = ''default'' then Inr (Some (Default, cf))
           else (case find_proxy_by_name (cf_proxies cf) sect of
                   Some proxy \<Rightarrow> Inr (Some (Named (pi_name proxy), cf))
                 | None \<Rightarrow>
                     cbind (set_proxy_name
                       (new_proxy_instance_from_template (ce_log_mem env (length (cf_proxies cf))) (Some (cf_proxy_default cf)))
                       sect) (\<lambda>new_proxy.
                     Inr (Some (Named (pi_name new_proxy),
                       cf\<lparr>cf_proxies := insert_proxy_instance (cf_proxies cf) new_proxy\<rparr>)))))"

definition config_file_parse_ssh_tunnel ::
  "config_env \<Rightarrow> string \<Rightarrow> config \<Rightarrow> (tun_ref obj_ref \<times> config) option cres" where
  "config_file_parse_ssh_tunnel env line cf =
     (if \<not> string_starts_with line ''ssh '' then Inr None
      else
        let sect = drop 4 line
        in if length sect \<le> 0 then Inl (Exit 1)
           else if sect = ''default'' then Inr (Some (Default, cf))
           else (case find_ssh_by_name (cf_tunnels cf) sect of
                   Some ssh \<Rightarrow> Inr (Some (Named (st_id ssh), cf))
                 | None \<Rightarrow>
                     let (new_ssh, g) = new_ssh_tunnel (ce_ssh_mem env (ssh_id_pool (cf_globals cf))) (cf_globals cf)
                     in cbind (set_ssh_name new_ssh sect) (\<lambda>new_ssh.
                        Inr (Some (Named (st_id new_ssh),
                          cf\<lparr>cf_tunnels := insert_ssh_tunnel (cf_tunnels cf) new_ssh, cf_globals := g\<rparr>)))))"

section \<open>Entries\<close>

text \<open>An entry is taken, it is refused (a return of 0 from its branch), or it is another one.\<close>

datatype 'a entry = Taken 'a | Rejected | Other_entry

definition entry_result :: "'a entry \<Rightarrow> 'a option" where
  "entry_result e = (case e of Taken x \<Rightarrow> Some x | Rejected \<Rightarrow> None | Other_entry \<Rightarrow> None)"

text \<open>The two entries for the log, which three of the sections have.\<close>

definition config_log_entry :: "string \<Rightarrow> config \<Rightarrow> log_config \<Rightarrow> (log_config \<times> config) entry cres" where
  "config_log_entry line cf lc =
     cbind (config_set_string line ''logFilename '' STRING_BUF) (\<lambda>name.
     case name of
       Some s \<Rightarrow>
         let (log, logs) = find_or_create_log_file (cf_log_files cf) (Some (cf_log_default cf)) s
         in Inr (Taken (lc\<lparr>lc_file := Some (lf_file_name log)\<rparr>, cf\<lparr>cf_log_files := logs\<rparr>))
     | None \<Rightarrow>
         cbind (config_set_string line ''logVerbosity '' STRING_BUF) (\<lambda>verb.
         case verb of
           Some s \<Rightarrow>
             let level = log_level_from_str (Some s)
             in if level = LOG_LEVEL_INVALID then Inr Rejected else Inr (Taken (lc\<lparr>lc_level := level\<rparr>, cf))
         | None \<Rightarrow> Inr Other_entry))"

text \<open>An entry that inserts what a specification describes into the list of services.\<close>

definition config_service_entry ::
  "string \<Rightarrow> string \<Rightarrow> (string \<Rightarrow> nat \<Rightarrow> ('s option \<times> nat) cres) \<Rightarrow> ('s \<Rightarrow> any_service) \<Rightarrow> proxy_instance \<Rightarrow> config
     \<Rightarrow> (proxy_instance \<times> config) entry cres" where
  "config_service_entry line field parse wrap proxy cf =
     cbind (config_set_string line field STRING_BUF) (\<lambda>v.
     case v of
       None \<Rightarrow> Inr Other_entry
     | Some s \<Rightarrow>
         cbind (parse s (cf_service_pool cf)) (\<lambda>(srv, pool).
         case srv of
           None \<Rightarrow> Inr Rejected
         | Some x \<Rightarrow>
             Inr (Taken (proxy\<lparr>pi_service_list := insert_service (pi_service_list proxy) (wrap x)\<rparr>,
                         cf\<lparr>cf_service_pool := pool\<rparr>))))"

definition config_file_parse_main_entry :: "string \<Rightarrow> config \<Rightarrow> config option cres" where
  "config_file_parse_main_entry line cf =
     cbind (config_log_entry line cf (mc_log (cf_main cf))) (\<lambda>e.
     case e of
       Taken (lc, cf) \<Rightarrow> Inr (Some (cf\<lparr>cf_main := (cf_main cf)\<lparr>mc_log := lc\<rparr>\<rparr>))
     | Rejected \<Rightarrow> Inr None
     | Other_entry \<Rightarrow>
         Inr (case config_set_int line ''ulimit '' of
                Some v \<Rightarrow> Some (cf\<lparr>cf_main := (cf_main cf)\<lparr>mc_ulimit := v\<rparr>\<rparr>)
              | None \<Rightarrow> None))"

definition config_file_parse_log_file_entry :: "string \<Rightarrow> log_file \<Rightarrow> log_file option" where
  "config_file_parse_log_file_entry line log =
     (case config_set_long line ''byteCountMax '' of
        Some v \<Rightarrow> Some (log\<lparr>lf_byte_count_max := v\<rparr>)
      | None \<Rightarrow>
          (case config_set_long line ''fileRotateCount '' of
             Some v \<Rightarrow> Some (log\<lparr>lf_file_rotate_count := v\<rparr>)
           | None \<Rightarrow> None))"

definition config_file_parse_ssh_tunnel_entry :: "string \<Rightarrow> ssh_tunnel \<Rightarrow> config \<Rightarrow> (ssh_tunnel \<times> config) option cres" where
  "config_file_parse_ssh_tunnel_entry line ssh cf =
     (case config_set_int line ''socksPort '' of
        Some v \<Rightarrow> Inr (Some (ssh\<lparr>st_socks_port := v\<rparr>, cf))
      | None \<Rightarrow>
          cbind (config_set_string line ''command '' 8192) (\<lambda>cmd.
          case cmd of
            Some s \<Rightarrow> Inr (Some (ssh\<lparr>st_command := s\<rparr>, cf))
          | None \<Rightarrow>
              cmap (\<lambda>e. map_option (\<lambda>(lc, cf). (ssh\<lparr>st_log := lc\<rparr>, cf)) (entry_result e))
                (config_log_entry line cf (st_log ssh))))"

section \<open>Files of rules\<close>

definition FILENAME_STACK_SIZE :: nat where "FILENAME_STACK_SIZE = 200"

text \<open>The text of a line behind the two passes over it; \<open>None\<close> makes the parser return 0.\<close>

definition config_line :: "config_env \<Rightarrow> string \<Rightarrow> string option cres" where
  "config_line env buf =
     cbind (remove_extra_spaces_and_comments_from_config_line MAX_LINE_LENGTH (c_str buf)) (\<lambda>l.
     case l of
       None \<Rightarrow> Inr None
     | Some buf2 \<Rightarrow> replace_environment_variables_in_string (ce_getenv env) MAX_LINE_LENGTH buf2)"

text \<open>A file that is being read already, or one too deep, is not read (a warning only).\<close>

definition may_include :: "string list \<Rightarrow> string \<Rightarrow> bool" where
  "may_include stack f \<longleftrightarrow> f \<notin> set stack \<and> length stack < FILENAME_STACK_SIZE"

text \<open>
  The loop of \<open>route_rule_file_parse\<close> on the file \<open>filename\<close>, the last on \<open>stack\<close>; the rules go
  with the pool of their ids. An included file that cannot be read, in whole or in part, sets
  \<open>okay\<close> to 0: the loop ends and the function returns 1.
\<close>

function route_rule_lines ::
  "config_env \<Rightarrow> ssh_tunnel list \<Rightarrow> string list \<Rightarrow> string \<Rightarrow> int \<Rightarrow> bool \<Rightarrow> bool \<Rightarrow> file_read list
     \<Rightarrow> route_rule list \<times> nat \<Rightarrow> (bool \<times> route_rule list \<times> nat) cres" where
  "route_rule_lines env ssh stack filename n cr lf s rs =
     (case read_line MAX_LINE_LENGTH [] cr lf s of
        (rc, buf, cr', lf', r) \<Rightarrow>
          if rc \<noteq> 1 then Inr (rc = 2, rs)
          else
            cbind (config_line env buf) (\<lambda>l.
            case l of
              None \<Rightarrow> Inr (False, rs)
            | Some line \<Rightarrow>
                if line = [] then route_rule_lines env ssh stack filename (n + 1) cr' lf' r rs
                else
                  cbind (config_set_string line ''routeFile '' STRING_BUF) (\<lambda>inc.
                  case inc of
                    Some f \<Rightarrow>
                      if may_include stack f then
                        (case ce_open env f of
                           None \<Rightarrow> Inr (True, rs)
                         | Some s' \<Rightarrow>
                             cbind (route_rule_lines env ssh (stack @ [f]) f 1 False False s' rs) (\<lambda>(okay, rs').
                             if okay then route_rule_lines env ssh stack filename (n + 1) cr' lf' r rs'
                             else Inr (True, rs')))
                      else route_rule_lines env ssh stack filename (n + 1) cr' lf' r rs
                  | None \<Rightarrow>
                      cbind (parse_route_rule_spec (snd rs) line (Some filename) n ssh) (\<lambda>(route, pool).
                      case route of
                        None \<Rightarrow> Inr (False, fst rs, pool)
                      | Some x \<Rightarrow>
                          route_rule_lines env ssh stack filename (n + 1) cr' lf' r (insert_route_rule (fst rs) x, pool)))))"
  by pat_completeness auto
termination
  by (relation "measures [\<lambda>(env, ssh, stack, filename, n, cr, lf, s, rs). FILENAME_STACK_SIZE - length stack,
        \<lambda>(env, ssh, stack, filename, n, cr, lf, s, rs). length s]")
     (auto dest!: sym [of "(_, _)" "read_line _ _ _ _ _"] read_line_shorter simp: may_include_def)

declare route_rule_lines.simps [simp del]

definition route_rule_file_parse ::
  "config_env \<Rightarrow> ssh_tunnel list \<Rightarrow> string list \<Rightarrow> string \<Rightarrow> route_rule list \<times> nat \<Rightarrow> (bool \<times> route_rule list \<times> nat) cres" where
  "route_rule_file_parse env ssh stack filename rs =
     (case ce_open env filename of
        None \<Rightarrow> Inr (False, rs)
      | Some s \<Rightarrow> route_rule_lines env ssh (stack @ [filename]) filename 1 False False s rs)"

section \<open>Directories of rules\<close>

text \<open>\<open>strcmp\<close> on characters as unsigned bytes.\<close>

fun strcmp :: "string \<Rightarrow> string \<Rightarrow> int" where
  "strcmp [] [] = 0"
| "strcmp [] (d # t) = -1"
| "strcmp (c # s) [] = 1"
| "strcmp (c # s) (d # t) = (if c = d then strcmp s t else if ccode c < ccode d then -1 else 1)"

definition ROUTE_RULE_DIR_MAX_FILES :: nat where "ROUTE_RULE_DIR_MAX_FILES = 200"

text \<open>The names \<open>readdir\<close> gives, with whether each is a regular file or a link.\<close>

definition dir_file_list :: "(string \<times> bool) list \<Rightarrow> string list cres" where
  "dir_file_list ents =
     (let raw = map (\<lambda>(name, file). strncpy_term 4096 name) (filter snd ents)
      in if length raw > ROUTE_RULE_DIR_MAX_FILES then Inl UB else Inr raw)"

text \<open>The inner loop: the first of the lowest names that are left.\<close>

definition lowest_entry :: "string list \<Rightarrow> nat option" where
  "lowest_entry raw =
     foldl (\<lambda>lowest jj.
       if raw ! jj \<noteq> [] then
         (case lowest of
            None \<Rightarrow> Some jj
          | Some l \<Rightarrow> if strcmp (raw ! l) (raw ! jj) > 0 then Some jj else Some l)
       else lowest) None [0..<length raw]"

fun sort_file_list :: "nat \<Rightarrow> string list \<Rightarrow> string list \<Rightarrow> string list cres" where
  "sort_file_list 0 raw out = Inr out"
| "sort_file_list (Suc n) raw out =
     (case lowest_entry raw of
        None \<Rightarrow> Inl UB
      | Some l \<Rightarrow> sort_file_list n (raw[l := []]) (out @ [raw ! l]))"

fun route_rule_dir_files ::
  "config_env \<Rightarrow> ssh_tunnel list \<Rightarrow> string \<Rightarrow> string list \<Rightarrow> route_rule list \<times> nat \<Rightarrow> (bool \<times> route_rule list \<times> nat) cres" where
  "route_rule_dir_files env ssh dir [] rs = Inr (True, rs)"
| "route_rule_dir_files env ssh dir (f # fs) rs =
     cbind (route_rule_file_parse env ssh [] (take 4095 (dir @ ''/'' @ f)) rs) (\<lambda>(okay, rs).
     if okay then route_rule_dir_files env ssh dir fs rs else Inr (False, rs))"

definition route_rule_dir_parse ::
  "config_env \<Rightarrow> ssh_tunnel list \<Rightarrow> string \<Rightarrow> route_rule list \<times> nat \<Rightarrow> (bool \<times> route_rule list \<times> nat) cres" where
  "route_rule_dir_parse env ssh dir rs =
     (case ce_dir env dir of
        None \<Rightarrow> Inr (False, rs)
      | Some ents \<Rightarrow>
          cbind (dir_file_list ents) (\<lambda>raw.
          cbind (sort_file_list (length raw) raw []) (\<lambda>files.
          route_rule_dir_files env ssh dir files rs)))"

section \<open>Proxy entries\<close>

text \<open>The outcome of reading rules, as the value of an entry.\<close>

definition rules_entry ::
  "proxy_instance \<Rightarrow> config \<Rightarrow> (bool \<times> route_rule list \<times> nat) cres \<Rightarrow> (proxy_instance \<times> config) entry cres" where
  "rules_entry proxy cf res =
     cmap (\<lambda>(okay, rules, pool).
       if okay then Taken (proxy\<lparr>pi_route_rule_list := rules\<rparr>, cf\<lparr>cf_rule_pool := pool\<rparr>) else Rejected) res"

definition config_route_entry ::
  "config_env \<Rightarrow> string \<Rightarrow> int \<Rightarrow> string \<Rightarrow> proxy_instance \<Rightarrow> config \<Rightarrow> (proxy_instance \<times> config) entry cres" where
  "config_route_entry env filename line_num line proxy cf =
     (let rs = (pi_route_rule_list proxy, cf_rule_pool cf)
      in cbind (config_set_string line ''route '' STRING_BUF) (\<lambda>v1.
         case v1 of
           Some s \<Rightarrow>
             cbind (parse_route_rule_spec (cf_rule_pool cf) s (Some filename) line_num (cf_tunnels cf)) (\<lambda>(route, pool).
             case route of
               None \<Rightarrow> Inr Rejected
             | Some x \<Rightarrow>
                 Inr (Taken (proxy\<lparr>pi_route_rule_list := insert_route_rule (pi_route_rule_list proxy) x\<rparr>,
                   cf\<lparr>cf_rule_pool := pool\<rparr>)))
         | None \<Rightarrow>
             cbind (config_set_string line ''routeFile '' STRING_BUF) (\<lambda>v2.
             case v2 of
               Some s \<Rightarrow> rules_entry proxy cf (route_rule_file_parse env (cf_tunnels cf) [] s rs)
             | None \<Rightarrow>
                 cbind (config_set_string line ''routeDir '' STRING_BUF) (\<lambda>v3.
                 case v3 of
                   Some s \<Rightarrow> rules_entry proxy cf (route_rule_dir_parse env (cf_tunnels cf) s rs)
                 | None \<Rightarrow> Inr Other_entry))))"

text \<open>Trying one kind of entry behind another.\<close>

definition or_entry :: "'a entry cres \<Rightarrow> 'a entry cres \<Rightarrow> 'a entry cres" where
  "or_entry e f = cbind e (\<lambda>r. case r of Other_entry \<Rightarrow> f | Taken x \<Rightarrow> Inr (Taken x) | Rejected \<Rightarrow> Inr Rejected)"

definition config_file_parse_proxy_instance_entry ::
  "config_env \<Rightarrow> string \<Rightarrow> int \<Rightarrow> string \<Rightarrow> proxy_instance \<Rightarrow> config \<Rightarrow> (proxy_instance \<times> config) option cres" where
  "config_file_parse_proxy_instance_entry env filename line_num line proxy cf =
     cmap entry_result
       (or_entry
         (cmap (\<lambda>e. case e of
                      Taken (lc, cf) \<Rightarrow> Taken (proxy\<lparr>pi_log := lc\<rparr>, cf)
                    | Rejected \<Rightarrow> Rejected
                    | Other_entry \<Rightarrow> Other_entry)
           (config_log_entry line cf (pi_log proxy)))
       (or_entry (config_service_entry line ''socksServer '' parse_service_socks_spec Socks_srv proxy cf)
       (or_entry (config_service_entry line ''portForward '' parse_service_port_forward_spec Port_forward_srv proxy cf)
       (or_entry (config_service_entry line ''httpServer '' parse_service_http_spec Http_srv proxy cf)
         (config_route_entry env filename line_num line proxy cf)))))"

section \<open>The configuration file\<close>

text \<open>The object a section stands for, and what is stored back into it.\<close>

definition get_log :: "config \<Rightarrow> string obj_ref \<Rightarrow> log_file option" where
  "get_log cf r = (case r of Default \<Rightarrow> Some (cf_log_default cf)
     | Named k \<Rightarrow> find (\<lambda>l. lf_file_name l = k) (cf_log_files cf))"

definition put_log :: "config \<Rightarrow> string obj_ref \<Rightarrow> log_file \<Rightarrow> config" where
  "put_log cf r l = (case r of Default \<Rightarrow> cf\<lparr>cf_log_default := l\<rparr>
     | Named k \<Rightarrow> cf\<lparr>cf_log_files := update_first (\<lambda>x. lf_file_name x = k) (\<lambda>_. l) (cf_log_files cf)\<rparr>)"

definition get_proxy :: "config \<Rightarrow> string obj_ref \<Rightarrow> proxy_instance option" where
  "get_proxy cf r = (case r of Default \<Rightarrow> Some (cf_proxy_default cf) | Named k \<Rightarrow> find_proxy_by_name (cf_proxies cf) k)"

definition put_proxy :: "config \<Rightarrow> string obj_ref \<Rightarrow> proxy_instance \<Rightarrow> config" where
  "put_proxy cf r p = (case r of Default \<Rightarrow> cf\<lparr>cf_proxy_default := p\<rparr>
     | Named k \<Rightarrow> cf\<lparr>cf_proxies := update_first (\<lambda>x. k = pi_name x) (\<lambda>_. p) (cf_proxies cf)\<rparr>)"

definition get_ssh :: "config \<Rightarrow> tun_ref obj_ref \<Rightarrow> ssh_tunnel option" where
  "get_ssh cf r = (case r of Default \<Rightarrow> Some (cf_ssh_default cf) | Named k \<Rightarrow> deref_ssh (cf_tunnels cf) k)"

definition put_ssh :: "config \<Rightarrow> tun_ref obj_ref \<Rightarrow> ssh_tunnel \<Rightarrow> config" where
  "put_ssh cf r t = (case r of Default \<Rightarrow> cf\<lparr>cf_ssh_default := t\<rparr>
     | Named k \<Rightarrow> cf\<lparr>cf_tunnels := update_first (\<lambda>x. st_id x = k) (\<lambda>_. t) (cf_tunnels cf)\<rparr>)"

text \<open>The line as the head of a section.\<close>

definition config_section_line :: "config_env \<Rightarrow> string \<Rightarrow> config \<Rightarrow> (config_section \<times> config) option cres" where
  "config_section_line env line cf =
     (if config_file_parse_main line then Inr (Some (Main_section, cf))
      else
        cbind (config_file_parse_log_file line cf) (\<lambda>l.
        case l of
          Some (r, cf) \<Rightarrow> Inr (Some (Log_section r, cf))
        | None \<Rightarrow>
            cbind (config_file_parse_proxy_instance env line cf) (\<lambda>p.
            case p of
              Some (r, cf) \<Rightarrow> Inr (Some (Proxy_section r, cf))
            | None \<Rightarrow>
                cmap (map_option (\<lambda>(r, cf). (Ssh_section r, cf))) (config_file_parse_ssh_tunnel env line cf))))"

text \<open>The line as an entry of the current section; one that nothing takes ends the process.\<close>

definition config_entry_line :: "config_env \<Rightarrow> string \<Rightarrow> int \<Rightarrow> string \<Rightarrow> config_section \<Rightarrow> config \<Rightarrow> config cres" where
  "config_entry_line env filename line_num line sect cf =
     cbind
       (case sect of
          No_section \<Rightarrow> Inr None
        | Main_section \<Rightarrow> config_file_parse_main_entry line cf
        | Log_section r \<Rightarrow>
            (case get_log cf r of
               None \<Rightarrow> Inl UB
             | Some l \<Rightarrow> Inr (map_option (put_log cf r) (config_file_parse_log_file_entry line l)))
        | Proxy_section r \<Rightarrow>
            (case get_proxy cf r of
               None \<Rightarrow> Inl UB
             | Some p \<Rightarrow>
                 cmap (map_option (\<lambda>(p, cf). put_proxy cf r p))
                   (config_file_parse_proxy_instance_entry env filename line_num line p cf))
        | Ssh_section r \<Rightarrow>
            (case get_ssh cf r of
               None \<Rightarrow> Inl UB
             | Some t \<Rightarrow>
                 cmap (map_option (\<lambda>(t, cf). put_ssh cf r t)) (config_file_parse_ssh_tunnel_entry line t cf)))
       (\<lambda>res. case res of Some cf \<Rightarrow> Inr cf | None \<Rightarrow> Inl (Exit 1))"

text \<open>The loop of \<open>config_file_parse\<close>. What becomes of an included file is not looked at.\<close>

function config_lines ::
  "config_env \<Rightarrow> string list \<Rightarrow> string \<Rightarrow> int \<Rightarrow> bool \<Rightarrow> bool \<Rightarrow> file_read list \<Rightarrow> config_section \<Rightarrow> config
     \<Rightarrow> (bool \<times> config) cres" where
  "config_lines env stack filename n cr lf s sect cf =
     (case read_line MAX_LINE_LENGTH [] cr lf s of
        (rc, buf, cr', lf', r) \<Rightarrow>
          if rc \<noteq> 1 then Inr (rc = 2, cf)
          else
            cbind (config_line env buf) (\<lambda>l.
            case l of
              None \<Rightarrow> Inr (False, cf)
            | Some line \<Rightarrow>
                if line = [] then config_lines env stack filename (n + 1) cr' lf' r sect cf
                else
                  cbind (config_set_string line ''include '' STRING_BUF) (\<lambda>inc.
                  case inc of
                    Some f \<Rightarrow>
                      if may_include stack f then
                        (case ce_open env f of
                           None \<Rightarrow> config_lines env stack filename (n + 1) cr' lf' r sect cf
                         | Some s' \<Rightarrow>
                             cbind (config_lines env (stack @ [f]) f 1 False False s' No_section cf) (\<lambda>(okay, cf').
                             config_lines env stack filename (n + 1) cr' lf' r sect cf'))
                      else config_lines env stack filename (n + 1) cr' lf' r sect cf
                  | None \<Rightarrow>
                      cbind (config_section_line env line cf) (\<lambda>sl.
                      case sl of
                        Some (sect', cf') \<Rightarrow> config_lines env stack filename (n + 1) cr' lf' r sect' cf'
                      | None \<Rightarrow>
                          cbind (config_entry_line env filename n line sect cf) (\<lambda>cf'.
                          config_lines env stack filename (n + 1) cr' lf' r sect cf')))))"
  by pat_completeness auto
termination
  by (relation "measures [\<lambda>(env, stack, filename, n, cr, lf, s, sect, cf). FILENAME_STACK_SIZE - length stack,
        \<lambda>(env, stack, filename, n, cr, lf, s, sect, cf). length s]")
     (auto dest!: sym [of "(_, _)" "read_line _ _ _ _ _"] read_line_shorter simp: may_include_def)

declare config_lines.simps [simp del]

definition config_file_parse :: "config_env \<Rightarrow> string list \<Rightarrow> string \<Rightarrow> config \<Rightarrow> (bool \<times> config) cres" where
  "config_file_parse env stack filename cf =
     (case ce_open env filename of
        None \<Rightarrow> Inr (False, cf)
      | Some s \<Rightarrow> config_lines env (stack @ [filename]) filename 1 False False s No_section cf)"

end
