(* ===== verification/Config_Inv.thy ===== *)
theory Config_Inv
  imports Config_File
begin

text \<open>
  What reading a configuration keeps: names are unique, tunnel ids are unique, every rule
  routes via tunnels of the list and every log that is referred to exists.
\<close>

section \<open>Rules point into the list of tunnels\<close>

definition rules_ok :: "nat set \<Rightarrow> route_rule list \<Rightarrow> bool" where
  "rules_ok ids rules \<longleftrightarrow> (\<forall>r \<in> set rules. set (rr_tunnel r) \<subseteq> ids)"

lemma rules_ok_mono: "rules_ok ids rules \<Longrightarrow> ids \<subseteq> ids' \<Longrightarrow> rules_ok ids' rules"
  by (auto simp: rules_ok_def)

lemma rules_ok_append [simp]: "rules_ok ids (a @ b) \<longleftrightarrow> rules_ok ids a \<and> rules_ok ids b"
  by (auto simp: rules_ok_def)

lemma set_insert_route_rule: "set (insert_route_rule rules r) = insert r (set rules)"
  by (induction rules) auto

lemma rules_ok_insert: "rules_ok ids (insert_route_rule rules r) \<longleftrightarrow> set (rr_tunnel r) \<subseteq> ids \<and> rules_ok ids rules"
  by (auto simp: rules_ok_def set_insert_route_rule)

lemma route_rule_command_tunnel: "route_rule_command c p r = Inr (Some r') \<Longrightarrow> rr_tunnel r' = rr_tunnel r"
  by (auto simp: route_rule_command_def split: option.splits if_splits elim!: cbind_InrE)

lemma parse_rule_cmds_tunnel: "parse_rule_cmds p r = Inr (okay, p', r') \<Longrightarrow> rr_tunnel r' = rr_tunnel r"
proof (induction p r arbitrary: okay p' r' rule: parse_rule_cmds.induct)
  case (2 s r)
  obtain c p1 where c: "strsep '' '' (Some s) = (c, p1)" by fastforce
  obtain q p2 where q: "strsep '' '' p1 = (q, p2)" by fastforce
  show ?case
  proof (cases c)
    case None
    with "2.prems" c show ?thesis by (simp add: parse_rule_cmds.simps(2) [of s r])
  next
    case (Some c')
    consider "c' = ''resolveDNS''" | "c' = ''via''" | "c' \<noteq> ''resolveDNS''" "c' \<noteq> ''via''" by blast
    then show ?thesis
    proof cases
      case 1
      with "2.IH"(1) [OF c [symmetric] refl Some 1] "2.prems" c Some show ?thesis
        by (simp add: parse_rule_cmds.simps(2) [of s r])
    next
      case 2
      with "2.prems" c Some show ?thesis by (simp add: parse_rule_cmds.simps(2) [of s r])
    next
      case 3
      have "parse_rule_cmds (Some s) r = cbind (route_rule_command c' q r)
          (\<lambda>res. case res of None \<Rightarrow> Inr (False, p2, r) | Some route' \<Rightarrow> parse_rule_cmds p2 route')"
        using c q Some 3 by (simp add: parse_rule_cmds.simps(2) [of s r])
      from trans [OF this [symmetric] "2.prems"]
      have "\<exists>res. route_rule_command c' q r = Inr res \<and>
          (case res of None \<Rightarrow> Inr (False, p2, r) | Some route' \<Rightarrow> parse_rule_cmds p2 route') = Inr (okay, p', r')"
        by (rule cbind_eq_Inr [THEN iffD1])
      then obtain res where res: "route_rule_command c' q r = Inr res"
        "(case res of None \<Rightarrow> Inr (False, p2, r) | Some route' \<Rightarrow> parse_rule_cmds p2 route') = Inr (okay, p', r')"
        by blast
      show ?thesis
      proof (cases res)
        case None
        with res(2) show ?thesis by simp
      next
        case (Some r1)
        have "rr_tunnel r1 = rr_tunnel r" using res(1) by (simp add: Some route_rule_command_tunnel)
        moreover have "rr_tunnel r' = rr_tunnel r1"
          using "2.IH"(2) [OF c [symmetric] refl \<open>c = Some c'\<close> 3 q [symmetric] refl res(1) Some] res(2) Some by simp
        ultimately show ?thesis by simp
      qed
    qed
  qed
qed simp

lemma parse_rule_vias_tunnel:
  "parse_rule_vias ts p r = (okay, r') \<Longrightarrow> set (rr_tunnel r) \<subseteq> st_id ` set ts \<Longrightarrow> set (rr_tunnel r') \<subseteq> st_id ` set ts"
proof (induction ts p r arbitrary: okay r' rule: parse_rule_vias.induct)
  case (2 ts s r)
  obtain nm p1 where nm: "strsep '' ,'' (Some s) = (nm, p1)" by fastforce
  show ?case
  proof (cases "nm \<noteq> None \<and> nm \<noteq> Some []")
    case True
    note IH = "2.IH"(1,2) [OF nm [symmetric] refl True]
    show ?thesis
    proof (cases "find_ssh_by_name ts (the nm)")
      case (Some t)
      then have "st_id t \<in> st_id ` set ts" by (auto dest: find_ssh_by_name_Some)
      then show ?thesis using "2.prems" nm True Some IH [OF Some]
        by (auto simp: parse_rule_vias.simps(2) [of ts s r] split: if_splits)
    qed (use "2.prems" nm True in \<open>simp add: parse_rule_vias.simps(2) [of ts s r]\<close>)
  next
    case False
    then have "parse_rule_vias ts (Some s) r = parse_rule_vias ts p1 r"
      using nm by (simp only: parse_rule_vias.simps(2) [of ts s r] prod.case Let_def if_False)
    with "2.prems" "2.IH"(3) [OF nm [symmetric] refl False] show ?thesis by simp
  qed
qed simp

lemma parse_route_rule_spec_tunnel:
  "parse_route_rule_spec pool s f n ts = Inr (Some r, pool') \<Longrightarrow> set (rr_tunnel r) \<subseteq> st_id ` set ts"
  by (auto simp: parse_route_rule_spec_def new_route_rule_def Let_def split: prod.splits if_splits option.splits
      elim!: cbind_InrE dest!: parse_rule_cmds_tunnel parse_rule_vias_tunnel)

text \<open>A property of the rules that each parsed line keeps is kept by a file with all it includes.\<close>

definition keeps_rules :: "ssh_tunnel list \<Rightarrow> (route_rule list \<times> nat \<Rightarrow> bool) \<Rightarrow> bool" where
  "keeps_rules ssh I \<longleftrightarrow>
     (\<forall>rs line f n route pool. I rs \<longrightarrow> parse_route_rule_spec (snd rs) line f n ssh = Inr (route, pool) \<longrightarrow>
        I (case route of None \<Rightarrow> fst rs | Some x \<Rightarrow> insert_route_rule (fst rs) x, pool))"

lemma keeps_rulesD:
  "keeps_rules ssh I \<Longrightarrow> I rs \<Longrightarrow> parse_route_rule_spec (snd rs) line f n ssh = Inr (route, pool) \<Longrightarrow>
     I (case route of None \<Rightarrow> fst rs | Some x \<Rightarrow> insert_route_rule (fst rs) x, pool)"
  unfolding keeps_rules_def by blast

lemma route_rule_lines_keeps:
  "keeps_rules ssh I \<Longrightarrow> I rs \<Longrightarrow> route_rule_lines env ssh stack filename n cr lf s rs = Inr (okay, rs') \<Longrightarrow> I rs'"
proof (induction env ssh stack filename n cr lf s rs arbitrary: okay rs' rule: route_rule_lines.induct)
  case (1 env ssh stack filename n cr lf s rs)
  obtain rc buf cr' lf' r where rl: "read_line MAX_LINE_LENGTH [] cr lf s = (rc, buf, cr', lf', r)"
    by (metis prod_cases5)
  note run = "1.prems"(3) [unfolded route_rule_lines.simps [of env ssh stack filename n cr lf s rs] rl prod.case]
  note IH = "1.IH" [OF rl [symmetric] refl refl refl]
  show ?case
  proof (cases "rc = 1")
    case False
    with run "1.prems"(2) show ?thesis by simp
  next
    case True
    then have rc: "\<not> rc \<noteq> 1" by simp
    obtain l where l: "config_line env buf = Inr l" using run True by (auto elim: cbind_InrE)
    show ?thesis
    proof (cases l)
      case None
      with run l True "1.prems"(2) show ?thesis by simp
    next
      case (Some line)
      note IH = IH [OF rc l Some]
      show ?thesis
      proof (cases "line = []")
        case empty: True
        with IH(1) [OF empty "1.prems"(1,2)] run l True Some show ?thesis by simp
      next
        case False
        obtain inc where inc: "config_set_string line ''routeFile '' STRING_BUF = Inr inc"
          using run l True Some False by (auto elim: cbind_InrE)
        note IH = IH(2-) [OF False inc]
        note [simp] = True l Some False inc
        show ?thesis
        proof (cases inc)
          case None
          obtain route pool where p: "parse_route_rule_spec (snd rs) line (Some filename) n ssh = Inr (route, pool)"
            using run None by (auto elim!: cbind_InrE)
          note k = keeps_rulesD [OF "1.prems"(1,2) p]
          show ?thesis
            using run None p k IH(1) [OF None p refl _ "1.prems"(1)] by (cases route) simp_all
        next
          case (Some f)
          show ?thesis
          proof (cases "may_include stack f")
            case False
            with IH(4) [OF Some False "1.prems"(1,2)] run Some show ?thesis by simp
          next
            case may: True
            show ?thesis
            proof (cases "ce_open env f")
              case None
              with run Some may "1.prems"(2) show ?thesis by simp
            next
              case opened: (Some s')
              obtain ok rs1 where nested: "route_rule_lines env ssh (stack @ [f]) f 1 False False s' rs = Inr (ok, rs1)"
                using run Some may opened by (auto elim!: cbind_InrE)
              have I1: "I rs1" using IH(2) [OF Some may opened "1.prems"(1,2) nested] .
              show ?thesis
                using run Some may opened nested I1 IH(3) [OF Some may opened nested refl _ "1.prems"(1) I1]
                by (cases ok) simp_all
            qed
          qed
        qed
      qed
    qed
  qed
qed

text \<open>What a rule file can add: rules behind those there are, and each routes via tunnels of the list.\<close>

definition rules_grow :: "ssh_tunnel list \<Rightarrow> route_rule list \<Rightarrow> route_rule list \<times> nat \<Rightarrow> bool" where
  "rules_grow ssh rules rs \<longleftrightarrow> (\<exists>added. fst rs = rules @ added \<and> rules_ok (st_id ` set ssh) added)"

lemma insert_route_rule_append: "insert_route_rule rules r = rules @ [r]"
  by (induction rules) auto

lemma keeps_rules_grow: "keeps_rules ssh (rules_grow ssh rules)"
  by (fastforce simp: keeps_rules_def rules_grow_def rules_ok_def insert_route_rule_append
      dest: parse_route_rule_spec_tunnel split: option.splits)

lemma rules_grow_refl [simp]: "rules_grow ssh (fst rs) rs"
  by (simp add: rules_grow_def rules_ok_def)

lemma route_rule_file_grows:
  "route_rule_file_parse env ssh stack f rs = Inr (okay, rs') \<Longrightarrow> rules_grow ssh rules rs \<Longrightarrow> rules_grow ssh rules rs'"
  by (auto simp: route_rule_file_parse_def split: option.splits intro: route_rule_lines_keeps [OF keeps_rules_grow])

lemma route_rule_dir_files_grow:
  "route_rule_dir_files env ssh dir fs rs = Inr (okay, rs') \<Longrightarrow> rules_grow ssh rules rs \<Longrightarrow> rules_grow ssh rules rs'"
proof (induction env ssh dir fs rs arbitrary: okay rs' rule: route_rule_dir_files.induct)
  case (2 env ssh dir f fs rs)
  obtain ok rs1 where f: "route_rule_file_parse env ssh [] (take 4095 (dir @ ''/'' @ f)) rs = Inr (ok, rs1)"
    using "2.prems"(1) by (auto elim!: cbind_InrE)
  then show ?case
    using "2.IH" [OF f refl] "2.prems" route_rule_file_grows [OF f "2.prems"(2)] by (cases ok) simp_all
qed simp

lemma route_rule_dir_grows:
  "route_rule_dir_parse env ssh dir rs = Inr (okay, rs') \<Longrightarrow> rules_grow ssh rules rs \<Longrightarrow> rules_grow ssh rules rs'"
  by (auto simp: route_rule_dir_parse_def split: option.splits elim!: cbind_InrE dest: route_rule_dir_files_grow)

section \<open>The invariant of a configuration\<close>

definition log_ref_ok :: "config \<Rightarrow> log_config \<Rightarrow> bool" where
  "log_ref_ok cf lc \<longleftrightarrow> set_option (lc_file lc) \<subseteq> lf_file_name ` set (cf_log_files cf)"

definition proxy_ok :: "config \<Rightarrow> proxy_instance \<Rightarrow> bool" where
  "proxy_ok cf p \<longleftrightarrow> log_ref_ok cf (pi_log p) \<and> rules_ok (st_id ` set (cf_tunnels cf)) (pi_route_rule_list p)"

definition config_ok :: "config \<Rightarrow> bool" where
  "config_ok cf \<longleftrightarrow>
     distinct (map log_key (cf_log_files cf)) \<and> distinct (map pi_name (cf_proxies cf)) \<and>
     distinct (map st_name (cf_tunnels cf)) \<and> tunnels_ok (cf_tunnels cf) (cf_globals cf) \<and>
     log_ref_ok cf (mc_log (cf_main cf)) \<and> (\<forall>p \<in> insert (cf_proxy_default cf) (set (cf_proxies cf)). proxy_ok cf p)"

text \<open>Nothing that can be referred to goes away.\<close>

definition config_grows :: "config \<Rightarrow> config \<Rightarrow> bool" where
  "config_grows cf cf' \<longleftrightarrow>
     lf_file_name ` set (cf_log_files cf) \<subseteq> lf_file_name ` set (cf_log_files cf') \<and>
     pi_name ` set (cf_proxies cf) \<subseteq> pi_name ` set (cf_proxies cf') \<and>
     st_id ` set (cf_tunnels cf) \<subseteq> st_id ` set (cf_tunnels cf')"

definition config_step :: "config \<Rightarrow> config \<Rightarrow> bool" where
  "config_step cf cf' \<longleftrightarrow> config_ok cf' \<and> config_grows cf cf'"

lemma config_grows_trans: "config_grows a b \<Longrightarrow> config_grows b c \<Longrightarrow> config_grows a c"
  unfolding config_grows_def by (meson order_trans)

lemma config_grows_refl [simp]: "config_grows a a"
  by (simp add: config_grows_def)

lemma config_step_refl: "config_ok cf \<Longrightarrow> config_step cf cf"
  by (simp add: config_step_def)

lemma config_step_trans: "config_step a b \<Longrightarrow> config_step b c \<Longrightarrow> config_step a c"
  by (auto simp: config_step_def intro: config_grows_trans)

lemma log_ref_ok_grows: "log_ref_ok cf lc \<Longrightarrow> config_grows cf cf' \<Longrightarrow> log_ref_ok cf' lc"
  by (auto simp: log_ref_ok_def config_grows_def)

lemma proxy_ok_grows: "proxy_ok cf p \<Longrightarrow> config_grows cf cf' \<Longrightarrow> proxy_ok cf' p"
  by (auto simp: proxy_ok_def config_grows_def intro: log_ref_ok_grows [unfolded config_grows_def] rules_ok_mono)

lemma find_or_create_ok:
  assumes "find_or_create_log_file logs t n = (log, logs')" and "distinct (map log_key logs)"
  shows "distinct (map log_key logs') \<and> log \<in> set logs' \<and> set logs \<subseteq> set logs'"
  using logs.obtain_distinct [OF assms(2), of "fresh_log t n"] logs.obtain_mem [of "fresh_log t n" logs]
    logs.obtain_keeps [of logs "fresh_log t n"] assms(1) by (simp add: find_or_create_obtains)

text \<open>The three ways a configuration changes: more logs, another object in place of one, one more.\<close>

lemma more_logs_step:
  assumes "config_ok cf" and "find_or_create_log_file (cf_log_files cf) t n = (log, logs')"
  shows "config_step cf (cf\<lparr>cf_log_files := logs'\<rparr>)"
    and "lf_file_name log \<in> lf_file_name ` set (cf_log_files (cf\<lparr>cf_log_files := logs'\<rparr>))"
proof -
  let ?cf = "cf\<lparr>cf_log_files := logs'\<rparr>"
  have l: "distinct (map log_key logs')" "log \<in> set logs'" "set (cf_log_files cf) \<subseteq> set logs'"
    using find_or_create_ok [OF assms(2)] assms(1) by (simp_all add: config_ok_def)
  have g: "config_grows cf ?cf" using l(3) by (auto simp: config_grows_def)
  then show "config_step cf ?cf"
    using assms(1) l(1) log_ref_ok_grows [OF _ g] proxy_ok_grows [OF _ g] by (simp add: config_step_def config_ok_def)
  show "lf_file_name log \<in> lf_file_name ` set (cf_log_files ?cf)" using l(2) by simp
qed

lemma set_update_first: "set (update_first P (\<lambda>_. y) xs) \<subseteq> insert y (set xs)"
  by (induction xs) auto

lemma map_update_first_key:
  "(\<And>x. P x \<Longrightarrow> g y = g x) \<Longrightarrow> map g (update_first P (\<lambda>_. y) xs) = map g xs"
  by (induction xs) auto

lemma same_keys_image: "map g xs = map g ys \<Longrightarrow> g ` set xs = g ` set ys"
  by (metis list.set_map)

lemma put_proxy_step:
  assumes "config_ok cf" and "proxy_ok cf p" and "r = Named (pi_name p) \<or> r = Default"
  shows "config_step cf (put_proxy cf r p)"
proof (cases "r = Default")
  case True
  have "config_grows cf (put_proxy cf r p)" by (simp add: put_proxy_def True config_grows_def)
  with assms(1,2) log_ref_ok_grows [OF _ this] proxy_ok_grows [OF _ this] show ?thesis
    by (simp add: put_proxy_def True config_step_def config_ok_def)
next
  case False
  then have r: "r = Named (pi_name p)" using assms(3) by simp
  let ?ps = "update_first (\<lambda>x. pi_name p = pi_name x) (\<lambda>_. p) (cf_proxies cf)"
  have n: "map pi_name ?ps = map pi_name (cf_proxies cf)" by (rule map_update_first_key) simp
  have g: "config_grows cf (put_proxy cf r p)"
    by (simp add: put_proxy_def r config_grows_def same_keys_image [OF n])
  have "set ?ps \<subseteq> insert p (set (cf_proxies cf))" by (rule set_update_first)
  then have "\<forall>q \<in> set ?ps. proxy_ok cf q" using assms(1,2) by (auto simp: config_ok_def)
  with assms(1) n log_ref_ok_grows [OF _ g] proxy_ok_grows [OF _ g] g show ?thesis
    by (simp add: put_proxy_def r config_step_def config_ok_def)
qed

lemma put_ssh_step:
  assumes "config_ok cf" and "get_ssh cf r = Some t" and "st_id t' = st_id t" and "st_name t' = st_name t"
  shows "config_step cf (put_ssh cf r t')"
proof (cases r)
  case Default
  have "config_grows cf (put_ssh cf r t')" by (simp add: put_ssh_def Default config_grows_def)
  with assms(1) log_ref_ok_grows [OF _ this] proxy_ok_grows [OF _ this] show ?thesis
    by (simp add: put_ssh_def Default config_step_def config_ok_def)
next
  case (Named k)
  let ?ts = "update_first (\<lambda>x. st_id x = k) (\<lambda>_. t') (cf_tunnels cf)"
  have t: "t \<in> set (cf_tunnels cf)" "st_id t = k"
    using assms(2) by (auto simp: get_ssh_def Named deref_ssh_def find_Some_iff)
  have d: "x = t" if "x \<in> set (cf_tunnels cf)" "st_id x = k" for x
    using assms(1) t that by (auto simp: config_ok_def tunnels_ok_def distinct_map inj_on_def)
  have ids: "map st_id ?ts = map st_id (cf_tunnels cf)" by (rule map_update_first_key) (use assms(3) t in simp)
  have names: "map st_name ?ts = map st_name (cf_tunnels cf)"
  proof -
    have "(\<And>x. x \<in> set xs \<Longrightarrow> st_id x = k \<Longrightarrow> x = t) \<Longrightarrow>
        map st_name (update_first (\<lambda>x. st_id x = k) (\<lambda>_. t') xs) = map st_name xs" for xs
      by (induction xs) (use assms(4) in auto)
    then show ?thesis using d by blast
  qed
  have g: "config_grows cf (put_ssh cf r t')"
    by (simp add: put_ssh_def Named config_grows_def same_keys_image [OF ids])
  have "\<forall>x \<in> set ?ts. st_id x \<le> ssh_id_pool (cf_globals cf)"
  proof
    fix x assume "x \<in> set ?ts"
    then have "x = t' \<or> x \<in> set (cf_tunnels cf)" using set_update_first by fast
    then show "st_id x \<le> ssh_id_pool (cf_globals cf)"
      using assms(1,3) t(1) by (auto simp: config_ok_def tunnels_ok_def)
  qed
  with assms(1) ids names log_ref_ok_grows [OF _ g] proxy_ok_grows [OF _ g] g show ?thesis
    by (simp add: put_ssh_def Named config_step_def config_ok_def tunnels_ok_def)
qed

lemma put_log_step:
  assumes "config_ok cf" and "get_log cf r = Some l" and "lf_file_name l' = lf_file_name l"
  shows "config_step cf (put_log cf r l')"
proof (cases r)
  case Default
  have "config_grows cf (put_log cf r l')" by (simp add: put_log_def Default config_grows_def)
  with assms(1) log_ref_ok_grows [OF _ this] proxy_ok_grows [OF _ this] show ?thesis
    by (simp add: put_log_def Default config_step_def config_ok_def)
next
  case (Named k)
  let ?ls = "update_first (\<lambda>x. lf_file_name x = k) (\<lambda>_. l') (cf_log_files cf)"
  have k: "lf_file_name l' = k" using assms(2,3) by (auto simp: get_log_def Named find_Some_iff)
  have n: "map lf_file_name ?ls = map lf_file_name (cf_log_files cf)" by (rule map_update_first_key) (simp add: k)
  have keys: "map log_key ?ls = map log_key (cf_log_files cf)"
    by (rule map_update_first_key) (simp add: log_key_def k)
  have g: "config_grows cf (put_log cf r l')"
    by (simp add: put_log_def Named config_grows_def same_keys_image [OF n])
  with assms(1) keys log_ref_ok_grows [OF _ g] proxy_ok_grows [OF _ g] show ?thesis
    by (simp add: put_log_def Named config_step_def config_ok_def)
qed

section \<open>Every line keeps the invariant\<close>

lemma config_step_pools:
  "config_ok cf \<Longrightarrow> config_step cf (cf\<lparr>cf_rule_pool := x\<rparr>)"
  "config_ok cf \<Longrightarrow> config_step cf (cf\<lparr>cf_service_pool := x\<rparr>)"
  by (simp_all add: config_step_def config_ok_def config_grows_def proxy_ok_def log_ref_ok_def)

lemma config_log_entry_step:
  assumes "config_log_entry line cf lc = Inr (Taken (lc', cf'))" and "config_ok cf"
  shows "config_step cf cf' \<and> (log_ref_ok cf lc \<longrightarrow> log_ref_ok cf' lc') \<and> cf_tunnels cf' = cf_tunnels cf \<and> cf_ssh_default cf' = cf_ssh_default cf"
proof -
  obtain nm where nm: "config_set_string line ''logFilename '' STRING_BUF = Inr nm"
    using assms(1) by (auto simp: config_log_entry_def elim: cbind_InrE)
  show ?thesis
  proof (cases nm)
    case (Some s)
    obtain log logs' where l: "find_or_create_log_file (cf_log_files cf) (Some (cf_log_default cf)) s = (log, logs')"
      by fastforce
    have "lc' = lc\<lparr>lc_file := Some (lf_file_name log)\<rparr>" "cf' = cf\<lparr>cf_log_files := logs'\<rparr>"
      using assms(1) nm Some l by (simp_all add: config_log_entry_def)
    then show ?thesis using more_logs_step [OF assms(2) l] by (simp add: log_ref_ok_def)
  next
    case None
    obtain verb where "config_set_string line ''logVerbosity '' STRING_BUF = Inr verb"
      using assms(1) nm None by (auto simp: config_log_entry_def elim: cbind_InrE)
    then have "cf' = cf" "lc_file lc' = lc_file lc"
      using assms(1) nm None by (auto simp: config_log_entry_def Let_def split: option.splits if_splits)
    then show ?thesis using assms(2) by (simp add: config_step_def log_ref_ok_def)
  qed
qed

definition entry_ok :: "config \<Rightarrow> proxy_instance \<Rightarrow> (proxy_instance \<times> config) entry cres \<Rightarrow> bool" where
  "entry_ok cf p e \<longleftrightarrow>
     (case e of
        Inr (Taken (p', cf')) \<Rightarrow> config_step cf cf' \<and> proxy_ok cf' p' \<and> pi_name p' = pi_name p
      | _ \<Rightarrow> True)"

lemma entry_ok_simps [simp]:
  "entry_ok cf p (Inl f)" "entry_ok cf p (Inr Rejected)" "entry_ok cf p (Inr Other_entry)"
  "entry_ok cf p (Inr (Taken (p', cf'))) \<longleftrightarrow> config_step cf cf' \<and> proxy_ok cf' p' \<and> pi_name p' = pi_name p"
  by (simp_all add: entry_ok_def)

lemma entry_okI:
  assumes "\<And>p' cf'. e = Inr (Taken (p', cf')) \<Longrightarrow> config_step cf cf' \<and> proxy_ok cf' p' \<and> pi_name p' = pi_name p"
  shows "entry_ok cf p e"
proof (cases e)
  case (Inr r)
  show ?thesis
  proof (cases r)
    case (Taken x)
    obtain p' cf' where x: "x = (p', cf')" by (cases x)
    with assms Inr Taken show ?thesis by (simp only: entry_ok_simps)
  qed (simp_all add: Inr)
qed simp

lemma entry_ok_bind: "(\<And>x. m = Inr x \<Longrightarrow> entry_ok cf p (f x)) \<Longrightarrow> entry_ok cf p (cbind m f)"
  by (cases m) simp_all

lemma entry_ok_or:
  assumes "entry_ok cf p e" and "entry_ok cf p f"
  shows "entry_ok cf p (or_entry e f)"
proof (cases e)
  case (Inr r)
  with assms show ?thesis by (cases r) (simp_all add: or_entry_def)
qed (simp add: or_entry_def)

lemma proxy_ok_pools [simp]:
  "proxy_ok (cf\<lparr>cf_rule_pool := x\<rparr>) p = proxy_ok cf p" "proxy_ok (cf\<lparr>cf_service_pool := x\<rparr>) p = proxy_ok cf p"
  by (simp_all add: proxy_ok_def log_ref_ok_def)

lemma proxy_ok_services [simp]: "proxy_ok cf (p\<lparr>pi_service_list := x\<rparr>) = proxy_ok cf p"
  by (simp add: proxy_ok_def)

lemma proxy_ok_rules:
  "proxy_ok cf p \<Longrightarrow> rules_ok (st_id ` set (cf_tunnels cf)) rules \<Longrightarrow> proxy_ok cf (p\<lparr>pi_route_rule_list := rules\<rparr>)"
  by (simp add: proxy_ok_def)

lemma config_service_entry_ok:
  assumes "config_ok cf" and "proxy_ok cf p"
  shows "entry_ok cf p (config_service_entry line field parse wrap p cf)"
  unfolding config_service_entry_def
proof (rule entry_ok_bind)
  fix v show "entry_ok cf p (case v of None \<Rightarrow> Inr Other_entry | Some s \<Rightarrow>
      cbind (parse s (cf_service_pool cf)) (\<lambda>(srv, pool).
        case srv of None \<Rightarrow> Inr Rejected
        | Some x \<Rightarrow> Inr (Taken (p\<lparr>pi_service_list := insert_service (pi_service_list p) (wrap x)\<rparr>, cf\<lparr>cf_service_pool := pool\<rparr>))))"
    using assms by (cases v) (auto intro!: entry_ok_bind simp: config_step_pools split: option.splits)
qed

lemma rules_entry_ok:
  assumes "config_ok cf" and "proxy_ok cf p"
    and "\<And>okay rs'. res = Inr (okay, rs') \<Longrightarrow> rules_grow (cf_tunnels cf) (pi_route_rule_list p) rs'"
  shows "entry_ok cf p (rules_entry p cf res)"
proof (rule entry_okI)
  fix p' cf' assume "rules_entry p cf res = Inr (Taken (p', cf'))"
  then obtain rules pool where res: "res = Inr (True, rules, pool)"
    and r: "p' = p\<lparr>pi_route_rule_list := rules\<rparr>" "cf' = cf\<lparr>cf_rule_pool := pool\<rparr>"
    by (auto simp: rules_entry_def cmap_def elim!: cbind_InrE split: if_splits)
  have "rules_ok (st_id ` set (cf_tunnels cf)) rules"
    using assms(2) assms(3) [OF res] by (auto simp: proxy_ok_def rules_grow_def)
  with assms(1,2) show "config_step cf cf' \<and> proxy_ok cf' p' \<and> pi_name p' = pi_name p"
    by (simp add: r config_step_pools proxy_ok_rules)
qed

lemma route_entry_ok:
  assumes "config_ok cf" and "proxy_ok cf p"
    and "parse_route_rule_spec (cf_rule_pool cf) s (Some filename) n (cf_tunnels cf) = Inr (route, pool)"
  shows "entry_ok cf p (case route of None \<Rightarrow> Inr Rejected
    | Some x \<Rightarrow> Inr (Taken (p\<lparr>pi_route_rule_list := insert_route_rule (pi_route_rule_list p) x\<rparr>, cf\<lparr>cf_rule_pool := pool\<rparr>)))"
proof (cases route)
  case (Some x)
  have "rules_ok (st_id ` set (cf_tunnels cf)) (insert_route_rule (pi_route_rule_list p) x)"
    using assms(2) parse_route_rule_spec_tunnel [OF assms(3) [unfolded Some]] by (simp add: rules_ok_insert proxy_ok_def)
  with assms(1,2) show ?thesis by (simp add: Some config_step_pools proxy_ok_rules)
qed simp

lemma config_route_entry_ok:
  assumes "config_ok cf" and "proxy_ok cf p"
  shows "entry_ok cf p (config_route_entry env filename n line p cf)"
proof -
  have g: "rules_grow (cf_tunnels cf) (pi_route_rule_list p) (pi_route_rule_list p, cf_rule_pool cf)"
    using rules_grow_refl [of "cf_tunnels cf" "(pi_route_rule_list p, cf_rule_pool cf)"] by simp
  have rules_file: "entry_ok cf p (rules_entry p cf
      (route_rule_file_parse env (cf_tunnels cf) [] s (pi_route_rule_list p, cf_rule_pool cf)))" for s
    by (rule rules_entry_ok [OF assms]) (erule route_rule_file_grows [OF _ g])
  have rules_dir: "entry_ok cf p (rules_entry p cf
      (route_rule_dir_parse env (cf_tunnels cf) s (pi_route_rule_list p, cf_rule_pool cf)))" for s
    by (rule rules_entry_ok [OF assms]) (erule route_rule_dir_grows [OF _ g])
  show ?thesis unfolding config_route_entry_def Let_def
    by (intro entry_ok_bind)
       (auto split: option.splits intro!: entry_ok_bind route_entry_ok [OF assms] rules_file rules_dir simp del: split_paired_All)
qed

lemma config_proxy_entry_step:
  assumes "config_file_parse_proxy_instance_entry env filename n line p cf = Inr (Some (p', cf'))"
    and "config_ok cf" and "proxy_ok cf p"
  shows "config_step cf cf' \<and> proxy_ok cf' p' \<and> pi_name p' = pi_name p"
proof -
  let ?log = "cmap (\<lambda>e. case e of Taken (lc, cf) \<Rightarrow> Taken (p\<lparr>pi_log := lc\<rparr>, cf) | Rejected \<Rightarrow> Rejected
    | Other_entry \<Rightarrow> Other_entry) (config_log_entry line cf (pi_log p))"
  have "entry_ok cf p ?log"
  proof (cases "config_log_entry line cf (pi_log p)")
    case (Inr e)
    show ?thesis
    proof (cases e)
      case (Taken x)
      obtain lc cf1 where x: "x = (lc, cf1)" by (cases x)
      have "log_ref_ok cf (pi_log p)" using assms(3) by (simp add: proxy_ok_def)
      from config_log_entry_step [OF Inr [unfolded Taken x] assms(2)] this
      have "config_step cf cf1" "log_ref_ok cf1 lc" "cf_tunnels cf1 = cf_tunnels cf" by blast+
      with assms(3) show ?thesis by (simp add: Inr Taken x) (simp add: proxy_ok_def)
    qed (simp_all add: Inr)
  qed simp
  then have "entry_ok cf p (or_entry ?log
      (or_entry (config_service_entry line ''socksServer '' parse_service_socks_spec Socks_srv p cf)
      (or_entry (config_service_entry line ''portForward '' parse_service_port_forward_spec Port_forward_srv p cf)
      (or_entry (config_service_entry line ''httpServer '' parse_service_http_spec Http_srv p cf)
        (config_route_entry env filename n line p cf)))))"
    by (intro entry_ok_or config_service_entry_ok config_route_entry_ok assms)
  moreover have "e = Inr (Taken (p', cf'))" if "cmap entry_result e = Inr (Some (p', cf'))" for e
  proof (cases e)
    case (Inr x)
    with that show ?thesis by (cases x) (simp_all add: entry_result_def)
  qed (use that in simp)
  from this [OF assms(1) [unfolded config_file_parse_proxy_instance_entry_def]] calculation
  show ?thesis by (simp only: entry_ok_simps)
qed

text \<open>The heads of sections.\<close>

lemma config_file_parse_log_file_step:
  "config_file_parse_log_file line cf = Inr (Some (r, cf')) \<Longrightarrow> config_ok cf \<Longrightarrow> config_step cf cf'"
  by (auto simp: config_file_parse_log_file_def Let_def config_step_refl split: if_splits prod.splits
      intro: more_logs_step(1))

lemma new_proxy_step:
  assumes "config_ok cf" and "pi_name p \<notin> pi_name ` set (cf_proxies cf)" and "proxy_ok cf p"
  shows "config_step cf (cf\<lparr>cf_proxies := insert_proxy_instance (cf_proxies cf) p\<rparr>)"
proof -
  let ?cf = "cf\<lparr>cf_proxies := insert_proxy_instance (cf_proxies cf) p\<rparr>"
  have g: "config_grows cf ?cf" by (auto simp: config_grows_def insert_proxy_instance_append)
  with assms log_ref_ok_grows [OF _ g] proxy_ok_grows [OF _ g] show ?thesis
    by (auto simp: config_step_def config_ok_def insert_proxy_instance_append)
qed

lemma config_file_parse_proxy_instance_step:
  assumes "config_file_parse_proxy_instance env line cf = Inr (Some (r, cf'))" and "config_ok cf"
  shows "config_step cf cf'"
proof (cases "find_proxy_by_name (cf_proxies cf) (drop 6 line)")
  case (Some p)
  with assms show ?thesis
    by (auto simp: config_file_parse_proxy_instance_def Let_def config_step_def split: if_splits)
next
  case None
  let ?new = "(new_proxy_instance_from_template (ce_log_mem env (length (cf_proxies cf))) (Some (cf_proxy_default cf)))
    \<lparr>pi_name := drop 6 line\<rparr>"
  have "cf' = cf \<or> cf' = cf\<lparr>cf_proxies := insert_proxy_instance (cf_proxies cf) ?new\<rparr>"
    using assms(1) None
    by (auto simp: config_file_parse_proxy_instance_def Let_def set_proxy_name_def cmap_def split: if_splits elim!: cbind_InrE)
  moreover have "pi_name ?new \<notin> pi_name ` set (cf_proxies cf)" using None proxies.lookup_None by simp
  moreover have "proxy_ok cf ?new" using assms(2)
    by (simp add: new_proxy_instance_from_template_def new_proxy_instance_def config_ok_def proxy_ok_def log_ref_ok_def
        rules_ok_def Let_def)
  ultimately show ?thesis using new_proxy_step [OF assms(2)] assms(2) by (auto simp: config_step_def)
qed

lemma new_tunnel_step:
  assumes "config_ok cf" and "n \<notin> st_name ` set (cf_tunnels cf)" and "new_ssh_tunnel mem (cf_globals cf) = (t, g)"
  shows "config_step cf (cf\<lparr>cf_tunnels := insert_ssh_tunnel (cf_tunnels cf) (t\<lparr>st_name := n\<rparr>), cf_globals := g\<rparr>)"
proof -
  let ?cf = "cf\<lparr>cf_tunnels := insert_ssh_tunnel (cf_tunnels cf) (t\<lparr>st_name := n\<rparr>), cf_globals := g\<rparr>"
  have g: "config_grows cf ?cf" by (auto simp: config_grows_def insert_ssh_tunnel_def)
  have "tunnels_ok (insert_ssh_tunnel (cf_tunnels cf) (t\<lparr>st_name := n\<rparr>)) g"
    using assms(1) tunnels_ok_new [OF _ assms(3)] by (simp add: config_ok_def)
  with assms(1,2) g log_ref_ok_grows [OF _ g] proxy_ok_grows [OF _ g] show ?thesis
    by (simp add: config_step_def config_ok_def insert_ssh_tunnel_def)
qed

lemma config_file_parse_ssh_tunnel_step:
  assumes "config_file_parse_ssh_tunnel env line cf = Inr (Some (r, cf'))" and "config_ok cf"
  shows "config_step cf cf'"
proof (cases "find_ssh_by_name (cf_tunnels cf) (drop 4 line)")
  case (Some p)
  with assms show ?thesis
    by (auto simp: config_file_parse_ssh_tunnel_def Let_def config_step_def split: if_splits)
next
  case None
  obtain t g where t: "new_ssh_tunnel (ce_ssh_mem env (ssh_id_pool (cf_globals cf))) (cf_globals cf) = (t, g)" by fastforce
  have "cf' = cf \<or>
      cf' = cf\<lparr>cf_tunnels := insert_ssh_tunnel (cf_tunnels cf) (t\<lparr>st_name := drop 4 line\<rparr>), cf_globals := g\<rparr>"
    using assms(1) None t
    by (auto simp: config_file_parse_ssh_tunnel_def Let_def set_ssh_name_def cmap_def split: if_splits elim!: cbind_InrE)
  moreover have "drop 4 line \<notin> st_name ` set (cf_tunnels cf)" using None tunnels.lookup_None by simp
  ultimately show ?thesis using new_tunnel_step [OF assms(2) _ t] assms(2) by (auto simp: config_step_def)
qed

lemma config_section_line_step:
  assumes "config_section_line env line cf = Inr (Some (sect, cf'))" and "config_ok cf"
  shows "config_step cf cf'"
proof (cases "config_file_parse_main line")
  case True
  with assms show ?thesis by (simp add: config_section_line_def config_step_def)
next
  case False
  note run = assms(1) [unfolded config_section_line_def if_not_P [OF False]]
  obtain l where l: "config_file_parse_log_file line cf = Inr l" using run by (auto elim: cbind_InrE)
  show ?thesis
  proof (cases l)
    case (Some x)
    obtain r cf1 where x: "x = (r, cf1)" by (cases x)
    with run l Some have "cf1 = cf'" by simp
    then show ?thesis using config_file_parse_log_file_step [OF _ assms(2)] l Some x by simp
  next
    case None
    note run = run [unfolded l None cbind_Inr option.case]
    obtain p where p: "config_file_parse_proxy_instance env line cf = Inr p" using run by (auto elim: cbind_InrE)
    show ?thesis
    proof (cases p)
      case (Some x)
      obtain r cf1 where x: "x = (r, cf1)" by (cases x)
      with run p Some have "cf1 = cf'" by simp
      then show ?thesis using config_file_parse_proxy_instance_step [OF _ assms(2)] p Some x by simp
    next
      case None
      with run p obtain r where "config_file_parse_ssh_tunnel env line cf = Inr (Some (r, cf'))"
        by (auto simp: cmap_def elim!: cbind_InrE)
      from config_file_parse_ssh_tunnel_step [OF this assms(2)] show ?thesis .
    qed
  qed
qed

text \<open>Entries.\<close>

lemma main_entry_step:
  assumes "config_file_parse_main_entry line cf = Inr (Some cf')" and "config_ok cf"
  shows "config_step cf cf'"
proof -
  have upd: "config_step cf1 (cf1\<lparr>cf_main := (cf_main cf1)\<lparr>mc_log := lc\<rparr>\<rparr>)" if "config_ok cf1" "log_ref_ok cf1 lc" for cf1 lc
    using that by (simp add: config_step_def config_ok_def config_grows_def proxy_ok_def log_ref_ok_def)
  have upd2: "config_step cf (cf\<lparr>cf_main := (cf_main cf)\<lparr>mc_ulimit := v\<rparr>\<rparr>)" for v
    using assms(2) by (simp add: config_step_def config_ok_def config_grows_def proxy_ok_def log_ref_ok_def)
  obtain e where e: "config_log_entry line cf (mc_log (cf_main cf)) = Inr e"
    using assms(1) by (auto simp: config_file_parse_main_entry_def elim: cbind_InrE)
  show ?thesis
  proof (cases e)
    case (Taken x)
    obtain lc cf1 where x: "x = (lc, cf1)" by (cases x)
    have "log_ref_ok cf (mc_log (cf_main cf))" using assms(2) by (simp add: config_ok_def)
    from config_log_entry_step [OF e [unfolded Taken x] assms(2)] this
    have s: "config_step cf cf1" "log_ref_ok cf1 lc" by blast+
    have "cf' = cf1\<lparr>cf_main := (cf_main cf1)\<lparr>mc_log := lc\<rparr>\<rparr>"
      using assms(1) by (simp add: config_file_parse_main_entry_def e Taken x)
    with s upd [of cf1 lc] show ?thesis by (auto simp: config_step_def intro: config_grows_trans)
  next
    case Other_entry
    with assms(1) e upd2 show ?thesis by (auto simp: config_file_parse_main_entry_def split: option.splits)
  qed (use assms(1) e in \<open>simp add: config_file_parse_main_entry_def\<close>)
qed

lemma log_entry_keeps_name: "config_file_parse_log_file_entry line l = Some l' \<Longrightarrow> lf_file_name l' = lf_file_name l"
  by (auto simp: config_file_parse_log_file_entry_def split: option.splits)

lemma ssh_entry_step:
  assumes "config_file_parse_ssh_tunnel_entry line t cf = Inr (Some (t', cf'))" and "config_ok cf"
  shows "config_step cf cf' \<and> st_id t' = st_id t \<and> st_name t' = st_name t \<and> cf_tunnels cf' = cf_tunnels cf \<and>
    cf_ssh_default cf' = cf_ssh_default cf"
proof (cases "config_set_int line ''socksPort ''")
  case (Some v)
  with assms show ?thesis by (auto simp: config_file_parse_ssh_tunnel_entry_def config_step_refl)
next
  case None
  note run = assms(1) [unfolded config_file_parse_ssh_tunnel_entry_def None option.case]
  obtain c where c: "config_set_string line ''command '' 8192 = Inr c" using run by (auto elim: cbind_InrE)
  show ?thesis
  proof (cases c)
    case (Some s)
    with run c assms(2) show ?thesis by (auto simp: config_step_refl)
  next
    case None
    then obtain e where e: "config_log_entry line cf (st_log t) = Inr e"
      and r: "map_option (\<lambda>(lc, cf). (t\<lparr>st_log := lc\<rparr>, cf)) (entry_result e) = Some (t', cf')"
      using run c by (auto simp: cmap_def elim!: cbind_InrE)
    obtain lc where "e = Taken (lc, cf')" "t' = t\<lparr>st_log := lc\<rparr>"
      using r by (auto simp: entry_result_def split: entry.splits)
    then show ?thesis using config_log_entry_step [OF _ assms(2)] e by simp
  qed
qed

lemma config_entry_line_step:
  assumes "config_entry_line env filename n line sect cf = Inr cf'" and "config_ok cf"
  shows "config_step cf cf'"
proof (cases sect)
  case No_section
  with assms(1) show ?thesis by (simp add: config_entry_line_def)
next
  case Main_section
  with assms(1) have "config_file_parse_main_entry line cf = Inr (Some cf')"
    by (auto simp: config_entry_line_def elim!: cbind_InrE split: option.splits)
  then show ?thesis using assms(2) by (rule main_entry_step)
next
  case (Log_section r)
  with assms(1) obtain l l' where l: "get_log cf r = Some l" "config_file_parse_log_file_entry line l = Some l'" "cf' = put_log cf r l'"
    by (auto simp: config_entry_line_def split: option.splits)
  then show ?thesis using put_log_step [OF assms(2) l(1)] log_entry_keeps_name by simp
next
  case (Proxy_section r)
  then obtain p where p: "get_proxy cf r = Some p"
    using assms(1) by (cases "get_proxy cf r") (simp_all add: config_entry_line_def)
  obtain p' cf1 where e: "config_file_parse_proxy_instance_entry env filename n line p cf = Inr (Some (p', cf1))"
    and cf': "cf' = put_proxy cf1 r p'"
    using assms(1) p Proxy_section by (auto simp: config_entry_line_def cmap_def elim!: cbind_InrE split: option.splits)
  have ok: "proxy_ok cf p" and r: "r = Named (pi_name p) \<or> r = Default"
    using p assms(2) by (auto simp: get_proxy_def config_ok_def split: obj_ref.splits dest: proxies.lookup_Some)
  from config_proxy_entry_step [OF e assms(2) ok] have s: "config_step cf cf1" "proxy_ok cf1 p'" "pi_name p' = pi_name p"
    by blast+
  then have "config_step cf1 cf'" unfolding cf' using r by (intro put_proxy_step) (auto simp: config_step_def)
  with s(1) show ?thesis by (rule config_step_trans)
next
  case (Ssh_section r)
  then obtain t where t: "get_ssh cf r = Some t"
    using assms(1) by (cases "get_ssh cf r") (simp_all add: config_entry_line_def)
  obtain t' cf1 where e: "config_file_parse_ssh_tunnel_entry line t cf = Inr (Some (t', cf1))" and cf': "cf' = put_ssh cf1 r t'"
    using assms(1) t Ssh_section by (auto simp: config_entry_line_def cmap_def elim!: cbind_InrE split: option.splits)
  from ssh_entry_step [OF e assms(2)] have s: "config_step cf cf1" "st_id t' = st_id t" "st_name t' = st_name t"
    "get_ssh cf1 r = Some t"
    using t by (auto simp: get_ssh_def split: obj_ref.splits)
  then have "config_step cf1 cf'" unfolding cf' by (intro put_ssh_step) (auto simp: config_step_def)
  with s(1) show ?thesis by (rule config_step_trans)
qed

section \<open>A file and what it includes\<close>

definition keeps_config :: "config_env \<Rightarrow> (config \<Rightarrow> bool) \<Rightarrow> bool" where
  "keeps_config env I \<longleftrightarrow>
     (\<forall>line cf sect cf'. I cf \<longrightarrow> config_section_line env line cf = Inr (Some (sect, cf')) \<longrightarrow> I cf') \<and>
     (\<forall>f n line sect cf cf'. I cf \<longrightarrow> config_entry_line env f n line sect cf = Inr cf' \<longrightarrow> I cf')"

lemma keeps_configD:
  assumes "keeps_config env I" and "I cf"
  shows "config_section_line env line cf = Inr (Some (sect, cf')) \<Longrightarrow> I cf'"
    and "config_entry_line env f n line sect' cf = Inr cf'' \<Longrightarrow> I cf''"
  using assms unfolding keeps_config_def by blast+

lemma config_lines_keep:
  "keeps_config env I \<Longrightarrow> I cf \<Longrightarrow> config_lines env stack filename n cr lf s sect cf = Inr (okay, cf') \<Longrightarrow> I cf'"
proof (induction env stack filename n cr lf s sect cf arbitrary: okay cf' rule: config_lines.induct)
  case (1 env stack filename n cr lf s sect cf)
  obtain rc buf cr' lf' r where rl: "read_line MAX_LINE_LENGTH [] cr lf s = (rc, buf, cr', lf', r)"
    by (metis prod_cases5)
  note run = "1.prems"(3) [unfolded config_lines.simps [of env stack filename n cr lf s sect cf] rl prod.case]
  note IH = "1.IH" [OF rl [symmetric] refl refl refl]
  show ?case
  proof (cases "rc = 1")
    case False
    with run "1.prems"(2) show ?thesis by simp
  next
    case True
    then have rc: "\<not> rc \<noteq> 1" by simp
    obtain l where l: "config_line env buf = Inr l" using run True by (auto elim: cbind_InrE)
    show ?thesis
    proof (cases l)
      case None
      with run l True "1.prems"(2) show ?thesis by simp
    next
      case (Some line)
      note IH = IH [OF rc l Some]
      show ?thesis
      proof (cases "line = []")
        case empty: True
        with IH(1) [OF empty "1.prems"(1,2)] run l True Some show ?thesis by simp
      next
        case False
        obtain inc where inc: "config_set_string line ''include '' STRING_BUF = Inr inc"
          using run l True Some False by (auto elim: cbind_InrE)
        note IH = IH(2-) [OF False inc]
        note [simp] = True l Some False inc
        show ?thesis
        proof (cases inc)
          case None
          note IH = IH(1,2) [OF None]
          obtain sl where sl: "config_section_line env line cf = Inr sl" using run None by (auto elim: cbind_InrE)
          show ?thesis
          proof (cases sl)
            case (Some x)
            obtain sect' cf1 where x: "x = (sect', cf1)" by (cases x)
            have "I cf1" using keeps_configD(1) [OF "1.prems"(1,2)] sl Some x by simp
            then show ?thesis using IH(2) [OF sl Some x [symmetric] "1.prems"(1)] run inc \<open>inc = None\<close> sl Some x by simp
          next
            case None
            obtain cf1 where e: "config_entry_line env filename n line sect cf = Inr cf1"
              using run \<open>inc = None\<close> sl None by (auto elim: cbind_InrE)
            have "I cf1" using keeps_configD(2) [OF "1.prems"(1,2) e] .
            then show ?thesis using IH(1) [OF sl None e "1.prems"(1)] run \<open>inc = None\<close> sl None e by simp
          qed
        next
          case (Some f)
          show ?thesis
          proof (cases "may_include stack f")
            case False
            with IH(6) [OF Some False "1.prems"(1,2)] run Some show ?thesis by simp
          next
            case may: True
            show ?thesis
            proof (cases "ce_open env f")
              case None
              with IH(3) [OF Some may None "1.prems"(1,2)] run Some may show ?thesis by simp
            next
              case opened: (Some s')
              obtain ok cf1 where nested: "config_lines env (stack @ [f]) f 1 False False s' No_section cf = Inr (ok, cf1)"
                using run Some may opened by (auto elim!: cbind_InrE)
              have "I cf1" using IH(4) [OF Some may opened "1.prems"(1,2) nested] .
              then show ?thesis
                using run Some may opened nested IH(5) [OF Some may opened nested refl "1.prems"(1)] by simp
            qed
          qed
        qed
      qed
    qed
  qed
qed

lemma keeps_config_step: "keeps_config env (config_step cf)"
  unfolding keeps_config_def
  by (blast intro: config_step_trans config_section_line_step config_entry_line_step
      dest: config_step_def [THEN iffD1])

lemma config_file_parse_step:
  assumes "config_file_parse env stack f cf = Inr (okay, cf')" and "config_ok cf"
  shows "config_step cf cf'"
proof (cases "ce_open env f")
  case None
  with assms show ?thesis by (simp add: config_file_parse_def config_step_refl)
next
  case (Some s)
  with assms(1) have "config_lines env (stack @ [f]) f 1 False False s No_section cf = Inr (okay, cf')"
    by (simp add: config_file_parse_def)
  from config_lines_keep [OF keeps_config_step config_step_refl [OF assms(2)] this] show ?thesis .
qed

end
