(* ===== verification/Rule_Syntax.thy ===== *)
theory Rule_Syntax
  imports Route_Rule
begin

text \<open>
  The language of routing rules, as the readme describes it, and the proof that
  \<open>parse_route_rule_spec\<close> reads it: a rule is a sequence of terms (criteria, permutations,
  \<open>resolveDNS\<close>) and the tunnels it goes via. The text of a rule parses to the rule with
  exactly these fields.
\<close>

section \<open>Abstract rules and their text\<close>

datatype netmask = No_mask | Prefix_len nat | Dotted_mask u32

datatype rule_term =
    T_is string | T_startsWith string | T_endsWith string | T_contains string
  | T_port nat
  | T_network u32 netmask | T_map u32 netmask | T_to u32 netmask
  | T_resolveDNS

definition show_addr :: "u32 \<Rightarrow> string" where
  "show_addr a = inet_ntop4 (htonl a)"

definition show_net :: "u32 \<Rightarrow> netmask \<Rightarrow> string" where
  "show_net a m =
     show_addr a @
     (case m of No_mask \<Rightarrow> []
      | Prefix_len n \<Rightarrow> CHR ''/'' # show_nat n
      | Dotted_mask w \<Rightarrow> CHR ''/'' # show_addr w)"

definition mask_val :: "netmask \<Rightarrow> u32" where
  "mask_val m =
     (case m of No_mask \<Rightarrow> 0xffffffff
      | Prefix_len n \<Rightarrow> push_bit (32 - n) 0xffffffff
      | Dotted_mask w \<Rightarrow> w)"

fun term_tokens :: "rule_term \<Rightarrow> string list" where
  "term_tokens (T_is s) = [''is'', s]"
| "term_tokens (T_startsWith s) = [''startsWith'', s]"
| "term_tokens (T_endsWith s) = [''endsWith'', s]"
| "term_tokens (T_contains s) = [''contains'', s]"
| "term_tokens (T_port n) = [''port'', show_nat n]"
| "term_tokens (T_network a m) = [''network'', show_net a m]"
| "term_tokens (T_map a m) = [''map'', show_net a m]"
| "term_tokens (T_to a m) = [''to'', show_net a m]"
| "term_tokens T_resolveDNS = [''resolveDNS'']"

fun apply_term :: "rule_term \<Rightarrow> route_rule \<Rightarrow> route_rule" where
  "apply_term (T_is s) r = r\<lparr>rr_match_is := s\<rparr>"
| "apply_term (T_startsWith s) r = r\<lparr>rr_match_starts_with := s\<rparr>"
| "apply_term (T_endsWith s) r = r\<lparr>rr_match_ends_with := s\<rparr>"
| "apply_term (T_contains s) r = r\<lparr>rr_match_contains := s\<rparr>"
| "apply_term (T_port n) r = r\<lparr>rr_match_port := int n\<rparr>"
| "apply_term (T_network a m) r =
     r\<lparr>rr_have_match_ipv4 := True, rr_match_ipv4_addr := a, rr_match_ipv4_mask := mask_val m\<rparr>"
| "apply_term (T_map a m) r =
     r\<lparr>rr_have_map_ipv4 := True, rr_map_ipv4_addr := a, rr_map_ipv4_mask := mask_val m\<rparr>"
| "apply_term (T_to a m) r =
     r\<lparr>rr_have_to_ipv4 := True, rr_to_ipv4_addr := a, rr_to_ipv4_mask := mask_val m\<rparr>"
| "apply_term T_resolveDNS r = r\<lparr>rr_resolve_dns := True\<rparr>"

definition word_ok :: "string \<Rightarrow> bool" where
  "word_ok s \<longleftrightarrow> CHR '' '' \<notin> set s \<and> length s < MAX_DNS"

definition netmask_ok :: "netmask \<Rightarrow> bool" where
  "netmask_ok m = (case m of Prefix_len n \<Rightarrow> 1 \<le> n \<and> n \<le> 32 | _ \<Rightarrow> True)"

fun term_ok :: "rule_term \<Rightarrow> bool" where
  "term_ok (T_is s) = word_ok s"
| "term_ok (T_startsWith s) = word_ok s"
| "term_ok (T_endsWith s) = word_ok s"
| "term_ok (T_contains s) = word_ok s"
| "term_ok (T_port n) = (n < 2 ^ 31)"
| "term_ok (T_network a m) = netmask_ok m"
| "term_ok (T_map a m) = netmask_ok m"
| "term_ok (T_to a m) = netmask_ok m"
| "term_ok T_resolveDNS = True"

fun sep_join :: "char \<Rightarrow> string list \<Rightarrow> string option" where
  "sep_join c [] = None"
| "sep_join c (t # ts) =
     Some (t @ (case sep_join c ts of None \<Rightarrow> [] | Some s \<Rightarrow> c # s))"

definition rule_tokens :: "rule_term list \<Rightarrow> string list \<Rightarrow> string list" where
  "rule_tokens ts vias =
     concat (map term_tokens ts)
     @ (case sep_join (CHR '','') vias of None \<Rightarrow> [] | Some v \<Rightarrow> [''via'', v])"

definition rule_text :: "rule_term list \<Rightarrow> string list \<Rightarrow> string option" where
  "rule_text ts vias = sep_join (CHR '' '') (rule_tokens ts vias)"

definition via_ok :: "ssh_tunnel list \<Rightarrow> string \<Rightarrow> bool" where
  "via_ok ssh_list n \<longleftrightarrow>
     n \<noteq> [] \<and> CHR '' '' \<notin> set n \<and> CHR '','' \<notin> set n \<and> find_ssh_by_name ssh_list n \<noteq> None"

definition via_ref :: "ssh_tunnel list \<Rightarrow> string \<Rightarrow> tun_ref" where
  "via_ref ssh_list n = st_id (the (find_ssh_by_name ssh_list n))"

section \<open>Tokens come apart again\<close>

lemma strsep_sep_join:
  assumes "c \<in> set ds" and "\<forall>d \<in> set ds. d \<notin> set t"
  shows "strsep ds (sep_join c (t # ts)) = (Some t, sep_join c ts)"
proof (cases "sep_join c ts")
  case None
  have "strsep ds (Some t) = (Some t, None)" using assms by (intro strsep_last) blast
  with None show ?thesis by (simp del: strsep.simps)
next
  case (Some r)
  have "strsep ds (Some (t @ c # r)) = (Some t, Some r)" using assms by (intro strsep_tok) blast+
  with Some show ?thesis by (simp del: strsep.simps)
qed

lemma strsep_space:
  "CHR '' '' \<notin> set t \<Longrightarrow> strsep '' '' (sep_join (CHR '' '') (t # ts)) = (Some t, sep_join (CHR '' '') ts)"
  by (rule strsep_sep_join) auto

lemma show_addr_chars: "x \<in> set (show_addr a) \<Longrightarrow> c_isdigit x \<or> x = CHR ''.''"
  using show_nat_digits by (auto simp: show_addr_def inet_ntop4_def Let_def show_octet_def)

lemma show_addr_no_special: "CHR '' '' \<notin> set (show_addr a)" "CHR ''/'' \<notin> set (show_addr a)"
  using show_addr_chars by (fastforce simp: c_isdigit_def)+

lemma show_nat_no_special: "CHR '' '' \<notin> set (show_nat n)" "CHR ''.'' \<notin> set (show_nat n)"
    "CHR ''/'' \<notin> set (show_nat n)"
  using show_nat_digits by (fastforce simp: c_isdigit_def)+

lemma show_net_no_space: "CHR '' '' \<notin> set (show_net a m)"
  using show_addr_no_special show_nat_no_special by (auto simp: show_net_def split: netmask.splits)

lemma convert_show_addr [simp]: "convert_string_to_ipv4_ulong (show_addr a) = Some a"
  by (simp add: convert_string_to_ipv4_ulong_def show_addr_def)

lemma convert_show_nat [simp]: "convert_string_to_ipv4_ulong (show_nat n) = None"
  by (simp add: convert_string_to_ipv4_ulong_def inet_pton4_def split_dots_no_dot show_nat_no_special)

lemma prefix_mask_ok: "1 \<le> n \<Longrightarrow> n \<le> 32 \<Longrightarrow> prefix_mask (int n) = Inr (push_bit (32 - n) 0xffffffff)"
proof -
  assume n: "1 \<le> n" "n \<le> 32"
  have "nat (32 - int n) = 32 - n" using n by simp
  moreover have "w AND 0xffffffff = w" for w :: u32
  proof -
    have "(0xffffffff :: u32) = - 1" by simp
    then show ?thesis by (simp only: and.right_neutral)
  qed
  ultimately show ?thesis using n by (simp add: prefix_mask_def)
qed

lemma grab_netv4_other: "cmd \<noteq> e \<Longrightarrow> route_rule_grab_netv4 e cmd p = Inr None"
  by (simp add: route_rule_grab_netv4_def)

lemma grab_netv4_show:
  assumes "netmask_ok m"
  shows "route_rule_grab_netv4 e e (Some (show_net a m)) = Inr (Some (a, mask_val m))"
proof (cases m)
  case No_mask
  have "strsep ''/'' (Some (show_net a m)) = (Some (show_addr a), None)"
    using show_addr_no_special by (subst strsep_char_last) (auto simp: No_mask show_net_def)
  then show ?thesis
    by (simp add: route_rule_grab_netv4_def No_mask mask_val_def del: strsep.simps) simp
next
  case (Prefix_len n)
  have "strsep ''/'' (Some (show_net a m)) = (Some (show_addr a), Some (show_nat n))"
    using show_addr_no_special by (simp add: Prefix_len show_net_def strsep_char_tok del: strsep.simps)
  moreover have "strsep ''/'' (Some (show_nat n)) = (Some (show_nat n), None)"
    using show_nat_no_special by (subst strsep_char_last) auto
  moreover have "sscanf_i (show_nat n) = Some (int n)" "prefix_mask (int n) = Inr (mask_val m)"
    using assms by (auto simp: netmask_ok_def Prefix_len mask_val_def sscanf_i_show_nat prefix_mask_ok)
  ultimately show ?thesis
    by (simp add: route_rule_grab_netv4_def del: strsep.simps)
next
  case (Dotted_mask w)
  have "strsep ''/'' (Some (show_net a m)) = (Some (show_addr a), Some (show_addr w))"
    using show_addr_no_special by (simp add: Dotted_mask show_net_def strsep_char_tok del: strsep.simps)
  moreover have "strsep ''/'' (Some (show_addr w)) = (Some (show_addr w), None)"
    using show_addr_no_special by (subst strsep_char_last) auto
  ultimately show ?thesis
    by (simp add: route_rule_grab_netv4_def Dotted_mask mask_val_def del: strsep.simps)
qed

section \<open>The two loops of the parser\<close>

lemma parse_rule_cmds_word:
  assumes "CHR '' '' \<notin> set c" "c \<noteq> ''resolveDNS''" "c \<noteq> ''via''" "CHR '' '' \<notin> set p"
    and "route_rule_command c (Some p) r = Inr (Some r')"
  shows "parse_rule_cmds (sep_join (CHR '' '') (c # p # rest)) r =
         parse_rule_cmds (sep_join (CHR '' '') rest) r'"
proof -
  obtain s where s: "sep_join (CHR '' '') (c # p # rest) = Some s" by simp
  have "strsep '' '' (Some s) = (Some c, sep_join (CHR '' '') (p # rest))"
    unfolding s [symmetric] using assms(1) by (rule strsep_space)
  then show ?thesis
    using assms strsep_space [of p rest]
    by (simp add: s parse_rule_cmds.simps(2) del: strsep.simps sep_join.simps)
qed

lemma parse_rule_cmds_resolve:
  "parse_rule_cmds (sep_join (CHR '' '') (''resolveDNS'' # rest)) r =
   parse_rule_cmds (sep_join (CHR '' '') rest) (r\<lparr>rr_resolve_dns := True\<rparr>)"
proof -
  obtain s where s: "sep_join (CHR '' '') (''resolveDNS'' # rest) = Some s" by simp
  have "strsep '' '' (Some s) = (Some ''resolveDNS'', sep_join (CHR '' '') rest)"
    unfolding s [symmetric] by (rule strsep_space) simp
  then show ?thesis by (simp add: s parse_rule_cmds.simps(2) del: strsep.simps sep_join.simps)
qed

lemma parse_rule_cmds_via:
  "parse_rule_cmds (sep_join (CHR '' '') [''via'', v]) r = Inr (True, Some v, r)"
proof -
  obtain s where s: "sep_join (CHR '' '') [''via'', v] = Some s" by simp
  have "strsep '' '' (Some s) = (Some ''via'', Some v)"
    using strsep_space [of "''via''" "[v]"] unfolding s by simp
  then show ?thesis by (simp add: s parse_rule_cmds.simps(2) del: strsep.simps sep_join.simps)
qed

lemma command_param:
  "length s < MAX_DNS \<Longrightarrow> route_rule_command ''is'' (Some s) r = Inr (Some (r\<lparr>rr_match_is := s\<rparr>))"
  "length s < MAX_DNS \<Longrightarrow> route_rule_command ''startsWith'' (Some s) r = Inr (Some (r\<lparr>rr_match_starts_with := s\<rparr>))"
  "length s < MAX_DNS \<Longrightarrow> route_rule_command ''endsWith'' (Some s) r = Inr (Some (r\<lparr>rr_match_ends_with := s\<rparr>))"
  "length s < MAX_DNS \<Longrightarrow> route_rule_command ''contains'' (Some s) r = Inr (Some (r\<lparr>rr_match_contains := s\<rparr>))"
  "n < 2 ^ 31 \<Longrightarrow> route_rule_command ''port'' (Some (show_nat n)) r = Inr (Some (r\<lparr>rr_match_port := int n\<rparr>))"
  by (simp_all add: route_rule_command_def route_rule_grab_param_def strncpy_term_short sscanf_i_show_nat)

lemma command_net:
  assumes "netmask_ok m"
  shows "route_rule_command ''network'' (Some (show_net a m)) r = Inr (Some (apply_term (T_network a m) r))"
    and "route_rule_command ''map'' (Some (show_net a m)) r = Inr (Some (apply_term (T_map a m) r))"
    and "route_rule_command ''to'' (Some (show_net a m)) r = Inr (Some (apply_term (T_to a m) r))"
  using assms
  by (simp_all add: route_rule_command_def route_rule_grab_param_def grab_netv4_show grab_netv4_other)

lemma parse_rule_cmds_term:
  assumes "term_ok t"
  shows "parse_rule_cmds (sep_join (CHR '' '') (term_tokens t @ rest)) r =
         parse_rule_cmds (sep_join (CHR '' '') rest) (apply_term t r)"
proof (cases t)
  case T_resolveDNS
  then show ?thesis by (simp add: parse_rule_cmds_resolve del: sep_join.simps)
qed (use assms in \<open>auto simp: word_ok_def show_net_no_space show_nat_no_special command_param command_net
       simp del: sep_join.simps intro!: parse_rule_cmds_word\<close>)

lemma parse_rule_cmds_terms:
  "list_all term_ok ts \<Longrightarrow>
   parse_rule_cmds (sep_join (CHR '' '') (concat (map term_tokens ts) @ rest)) r =
   parse_rule_cmds (sep_join (CHR '' '') rest) (fold apply_term ts r)"
  by (induction ts arbitrary: r) (auto simp: parse_rule_cmds_term)

lemma apply_terms_tunnel: "rr_tunnel (fold apply_term ts r) = rr_tunnel r"
proof (induction ts arbitrary: r)
  case (Cons t ts)
  have "rr_tunnel (apply_term t r) = rr_tunnel r" by (cases t) auto
  with Cons show ?case by simp
qed simp

lemma parse_rule_vias_join:
  assumes "list_all (via_ok ssh_list) vias"
    and "length (rr_tunnel r) + length vias < ROUTE_RULE_MAX_SSH_TUNNELS_PER_RULE"
  shows "parse_rule_vias ssh_list (sep_join (CHR '','') vias) r =
           (True, r\<lparr>rr_tunnel := rr_tunnel r @ map (via_ref ssh_list) vias\<rparr>)"
  using assms
proof (induction vias arbitrary: r)
  case Nil
  then show ?case by simp
next
  case (Cons v vias)
  obtain s where s: "sep_join (CHR '','') (v # vias) = Some s" by simp
  have v: "v \<noteq> []" "CHR '' '' \<notin> set v" "CHR '','' \<notin> set v"
    using Cons.prems(1) by (simp_all add: via_ok_def)
  obtain t where t: "find_ssh_by_name ssh_list v = Some t"
    using Cons.prems(1) by (auto simp: via_ok_def)
  have "strsep '' ,'' (Some s) = (Some v, sep_join (CHR '','') vias)"
    unfolding s [symmetric] using v by (intro strsep_sep_join) auto
  moreover have "length (rr_tunnel r) < ROUTE_RULE_MAX_SSH_TUNNELS_PER_RULE - 1"
    using Cons.prems(2) by simp
  ultimately show ?case
    using v t Cons.prems Cons.IH [of "r\<lparr>rr_tunnel := rr_tunnel r @ [st_id t]\<rparr>"]
    by (simp add: s parse_rule_vias.simps(2) via_ref_def del: strsep.simps sep_join.simps)
qed

section \<open>Parsing a rule's text\<close>

definition blank_rule :: "nat \<Rightarrow> string option \<Rightarrow> int \<Rightarrow> route_rule" where
  "blank_rule pool filename line_num =
     (fst (new_route_rule pool))
       \<lparr>rr_file_name := (case filename of None \<Rightarrow> [] | Some f \<Rightarrow> strncpy_term 4096 f),
        rr_file_line_number := line_num\<rparr>"

lemma parse_spec_blank:
  "parse_route_rule_spec pool s fn ln ssh_list =
     cbind (parse_rule_cmds (Some s) (blank_rule pool fn ln)) (\<lambda>(okay, p, route).
       if \<not> okay then Inr (None, pool + 1)
       else let (okay, route) = parse_rule_vias ssh_list p route
            in Inr (if okay then Some route else None, pool + 1))"
proof -
  obtain r where r: "new_route_rule pool = (r, pool + 1)"
    by (simp add: new_route_rule_def Let_def)
  show ?thesis
    unfolding parse_route_rule_spec_def blank_rule_def r by (simp only: Let_def prod.case fst_conv)
qed

lemma parse_rule_text:
  assumes "rule_text ts vias = Some s"
    and "list_all term_ok ts" and "list_all (via_ok ssh_list) vias"
    and "length vias < ROUTE_RULE_MAX_SSH_TUNNELS_PER_RULE"
  shows "parse_route_rule_spec pool s fn ln ssh_list =
           Inr (Some ((fold apply_term ts (blank_rule pool fn ln))
                        \<lparr>rr_tunnel := map (via_ref ssh_list) vias\<rparr>), pool + 1)"
proof -
  let ?r = "fold apply_term ts (blank_rule pool fn ln)"
  have tun: "rr_tunnel ?r = []"
    by (simp add: apply_terms_tunnel blank_rule_def new_route_rule_def Let_def)
  have "parse_rule_cmds (Some s) (blank_rule pool fn ln) = Inr (True, sep_join (CHR '','') vias, ?r)"
  proof (cases "sep_join (CHR '','') vias")
    case None
    then have "Some s = sep_join (CHR '' '') (concat (map term_tokens ts) @ [])"
      using assms(1) by (simp add: rule_text_def rule_tokens_def)
    then show ?thesis
      by (simp only: parse_rule_cmds_terms [OF assms(2)]) (simp add: None)
  next
    case (Some v)
    then have "Some s = sep_join (CHR '' '') (concat (map term_tokens ts) @ [''via'', v])"
      using assms(1) by (simp add: rule_text_def rule_tokens_def)
    then show ?thesis
      by (simp only: parse_rule_cmds_terms [OF assms(2)] parse_rule_cmds_via Some)
  qed
  moreover have "parse_rule_vias ssh_list (sep_join (CHR '','') vias) ?r =
                   (True, ?r\<lparr>rr_tunnel := map (via_ref ssh_list) vias\<rparr>)"
    using parse_rule_vias_join [of ssh_list vias ?r] assms(3,4) tun by simp
  ultimately show ?thesis by (simp add: parse_spec_blank)
qed

text \<open>
  C22: the parser reads the whole rule language. The text of any sequence of well-formed
  criteria, permutations and \<open>resolveDNS\<close>, followed by up to 99 known tunnels, parses to a
  fresh rule that has exactly the fields these terms set, later terms overriding earlier
  ones, and goes via exactly these tunnels in this order.
\<close>

theorem parse_route_rule_spec_complete:
  assumes "rule_text ts vias = Some s"
    and "list_all term_ok ts" and "list_all (via_ok ssh_list) vias"
    and "length vias < ROUTE_RULE_MAX_SSH_TUNNELS_PER_RULE"
  shows "parse_route_rule_spec pool s fn ln ssh_list =
           Inr (Some ((fold apply_term ts (blank_rule pool fn ln))
                        \<lparr>rr_tunnel := map (via_ref ssh_list) vias\<rparr>), pool + 1)"
  by (rule parse_rule_text [OF assms])

definition sample_tunnel :: ssh_tunnel where
  "sample_tunnel = zero_tunnel\<lparr>st_id := 7, st_name := ''networkA''\<rparr>"

definition sample_terms :: "rule_term list" where
  "sample_terms = [T_endsWith ''example.com'', T_port 443, T_network 0x0A000000 (Prefix_len 8)]"

lemma sample_text:
  "rule_text sample_terms [''networkA''] =
     Some ''endsWith example.com port 443 network 10.0.0.0/8 via networkA''"
  by code_simp

theorem parse_route_rule_spec_complete_witness:
  "\<exists>r. parse_route_rule_spec 0 ''endsWith example.com port 443 network 10.0.0.0/8 via networkA''
          None 1 [sample_tunnel] = Inr (Some r, 1) \<and>
        rr_match_ends_with r = ''example.com'' \<and> rr_match_port r = 443 \<and>
        rr_match_ipv4_addr r = 0x0A000000 \<and> rr_match_ipv4_mask r = 0xFF000000 \<and>
        rr_tunnel r = [7]"
proof -
  have "list_all term_ok sample_terms"
    by (simp add: sample_terms_def word_ok_def netmask_ok_def MAX_DNS_def)
  moreover have "list_all (via_ok [sample_tunnel]) [''networkA'']"
    by (simp add: via_ok_def find_ssh_by_name_def sample_tunnel_def)
  moreover have "length [''networkA''] < ROUTE_RULE_MAX_SSH_TUNNELS_PER_RULE"
    by (simp add: ROUTE_RULE_MAX_SSH_TUNNELS_PER_RULE_def)
  ultimately show ?thesis
    using parse_route_rule_spec_complete [OF sample_text, of "[sample_tunnel]" 0 None 1]
    by (simp add: sample_terms_def via_ref_def find_ssh_by_name_def sample_tunnel_def mask_val_def)
qed

end
