(* ===== verification/Rule_Files.thy ===== *)
theory Rule_Files
  imports Config_Inv Rule_Syntax "HOL-Library.Multiset"
begin

text \<open>
  What rule files and rule directories mean: the rules of a file in the order of its lines, and
  the files of a directory in the order of their names.
\<close>

section \<open>The rules of a file\<close>

text \<open>The rules that the lines stand for, from line \<open>n\<close> of the file \<open>f\<close>.\<close>

fun rules_of_lines :: "ssh_tunnel list \<Rightarrow> string \<Rightarrow> int \<Rightarrow> string list \<Rightarrow> route_rule list \<times> nat \<Rightarrow> (bool \<times> route_rule list \<times> nat) cres" where
  "rules_of_lines ssh f n [] rs = Inr (True, rs)"
| "rules_of_lines ssh f n (l # ls) rs =
     cbind (parse_route_rule_spec (snd rs) l (Some f) n ssh) (\<lambda>(route, pool).
       case route of
         None \<Rightarrow> Inr (False, fst rs, pool)
       | Some x \<Rightarrow> rules_of_lines ssh f (n + 1) ls (fst rs @ [x], pool))"

definition rule_line :: "string \<Rightarrow> bool" where
  "rule_line l \<longleftrightarrow> l \<noteq> [] \<and> \<not> string_starts_with l ''routeFile '' \<and>
     (\<exists>ws. l = join_words ws \<and> list_all plain_word ws) \<and> length l < MAX_LINE_LENGTH - 1"

lemma config_line_rule_line: "rule_line l \<Longrightarrow> config_line env l = Inr (Some l)"
  by (auto simp: rule_line_def config_line_def c_str_plain remove_extra_spaces_plain replace_plain)

lemma set_string_rule_line: "rule_line l \<Longrightarrow> config_set_string l ''routeFile '' n = Inr None"
  by (simp add: rule_line_def config_set_string_def match_start_def)

lemma rule_line_ok: "rule_line l \<Longrightarrow> line_ok l"
  by (auto simp: rule_line_def intro: line_ok_plain)

lemma read_lines_ConsD:
  assumes "read_lines cr lf s = (l # ls, fin)"
  obtains cr' lf' r where "read_line MAX_LINE_LENGTH [] cr lf s = (1, l, cr', lf', r)" "read_lines cr' lf' r = (ls, fin)"
proof -
  obtain rc buf cr' lf' r where rl: "read_line MAX_LINE_LENGTH [] cr lf s = (rc, buf, cr', lf', r)"
    by (metis prod_cases5)
  show ?thesis
  proof (cases "rc = 1")
    case True
    then have "apfst (Cons buf) (read_lines cr' lf' r) = (l # ls, fin)"
      using assms by (simp add: read_lines.simps [of cr lf s] rl)
    then show ?thesis using that rl True by (cases "read_lines cr' lf' r") auto
  next
    case False
    with assms show ?thesis by (simp add: read_lines.simps [of cr lf s] rl)
  qed
qed

lemma read_lines_NilD:
  assumes "read_lines cr lf s = ([], fin)"
  obtains buf cr' lf' r where "read_line MAX_LINE_LENGTH [] cr lf s = (fin, buf, cr', lf', r)" "fin \<noteq> 1"
proof -
  obtain rc buf cr' lf' r where rl: "read_line MAX_LINE_LENGTH [] cr lf s = (rc, buf, cr', lf', r)"
    by (metis prod_cases5)
  show ?thesis
  proof (cases "rc = 1")
    case True
    with assms show ?thesis by (cases "read_lines cr' lf' r") (simp add: read_lines.simps [of cr lf s] rl)
  next
    case False
    with assms that rl show ?thesis by (simp add: read_lines.simps [of cr lf s] rl)
  qed
qed

lemma route_rule_lines_rules:
  "read_lines cr lf s = (ls, 2) \<Longrightarrow> list_all rule_line ls \<Longrightarrow>
     route_rule_lines env ssh stack f n cr lf s rs = rules_of_lines ssh f n ls rs"
proof (induction ls arbitrary: n cr lf s rs)
  case Nil
  from Nil.prems(1) obtain buf cr' lf' r where "read_line MAX_LINE_LENGTH [] cr lf s = (2, buf, cr', lf', r)"
    by (rule read_lines_NilD)
  then show ?case by (simp add: route_rule_lines.simps [of env ssh stack f n cr lf s])
next
  case (Cons l ls)
  from Cons.prems(1) obtain cr' lf' r where rl: "read_line MAX_LINE_LENGTH [] cr lf s = (1, l, cr', lf', r)"
    "read_lines cr' lf' r = (ls, 2)" by (rule read_lines_ConsD)
  have l: "rule_line l" "list_all rule_line ls" using Cons.prems(2) by simp_all
  then have "l \<noteq> []" by (simp add: rule_line_def)
  have "route_rule_lines env ssh stack f n cr lf s rs =
      cbind (parse_route_rule_spec (snd rs) l (Some f) n ssh) (\<lambda>(route, pool).
        case route of None \<Rightarrow> Inr (False, fst rs, pool)
        | Some x \<Rightarrow> route_rule_lines env ssh stack f (n + 1) cr' lf' r (insert_route_rule (fst rs) x, pool))"
    using \<open>l \<noteq> []\<close> by (simp add: route_rule_lines.simps [of env ssh stack f n cr lf s] rl(1) config_line_rule_line [OF l(1)]
        set_string_rule_line [OF l(1)])
  then show ?case
    by (simp add: Cons.IH [OF rl(2) l(2)] insert_route_rule_append cong: option.case_cong)
qed

text \<open>The text of an abstract rule is a line in normal form.\<close>

definition plain_term :: "rule_term \<Rightarrow> bool" where
  "plain_term t \<longleftrightarrow> list_all plain_word (term_tokens t)"

lemma sep_join_words: "ws \<noteq> [] \<Longrightarrow> sep_join (CHR '' '') ws = Some (join_words ws)"
  by (induction ws rule: join_words.induct) auto

lemma sep_join_comma_plain:
  "sep_join (CHR '','') vias = Some v \<Longrightarrow> list_all plain_word vias \<Longrightarrow> plain_word v"
proof (induction vias arbitrary: v)
  case (Cons a vias)
  then show ?case
    by (cases "sep_join (CHR '','') vias") (auto simp: plain_word_def plain_char_def is_blank_def)
qed simp

lemma plain_via: "plain_word ''via''"
  by (simp add: plain_word_def plain_char_def is_blank_def)

lemma rule_text_plain:
  assumes "rule_text ts vias = Some s" and "list_all plain_term ts" and "list_all plain_word vias"
  shows "s = join_words (rule_tokens ts vias) \<and> rule_tokens ts vias \<noteq> [] \<and> list_all plain_word (rule_tokens ts vias)"
proof -
  have ne: "rule_tokens ts vias \<noteq> []" using assms(1) by (auto simp: rule_text_def)
  have "list_all plain_word (concat (map term_tokens ts))"
    using assms(2) by (induction ts) (simp_all add: plain_term_def)
  then have "list_all plain_word (rule_tokens ts vias)"
    using sep_join_comma_plain [OF _ assms(3)] plain_via by (auto simp: rule_tokens_def split: option.splits)
  with assms(1) ne show ?thesis by (simp add: rule_text_def sep_join_words)
qed

lemma rule_tokens_head:
  "rule_tokens ts vias = w # ws \<Longrightarrow>
     w \<in> {''is'', ''startsWith'', ''endsWith'', ''contains'', ''port'', ''network'', ''map'', ''to'', ''resolveDNS'', ''via''}"
proof (cases ts)
  case (Cons t ts')
  then show "rule_tokens ts vias = w # ws \<Longrightarrow> ?thesis" by (cases t) (auto simp: rule_tokens_def)
qed (auto simp: rule_tokens_def split: option.splits)

lemma not_route_file:
  "rule_tokens ts vias = w # ws \<Longrightarrow> \<not> string_starts_with (join_words (w # ws)) ''routeFile ''"
  by (drule rule_tokens_head) (auto simp: string_starts_with_iff join_words_Cons)

lemma rule_text_line:
  assumes "rule_text ts vias = Some s" and "list_all plain_term ts" and "list_all plain_word vias"
    and "length s < MAX_LINE_LENGTH - 1"
  shows "rule_line s"
proof -
  note p = rule_text_plain [OF assms(1-3)]
  obtain w ws where w: "rule_tokens ts vias = w # ws" using p by (cases "rule_tokens ts vias") auto
  have "w \<noteq> []" using p w by (simp add: plain_word_def)
  then have "s \<noteq> []" using p w by (simp add: join_words_Cons)
  moreover have "\<not> string_starts_with s ''routeFile ''" using p w not_route_file [OF w] by simp
  ultimately show ?thesis using p assms(4) unfolding rule_line_def by blast
qed

text \<open>The rules that a list of abstract rules stands for, in a file.\<close>

fun file_rules :: "ssh_tunnel list \<Rightarrow> string \<Rightarrow> int \<Rightarrow> nat \<Rightarrow> (rule_term list \<times> string list) list \<Rightarrow> route_rule list" where
  "file_rules ssh f n pool [] = []"
| "file_rules ssh f n pool ((ts, vias) # rls) =
     (fold apply_term ts (blank_rule pool (Some f) n))\<lparr>rr_tunnel := map (via_ref ssh) vias\<rparr>
       # file_rules ssh f (n + 1) (pool + 1) rls"

definition rule_text_ok :: "ssh_tunnel list \<Rightarrow> rule_term list \<times> string list \<Rightarrow> bool" where
  "rule_text_ok ssh = (\<lambda>(ts, vias).
     (case rule_text ts vias of None \<Rightarrow> False | Some s \<Rightarrow> length s < MAX_LINE_LENGTH - 1) \<and>
     list_all (\<lambda>t. term_ok t \<and> plain_term t) ts \<and> list_all (\<lambda>v. via_ok ssh v \<and> plain_word v) vias \<and>
     length vias < ROUTE_RULE_MAX_SSH_TUNNELS_PER_RULE)"

definition text_of_rule :: "rule_term list \<times> string list \<Rightarrow> string" where
  "text_of_rule = (\<lambda>(ts, vias). the (rule_text ts vias))"

lemma text_of_rule_ok:
  assumes "rule_text_ok ssh (ts, vias)"
  shows "rule_text ts vias = Some (text_of_rule (ts, vias)) \<and> rule_line (text_of_rule (ts, vias))"
proof -
  obtain s where s: "rule_text ts vias = Some s" "length s < MAX_LINE_LENGTH - 1"
    using assms by (auto simp: rule_text_ok_def split: option.splits)
  have "list_all plain_term ts" "list_all plain_word vias" using assms by (auto simp: rule_text_ok_def list_all_iff)
  with rule_text_line [OF s(1) _ _ s(2)] s show ?thesis by (simp add: text_of_rule_def)
qed

lemma rules_of_texts:
  "list_all (rule_text_ok ssh) rls \<Longrightarrow>
     rules_of_lines ssh f n (map text_of_rule rls) (rules, pool) =
     Inr (True, rules @ file_rules ssh f n pool rls, pool + length rls)"
proof (induction rls arbitrary: n rules pool)
  case (Cons x rls)
  obtain ts vias where x: "x = (ts, vias)" by (cases x)
  have ok: "rule_text_ok ssh (ts, vias)" "list_all (rule_text_ok ssh) rls" using Cons.prems x by simp_all
  then have "list_all term_ok ts" "list_all (via_ok ssh) vias" "length vias < ROUTE_RULE_MAX_SSH_TUNNELS_PER_RULE"
    by (auto simp: rule_text_ok_def list_all_iff)
  from parse_rule_text [OF conjunct1 [OF text_of_rule_ok [OF ok(1)]] this]
  show ?case by (simp add: x Cons.IH [OF ok(2)])
qed simp

lemma list_all_texts: "list_all (rule_text_ok ssh) rls \<Longrightarrow> list_all rule_line (map text_of_rule rls)"
  using text_of_rule_ok by (fastforce simp: list_all_iff)

text \<open>
  C34: a rule file means its rules. A file that holds the texts of any well-formed rules, a
  rule per line and with any of the four line breaks, adds exactly these rules, in the order
  of the lines, behind the rules that are there; each has the fields its terms set, routes via
  its tunnels, and knows its file and its line.
\<close>

theorem route_rule_file_complete:
  assumes "ce_open env f = Some (file_of (concat (map (\<lambda>r. text_of_rule r @ e) rls)))" and "e \<in> set eols"
    and "list_all (rule_text_ok ssh) rls"
  shows "route_rule_file_parse env ssh stack f (rules, pool) =
    Inr (True, rules @ file_rules ssh f 1 pool rls, pool + length rls)"
proof -
  let ?ls = "map text_of_rule rls"
  have lines: "list_all rule_line ?ls" using assms(3) by (rule list_all_texts)
  then have "list_all line_ok ?ls" using rule_line_ok by (auto simp: list_all_iff)
  from read_lines_text [OF assms(2) this, of "[]"]
  have "read_lines False False (file_of (concat (map (\<lambda>r. text_of_rule r @ e) rls))) = (?ls, 2)"
    by (simp add: line_ok_def comp_def MAX_LINE_LENGTH_def)
  from route_rule_lines_rules [OF this lines] show ?thesis
    by (simp add: route_rule_file_parse_def assms(1) rules_of_texts [OF assms(3)])
qed

definition one_rule_env :: config_env where
  "one_rule_env =
     \<lparr>ce_open = [''r'' \<mapsto> file_of (text_of_rule (sample_terms, [''networkA'']) @ [chr_lf])], ce_getenv = Map.empty,
      ce_dir = Map.empty, ce_ssh_mem = (\<lambda>_. zero_tunnel), ce_log_mem = (\<lambda>_. \<lparr>lc_level = 0, lc_file = None\<rparr>)\<rparr>"

theorem route_rule_file_complete_witness:
  "route_rule_file_parse one_rule_env [sample_tunnel] [] ''r'' ([], 4) =
     Inr (True, file_rules [sample_tunnel] ''r'' 1 4 [(sample_terms, [''networkA''])], 5)"
proof -
  let ?rls = "[(sample_terms, [''networkA''])]"
  have o: "ce_open one_rule_env ''r'' = Some (file_of (concat (map (\<lambda>r. text_of_rule r @ [chr_lf]) ?rls)))"
    by (simp add: one_rule_env_def)
  have e: "[chr_lf] \<in> set eols" by (simp add: eols_def)
  have p: "list_all plain_term sample_terms" by code_simp
  have "list_all (rule_text_ok [sample_tunnel]) ?rls"
    using p by (simp add: rule_text_ok_def sample_text MAX_LINE_LENGTH_def ROUTE_RULE_MAX_SSH_TUNNELS_PER_RULE_def)
      (simp add: sample_terms_def word_ok_def netmask_ok_def MAX_DNS_def via_ok_def find_ssh_by_name_def sample_tunnel_def
        plain_word_def plain_char_def is_blank_def)
  from route_rule_file_complete [OF o e this, of "[]" "[]" 4] show ?thesis by simp
qed

text \<open>
  An included rule file that cannot be opened silences the rest of the file that includes
  it: its lines are not read, whatever they are, and the parser still reports success.
\<close>

theorem failed_include_hides_rest:
  assumes "ce_open env f = Some (file_of (join_words [''routeFile'', g] @ [chr_lf] @ rest))" and "ce_open env g = None"
    and "plain_word g" and "length g < 8191" and "g \<noteq> f"
  shows "route_rule_file_parse env ssh [] f rs = Inr (True, rs)"
proof -
  let ?l = "join_words [''routeFile'', g]"
  have ws: "list_all plain_word [''routeFile'', g]" "length ?l < MAX_LINE_LENGTH - 1"
    using assms(3,4) by (simp_all add: plain_word_def plain_char_def is_blank_def MAX_LINE_LENGTH_def)
  have "chr_cr \<notin> set ?l" "chr_lf \<notin> set ?l" using line_ok_plain [OF ws] unfolding line_ok_def by blast+
  then have rl: "read_line MAX_LINE_LENGTH [] False False (file_of (?l @ [chr_lf] @ rest)) = (1, ?l, False, True, file_of rest)"
    using ws(2) read_line_text [of ?l "[]" MAX_LINE_LENGTH False False "Fr_char chr_lf # file_of rest"]
    by (simp only: file_of_simps append_Cons append_Nil append_assoc) simp
  have "config_line env ?l = Inr (Some ?l)"
    using ws c_str_plain [OF ws(1)] remove_extra_spaces_plain [OF ws(1)] replace_plain [OF ws(1)]
    by (simp add: config_line_def del: join_words.simps)
  moreover have "config_set_string ?l ''routeFile '' STRING_BUF = Inr (Some g)"
    using assms(3,4) by (simp add: config_set_string_def match_start_def string_starts_with_def Let_def STRING_BUF_def
        plain_word_def cmap_def strncpy_open_def)
  moreover have "?l \<noteq> []" by simp
  ultimately obtain l s where "ce_open env f = Some s" "read_line MAX_LINE_LENGTH [] False False s = (1, l, False, True, file_of rest)"
    "config_line env l = Inr (Some l)" "config_set_string l ''routeFile '' STRING_BUF = Inr (Some g)" "l \<noteq> []"
    using assms(1) rl by blast
  then show ?thesis
    using assms(2,5) by (simp add: route_rule_file_parse_def route_rule_lines.simps [of env ssh "[f]"] may_include_def
        FILENAME_STACK_SIZE_def)
qed

theorem failed_include_hides_rest_witness:
  "route_rule_file_parse (one_rule_env\<lparr>ce_open := [''r'' \<mapsto> file_of (join_words [''routeFile'', ''nope''] @ [chr_lf] @ ''via direct'')]\<rparr>)
     [] [] ''r'' ([], 0) = Inr (True, [], 0)"
proof -
  let ?env = "one_rule_env\<lparr>ce_open := [''r'' \<mapsto> file_of (join_words [''routeFile'', ''nope''] @ [chr_lf] @ ''via direct'')]\<rparr>"
  have "ce_open ?env ''r'' = Some (file_of (join_words [''routeFile'', ''nope''] @ [chr_lf] @ ''via direct''))"
    "ce_open ?env ''nope'' = None" "plain_word ''nope''" "length ''nope'' < 8191" "''nope'' \<noteq> ''r''"
    by (simp_all add: plain_word_def plain_char_def is_blank_def)
  from failed_include_hides_rest [OF this] show ?thesis .
qed

section \<open>The files of a directory\<close>

lemma strcmp_less: "strcmp a b > 0 \<longleftrightarrow> b < a"
proof (induction a b rule: strcmp.induct)
  case (4 c s d t)
  have "c < d \<longleftrightarrow> ccode c < ccode d" for c d :: char by (simp add: less_char_def)
  with 4 linorder_less_linear [of c d] show ?case by auto
qed simp_all

text \<open>The inner loop finds a lowest name among those that are left.\<close>

lemma lowest_entry_upto:
  "k \<le> length raw \<Longrightarrow>
     (case foldl (\<lambda>lowest jj.
        if raw ! jj \<noteq> [] then
          (case lowest of None \<Rightarrow> Some jj | Some l \<Rightarrow> if strcmp (raw ! l) (raw ! jj) > 0 then Some jj else Some l)
        else lowest) None [0..<k] of
      None \<Rightarrow> \<forall>j < k. raw ! j = []
    | Some l \<Rightarrow> l < k \<and> raw ! l \<noteq> [] \<and> (\<forall>j < k. raw ! j \<noteq> [] \<longrightarrow> raw ! l \<le> raw ! j))"
  by (induction k) (auto simp: strcmp_less less_Suc_eq not_less split: option.splits if_splits)

lemma lowest_entry_spec:
  "case lowest_entry raw of
     None \<Rightarrow> filter (\<lambda>s. s \<noteq> []) raw = []
   | Some l \<Rightarrow> l < length raw \<and> raw ! l \<noteq> [] \<and> (\<forall>s \<in> set raw. s \<noteq> [] \<longrightarrow> raw ! l \<le> s)"
  using lowest_entry_upto [of "length raw" raw]
  by (auto simp: lowest_entry_def filter_empty_conv in_set_conv_nth split: option.splits)

lemma sort_file_list_sorts:
  "n = length (filter (\<lambda>s. s \<noteq> []) raw) \<Longrightarrow> sort_file_list n raw out = Inr (out @ sort (filter (\<lambda>s. s \<noteq> []) raw))"
proof (induction n arbitrary: raw out)
  case (Suc n)
  let ?left = "filter (\<lambda>s. s \<noteq> [])"
  obtain l where l: "lowest_entry raw = Some l" "l < length raw" "raw ! l \<noteq> []" "\<forall>s \<in> set raw. s \<noteq> [] \<longrightarrow> raw ! l \<le> s"
    using lowest_entry_spec [of raw] Suc.prems by (auto split: option.splits)
  have m: "mset (?left raw) = add_mset (raw ! l) (mset (?left (raw[l := []])))"
    using l(3) by (subst id_take_nth_drop [OF l(2)]) (simp add: upd_conv_take_nth_drop [OF l(2)])
  then have "length (?left raw) = Suc (length (?left (raw[l := []])))" by (metis size_add_mset size_mset)
  with Suc.prems have n: "n = length (?left (raw[l := []]))" by simp
  have "set (raw[l := []]) \<subseteq> insert [] (set raw)" by (rule set_update_subset_insert)
  with l(4) have "\<forall>s \<in> set (?left (raw[l := []])). raw ! l \<le> s" by auto
  then have "sort (?left raw) = raw ! l # sort (?left (raw[l := []]))"
    using m by (intro properties_for_sort) simp_all
  then show ?case using Suc.IH [OF n] l(1) by simp
qed simp

text \<open>
  C38: a rule directory means its rule files in the order of their names: with up to 200
  regular files or links, the two loops over the array of names visit them as the list of the
  names sorted by their bytes, whatever the order \<open>readdir\<close> gives.
\<close>

theorem route_rule_dir_sorted:
  assumes "ce_dir env dir = Some ents" and "length (filter snd ents) \<le> 200"
    and "\<forall>(f, file) \<in> set ents. f \<noteq> [] \<and> length f < 4096"
  shows "route_rule_dir_parse env ssh dir rs = route_rule_dir_files env ssh dir (sort (map fst (filter snd ents))) rs"
proof -
  have "map (\<lambda>(name, file). strncpy_term 4096 name) (filter snd ents) = map fst (filter snd ents)"
    using assms(3) by (auto simp: strncpy_term_short)
  then have "dir_file_list ents = Inr (map fst (filter snd ents))"
    using assms(2) by (simp add: dir_file_list_def ROUTE_RULE_DIR_MAX_FILES_def Let_def)
  moreover have "filter (\<lambda>s. s \<noteq> []) (map fst (filter snd ents)) = map fst (filter snd ents)"
    using assms(3) by (auto simp: filter_id_conv)
  ultimately show ?thesis
    using sort_file_list_sorts [of _ "map fst (filter snd ents)" "[]"] by (simp add: route_rule_dir_parse_def assms(1))
qed

theorem route_rule_dir_sorted_witness:
  "route_rule_dir_parse (one_rule_env\<lparr>ce_dir := [''d'' \<mapsto> [(''b'', True), (''x'', False), (''a'', True)]]\<rparr>) [] ''d'' ([], 0) =
     route_rule_dir_files (one_rule_env\<lparr>ce_dir := [''d'' \<mapsto> [(''b'', True), (''x'', False), (''a'', True)]]\<rparr>) [] ''d''
       [''a'', ''b''] ([], 0)"
proof -
  let ?ents = "[(''b'', True), (''x'', False), (''a'', True)]"
  let ?env = "one_rule_env\<lparr>ce_dir := [''d'' \<mapsto> ?ents]\<rparr>"
  have "ce_dir ?env ''d'' = Some ?ents" "length (filter snd ?ents) \<le> 200"
    "\<forall>(f, file) \<in> set ?ents. f \<noteq> [] \<and> length f < 4096" by simp_all
  from route_rule_dir_sorted [OF this, of "[]" "([], 0)"] show ?thesis by simp
qed

text \<open>With a 201st file the array of names is overrun.\<close>

lemma route_rule_dir_overrun:
  "ce_dir env dir = Some ents \<Longrightarrow> 200 < length (filter snd ents) \<Longrightarrow> route_rule_dir_parse env ssh dir rs = Inl UB"
  by (simp add: route_rule_dir_parse_def dir_file_list_def ROUTE_RULE_DIR_MAX_FILES_def Let_def)

end
