(* ===== verification/Main_Program.thy ===== *)
theory Main_Program
  imports Rule_Files
begin

text \<open>
  \<open>main\<close> of \<open>src/main.c\<close>: the objects it makes, the options in their order, the checks behind
  them. The options are what \<open>getopt\<close> gives; \<open>daemon\<close> and \<open>setrlimit\<close> are parameters. What
  \<open>main\<close> leaves to the server is the configuration.
\<close>

text \<open>The letters of \<open>getopt\<close>; \<open>Opt_bad\<close> is its \<open>?\<close>.\<close>

datatype main_option = Opt_c string | Opt_d | Opt_v string | Opt_V string | Opt_h | Opt_bad

record main_state =
  ms_config :: config
  ms_help :: bool
  ms_daemonize :: bool

text \<open>Memory from \<open>malloc\<close> is the parameter of the environment, by the id that is given next.\<close>

definition main_start :: "config_env \<Rightarrow> main_config \<Rightarrow> config cres" where
  "main_start env mem =
     (let main_conf = main_config_init mem;
          main_conf = main_conf\<lparr>mc_log := (mc_log main_conf)\<lparr>lc_level := LOG_LEVEL_INFO\<rparr>\<rparr>;
          log_file_default = new_log_file None;
          proxy_default = new_proxy_instance (ce_log_mem env 0);
          proxy_default = proxy_default\<lparr>pi_name := ''default'', pi_log := (pi_log proxy_default)\<lparr>lc_level := LOG_LEVEL_INFO\<rparr>\<rparr>;
          g0 = \<lparr>ssh_id_pool = 0, ssh_tunnel_direct = 0, ssh_tunnel_socks_proxy = 0, ssh_tunnel_null = 0\<rparr>
      in cbind (ssh_tunnel_init (ce_ssh_mem env 0) (ce_ssh_mem env 1) (ce_ssh_mem env 2) [] g0) (\<lambda>(ssh_list, g).
         let (ssh_default, g) = new_ssh_tunnel (ce_ssh_mem env 3) g
         in Inr \<lparr>cf_log_files = [], cf_log_default = log_file_default, cf_main = main_conf, cf_proxies = [],
                 cf_proxy_default = proxy_default, cf_tunnels = ssh_list, cf_ssh_default = ssh_default, cf_globals = g,
                 cf_rule_pool = 0, cf_service_pool = 0\<rparr>))"

text \<open>One option; a left result is what \<open>main\<close> returns.\<close>

definition main_option :: "config_env \<Rightarrow> main_option \<Rightarrow> main_state \<Rightarrow> (int + main_state) cres" where
  "main_option env opt st =
     (let cf = ms_config st
      in case opt of
           Opt_c f \<Rightarrow>
             cbind (config_file_parse env [] f cf) (\<lambda>(okay, cf).
             if okay then Inr (Inr (st\<lparr>ms_config := cf\<rparr>)) else Inl (Exit 1))
         | Opt_d \<Rightarrow> Inr (Inr (st\<lparr>ms_daemonize := True\<rparr>))
         | Opt_v s \<Rightarrow>
             Inr (Inr (st\<lparr>ms_config := cf\<lparr>cf_main := (cf_main cf)
               \<lparr>mc_log := (mc_log (cf_main cf))\<lparr>lc_level := log_level_from_str (Some s)\<rparr>\<rparr>\<rparr>\<rparr>))
         | Opt_V f \<Rightarrow>
             let (log, logs) = find_or_create_log_file (cf_log_files cf) (Some (cf_log_default cf)) f
             in Inr (Inr (st\<lparr>ms_config := cf\<lparr>cf_log_files := logs,
               cf_main := (cf_main cf)\<lparr>mc_log := (mc_log (cf_main cf))\<lparr>lc_file := Some (lf_file_name log)\<rparr>\<rparr>\<rparr>\<rparr>))
         | Opt_h \<Rightarrow> Inr (Inr (st\<lparr>ms_help := True\<rparr>))
         | Opt_bad \<Rightarrow> Inr (Inl 1))"

fun main_options :: "config_env \<Rightarrow> main_option list \<Rightarrow> main_state \<Rightarrow> (int + main_state) cres" where
  "main_options env [] st = Inr (Inr st)"
| "main_options env (opt # opts) st =
     cbind (main_option env opt st) (\<lambda>r.
     case r of Inl rc \<Rightarrow> Inr (Inl rc) | Inr st \<Rightarrow> main_options env opts st)"

text \<open>\<open>main\<close> returns a code, or it calls \<open>server\<close> with the configuration.\<close>

definition main :: "config_env \<Rightarrow> main_config \<Rightarrow> int \<Rightarrow> int \<Rightarrow> main_option list \<Rightarrow> (int + config) cres" where
  "main env mem daemon_rc setrlimit_rc opts =
     cbind (main_start env mem) (\<lambda>cf.
     cbind (main_options env opts \<lparr>ms_config = cf, ms_help = False, ms_daemonize = False\<rparr>) (\<lambda>r.
     case r of
       Inl rc \<Rightarrow> Inr (Inl rc)
     | Inr st \<Rightarrow>
         if ms_help st then Inr (Inl 2)
         else if ms_daemonize st \<and> daemon_rc < 0 then Inl (Exit 12)
         else if setrlimit_rc \<noteq> 0 then Inl (Exit 13)
         else Inr (Inr (ms_config st))))"

section \<open>The server starts on a valid configuration\<close>

lemma main_start_ok:
  assumes "main_start env mem = Inr cf"
  shows "config_ok cf \<and> cf_tunnels cf \<noteq> [] \<and> {''direct'', ''socks_proxy'', ''null''} \<subseteq> st_name ` set (cf_tunnels cf)"
  using assms
  by (auto simp: main_start_def ssh_tunnel_init_def new_ssh_tunnel_def set_ssh_name_def cmap_def strncpy_open_def
      insert_ssh_tunnel_def tunnels_ok_def config_ok_def log_ref_ok_def proxy_ok_def rules_ok_def new_proxy_instance_def
      log_config_init_def main_config_init_def Let_def)

lemma main_option_step:
  assumes "main_option env opt st = Inr (Inr st')" and "config_ok (ms_config st)"
  shows "config_step (ms_config st) (ms_config st')"
proof (cases opt)
  case (Opt_c f)
  with assms(1) obtain okay cf where "config_file_parse env [] f (ms_config st) = Inr (okay, cf)" "ms_config st' = cf"
    by (auto simp: main_option_def split: if_splits elim!: cbind_InrE)
  with config_file_parse_step assms(2) show ?thesis by blast
next
  case (Opt_v s)
  have "config_step cf (cf\<lparr>cf_main := (cf_main cf)\<lparr>mc_log := (mc_log (cf_main cf))\<lparr>lc_level := v\<rparr>\<rparr>\<rparr>)"
    if "config_ok cf" for cf v
    using that by (simp add: config_step_def config_ok_def config_grows_def proxy_ok_def log_ref_ok_def)
  with assms Opt_v show ?thesis by (auto simp: main_option_def Let_def)
next
  case (Opt_V f)
  let ?cf = "ms_config st"
  obtain log logs where l: "find_or_create_log_file (cf_log_files ?cf) (Some (cf_log_default ?cf)) f = (log, logs)" by fastforce
  note m = more_logs_step [OF assms(2) l]
  have "config_step cf1 (cf1\<lparr>cf_main := (cf_main cf1)\<lparr>mc_log := lc\<rparr>\<rparr>)" if "config_ok cf1" "log_ref_ok cf1 lc" for cf1 lc
    using that by (simp add: config_step_def config_ok_def config_grows_def proxy_ok_def log_ref_ok_def)
  from this [of "?cf\<lparr>cf_log_files := logs\<rparr>" "(mc_log (cf_main ?cf))\<lparr>lc_file := Some (lf_file_name log)\<rparr>"] m
  have "config_step ?cf (?cf\<lparr>cf_log_files := logs, cf_main := (cf_main ?cf)
      \<lparr>mc_log := (mc_log (cf_main ?cf))\<lparr>lc_file := Some (lf_file_name log)\<rparr>\<rparr>\<rparr>)"
    by (auto simp: log_ref_ok_def config_step_def intro: config_grows_trans)
  with assms(1) Opt_V l show ?thesis by (auto simp: main_option_def Let_def)
qed (use assms in \<open>auto simp: main_option_def config_step_refl\<close>)

lemma main_options_step:
  "main_options env opts st = Inr (Inr st') \<Longrightarrow> config_ok (ms_config st) \<Longrightarrow> config_step (ms_config st) (ms_config st')"
proof (induction opts arbitrary: st)
  case (Cons opt opts)
  obtain r where r: "main_option env opt st = Inr r" using Cons.prems(1) by (auto elim: cbind_InrE)
  with Cons.prems(1) obtain st1 where st1: "r = Inr st1" "main_options env opts st1 = Inr (Inr st')"
    by (cases r) auto
  from main_option_step [OF r [unfolded st1(1)] Cons.prems(2)] Cons.IH [OF st1(2)] show ?case
    by (auto simp: config_step_def intro: config_grows_trans)
qed (simp add: config_step_refl)

text \<open>
  C32: whatever files and options it is started with, the program either ends or starts the
  server on a valid configuration: log files, proxies and tunnels have distinct names and the
  tunnels distinct ids, every log and every tunnel that a proxy or a routing rule refers to
  exists, and the tunnels it made at its start are still there.
\<close>

theorem main_configuration_valid:
  assumes "main env mem daemon_rc setrlimit_rc opts = Inr (Inr cf)"
  shows "config_ok cf \<and> (\<exists>cf0. main_start env mem = Inr cf0 \<and> config_grows cf0 cf)"
proof -
  obtain cf0 where s: "main_start env mem = Inr cf0"
    using assms by (auto simp: main_def elim: cbind_InrE)
  obtain r where r: "main_options env opts \<lparr>ms_config = cf0, ms_help = False, ms_daemonize = False\<rparr> = Inr r"
    using assms s by (auto simp: main_def elim: cbind_InrE)
  with assms s obtain st where st: "r = Inr st" "ms_config st = cf"
    by (cases r) (auto simp: main_def split: if_splits)
  from main_options_step [OF r [unfolded st(1)]] main_start_ok [OF s] st(2) s show ?thesis
    by (auto simp: config_step_def)
qed

text \<open>A start with a configuration file of one section.\<close>

definition main_env :: config_env where
  "main_env = one_rule_env\<lparr>ce_open := [''f'' \<mapsto> file_of (join_words [''proxy'', ''p''] @ [chr_lf])]\<rparr>"

definition main_mem :: main_config where
  "main_mem = \<lparr>mc_ulimit = 0, mc_log = \<lparr>lc_level = 0, lc_file = None\<rparr>\<rparr>"

lemma main_runs:
  "\<exists>cf. main main_env main_mem 0 0 [Opt_c ''f'', Opt_v ''debug''] = Inr (Inr cf) \<and> map pi_name (cf_proxies cf) = [''p''] \<and>
     map pi_service_list (cf_proxies cf) = [[]] \<and> cf_service_pool cf = 0"
proof -
  let ?st = "\<lambda>cf. \<lparr>ms_config = cf, ms_help = False, ms_daemonize = False\<rparr>"
  have "\<exists>cf0. main_start main_env main_mem = Inr cf0 \<and> cf_proxies cf0 = [] \<and> cf_service_pool cf0 = 0 \<and>
      pi_service_list (cf_proxy_default cf0) = []"
    by (simp add: main_start_def ssh_tunnel_init_def new_ssh_tunnel_def set_ssh_name_def strncpy_open_def
        new_proxy_instance_def Let_def)
  then obtain cf0 where cf0: "main_start main_env main_mem = Inr cf0" "cf_proxies cf0 = []" "cf_service_pool cf0 = 0"
    "pi_service_list (cf_proxy_default cf0) = []" by blast
  let ?line = "''proxy p''"
  have rl: "read_line MAX_LINE_LENGTH [] False False (file_of (?line @ [chr_lf])) = (1, ?line, False, True, [])"
    by (simp add: MAX_LINE_LENGTH_def)
  have cl: "config_line main_env ?line = Inr (Some ?line)"
    using c_str_plain [of "[''proxy'', ''p'']"] remove_extra_spaces_plain [of "[''proxy'', ''p'']" MAX_LINE_LENGTH]
      replace_plain [of "[''proxy'', ''p'']" MAX_LINE_LENGTH]
    by (simp add: config_line_def plain_word_def plain_char_def is_blank_def MAX_LINE_LENGTH_def)
  have inc: "config_set_string ?line ''include '' STRING_BUF = Inr None"
    by (simp add: config_set_string_def match_start_def string_starts_with_def)
  obtain sect cf1 where sl: "config_section_line main_env ?line cf0 = Inr (Some (sect, cf1))" "map pi_name (cf_proxies cf1) = [''p'']"
    "map pi_service_list (cf_proxies cf1) = [[]]" "cf_service_pool cf1 = 0"
    using cf0(2-4)
    by (auto simp: new_proxy_instance_from_template_def new_proxy_instance_def config_section_line_def config_file_parse_main_def config_file_parse_log_file_def string_starts_with_def
        config_file_parse_proxy_instance_def find_proxy_by_name_def set_proxy_name_def strncpy_open_def Let_def)
  have parse: "config_file_parse main_env [] ''f'' cf0 = Inr (True, cf1)"
  proof -
    have "ce_open main_env ''f'' = Some (file_of (?line @ [chr_lf]))" by (simp add: main_env_def)
    with rl cl inc sl(1) obtain s l where "ce_open main_env ''f'' = Some s" "read_line MAX_LINE_LENGTH [] False False s = (1, l, False, True, [])"
      "config_line main_env l = Inr (Some l)" "config_set_string l ''include '' STRING_BUF = Inr None" "l \<noteq> []"
      "config_section_line main_env l cf0 = Inr (Some (sect, cf1))" by blast
    moreover have "config_lines main_env [''f''] ''f'' (1 + 1) False True [] sect cf1 = Inr (True, cf1)"
      by (simp add: config_lines.simps [of main_env "[''f'']"])
    ultimately show ?thesis
      by (simp add: config_file_parse_def config_lines.simps [of main_env "[''f'']" _ 1])
  qed
  let ?cf = "cf1\<lparr>cf_main := (cf_main cf1)\<lparr>mc_log := (mc_log (cf_main cf1))\<lparr>lc_level := log_level_from_str (Some ''debug'')\<rparr>\<rparr>\<rparr>"
  have run: "main main_env main_mem 0 0 [Opt_c ''f'', Opt_v ''debug''] = Inr (Inr ?cf)"
    using cf0(1) parse by (simp add: main_def main_option_def)
  with sl(2-4) show ?thesis by (intro exI [of _ ?cf]) simp
qed

theorem main_configuration_valid_witness:
  "\<exists>cf. main main_env main_mem 0 0 [Opt_c ''f'', Opt_v ''debug''] = Inr (Inr cf) \<and> config_ok cf \<and> map pi_name (cf_proxies cf) = [''p'']"
proof -
  obtain cf where run: "main main_env main_mem 0 0 [Opt_c ''f'', Opt_v ''debug''] = Inr (Inr cf)" "map pi_name (cf_proxies cf) = [''p'']"
    using main_runs by (elim exE conjE) (rule that)
  from main_configuration_valid [OF run(1)] have ok: "config_ok cf" by (rule conjunct1)
  show ?thesis by (rule exI [of _ cf]) (simp only: run ok simp_thms)
qed

end
