(* ===== verification/Json.thy ===== *)
theory Json
  imports CString
begin

text \<open>
  The specification side of the status document: abstract JSON values, their text, a reader
  for that text, and schemas. \<open>Build_Json\<close> shows that the C code prints the text of an
  abstract document; the reader and the schemas say what a consumer of the text (the web
  page under \<open>src/html\<close>) can rely on. The reader knows objects, strings without escapes and
  integers, the part of JSON the documents use; there is no white space in them.
\<close>

section \<open>Values and their text\<close>

datatype json = JNum int | JStr string | JObj "(string \<times> json) list"

type_synonym json_member = "string \<times> json"

fun comma_separated :: "string list \<Rightarrow> string" where
  "comma_separated [] = []"
| "comma_separated [s] = s"
| "comma_separated (s # t # ts) = s @ '','' @ comma_separated (t # ts)"

definition json_key :: "string \<Rightarrow> string" where
  "json_key k = chr_dquote # k @ [chr_dquote, CHR '':'']"

fun json_text :: "json \<Rightarrow> string" where
  "json_text (JNum i) = show_int i"
| "json_text (JStr s) = chr_dquote # s @ [chr_dquote]"
| "json_text (JObj ms) = CHR ''{'' # comma_separated (map (\<lambda>(k, v). json_key k @ json_text v) ms) @ ''}''"

definition member_text :: "json_member \<Rightarrow> string" where
  "member_text m = json_key (fst m) @ json_text (snd m)"

lemma json_text_JObj: "json_text (JObj ms) = CHR ''{'' # comma_separated (map member_text ms) @ ''}''"
  by (simp add: member_text_def [abs_def] case_prod_unfold)

declare json_text.simps(3) [simp del]

lemma comma_separated_append1:
  "ss \<noteq> [] \<Longrightarrow> comma_separated (ss @ [s]) = comma_separated ss @ '','' @ s"
  by (induction ss rule: comma_separated.induct) auto

lemma comma_separated_Cons:
  "comma_separated (s # ss) = s @ (if ss = [] then [] else CHR '','' # comma_separated ss)"
  by (cases ss) auto

section \<open>Documents without characters that need an escape\<close>

definition json_char :: "char \<Rightarrow> bool" where
  "json_char c \<longleftrightarrow> c \<noteq> chr_dquote \<and> c \<noteq> chr_backslash \<and> 32 \<le> ccode c"

definition plain_string :: "string \<Rightarrow> bool" where
  "plain_string s = list_all json_char s"

fun json_plain :: "json \<Rightarrow> bool" where
  "json_plain (JNum i) = True"
| "json_plain (JStr s) = plain_string s"
| "json_plain (JObj ms) = list_all (\<lambda>(k, v). plain_string k \<and> json_plain v) ms"

lemma plain_string_simps [simp]:
  "plain_string []"
  "plain_string (c # s) \<longleftrightarrow> json_char c \<and> plain_string s"
  "plain_string (s @ t) \<longleftrightarrow> plain_string s \<and> plain_string t"
  by (auto simp: plain_string_def)

lemma plain_digit: "c_isdigit c \<Longrightarrow> json_char c"
  by (auto simp: c_isdigit_def json_char_def)

lemma plain_show_nat [simp]: "plain_string (show_nat n)"
  by (auto simp: plain_string_def list_all_iff intro: plain_digit dest: show_nat_digits)

section \<open>The reader\<close>

definition read_number :: "string \<Rightarrow> (json \<times> string) option" where
  "read_number s =
     (let (sign, s) = (case s of c # r \<Rightarrow> if c = CHR ''-'' then (- 1, r) else (1, s) | [] \<Rightarrow> (1, s));
          ds = takeWhile c_isdigit s
      in if ds = [] \<or> (hd ds = CHR ''0'' \<and> length ds \<noteq> 1) then None
         else Some (JNum (sign * int (digits_val 0 ds)), dropWhile c_isdigit s))"

definition read_string :: "string \<Rightarrow> (string \<times> string) option" where
  "read_string s =
     (case dropWhile json_char s of
        c # r \<Rightarrow> if c = chr_dquote then Some (takeWhile json_char s, r) else None
      | [] \<Rightarrow> None)"

text \<open>The fuel bounds the depth and the number of members; the length of the text is enough.\<close>

fun read_value :: "nat \<Rightarrow> string \<Rightarrow> (json \<times> string) option"
  and read_members :: "nat \<Rightarrow> string \<Rightarrow> (json_member list \<times> string) option"
  where
  "read_value 0 s = None"
| "read_value (Suc n) s =
     (case s of
        [] \<Rightarrow> None
      | c # r \<Rightarrow>
          if c = chr_dquote then map_option (\<lambda>(t, u). (JStr t, u)) (read_string r)
          else if c = CHR ''{'' then
            (if take 1 r = ''}'' then Some (JObj [], drop 1 r)
             else map_option (\<lambda>(ms, u). (JObj ms, u)) (read_members n r))
          else read_number s)"
| "read_members 0 s = None"
| "read_members (Suc n) s =
     (if take 1 s \<noteq> [chr_dquote] then None
      else case read_string (drop 1 s) of
        None \<Rightarrow> None
      | Some (k, t) \<Rightarrow>
          if take 1 t \<noteq> '':'' then None
          else case read_value n (drop 1 t) of
            None \<Rightarrow> None
          | Some (v, u) \<Rightarrow>
              if take 1 u = ''}'' then Some ([(k, v)], drop 1 u)
              else if take 1 u = '','' then
                map_option (\<lambda>(ms, w). ((k, v) # ms, w)) (read_members n (drop 1 u))
              else None)"

definition read_json :: "string \<Rightarrow> json option" where
  "read_json s =
     (case read_value (length s) s of
        Some (j, []) \<Rightarrow> Some j
      | _ \<Rightarrow> None)"

definition ends_number :: "string \<Rightarrow> bool" where
  "ends_number u \<longleftrightarrow> (case u of [] \<Rightarrow> True | c # r \<Rightarrow> \<not> c_isdigit c)"

lemma read_string_plain: "plain_string s \<Longrightarrow> read_string (s @ chr_dquote # u) = Some (s, u)"
  by (simp add: read_string_def takeWhile_no_hit dropWhile_no_hit plain_string_def list_all_iff
      json_char_def [of chr_dquote])

lemma digits_split:
  assumes "\<forall>c \<in> set ds. c_isdigit c" and "ends_number u"
  shows "takeWhile c_isdigit (ds @ u) = ds" "dropWhile c_isdigit (ds @ u) = u"
  using assms by (induction ds) (auto simp: ends_number_def split: list.splits)

lemma show_nat_no_leading_zero: "\<not> (hd (show_nat n) = CHR ''0'' \<and> length (show_nat n) \<noteq> 1)"
  using show_nat_head [of n] by (cases "n < 10") (auto simp: show_nat.simps [of n])

lemma show_nat_not_minus: "show_nat n = c # r \<Longrightarrow> c \<noteq> CHR ''-''"
  using show_nat_digits [of c n] by (auto simp: c_isdigit_def)

lemma read_number_show_int:
  assumes "ends_number u"
  shows "read_number (show_int i @ u) = Some (JNum i, u)"
proof -
  have ds: "takeWhile c_isdigit (show_nat n @ u) = show_nat n" "dropWhile c_isdigit (show_nat n @ u) = u" for n
    using digits_split [of "show_nat n" u] assms show_nat_digits by blast+
  obtain c r where cr: "show_nat (nat i) = c # r" using show_nat_nonempty by (cases "show_nat (nat i)") auto
  note nz = show_nat_no_leading_zero
  show ?thesis
  proof (cases "i < 0")
    case True
    then show ?thesis
      using ds nz by (simp add: read_number_def show_int_def Let_def)
  next
    case False
    have "(case show_nat (nat i) @ u of c # r \<Rightarrow> if c = CHR ''-'' then (- 1, r) else (1, show_nat (nat i) @ u)
            | [] \<Rightarrow> (1, show_nat (nat i) @ u)) = (1 :: int, show_nat (nat i) @ u)"
      using show_nat_not_minus [OF cr] by (simp add: cr)
    with False show ?thesis
      using ds nz by (simp add: read_number_def show_int_def Let_def)
  qed
qed

lemma show_int_head: "show_int i = c # r \<Longrightarrow> c \<noteq> chr_dquote \<and> c \<noteq> CHR ''{''"
  using show_nat_digits [of c "nat i"] by (auto simp: show_int_def c_isdigit_def split: if_splits)

text \<open>
  The reader is a left inverse of the printer. The two claims, for values and for the members
  of an object, are proved together by induction on the fuel.
\<close>

definition reads_value :: "nat \<Rightarrow> bool" where
  "reads_value n \<longleftrightarrow>
     (\<forall>j u. json_plain j \<longrightarrow> length (json_text j) \<le> n \<longrightarrow> ends_number u \<longrightarrow>
        read_value n (json_text j @ u) = Some (j, u))"

definition reads_members :: "nat \<Rightarrow> bool" where
  "reads_members n \<longleftrightarrow>
     (\<forall>ms u. ms \<noteq> [] \<longrightarrow> json_plain (JObj ms) \<longrightarrow>
        length (comma_separated (map member_text ms)) \<le> n \<longrightarrow>
        read_members n (comma_separated (map member_text ms) @ CHR ''}'' # u) = Some (ms, u))"

lemma reads_value_Suc: 
  assumes "reads_members n"
  shows "reads_value (Suc n)"
  unfolding reads_value_def
proof (intro allI impI)
  fix j u
  assume j: "json_plain j" "length (json_text j) \<le> Suc n" and u: "ends_number u"
  show "read_value (Suc n) (json_text j @ u) = Some (j, u)"
  proof (cases j)
    case (JNum i)
    obtain c r where "show_int i = c # r" by (cases "show_int i") (auto simp: show_int_def split: if_splits)
    then show ?thesis
      using show_int_head [of i c r] read_number_show_int [OF u, of i] by (simp add: JNum)
  next
    case (JStr s)
    with j show ?thesis by (simp add: read_string_plain)
  next
    case (JObj ms)
    show ?thesis
    proof (cases "ms = []")
      case True
      then show ?thesis by (simp add: JObj json_text_JObj)
    next
      case False
      then obtain k v ms' where ms: "ms = (k, v) # ms'" by (cases ms) auto
      have "length (comma_separated (map member_text ms)) \<le> n" using j by (simp add: JObj json_text_JObj)
      then have "read_members n (comma_separated (map member_text ms) @ CHR ''}'' # u) = Some (ms, u)"
        using assms False j(1) by (simp add: reads_members_def JObj)
      then show ?thesis
        by (simp add: JObj json_text_JObj) (simp add: ms comma_separated_Cons member_text_def json_key_def)
    qed
  qed
qed

lemma reads_members_Suc:
  assumes "reads_value n" and "reads_members n"
  shows "reads_members (Suc n)"
  unfolding reads_members_def
proof (intro allI impI)
  fix ms :: "json_member list" and u
  assume "ms \<noteq> []" and plain: "json_plain (JObj ms)"
    and len: "length (comma_separated (map member_text ms)) \<le> Suc n"
  then obtain k v ms' where ms: "ms = (k, v) # ms'" by (cases ms) auto
  let ?rest = "if ms' = [] then CHR ''}'' # u
               else CHR '','' # comma_separated (map member_text ms') @ CHR ''}'' # u"
  have whole: "comma_separated (map member_text ms) @ CHR ''}'' # u =
      chr_dquote # k @ chr_dquote # CHR '':'' # json_text v @ ?rest"
    by (simp add: ms comma_separated_Cons member_text_def json_key_def)
  have "length (json_text v) \<le> n" "ends_number ?rest"
    using len by (auto simp: ms comma_separated_Cons member_text_def json_key_def ends_number_def c_isdigit_def)
  then have v: "read_value n (json_text v @ ?rest) = Some (v, ?rest)"
    using assms(1) plain by (simp add: reads_value_def ms)
  have "ms' \<noteq> [] \<Longrightarrow> length (comma_separated (map member_text ms')) \<le> n"
    using len by (simp add: ms comma_separated_Cons)
  then have "ms' \<noteq> [] \<Longrightarrow>
      read_members n (comma_separated (map member_text ms') @ CHR ''}'' # u) = Some (ms', u)"
    using assms(2) plain by (simp add: reads_members_def ms)
  moreover have "read_string (k @ chr_dquote # CHR '':'' # json_text v @ ?rest) =
      Some (k, CHR '':'' # json_text v @ ?rest)"
    using plain by (simp add: read_string_plain ms)
  ultimately show "read_members (Suc n) (comma_separated (map member_text ms) @ CHR ''}'' # u) = Some (ms, u)"
    unfolding whole using v by (auto simp: ms)
qed

lemma reads_all: "reads_value n \<and> reads_members n"
proof (induction n)
  case 0
  have "json_text j \<noteq> []" for j by (cases j) (auto simp: show_int_def json_text_JObj)
  then show ?case
    by (simp add: reads_value_def reads_members_def) (auto simp: neq_Nil_conv comma_separated_Cons member_text_def json_key_def)
next
  case (Suc n)
  then show ?case using reads_value_Suc reads_members_Suc by blast
qed

lemma read_json_text:
  assumes "json_plain j"
  shows "read_json (json_text j) = Some j"
proof -
  have "read_value (length (json_text j)) (json_text j @ []) = Some (j, [])"
    using reads_all [of "length (json_text j)"] assms unfolding reads_value_def
    by (auto simp: ends_number_def simp del: append_Nil2)
  then show ?thesis by (simp add: read_json_def)
qed

text \<open>
  Conversely, what the reader returns is plain: a document with a string that would need an
  escape is never read back.
\<close>

lemma plain_takeWhile: "plain_string (takeWhile json_char s)"
  by (auto simp: plain_string_def list_all_iff dest: set_takeWhileD)

lemma read_string_plain_result: "read_string s = Some (t, u) \<Longrightarrow> plain_string t"
  by (auto simp: read_string_def plain_takeWhile split: list.splits if_splits)

lemma read_number_plain: "read_number s = Some (j, u) \<Longrightarrow> json_plain j"
  by (auto simp: read_number_def Let_def split: list.splits if_splits)

lemma read_result_plain:
  "read_value n s = Some (j, u) \<Longrightarrow> json_plain j"
  "read_members n s = Some (ms, u) \<Longrightarrow> json_plain (JObj ms)"
proof (induction n s and n s arbitrary: j u and ms u rule: read_value_read_members.induct)
  case (2 n s)
  then show ?case
    by (auto split: list.splits if_splits dest: read_string_plain_result read_number_plain)
next
  case (4 n s)
  then show ?case
    by (fastforce split: option.splits if_splits prod.splits dest: read_string_plain_result)
qed simp_all

lemma read_json_iff: "read_json (json_text j) = Some j \<longleftrightarrow> json_plain j"
proof
  show "read_json (json_text j) = Some j \<Longrightarrow> json_plain j"
    by (auto simp: read_json_def split: option.splits list.splits dest: read_result_plain(1))
qed (rule read_json_text)

section \<open>Schemas\<close>

text \<open>
  The type of a document: \<open>SMap\<close> is an object that is a table from keys to values of one
  schema, \<open>SRec\<close> an object with named fields, each required or not. No key occurs twice.
\<close>

datatype schema = SNum | SStr | SMap schema | SRec "(string \<times> bool \<times> schema) list"

fun find_field :: "(string \<times> bool \<times> schema) list \<Rightarrow> string \<Rightarrow> schema option" where
  "find_field fs k = map_option (\<lambda>(_, _, sc). sc) (find (\<lambda>(n, _, _). n = k) fs)"

inductive conforms :: "schema \<Rightarrow> json \<Rightarrow> bool" where
  conf_num: "conforms SNum (JNum i)"
| conf_str: "conforms SStr (JStr s)"
| conf_map: "distinct (map fst ms) \<Longrightarrow> (\<And>k v. (k, v) \<in> set ms \<Longrightarrow> conforms sc v) \<Longrightarrow> conforms (SMap sc) (JObj ms)"
| conf_rec: "distinct (map fst ms) \<Longrightarrow>
    (\<And>k v. (k, v) \<in> set ms \<Longrightarrow> \<exists>sc. find_field fs k = Some sc \<and> conforms sc v) \<Longrightarrow>
    (\<And>n sc. (n, True, sc) \<in> set fs \<Longrightarrow> n \<in> fst ` set ms) \<Longrightarrow> conforms (SRec fs) (JObj ms)"

inductive_simps conforms_SNum [simp]: "conforms SNum j"

inductive_simps conforms_SStr [simp]: "conforms SStr j"

inductive_cases conforms_SMapE: "conforms (SMap sc) j"

inductive_cases conforms_SRecE: "conforms (SRec fs) j"

text \<open>What a consumer gets from a typed document: a required field is there, with its type.\<close>

definition json_field :: "json \<Rightarrow> string \<Rightarrow> json option" where
  "json_field j k = (case j of JObj ms \<Rightarrow> map_of ms k | _ \<Rightarrow> None)"

lemma conforms_field:
  assumes "conforms (SRec fs) j" and "(k, True, sc) \<in> set fs" and "find_field fs k = Some sc"
  shows "\<exists>v. json_field j k = Some v \<and> conforms sc v"
  using assms
  by (elim conforms_SRecE) (force simp: json_field_def map_of_eq_Some_iff)

lemma conforms_entry:
  assumes "conforms (SMap sc) j" and "json_field j k = Some v"
  shows "conforms sc v"
  using assms by (elim conforms_SMapE) (auto simp: json_field_def dest: map_of_SomeD)

text \<open>A record is typed when its fields are a selection of the declared ones, in any order.\<close>

lemma conforms_recI:
  assumes "distinct (map fst ms)"
    and "list_all (\<lambda>(k, v). case find_field fs k of None \<Rightarrow> False | Some sc \<Rightarrow> conforms sc v) ms"
    and "list_all (\<lambda>(n, req, sc). req \<longrightarrow> n \<in> fst ` set ms) fs"
  shows "conforms (SRec fs) (JObj ms)"
  using assms by (intro conf_rec) (fastforce simp: list_all_iff split: option.splits)+

lemma conforms_mapI:
  assumes "distinct (map key xs)" and "\<And>x. x \<in> set xs \<Longrightarrow> conforms sc (f x)"
  shows "conforms (SMap sc) (JObj (map (\<lambda>x. (key x, f x)) xs))"
  using assms by (intro conf_map) (auto simp: comp_def)

end
