(* ===== verification/Build_Json.thy ===== *)
theory Build_Json
  imports Json Proxy_Instance Config_File
begin

text \<open>
  \<open>src/build_json.c\<close>: the status document. A growing buffer is the text between \<open>*buf\<close> and
  \<open>*ptr\<close> with the allocated size. Parameters: whether \<open>malloc\<close> and \<open>realloc\<close> give memory (as a
  function of the bytes used and the new size), the clock, and the three strings the build writes
  into \<open>version.h\<close>. The service and the tunnel a connection points to are looked up by their
  ids in the list they are linked in; a null pointer printed with \<open>%s\<close> or measured is undefined.
\<close>

record json_env =
  je_malloc :: bool
  je_realloc :: "nat \<Rightarrow> int \<Rightarrow> bool"
  je_time :: int
  je_version :: string
  je_build_date :: string
  je_git_hash :: string

record json_buf =
  jb_text :: string
  jb_size :: int

definition INT_MAX :: int where "INT_MAX = 2147483647"

section \<open>The growing buffer\<close>

text \<open>Doubling zero never ends; an \<open>int\<close> that overflows is undefined.\<close>

function new_buf_size :: "int \<Rightarrow> int \<Rightarrow> int cres" where
  "new_buf_size new_size need =
     (if need \<le> new_size then Inr new_size
      else if new_size = 0 then Inl Hang
      else if 2 * new_size > INT_MAX \<or> 2 * new_size < - INT_MAX - 1 then Inl UB
      else new_buf_size (2 * new_size) need)"
  by pat_completeness auto
termination
  by (relation "measure (\<lambda>(n, need). nat (INT_MAX + 1 - abs n))") (auto simp: INT_MAX_def)

declare new_buf_size.simps [simp del]

definition add_to_buf :: "json_env \<Rightarrow> string \<Rightarrow> json_buf \<Rightarrow> json_buf cres" where
  "add_to_buf env add b =
     (let add_len = length add;
          buf_len = length (jb_text b);
          buf_size = jb_size b
      in if int buf_len + int add_len + 10 > INT_MAX then Inl UB
         else cbind (new_buf_size buf_size (int buf_len + int add_len + 10)) (\<lambda>new_size.
           let buf_size = (if buf_size \<noteq> new_size \<and> je_realloc env buf_len new_size then new_size else buf_size)
           in Inr (if buf_size > int buf_len + int add_len
                   then \<lparr>jb_text = jb_text b @ add, jb_size = buf_size\<rparr>
                   else b\<lparr>jb_size := buf_size\<rparr>)))"

text \<open>A pointer that may be null: \<open>strlen\<close> of a null pointer is undefined.\<close>

definition add_ptr_to_buf :: "json_env \<Rightarrow> string option \<Rightarrow> json_buf \<Rightarrow> json_buf cres" where
  "add_ptr_to_buf env add b = (case add of None \<Rightarrow> Inl UB | Some s \<Rightarrow> add_to_buf env s b)"

text \<open>The conversions to \<open>long long\<close> and \<open>unsigned long long\<close> of the arguments.\<close>

definition long_long :: "int \<Rightarrow> int" where
  "long_long v = (v + 2 ^ 63) mod 2 ^ 64 - 2 ^ 63"

definition ulong_long :: "int \<Rightarrow> int" where
  "ulong_long v = v mod 2 ^ 64"

definition add_to_buf_int :: "json_env \<Rightarrow> int \<Rightarrow> json_buf \<Rightarrow> json_buf cres" where
  "add_to_buf_int env value = add_to_buf env (snprintf_cut 499 (show_int (long_long value)))"

definition add_to_buf_uint :: "json_env \<Rightarrow> int \<Rightarrow> json_buf \<Rightarrow> json_buf cres" where
  "add_to_buf_uint env value = add_to_buf env (snprintf_cut 499 (show_nat (nat (ulong_long value))))"

text \<open>A sequence of statements on the buffer.\<close>

type_synonym json_op = "json_buf \<Rightarrow> json_buf cres"

fun steps :: "json_op list \<Rightarrow> json_op" where
  "steps [] b = Inr b"
| "steps (op # ops) b = cbind (op b) (steps ops)"

definition on_cond :: "bool \<Rightarrow> json_op list \<Rightarrow> json_op" where
  "on_cond c ops = (if c then steps ops else Inr)"

section \<open>Members\<close>

definition add_string :: "json_env \<Rightarrow> string \<Rightarrow> string option \<Rightarrow> json_op" where
  "add_string env name value =
     steps [add_to_buf env [chr_dquote], add_to_buf env name, add_to_buf env (chr_dquote # '':'' @ [chr_dquote]),
            add_ptr_to_buf env value, add_to_buf env [chr_dquote]]"

definition add_int :: "json_env \<Rightarrow> string \<Rightarrow> int \<Rightarrow> json_op" where
  "add_int env name value =
     steps [add_to_buf env [chr_dquote], add_to_buf env name, add_to_buf env (chr_dquote # '':''),
            add_to_buf_int env value]"

definition add_uint :: "json_env \<Rightarrow> string \<Rightarrow> int \<Rightarrow> json_op" where
  "add_uint env name value =
     steps [add_to_buf env [chr_dquote], add_to_buf env name, add_to_buf env (chr_dquote # '':''),
            add_to_buf_uint env value]"

definition add_comma :: "json_env \<Rightarrow> json_op" where
  "add_comma env = add_to_buf env '',''"

text \<open>The literals with quotes around a key: \<open>key_quote k\<close> is \<open>"k":"\<close>, \<open>key_colon k\<close> is \<open>"k":\<close>.\<close>

abbreviation key_colon :: "string \<Rightarrow> string" where
  "key_colon k \<equiv> chr_dquote # k @ chr_dquote # '':''"

abbreviation key_quote :: "string \<Rightarrow> string" where
  "key_quote k \<equiv> chr_dquote # k @ chr_dquote # CHR '':'' # [chr_dquote]"

section \<open>A service\<close>

fun any_service_base :: "any_service \<Rightarrow> service" where
  "any_service_base (Socks_srv s) = s"
| "any_service_base (Port_forward_srv s) = service.truncate s"
| "any_service_base (Http_srv s) = service.truncate s"

text \<open>The casts \<open>(void*)srv\<close>: reading another structure's fields is undefined.\<close>

definition as_port_forward :: "any_service \<Rightarrow> service_port_forward cres" where
  "as_port_forward a = (case a of Port_forward_srv s \<Rightarrow> Inr s | _ \<Rightarrow> Inl UB)"

definition as_http :: "any_service \<Rightarrow> service_http cres" where
  "as_http a = (case a of Http_srv s \<Rightarrow> Inr s | _ \<Rightarrow> Inl UB)"

definition add_service :: "json_env \<Rightarrow> any_service \<Rightarrow> json_op" where
  "add_service env a =
     (let srv = any_service_base a
      in steps
       [add_to_buf env [chr_dquote], add_to_buf_uint env (int (srv_id srv)), add_to_buf env (chr_dquote # '':{''),
        add_uint env ''serviceId'' (int (srv_id srv)), add_comma env,
        add_to_buf env (key_quote ''type''),
        on_cond (srv_type srv = SERVICE_TYPE_NONE) [add_to_buf env ''none''],
        on_cond (srv_type srv = SERVICE_TYPE_SOCKS) [add_to_buf env ''SOCKS''],
        on_cond (srv_type srv = SERVICE_TYPE_PORT_FORWARD) [add_to_buf env ''portForward''],
        on_cond (srv_type srv = SERVICE_TYPE_HTTP) [add_to_buf env ''HTTP''],
        add_to_buf env (chr_dquote # '',''),
        (if srv_type srv = SERVICE_TYPE_PORT_FORWARD then (\<lambda>b. cbind (as_port_forward a) (\<lambda>fwd.
           steps [add_string env ''remoteAddress'' (Some (pf_remote_host fwd)), add_comma env,
                  add_int env ''remotePort'' (pf_remote_port fwd), add_comma env] b))
         else Inr),
        (if srv_type srv = SERVICE_TYPE_HTTP then (\<lambda>b. cbind (as_http a) (\<lambda>http.
           steps [add_to_buf env (key_quote ''baseDir''), add_to_buf env (http_base_dir http),
                  add_to_buf env (chr_dquote # '','')] b))
         else Inr),
        add_to_buf env (key_quote ''localAddress''), add_to_buf env (srv_bind_address srv),
        add_to_buf env (chr_dquote # '',''),
        add_to_buf env (key_colon ''localPort''), add_to_buf_int env (srv_port srv),
        add_to_buf env ''}''])"

section \<open>A connection\<close>

text \<open>\<open>con->srv\<close> and \<open>con->tunnel\<close> are dereferenced; the latter only when it is not null.\<close>

definition connection_service :: "any_service list \<Rightarrow> client_connection \<Rightarrow> any_service option" where
  "connection_service services con = find (\<lambda>a. srv_id (any_service_base a) = cc_srv con) services"

definition add_route_members :: "json_env \<Rightarrow> ssh_tunnel list \<Rightarrow> client_connection \<Rightarrow> tun_ref \<Rightarrow> json_op" where
  "add_route_members env tunnels con k b =
     (case deref_ssh tunnels k of
        None \<Rightarrow> Inl UB
      | Some tunnel \<Rightarrow>
          steps [add_to_buf env (key_quote ''route''), add_to_buf env (st_name tunnel),
                 add_to_buf env (chr_dquote # '',''),
                 add_int env ''socksVersion'' (cc_socks_version con), add_comma env,
                 add_int env ''socksCommand'' (cc_socks_command con), add_comma env] b)"

definition add_destination :: "json_env \<Rightarrow> string \<Rightarrow> string \<Rightarrow> string \<Rightarrow> host_id \<Rightarrow> json_op" where
  "add_destination env name_key addr_key port_key h =
     steps
      [on_cond (host_id_has_name h) [add_string env name_key (Some (host_id_get_name h)), add_comma env],
       on_cond (host_id_has_addr h) [add_string env addr_key (host_id_addr_str h 1023), add_comma env],
       add_int env port_key (host_id_get_port h), add_comma env]"

definition add_client_connection :: "json_env \<Rightarrow> any_service list \<Rightarrow> ssh_tunnel list \<Rightarrow> client_connection \<Rightarrow> json_op" where
  "add_client_connection env services tunnels con b =
     (case connection_service services con of
        None \<Rightarrow> Inl UB
      | Some a \<Rightarrow>
          let srv = any_service_base a
          in steps
           [add_to_buf env [chr_dquote], add_to_buf_uint env (int (cc_id con)), add_to_buf env (chr_dquote # '':{''),
            add_uint env ''connectionId'' (int (cc_id con)), add_comma env,
            add_to_buf env (key_colon ''service''), add_to_buf_uint env (int (srv_id srv)), add_to_buf env '','',
            (case cc_tunnel con of
               None \<Rightarrow> Inr
             | Some k \<Rightarrow>
                 if srv_type srv = SERVICE_TYPE_SOCKS \<or> srv_type srv = SERVICE_TYPE_PORT_FORWARD
                 then add_route_members env tunnels con k else Inr),
            add_destination env ''remoteName'' ''remoteAddress'' ''remotePort'' (cc_dst_host_original con),
            add_destination env ''remoteNameEffective'' ''remoteAddressEffective'' ''remotePortEffective''
              (cc_dst_host con),
            add_int env ''status'' (cc_status con), add_comma env,
            on_cond (cc_statusName con \<noteq> [])
              [add_string env ''statusName'' (Some (cc_statusName con)), add_comma env],
            on_cond (cc_statusDescription con \<noteq> [])
              [add_string env ''statusDescription'' (Some (cc_statusDescription con)), add_comma env],
            add_to_buf env (key_colon ''bytesTx''), add_to_buf_uint env (uint (cc_bytes_tx con)), add_to_buf env '','',
            add_to_buf env (key_colon ''bytesRx''), add_to_buf_uint env (uint (cc_bytes_rx con)), add_to_buf env '','',
            on_cond (srv_type srv = SERVICE_TYPE_HTTP)
              [on_cond (length (cc_urlPath con) > 0)
                 [add_string env ''urlPath'' (Some (cc_urlPath con)), add_comma env]],
            on_cond (host_id_has_name (cc_src_host con))
              [add_string env ''sourceName'' (Some (host_id_get_name (cc_src_host con))), add_comma env],
            add_string env ''sourceAddress'' (host_id_addr_str (cc_src_host con) 1023), add_comma env,
            add_int env ''sourcePort'' (host_id_get_port (cc_src_host con)), add_comma env,
            on_cond (cc_end_time con > 0)
              [add_to_buf env (key_colon ''timeEnd''), add_to_buf_uint env (cc_end_time con), add_to_buf env '',''],
            add_to_buf env (key_colon ''timeStart''), add_to_buf_uint env (cc_start_time con),
            add_to_buf env ''}''] b)"

section \<open>Instances, tunnels and the document\<close>

text \<open>The loops over the lists with their flag \<open>needComma\<close>.\<close>

fun add_items :: "json_env \<Rightarrow> ('a \<Rightarrow> json_op) \<Rightarrow> bool \<Rightarrow> 'a list \<Rightarrow> json_op" where
  "add_items env add needComma [] b = Inr b"
| "add_items env add needComma (x # xs) b =
     cbind (steps [on_cond needComma [add_to_buf env '',''], add x] b) (add_items env add True xs)"

definition add_proxy_instance :: "json_env \<Rightarrow> ssh_tunnel list \<Rightarrow> proxy_instance \<Rightarrow> json_op" where
  "add_proxy_instance env tunnels proxy =
     steps
      [add_to_buf env [chr_dquote], add_to_buf env (pi_name proxy), add_to_buf env (chr_dquote # '':{''),
       add_string env ''name'' (Some (pi_name proxy)), add_comma env,
       add_to_buf env (key_quote ''logLevel''),
       add_ptr_to_buf env (log_level_str (lc_level (pi_log proxy))), add_to_buf env (chr_dquote # '',''),
       add_to_buf env (key_quote ''logFilename''),
       (case lc_file (pi_log proxy) of Some f \<Rightarrow> add_to_buf env f | None \<Rightarrow> add_to_buf env ''-''),
       add_to_buf env (chr_dquote # '',''),
       add_to_buf env (key_colon ''service'' @ ''{''),
       add_items env (add_service env) False (pi_service_list proxy),
       add_to_buf env ''},'',
       add_to_buf env (key_colon ''connection'' @ ''{''),
       add_items env (add_client_connection env (pi_service_list proxy) tunnels) False
         (pi_client_connection_list proxy),
       add_to_buf env ''}'',
       add_to_buf env ''}'']"

definition add_ssh_tunnel :: "json_env \<Rightarrow> ssh_tunnel \<Rightarrow> json_op" where
  "add_ssh_tunnel env ssh =
     steps
      [add_to_buf env [chr_dquote], add_to_buf env (st_name ssh), add_to_buf env (chr_dquote # '':{''),
       add_string env ''name'' (Some (st_name ssh)), add_comma env,
       on_cond (st_pid ssh > 0)
         [add_to_buf env (key_colon ''pid''), add_to_buf_uint env (st_pid ssh), add_to_buf env '','',
          add_to_buf env (key_colon ''timeStart''), add_to_buf_uint env (st_start_time ssh), add_to_buf env '','',
          add_to_buf env (key_colon ''numConnections''), add_to_buf_uint env (st_connection_count ssh),
          add_to_buf env '',''],
       add_to_buf env (key_colon ''socksPort''), add_to_buf_int env (st_socks_port ssh),
       add_to_buf env ''}'']"

text \<open>The \<open>continue\<close> for the special tunnels leaves \<open>needComma\<close> as it is.\<close>

fun add_tunnels :: "json_env \<Rightarrow> bool \<Rightarrow> ssh_tunnel list \<Rightarrow> json_op" where
  "add_tunnels env needComma [] b = Inr b"
| "add_tunnels env needComma (ssh # list) b =
     (if st_socks_port ssh = 0 then add_tunnels env needComma list b
      else cbind (steps [on_cond needComma [add_to_buf env '',''], add_ssh_tunnel env ssh] b)
             (add_tunnels env True list))"

definition add_document :: "json_env \<Rightarrow> proxy_instance list \<Rightarrow> int \<Rightarrow> ssh_tunnel list \<Rightarrow> json_op" where
  "add_document env proxies start_time tunnels =
     steps
      [add_to_buf env ''{'',
       add_int env ''currentTime'' (je_time env), add_comma env,
       add_int env ''proxyStartTime'' start_time, add_comma env,
       add_string env ''version'' (Some (je_version env)), add_comma env,
       add_string env ''buildDate'' (Some (je_build_date env)), add_comma env,
       add_string env ''gitHash'' (Some (je_git_hash env)), add_comma env,
       add_to_buf env (key_colon ''proxyInstance'' @ ''{''),
       add_items env (add_proxy_instance env tunnels) False proxies,
       add_to_buf env ''},'',
       add_to_buf env (key_colon ''sshTunnel'' @ ''{''),
       add_tunnels env False tunnels,
       add_to_buf env ''}'',
       add_to_buf env ''}'']"

text \<open>The text and the size the next call starts with; no text without memory.\<close>

definition build_json ::
  "json_env \<Rightarrow> int \<Rightarrow> proxy_instance list \<Rightarrow> int \<Rightarrow> ssh_tunnel list \<Rightarrow> (string option \<times> int) cres" where
  "build_json env default_size proxies start_time tunnels =
     (let size = default_size
      in if \<not> je_malloc env then Inr (None, default_size)
         else cmap (\<lambda>b. (Some (jb_text b), jb_size b))
                (add_document env proxies start_time tunnels \<lparr>jb_text = [], jb_size = size\<rparr>))"

end
