(* ===== verification/Status_Document.thy ===== *)
theory Status_Document
  imports Build_Json "HOL-Library.Sublist"
begin

text \<open>
  What \<open>build_json\<close> prints. \<open>emits env op s\<close>: with memory to grow into, the statement \<open>op\<close>
  appends exactly \<open>s\<close>; \<open>stays_inside op\<close>: with or without memory, \<open>op\<close> never writes behind the
  buffer. Both are closed under sequencing, so the functions are taken apart statement by
  statement. The abstract document follows, with its schema.
\<close>

named_theorems emits_intros "texts printed by the statements of the document"

named_theorems inside_intros "statements that stay inside the buffer"

section \<open>The buffer\<close>

definition buf_ok :: "json_buf \<Rightarrow> bool" where
  "buf_ok b \<longleftrightarrow> int (length (jb_text b)) < jb_size b \<and> jb_size b \<le> INT_MAX"

lemma new_buf_size_ge:
  "new_buf_size n need = Inr n' \<Longrightarrow> 0 < n \<Longrightarrow> n \<le> INT_MAX \<Longrightarrow> n \<le> n' \<and> need \<le> n' \<and> n' \<le> INT_MAX"
proof (induction n need rule: new_buf_size.induct)
  case (1 n need)
  show ?case
  proof (cases "need \<le> n")
    case True
    with 1 show ?thesis by (simp add: new_buf_size.simps [of n need])
  next
    case False
    then have "2 * n \<le> INT_MAX" "new_buf_size (2 * n) need = Inr n'"
      using 1 by (auto simp: new_buf_size.simps [of n need] split: if_splits)
    with 1 False show ?thesis by simp
  qed
qed

text \<open>The doubling ends inside \<open>int\<close> for every text below a gigabyte.\<close>

lemma new_buf_size_returns:
  "0 < n \<Longrightarrow> n \<le> INT_MAX \<Longrightarrow> need < 2 ^ 30 \<Longrightarrow> \<exists>n'. new_buf_size n need = Inr n'"
proof (induction n need rule: new_buf_size.induct)
  case (1 n need)
  show ?case
  proof (cases "need \<le> n")
    case True
    then show ?thesis by (simp add: new_buf_size.simps [of n need])
  next
    case False
    then have le: "2 * n \<le> INT_MAX" using 1 by (simp add: INT_MAX_def)
    with 1 False have "\<exists>n'. new_buf_size (2 * n) need = Inr n'" by simp
    with False le show ?thesis using 1 by (auto simp: new_buf_size.simps [of n need])
  qed
qed

definition stays_inside :: "json_op \<Rightarrow> bool" where
  "stays_inside op \<longleftrightarrow> (\<forall>b b'. buf_ok b \<longrightarrow> op b = Inr b' \<longrightarrow> buf_ok b')"

definition emits :: "json_env \<Rightarrow> json_op \<Rightarrow> string \<Rightarrow> bool" where
  "emits env op s \<longleftrightarrow>
     (\<forall>l n. je_realloc env l n) \<longrightarrow>
     (\<forall>b. buf_ok b \<longrightarrow> length (jb_text b) + length s + 10 < 2 ^ 30 \<longrightarrow>
        (\<exists>b'. op b = Inr b' \<and> jb_text b' = jb_text b @ s \<and> buf_ok b'))"

lemma emitsD:
  "emits env op s \<Longrightarrow> \<forall>l n. je_realloc env l n \<Longrightarrow> buf_ok b \<Longrightarrow> length (jb_text b) + length s + 10 < 2 ^ 30 \<Longrightarrow>
     \<exists>b'. op b = Inr b' \<and> jb_text b' = jb_text b @ s \<and> buf_ok b'"
  unfolding emits_def by blast

lemma add_to_buf_inside [inside_intros]: "stays_inside (add_to_buf env s)"
proof -
  have "buf_ok b'" if ok: "buf_ok b" and run: "add_to_buf env s b = Inr b'" for b b'
  proof -
    let ?need = "int (length (jb_text b)) + int (length s) + 10"
    obtain n' where n': "new_buf_size (jb_size b) ?need = Inr n'"
      using run by (auto simp: add_to_buf_def Let_def split: if_splits elim: cbind_InrE)
    moreover have "0 < jb_size b" "jb_size b \<le> INT_MAX" using ok by (auto simp: buf_ok_def)
    ultimately have "jb_size b \<le> n'" "n' \<le> INT_MAX" using new_buf_size_ge by blast+
    with ok run n' show ?thesis
      by (auto simp: add_to_buf_def buf_ok_def Let_def split: if_splits)
  qed
  then show ?thesis by (auto simp: stays_inside_def)
qed

lemma add_to_buf_emits [emits_intros]: "emits env (add_to_buf env s) s"
  unfolding emits_def
proof (intro impI allI)
  fix b
  assume mem: "\<forall>l n. je_realloc env l n" and ok: "buf_ok b" and len: "length (jb_text b) + length s + 10 < 2 ^ 30"
  let ?need = "int (length (jb_text b)) + int (length s) + 10"
  have size: "0 < jb_size b" "jb_size b \<le> INT_MAX" using ok by (auto simp: buf_ok_def)
  have need: "?need < 2 ^ 30" "?need \<le> INT_MAX" using len by (auto simp: INT_MAX_def)
  obtain n' where n': "new_buf_size (jb_size b) ?need = Inr n'"
    using new_buf_size_returns [OF size need(1)] by blast
  then have "?need \<le> n'" "n' \<le> INT_MAX" using new_buf_size_ge size by blast+
  then have "add_to_buf env s b = Inr \<lparr>jb_text = jb_text b @ s, jb_size = n'\<rparr>"
    using mem n' need by (auto simp: add_to_buf_def Let_def)
  with \<open>?need \<le> n'\<close> \<open>n' \<le> INT_MAX\<close>
  show "\<exists>b'. add_to_buf env s b = Inr b' \<and> jb_text b' = jb_text b @ s \<and> buf_ok b'"
    by (simp add: buf_ok_def)
qed

section \<open>Sequencing\<close>

declare steps.simps [simp del]

lemmas steps_run = steps.simps

lemma stays_inside_seq:
  "stays_inside op \<Longrightarrow> stays_inside op' \<Longrightarrow> stays_inside (\<lambda>b. cbind (op b) op')"
  unfolding stays_inside_def by (blast elim: cbind_InrE)

lemma stays_inside_Inr [inside_intros]: "stays_inside Inr"
  by (simp add: stays_inside_def)

lemma steps_inside: "list_all stays_inside ops \<Longrightarrow> stays_inside (steps ops)"
proof (induction ops)
  case Nil
  show ?case by (simp add: stays_inside_def steps_run)
next
  case (Cons op ops)
  then have "stays_inside op" "stays_inside (steps ops)" by simp_all
  from stays_inside_seq [OF this] show ?case by (simp add: stays_inside_def steps_run)
qed

lemma emits_Nil [emits_intros]: "emits env (steps []) []" "emits env Inr []"
  by (auto simp: emits_def steps_run)

lemma emits_Cons [emits_intros]:
  assumes op: "emits env op s" and ops: "emits env (steps ops) t"
  shows "emits env (steps (op # ops)) (s @ t)"
  unfolding emits_def
proof (intro impI allI)
  fix b
  assume mem: "\<forall>l n. je_realloc env l n" and ok: "buf_ok b"
    and len: "length (jb_text b) + length (s @ t) + 10 < 2 ^ 30"
  obtain b1 where b1: "op b = Inr b1" "jb_text b1 = jb_text b @ s" "buf_ok b1"
    using emitsD [OF op mem ok] len by auto
  obtain b2 where "steps ops b1 = Inr b2" "jb_text b2 = jb_text b1 @ t" "buf_ok b2"
    using emitsD [OF ops mem b1(3)] len b1(2) by auto
  with b1 show "\<exists>b'. steps (op # ops) b = Inr b' \<and> jb_text b' = jb_text b @ s @ t \<and> buf_ok b'"
    by (simp add: steps_run)
qed

lemma emits_cong: "emits env op s \<Longrightarrow> s = t \<Longrightarrow> emits env op t"
  by simp

lemma on_cond_emits [emits_intros]:
  "(c \<Longrightarrow> emits env (steps ops) s) \<Longrightarrow> emits env (on_cond c ops) (if c then s else [])"
  by (auto simp: on_cond_def intro: emits_Nil)

lemma if_emits [emits_intros]:
  "(c \<Longrightarrow> emits env op s) \<Longrightarrow> emits env (if c then op else Inr) (if c then s else [])"
  by (auto intro: emits_Nil)

lemma on_cond_inside: "list_all stays_inside ops \<Longrightarrow> stays_inside (on_cond c ops)"
  by (simp add: on_cond_def steps_inside stays_inside_Inr)

section \<open>The functions for members\<close>

lemma long_long_range: "- (2 ^ 63) \<le> long_long v \<and> long_long v < 2 ^ 63"
  unfolding long_long_def using pos_mod_bound [of "2 ^ 64" "v + 2 ^ 63"] pos_mod_sign [of "2 ^ 64" "v + 2 ^ 63"] by simp

lemma long_long_id: "- (2 ^ 63) \<le> v \<Longrightarrow> v < 2 ^ 63 \<Longrightarrow> long_long v = v"
  by (simp add: long_long_def)

lemma ulong_long_id: "0 \<le> v \<Longrightarrow> v < 2 ^ 64 \<Longrightarrow> ulong_long v = v"
  by (simp add: ulong_long_def)

lemma show_nat_uncut: "n < 2 ^ 64 \<Longrightarrow> snprintf_cut 499 (show_nat n) = show_nat n"
  using length_show_nat_le [of n 20] by (simp add: snprintf_cut_def)

lemma show_int_uncut:
  assumes "- (2 ^ 63) \<le> v" and "v < 2 ^ 63"
  shows "snprintf_cut 499 (show_int v) = show_int v"
proof -
  have "length (show_nat (nat (abs v))) \<le> 20" using length_show_nat_le [of "nat (abs v)" 20] assms by simp
  then show ?thesis by (auto simp: snprintf_cut_def show_int_def split: if_splits)
qed

lemma add_to_buf_int_emits [emits_intros]: "emits env (add_to_buf_int env v) (show_int (long_long v))"
  using long_long_range [of v] by (simp add: add_to_buf_int_def show_int_uncut add_to_buf_emits)

lemma ulong_long_range: "0 \<le> ulong_long v \<and> ulong_long v < 2 ^ 64"
  by (simp add: ulong_long_def)

lemma add_to_buf_uint_emits [emits_intros]: "emits env (add_to_buf_uint env v) (show_int (ulong_long v))"
proof -
  have "nat (ulong_long v) < 2 ^ 64" using ulong_long_range [of v] by (simp add: nat_less_iff)
  then have "snprintf_cut 499 (show_nat (nat (ulong_long v))) = show_nat (nat (ulong_long v))"
    by (rule show_nat_uncut)
  then show ?thesis
    using ulong_long_range [of v] by (simp add: add_to_buf_uint_def show_int_def add_to_buf_emits)
qed

lemma add_ptr_emits [emits_intros]: "p = Some s \<Longrightarrow> emits env (add_ptr_to_buf env p) s"
  using add_to_buf_emits [of env s] by (simp add: emits_def add_ptr_to_buf_def)

lemma add_string_emits [emits_intros]:
  "p = Some s \<Longrightarrow> emits env (add_string env k p) (member_text (k, JStr s))"
  unfolding add_string_def
  by (rule emits_cong, (rule emits_intros | assumption)+) (simp add: member_text_def json_key_def)

lemma add_int_emits [emits_intros]: "emits env (add_int env k v) (member_text (k, JNum (long_long v)))"
  unfolding add_int_def by (rule emits_cong, (rule emits_intros)+) (simp add: member_text_def json_key_def)

lemma add_uint_emits [emits_intros]: "emits env (add_uint env k v) (member_text (k, JNum (ulong_long v)))"
  unfolding add_uint_def by (rule emits_cong, (rule emits_intros)+) (simp add: member_text_def json_key_def)

lemma add_comma_emits [emits_intros]: "emits env (add_comma env) '',''"
  unfolding add_comma_def by (rule emits_intros)

section \<open>The abstract document\<close>

text \<open>Members followed by a comma each, as the functions print them, and the last member without.\<close>

definition trailing :: "json_member list \<Rightarrow> string" where
  "trailing ms = concat (map (\<lambda>m. member_text m @ '','') ms)"

lemma trailing_simps [simp]:
  "trailing [] = []" "trailing (m # ms) = member_text m @ CHR '','' # trailing ms"
  "trailing (ms @ ms') = trailing ms @ trailing ms'"
  by (simp_all add: trailing_def)

lemma json_text_members: "json_text (JObj (ms @ [m])) = CHR ''{'' # trailing ms @ member_text m @ ''}''"
proof -
  have "comma_separated (map member_text (ms @ [m])) = trailing ms @ member_text m"
    by (induction ms) (auto simp: comma_separated_Cons)
  then show ?thesis by (simp add: json_text_JObj)
qed

definition service_type_member :: "int \<Rightarrow> string" where
  "service_type_member ty =
     (if ty = SERVICE_TYPE_NONE then ''none'' else if ty = SERVICE_TYPE_SOCKS then ''SOCKS''
      else if ty = SERVICE_TYPE_PORT_FORWARD then ''portForward'' else if ty = SERVICE_TYPE_HTTP then ''HTTP''
      else [])"

definition own_members :: "any_service \<Rightarrow> json_member list" where
  "own_members a =
     (case a of
        Socks_srv s \<Rightarrow> []
      | Port_forward_srv s \<Rightarrow>
          [(''remoteAddress'', JStr (pf_remote_host s)), (''remotePort'', JNum (long_long (pf_remote_port s)))]
      | Http_srv s \<Rightarrow> [(''baseDir'', JStr (http_base_dir s))])"

definition service_json :: "any_service \<Rightarrow> json" where
  "service_json a =
     (let s = any_service_base a
      in JObj ([(''serviceId'', JNum (ulong_long (int (srv_id s)))),
                (''type'', JStr (service_type_member (srv_type s)))] @ own_members a @
               [(''localAddress'', JStr (srv_bind_address s))] @
               [(''localPort'', JNum (long_long (srv_port s)))]))"

text \<open>The type tag of a service tells which structure it is: what the casts of the code rely on.\<close>

definition service_typed :: "any_service \<Rightarrow> bool" where
  "service_typed a =
     (case a of
        Socks_srv s \<Rightarrow> srv_type s = SERVICE_TYPE_SOCKS
      | Port_forward_srv s \<Rightarrow> srv_type s = SERVICE_TYPE_PORT_FORWARD
      | Http_srv s \<Rightarrow> srv_type s = SERVICE_TYPE_HTTP)"

definition entry_text :: "int \<Rightarrow> json \<Rightarrow> string" where
  "entry_text k j = member_text (show_int (ulong_long k), j)"

lemmas service_type_defs =
  SERVICE_TYPE_NONE_def SERVICE_TYPE_SOCKS_def SERVICE_TYPE_PORT_FORWARD_def SERVICE_TYPE_HTTP_def

lemma service_typed_cases [consumes 1, case_names Socks Port_forward Http]:
  assumes "service_typed a"
  obtains s where "a = Socks_srv s" "srv_type s = SERVICE_TYPE_SOCKS"
    | s where "a = Port_forward_srv s" "srv_type s = SERVICE_TYPE_PORT_FORWARD"
    | s where "a = Http_srv s" "srv_type s = SERVICE_TYPE_HTTP"
  using assms by (cases a) (auto simp: service_typed_def)

lemma srv_truncate [simp]:
  "srv_id (service.truncate s) = srv_id s" "srv_type (service.truncate s) = srv_type s"
  "srv_bind_address (service.truncate s) = srv_bind_address s" "srv_port (service.truncate s) = srv_port s"
  by (simp_all add: service.truncate_def)

lemma add_service_emits:
  assumes "service_typed a"
  shows "emits env (add_service env a)
           (member_text (show_int (ulong_long (int (srv_id (any_service_base a)))), service_json a))"
  using assms
proof (cases rule: service_typed_cases)
  case (Socks s)
  show ?thesis
    by (simp add: Socks add_service_def on_cond_def Let_def service_type_defs)
      (rule emits_cong, (rule emits_intros)+,
       simp add: Socks member_text_def json_key_def service_json_def own_members_def Let_def
         service_type_member_def service_type_defs json_text_JObj comma_separated_Cons)
next
  case (Port_forward s)
  show ?thesis
    by (simp add: Port_forward add_service_def on_cond_def Let_def service_type_defs as_port_forward_def)
      (rule emits_cong, (rule emits_intros refl)+,
       simp add: Port_forward member_text_def json_key_def service_json_def own_members_def Let_def
         service_type_member_def service_type_defs json_text_JObj comma_separated_Cons)
next
  case (Http s)
  show ?thesis
    by (simp add: Http add_service_def on_cond_def Let_def service_type_defs as_http_def)
      (rule emits_cong, (rule emits_intros refl)+,
       simp add: Http member_text_def json_key_def service_json_def own_members_def Let_def
         service_type_member_def service_type_defs json_text_JObj comma_separated_Cons)
qed

section \<open>Connections\<close>

definition optional :: "bool \<Rightarrow> json_member \<Rightarrow> json_member list" where
  "optional c m = (if c then [m] else [])"

definition addr_text :: "host_id \<Rightarrow> string" where
  "addr_text h = printf_s (host_id_addr_str h 1023)"

definition destination_members :: "string \<Rightarrow> string \<Rightarrow> string \<Rightarrow> host_id \<Rightarrow> json_member list" where
  "destination_members name_key addr_key port_key h =
     optional (host_id_has_name h) (name_key, JStr (hid_name h)) @
     optional (host_id_has_addr h) (addr_key, JStr (addr_text h)) @
     [(port_key, JNum (long_long (hid_port h)))]"

definition route_members :: "int \<Rightarrow> ssh_tunnel list \<Rightarrow> client_connection \<Rightarrow> json_member list" where
  "route_members ty tunnels con =
     (case cc_tunnel con of
        None \<Rightarrow> []
      | Some k \<Rightarrow>
          if ty = SERVICE_TYPE_SOCKS \<or> ty = SERVICE_TYPE_PORT_FORWARD then
            [(''route'', JStr (case deref_ssh tunnels k of None \<Rightarrow> [] | Some t \<Rightarrow> st_name t)),
             (''socksVersion'', JNum (long_long (cc_socks_version con))),
             (''socksCommand'', JNum (long_long (cc_socks_command con)))]
          else [])"

definition connection_members :: "service \<Rightarrow> ssh_tunnel list \<Rightarrow> client_connection \<Rightarrow> json_member list" where
  "connection_members srv tunnels con =
     [(''connectionId'', JNum (ulong_long (int (cc_id con)))),
      (''service'', JNum (ulong_long (int (srv_id srv))))] @
     route_members (srv_type srv) tunnels con @
     destination_members ''remoteName'' ''remoteAddress'' ''remotePort'' (cc_dst_host_original con) @
     destination_members ''remoteNameEffective'' ''remoteAddressEffective'' ''remotePortEffective''
       (cc_dst_host con) @
     [(''status'', JNum (long_long (cc_status con)))] @
     optional (cc_statusName con \<noteq> []) (''statusName'', JStr (cc_statusName con)) @
     optional (cc_statusDescription con \<noteq> []) (''statusDescription'', JStr (cc_statusDescription con)) @
     [(''bytesTx'', JNum (ulong_long (uint (cc_bytes_tx con)))),
      (''bytesRx'', JNum (ulong_long (uint (cc_bytes_rx con))))] @
     optional (srv_type srv = SERVICE_TYPE_HTTP \<and> cc_urlPath con \<noteq> []) (''urlPath'', JStr (cc_urlPath con)) @
     optional (host_id_has_name (cc_src_host con)) (''sourceName'', JStr (hid_name (cc_src_host con))) @
     [(''sourceAddress'', JStr (addr_text (cc_src_host con))),
      (''sourcePort'', JNum (long_long (hid_port (cc_src_host con))))] @
     optional (cc_end_time con > 0) (''timeEnd'', JNum (ulong_long (cc_end_time con)))"

definition connection_json :: "service \<Rightarrow> ssh_tunnel list \<Rightarrow> client_connection \<Rightarrow> json" where
  "connection_json srv tunnels con =
     JObj (connection_members srv tunnels con @ [(''timeStart'', JNum (ulong_long (cc_start_time con)))])"

text \<open>
  What the code relies on: the service is in the list, the client has an address, and the
  tunnel a connection points to is in the list.
\<close>

definition connection_typed :: "any_service list \<Rightarrow> ssh_tunnel list \<Rightarrow> client_connection \<Rightarrow> bool" where
  "connection_typed services tunnels con \<longleftrightarrow>
     connection_service services con \<noteq> None \<and>
     (case cc_tunnel con of None \<Rightarrow> True | Some k \<Rightarrow> deref_ssh tunnels k \<noteq> None) \<and>
     con_ok con \<and> host_id_has_addr (cc_src_host con)"

lemma trailing_optional [simp]:
  "trailing (optional c m) = (if c then member_text m @ '','' else [])"
  by (simp add: optional_def)

lemma addr_text_some: "host_id_ok h \<Longrightarrow> host_id_has_addr h \<Longrightarrow> host_id_addr_str h 1023 = Some (addr_text h)"
  using host_id_addr_str_fits [of h 1023] by (auto simp: addr_text_def printf_s_def)

lemma add_destination_emits:
  assumes "host_id_ok h"
  shows "emits env (add_destination env nk ak pk h) (trailing (destination_members nk ak pk h))"
  unfolding add_destination_def host_id_get_name_def host_id_get_port_def
  by (rule emits_cong, (rule emits_intros refl addr_text_some assms | assumption)+,
      simp add: destination_members_def split del: if_split cong: if_cong)

lemma add_route_members_emits:
  assumes "deref_ssh tunnels k = Some t"
  shows "emits env (add_route_members env tunnels con k)
           (trailing [(''route'', JStr (st_name t)), (''socksVersion'', JNum (long_long (cc_socks_version con))),
                      (''socksCommand'', JNum (long_long (cc_socks_command con)))])"
  unfolding add_route_members_def assms option.case
  by (rule emits_cong, (rule emits_intros refl)+, simp add: member_text_def json_key_def)

text \<open>Two nested conditions of the code are one condition of the document.\<close>

lemma on_cond_on_cond [simp]: "on_cond c [on_cond d ops] = on_cond (c \<and> d) ops"
  by (rule ext) (simp add: on_cond_def steps_run cbind_def split: sum.splits)

lemma add_client_connection_emits:
  assumes typed: "connection_typed services tunnels con"
    and a: "connection_service services con = Some a"
  shows "emits env (add_client_connection env services tunnels con)
           (member_text (show_int (ulong_long (int (cc_id con))),
              connection_json (any_service_base a) tunnels con))"
proof -
  let ?srv = "any_service_base a"
  have ok: "host_id_ok (cc_src_host con)" "host_id_ok (cc_dst_host con)" "host_id_ok (cc_dst_host_original con)"
    and src: "host_id_has_addr (cc_src_host con)"
    using typed by (simp_all add: connection_typed_def con_ok_def)
  have route: "emits env (case cc_tunnel con of None \<Rightarrow> Inr
       | Some k \<Rightarrow> if srv_type ?srv = SERVICE_TYPE_SOCKS \<or> srv_type ?srv = SERVICE_TYPE_PORT_FORWARD
           then add_route_members env tunnels con k else Inr)
     (trailing (route_members (srv_type ?srv) tunnels con))"
    using typed by (auto simp: route_members_def connection_typed_def add_route_members_emits emits_Nil
        simp del: trailing_simps(2) split: option.splits)
  note parts = route add_destination_emits [OF ok(2)] add_destination_emits [OF ok(3)]
    addr_text_some [OF ok(1) src] emits_intros refl
  show ?thesis
    unfolding add_client_connection_def a option.case Let_def on_cond_on_cond host_id_get_name_def host_id_get_port_def
    by (rule emits_cong, (rule parts)+,
        simp only: member_text_def [of "(show_int _, _)"] fst_conv snd_conv connection_json_def json_text_members)
      (simp add: connection_members_def member_text_def json_key_def split del: if_split cong: if_cong)
qed

section \<open>The lists\<close>

lemma add_items_Cons:
  "add_items env add needComma (x # xs) =
     steps [on_cond needComma [add_to_buf env '',''], add x, add_items env add True xs]"
  by (rule ext) (simp add: steps_run cbind_assoc cbind_def split: sum.split)

lemma add_items_Nil: "add_items env add needComma [] = Inr"
  by (rule ext) simp

lemma add_items_emits_rest:
  "(\<And>x. x \<in> set xs \<Longrightarrow> emits env (add x) (f x)) \<Longrightarrow>
     emits env (add_items env add True xs) (concat (map (\<lambda>x. CHR '','' # f x) xs))"
proof (induction xs)
  case (Cons x xs)
  then have parts: "emits env (add x) (f x)"
    "emits env (add_items env add True xs) (concat (map (\<lambda>x. CHR '','' # f x) xs))" by simp_all
  show ?case
    unfolding add_items_Cons by (rule emits_cong, (rule emits_intros parts)+) simp
qed (simp add: add_items_Nil emits_Nil)

lemma add_items_emits:
  assumes "\<And>x. x \<in> set xs \<Longrightarrow> emits env (add x) (f x)"
  shows "emits env (add_items env add False xs) (comma_separated (map f xs))"
proof (cases xs)
  case (Cons x ys)
  have whole: "comma_separated (map f (x # ys)) = f x @ concat (map (\<lambda>x. CHR '','' # f x) ys)"
    by (induction ys arbitrary: x) auto
  have parts: "emits env (add x) (f x)"
    "emits env (add_items env add True ys) (concat (map (\<lambda>x. CHR '','' # f x) ys))"
    using assms Cons by (auto intro: add_items_emits_rest)
  show ?thesis
    unfolding Cons add_items_Cons whole by (rule emits_cong, (rule emits_intros parts)+) simp
qed (simp add: add_items_Nil emits_Nil)

text \<open>The flag and the \<open>continue\<close> of the loop over the tunnels: the special tunnels are left out.\<close>

lemma add_tunnels_items:
  "add_tunnels env needComma tunnels =
     add_items env (add_ssh_tunnel env) needComma (filter (\<lambda>t. st_socks_port t \<noteq> 0) tunnels)"
  by (rule ext, induction tunnels arbitrary: needComma) (simp_all add: cbind_def split: sum.splits)

section \<open>Tunnels, instances and the document\<close>

definition tunnel_json :: "ssh_tunnel \<Rightarrow> json" where
  "tunnel_json t =
     JObj (([(''name'', JStr (st_name t))] @
            (if st_pid t > 0 then
               [(''pid'', JNum (ulong_long (st_pid t))), (''timeStart'', JNum (ulong_long (st_start_time t))),
                (''numConnections'', JNum (ulong_long (st_connection_count t)))] else [])) @
           [(''socksPort'', JNum (long_long (st_socks_port t)))])"

definition log_filename :: "proxy_instance \<Rightarrow> string" where
  "log_filename p = (case lc_file (pi_log p) of Some f \<Rightarrow> f | None \<Rightarrow> ''-'')"

definition service_entry :: "any_service \<Rightarrow> json_member" where
  "service_entry a = (show_int (ulong_long (int (srv_id (any_service_base a)))), service_json a)"

definition connection_entry :: "any_service list \<Rightarrow> ssh_tunnel list \<Rightarrow> client_connection \<Rightarrow> json_member" where
  "connection_entry services tunnels con =
     (show_int (ulong_long (int (cc_id con))),
      connection_json (any_service_base (the (connection_service services con))) tunnels con)"

definition proxy_json :: "ssh_tunnel list \<Rightarrow> proxy_instance \<Rightarrow> json" where
  "proxy_json tunnels p =
     JObj [(''name'', JStr (pi_name p)),
           (''logLevel'', JStr (printf_s (log_level_str (lc_level (pi_log p))))),
           (''logFilename'', JStr (log_filename p)),
           (''service'', JObj (map service_entry (pi_service_list p))),
           (''connection'', JObj (map (connection_entry (pi_service_list p) tunnels) (pi_client_connection_list p)))]"

definition proxy_entry :: "ssh_tunnel list \<Rightarrow> proxy_instance \<Rightarrow> json_member" where
  "proxy_entry tunnels p = (pi_name p, proxy_json tunnels p)"

definition tunnel_entry :: "ssh_tunnel \<Rightarrow> json_member" where
  "tunnel_entry t = (st_name t, tunnel_json t)"

definition status_json :: "json_env \<Rightarrow> proxy_instance list \<Rightarrow> int \<Rightarrow> ssh_tunnel list \<Rightarrow> json" where
  "status_json env proxies start_time tunnels =
     JObj [(''currentTime'', JNum (long_long (je_time env))),
           (''proxyStartTime'', JNum (long_long start_time)),
           (''version'', JStr (je_version env)),
           (''buildDate'', JStr (je_build_date env)),
           (''gitHash'', JStr (je_git_hash env)),
           (''proxyInstance'', JObj (map (proxy_entry tunnels) proxies)),
           (''sshTunnel'', JObj (map tunnel_entry (filter (\<lambda>t. st_socks_port t \<noteq> 0) tunnels)))]"

text \<open>The state \<open>build_json\<close> can print: the type invariant of the instances.\<close>

definition proxy_typed :: "ssh_tunnel list \<Rightarrow> proxy_instance \<Rightarrow> bool" where
  "proxy_typed tunnels p \<longleftrightarrow>
     log_level_str (lc_level (pi_log p)) \<noteq> None \<and>
     list_all service_typed (pi_service_list p) \<and>
     list_all (connection_typed (pi_service_list p) tunnels) (pi_client_connection_list p)"

lemma add_ssh_tunnel_emits: "emits env (add_ssh_tunnel env t) (member_text (tunnel_entry t))"
  unfolding add_ssh_tunnel_def
  by (rule emits_cong, (rule emits_intros refl)+)
    (simp only: tunnel_entry_def member_text_def [of "(st_name t, _)"] fst_conv snd_conv tunnel_json_def
       json_text_members,
     simp add: json_key_def member_text_def if_distrib [of trailing] split del: if_split cong: if_cong)

lemma add_proxy_instance_emits:
  assumes "proxy_typed tunnels p"
  shows "emits env (add_proxy_instance env tunnels p) (member_text (proxy_entry tunnels p))"
proof -
  obtain level where level: "log_level_str (lc_level (pi_log p)) = Some level"
    using assms by (auto simp: proxy_typed_def)
  have logfile: "emits env (case lc_file (pi_log p) of Some f \<Rightarrow> add_to_buf env f | None \<Rightarrow> add_to_buf env ''-'') (log_filename p)"
    by (simp add: log_filename_def add_to_buf_emits split: option.split)
  have services: "emits env (add_items env (add_service env) False (pi_service_list p))
      (comma_separated (map (member_text \<circ> service_entry) (pi_service_list p)))"
    using assms add_service_emits
    by (intro add_items_emits) (auto simp: proxy_typed_def service_entry_def list_all_iff)
  have connections: "emits env (add_items env (add_client_connection env (pi_service_list p) tunnels) False
        (pi_client_connection_list p))
      (comma_separated (map (member_text \<circ> connection_entry (pi_service_list p) tunnels) (pi_client_connection_list p)))"
    using assms add_client_connection_emits
    by (intro add_items_emits) (fastforce simp: proxy_typed_def connection_entry_def list_all_iff connection_typed_def)
  show ?thesis
    unfolding add_proxy_instance_def
    by (rule emits_cong, (rule logfile services connections level emits_intros refl)+)
      (simp add: proxy_entry_def member_text_def [of "(_, _)"] proxy_json_def json_text_JObj comma_separated_Cons
        json_key_def level printf_s_def)
qed

lemma add_document_emits:
  assumes "list_all (proxy_typed tunnels) proxies"
  shows "emits env (add_document env proxies start_time tunnels) (json_text (status_json env proxies start_time tunnels))"
proof -
  have proxies: "emits env (add_items env (add_proxy_instance env tunnels) False proxies)
      (comma_separated (map (member_text \<circ> proxy_entry tunnels) proxies))"
    using assms add_proxy_instance_emits by (intro add_items_emits) (auto simp: list_all_iff)
  have tunnels: "emits env (add_tunnels env False tunnels)
      (comma_separated (map (member_text \<circ> tunnel_entry) (filter (\<lambda>t. st_socks_port t \<noteq> 0) tunnels)))"
    using add_ssh_tunnel_emits by (auto simp: add_tunnels_items intro: add_items_emits)
  show ?thesis
    unfolding add_document_def
    by (rule emits_cong, (rule proxies tunnels emits_intros refl)+)
      (simp add: status_json_def member_text_def [of "(_, _)"] json_text_JObj comma_separated_Cons json_key_def)
qed

section \<open>Typed documents\<close>

definition service_fields :: "(string \<times> bool \<times> schema) list" where
  "service_fields =
     [(''serviceId'', True, SNum), (''type'', True, SStr), (''remoteAddress'', False, SStr),
      (''remotePort'', False, SNum), (''baseDir'', False, SStr), (''localAddress'', True, SStr),
      (''localPort'', True, SNum)]"

definition connection_fields :: "(string \<times> bool \<times> schema) list" where
  "connection_fields =
     [(''connectionId'', True, SNum), (''service'', True, SNum)] @
     [(''route'', False, SStr), (''socksVersion'', False, SNum), (''socksCommand'', False, SNum)] @
     [(''remoteName'', False, SStr)] @ [(''remoteAddress'', False, SStr)] @ [(''remotePort'', True, SNum)] @
     [(''remoteNameEffective'', False, SStr)] @ [(''remoteAddressEffective'', False, SStr)] @
     [(''remotePortEffective'', True, SNum)] @ [(''status'', True, SNum)] @
     [(''statusName'', False, SStr)] @ [(''statusDescription'', False, SStr)] @
     [(''bytesTx'', True, SNum), (''bytesRx'', True, SNum)] @ [(''urlPath'', False, SStr)] @
     [(''sourceName'', False, SStr)] @ [(''sourceAddress'', True, SStr), (''sourcePort'', True, SNum)] @
     [(''timeEnd'', False, SNum)] @ [(''timeStart'', True, SNum)]"

definition tunnel_fields :: "(string \<times> bool \<times> schema) list" where
  "tunnel_fields =
     [(''name'', True, SStr), (''pid'', False, SNum), (''timeStart'', False, SNum),
      (''numConnections'', False, SNum), (''socksPort'', True, SNum)]"

definition proxy_fields :: "(string \<times> bool \<times> schema) list" where
  "proxy_fields =
     [(''name'', True, SStr), (''logLevel'', True, SStr), (''logFilename'', True, SStr),
      (''service'', True, SMap (SRec service_fields)), (''connection'', True, SMap (SRec connection_fields))]"

definition status_schema :: schema where
  "status_schema =
     SRec [(''currentTime'', True, SNum), (''proxyStartTime'', True, SNum), (''version'', True, SStr),
           (''buildDate'', True, SStr), (''gitHash'', True, SStr),
           (''proxyInstance'', True, SMap (SRec proxy_fields)), (''sshTunnel'', True, SMap (SRec tunnel_fields))]"

lemma service_json_typed: "conforms (SRec service_fields) (service_json a)"
  unfolding service_json_def Let_def
  by (rule conforms_recI; cases a) (simp_all add: service_fields_def own_members_def)

lemma tunnel_json_typed: "conforms (SRec tunnel_fields) (tunnel_json t)"
  unfolding tunnel_json_def by (rule conforms_recI; cases "0 < st_pid t") (simp_all add: tunnel_fields_def)

text \<open>The optional members leave the keys of a connection a subsequence of the declared ones.\<close>

lemma subseq_optional: "subseq (map fst (optional c m)) [fst m]"
  by (simp add: optional_def)

lemma subseq_distinct_keys: "subseq xs ys \<Longrightarrow> distinct ys \<Longrightarrow> distinct xs"
  by (metis distinct_nthsI subseq_conv_nths)

lemma route_members_keys:
  "subseq (map fst (route_members ty tunnels con)) [''route'', ''socksVersion'', ''socksCommand'']"
  by (simp add: route_members_def split: option.split)

lemma connection_keys:
  "subseq (map fst (connection_members srv tunnels con @ [(''timeStart'', v)])) (map fst connection_fields)"
proof -
  have opt: "subseq (map fst (optional c (k, j))) [k]" for c and k :: string and j :: json
    using subseq_optional [of c "(k, j)"] by simp
  show ?thesis
    unfolding connection_members_def connection_fields_def destination_members_def map_append append_assoc
    by (simp only: list.map fst_conv)
      (intro list_emb_append_mono route_members_keys opt; simp)
qed

lemma list_all_optional [simp]: "list_all P (optional c m) \<longleftrightarrow> (c \<longrightarrow> P m)"
  by (simp add: optional_def)

lemma list_all_route_members:
  "(\<And>s. P (''route'', JStr s)) \<Longrightarrow> P (''socksVersion'', JNum (long_long (cc_socks_version con))) \<Longrightarrow>
     P (''socksCommand'', JNum (long_long (cc_socks_command con))) \<Longrightarrow> list_all P (route_members ty tunnels con)"
  by (simp add: route_members_def split: option.splits)

lemma connection_json_typed: "conforms (SRec connection_fields) (connection_json srv tunnels con)"
  unfolding connection_json_def
proof (rule conforms_recI)
  have "distinct (map fst connection_fields)" by (simp add: connection_fields_def)
  then show "distinct (map fst (connection_members srv tunnels con @ [(''timeStart'', JNum (ulong_long (cc_start_time con)))]))"
    using connection_keys by (metis subseq_distinct_keys)
  show "list_all (\<lambda>(k, v). case find_field connection_fields k of None \<Rightarrow> False | Some sc \<Rightarrow> conforms sc v)
      (connection_members srv tunnels con @ [(''timeStart'', JNum (ulong_long (cc_start_time con)))])"
    by (simp add: connection_members_def destination_members_def connection_fields_def list_all_route_members)
  show "list_all (\<lambda>(n, req, sc). req \<longrightarrow> n \<in> fst ` set (connection_members srv tunnels con @
      [(''timeStart'', JNum (ulong_long (cc_start_time con)))])) connection_fields"
    by (simp add: connection_members_def destination_members_def connection_fields_def)
qed

text \<open>Names and numbers are keys of tables: no two objects of a list share one.\<close>

definition ids_distinct :: "nat list \<Rightarrow> bool" where
  "ids_distinct ids \<longleftrightarrow> distinct ids \<and> list_all (\<lambda>n. n < 2 ^ 64) ids"

definition state_keys_ok :: "proxy_instance list \<Rightarrow> ssh_tunnel list \<Rightarrow> bool" where
  "state_keys_ok proxies tunnels \<longleftrightarrow>
     distinct (map pi_name proxies) \<and> distinct (map st_name tunnels) \<and>
     list_all (\<lambda>p. ids_distinct (map (srv_id \<circ> any_service_base) (pi_service_list p)) \<and>
                   ids_distinct (map cc_id (pi_client_connection_list p))) proxies"

lemma show_id: "n < 2 ^ 64 \<Longrightarrow> show_int (ulong_long (int n)) = show_nat n"
  by (simp add: ulong_long_id show_int_def)

lemma distinct_id_keys:
  assumes "ids_distinct (map f xs)"
  shows "distinct (map (\<lambda>x. show_int (ulong_long (int (f x)))) xs)"
proof -
  have "distinct (map (show_nat \<circ> f) xs)"
    using assms by (auto simp: ids_distinct_def distinct_map inj_on_def dest: show_nat_inj)
  moreover have "map (\<lambda>x. show_int (ulong_long (int (f x)))) xs = map (show_nat \<circ> f) xs"
    using assms by (auto simp: ids_distinct_def list_all_iff show_id)
  ultimately show ?thesis by (simp only:)
qed

lemma proxy_json_typed:
  assumes "ids_distinct (map (srv_id \<circ> any_service_base) (pi_service_list p))"
    and "ids_distinct (map cc_id (pi_client_connection_list p))"
  shows "conforms (SRec proxy_fields) (proxy_json tunnels p)"
proof -
  have "conforms (SMap (SRec service_fields)) (JObj (map service_entry (pi_service_list p)))"
    using distinct_id_keys [OF assms(1)] service_json_typed
    unfolding service_entry_def [abs_def] by (intro conforms_mapI) simp_all
  moreover have "conforms (SMap (SRec connection_fields))
      (JObj (map (connection_entry (pi_service_list p) tunnels) (pi_client_connection_list p)))"
    using distinct_id_keys [OF assms(2)] connection_json_typed
    unfolding connection_entry_def [abs_def] by (intro conforms_mapI) simp_all
  ultimately show ?thesis
    unfolding proxy_json_def by (intro conforms_recI) (simp_all add: proxy_fields_def)
qed

lemma status_json_typed:
  assumes "state_keys_ok proxies tunnels"
  shows "conforms status_schema (status_json env proxies start_time tunnels)"
proof -
  have "conforms (SMap (SRec proxy_fields)) (JObj (map (proxy_entry tunnels) proxies))"
    using assms proxy_json_typed unfolding proxy_entry_def [abs_def]
    by (intro conforms_mapI) (auto simp: state_keys_ok_def list_all_iff)
  moreover have "conforms (SMap (SRec tunnel_fields))
      (JObj (map tunnel_entry (filter (\<lambda>t. st_socks_port t \<noteq> 0) tunnels)))"
    using assms tunnel_json_typed unfolding tunnel_entry_def [abs_def]
    by (intro conforms_mapI) (auto simp: state_keys_ok_def distinct_map_filter)
  ultimately show ?thesis
    unfolding status_json_def status_schema_def by (intro conforms_recI) simp_all
qed

section \<open>The document the code returns\<close>

lemma build_json_emits:
  assumes "je_malloc env" and "\<forall>l n. je_realloc env l n" and "0 < default_size" and "default_size \<le> INT_MAX"
    and "list_all (proxy_typed tunnels) proxies"
    and "length (json_text (status_json env proxies start_time tunnels)) + 10 < 2 ^ 30"
  shows "\<exists>n. build_json env default_size proxies start_time tunnels =
               Inr (Some (json_text (status_json env proxies start_time tunnels)), n) \<and>
             int (length (json_text (status_json env proxies start_time tunnels))) < n \<and> n \<le> INT_MAX"
proof -
  have ok: "buf_ok \<lparr>jb_text = [], jb_size = default_size\<rparr>" using assms(3,4) by (simp add: buf_ok_def)
  have len: "length (jb_text \<lparr>jb_text = [], jb_size = default_size\<rparr>) +
      length (json_text (status_json env proxies start_time tunnels)) + 10 < 2 ^ 30" using assms(6) by simp
  from emitsD [OF add_document_emits [OF assms(5)] assms(2) ok len]
  show ?thesis using assms(1) by (auto simp: build_json_def buf_ok_def)
qed

text \<open>
  C12: the status document is a faithful print of the state: given memory, \<open>build_json\<close> returns the
  text of the abstract document (every instance with its services and connections, every
  ordinary tunnel), terminated inside the buffer it allocated.
\<close>

theorem build_json_prints:
  assumes "je_malloc env" and "\<forall>l n. je_realloc env l n" and "0 < default_size" and "default_size \<le> INT_MAX"
    and "list_all (proxy_typed tunnels) proxies"
    and "length (json_text (status_json env proxies start_time tunnels)) + 10 < 2 ^ 30"
  shows "\<exists>n. build_json env default_size proxies start_time tunnels =
               Inr (Some (json_text (status_json env proxies start_time tunnels)), n) \<and>
             int (length (json_text (status_json env proxies start_time tunnels))) < n \<and> n \<le> INT_MAX"
  using assms by (rule build_json_emits)

text \<open>
  A state on which the statements are evaluated: one instance with a SOCKS service and one
  connection that came in through it and left through a tunnel with a running process.
\<close>

definition demo_connection :: client_connection where
  "demo_connection = blank_connection\<lparr>cc_id := 7, cc_srv := 1, cc_tunnel := Some 4, cc_start_time := 8,
     cc_src_host := \<lparr>hid_name = [], hid_addr = AF_INET \<lparr>sin_port = 5, sin_addr = 16777343\<rparr>, hid_port = 1280\<rparr>\<rparr>"

definition demo_tunnel :: ssh_tunnel where
  "demo_tunnel = \<lparr>st_id = 4, st_name = ''t'', st_socks_port = 1081, st_command = [],
     st_log = \<lparr>lc_level = 3, lc_file = None\<rparr>, st_mark = 0, st_connection_count = 1, st_pid = 42,
     st_start_time = 5, st_last_update_time = 0, st_parent_stdin_fd = -1, st_parent_stdout_fd = -1,
     st_parent_stderr_fd = -1, st_child_stdin_fd = -1, st_child_stdout_fd = -1, st_child_stderr_fd = -1\<rparr>"

definition demo_proxy :: proxy_instance where
  "demo_proxy =
     \<lparr>pi_name = ''p'', pi_log = \<lparr>lc_level = 3, lc_file = None\<rparr>,
      pi_service_list = [Socks_srv \<lparr>srv_id = 1, srv_type = 1, srv_bind_address = ''127.0.0.1'', srv_port = 1080,
        srv_fd = 3, srv_str = Socks_fn, srv_connection_handler = Socks_fn\<rparr>],
      pi_route_rule_list = [], pi_client_connection_list = [demo_connection]\<rparr>"

definition demo_json_env :: json_env where
  "demo_json_env = \<lparr>je_malloc = True, je_realloc = (\<lambda>l n. True), je_time = 9, je_version = ''1'',
     je_build_date = ''d'', je_git_hash = ''h''\<rparr>"

lemma demo_proxy_typed: "proxy_typed [demo_tunnel] demo_proxy"
  by code_simp

lemma demo_keys: "state_keys_ok [demo_proxy] [demo_tunnel]"
  by (simp add: state_keys_ok_def demo_proxy_def demo_connection_def demo_tunnel_def ids_distinct_def)

lemma demo_plain: "json_plain (status_json demo_json_env [demo_proxy] 7 [demo_tunnel])"
  by code_simp

lemma demo_length: "length (json_text (status_json demo_json_env [demo_proxy] 7 [demo_tunnel])) + 10 < 2 ^ 30"
proof -
  have "length (json_text (status_json demo_json_env [demo_proxy] 7 [demo_tunnel])) < 1000" by code_simp
  then show ?thesis by simp
qed

lemma demo_json_memory: "je_malloc demo_json_env" "\<forall>l n. je_realloc demo_json_env l n" 
  by (simp_all add: demo_json_env_def)

theorem build_json_prints_witness:
  "\<exists>n. build_json demo_json_env 1024 [demo_proxy] 7 [demo_tunnel] =
         Inr (Some (json_text (status_json demo_json_env [demo_proxy] 7 [demo_tunnel])), n) \<and>
       int (length (json_text (status_json demo_json_env [demo_proxy] 7 [demo_tunnel]))) < n \<and> n \<le> INT_MAX"
  by (rule build_json_prints [OF demo_json_memory _ _ _ demo_length])
    (simp_all add: INT_MAX_def demo_proxy_typed)

text \<open>
  C15: the document is well typed: what the page gets, once read, has every required field of the
  schema, no field outside it, numbers and strings where the schema says so, and no key twice,
  as long as names and ids are unique and no string in it needs an escape.
\<close>

theorem status_document_typed:
  assumes "je_malloc env" and "\<forall>l n. je_realloc env l n" and "0 < default_size" and "default_size \<le> INT_MAX"
    and "list_all (proxy_typed tunnels) proxies"
    and "length (json_text (status_json env proxies start_time tunnels)) + 10 < 2 ^ 30"
    and "state_keys_ok proxies tunnels"
    and "json_plain (status_json env proxies start_time tunnels)"
  shows "\<exists>t n j. build_json env default_size proxies start_time tunnels = Inr (Some t, n) \<and>
           read_json t = Some j \<and> conforms status_schema j"
  using build_json_emits [OF assms(1-6)] read_json_text [OF assms(8)] status_json_typed [OF assms(7)] by blast

theorem status_document_typed_witness:
  "\<exists>t n j. build_json demo_json_env 1024 [demo_proxy] 7 [demo_tunnel] = Inr (Some t, n) \<and>
     read_json t = Some j \<and> conforms status_schema j"
  by (rule status_document_typed [OF demo_json_memory _ _ _ demo_length demo_keys demo_plain])
    (simp_all add: INT_MAX_def demo_proxy_typed)

text \<open>
  C14: reading the text back gives exactly the state it was printed from, and only when no string of
  the state needs an escape: \<open>build_json\<close> copies names, paths and descriptions as they are.
\<close>

theorem status_document_read:
  assumes "je_malloc env" and "\<forall>l n. je_realloc env l n" and "0 < default_size" and "default_size \<le> INT_MAX"
    and "list_all (proxy_typed tunnels) proxies"
    and "length (json_text (status_json env proxies start_time tunnels)) + 10 < 2 ^ 30"
  shows "\<exists>t n. build_json env default_size proxies start_time tunnels = Inr (Some t, n) \<and>
           (read_json t = Some (status_json env proxies start_time tunnels) \<longleftrightarrow>
            json_plain (status_json env proxies start_time tunnels))"
  using build_json_emits [OF assms] read_json_iff by blast

theorem status_document_read_witness:
  "\<exists>t n. build_json demo_json_env 1024 [demo_proxy] 7 [demo_tunnel] = Inr (Some t, n) \<and>
     (read_json t = Some (status_json demo_json_env [demo_proxy] 7 [demo_tunnel]) \<longleftrightarrow>
      json_plain (status_json demo_json_env [demo_proxy] 7 [demo_tunnel]))"
  by (rule status_document_read [OF demo_json_memory _ _ _ demo_length])
    (simp_all add: INT_MAX_def demo_proxy_typed)

section \<open>Without memory\<close>

text \<open>
  Whatever \<open>realloc\<close> answers, no statement writes behind the buffer: a piece that does not fit
  is left out.
\<close>

declare steps_inside [inside_intros] on_cond_inside [inside_intros]

lemma undefined_inside [inside_intros]: "stays_inside (\<lambda>b. Inl e)"
  by (simp add: stays_inside_def)

lemma if_inside: "stays_inside op \<Longrightarrow> stays_inside op' \<Longrightarrow> stays_inside (if c then op else op')"
  by simp

lemma cast_inside [inside_intros]: "(\<And>x. stays_inside (f x)) \<Longrightarrow> stays_inside (\<lambda>b. cbind m (\<lambda>x. f x b))"
  by (cases m) (simp_all add: stays_inside_def)

lemma add_ptr_inside [inside_intros]: "stays_inside (add_ptr_to_buf env p)"
  using add_to_buf_inside by (cases p) (simp_all add: stays_inside_def add_ptr_to_buf_def)

lemma numbers_inside [inside_intros]: "stays_inside (add_to_buf_int env v)" "stays_inside (add_to_buf_uint env v)"
  by (simp_all add: add_to_buf_int_def add_to_buf_uint_def add_to_buf_inside)

lemma members_inside [inside_intros]:
  "stays_inside (add_string env k p)" "stays_inside (add_int env k v)" "stays_inside (add_uint env k v)"
  "stays_inside (add_comma env)"
  by (auto simp: add_string_def add_int_def add_uint_def add_comma_def intro!: inside_intros)

lemma add_service_inside: "stays_inside (add_service env a)"
  unfolding add_service_def Let_def
  by (intro inside_intros; simp add: inside_intros; intro conjI impI inside_intros; simp add: inside_intros)

lemma add_items_inside:
  assumes "\<And>x. stays_inside (add x)"
  shows "stays_inside (add_items env add needComma xs)"
proof (induction xs arbitrary: needComma)
  case (Cons x xs)
  then show ?case unfolding add_items_Cons using assms by (intro inside_intros) (simp add: inside_intros)
qed (simp add: add_items_Nil inside_intros)

lemma add_route_members_inside: "stays_inside (add_route_members env tunnels con k)"
  unfolding add_route_members_def
  by (cases "deref_ssh tunnels k") (auto intro!: inside_intros)

lemma add_destination_inside: "stays_inside (add_destination env nk ak pk h)"
  unfolding add_destination_def by (auto intro!: inside_intros)

lemma add_client_connection_inside: "stays_inside (add_client_connection env services tunnels con)"
  unfolding add_client_connection_def
  by (cases "connection_service services con")
    (auto intro!: inside_intros add_route_members_inside add_destination_inside simp: Let_def split: option.split)

lemma add_proxy_instance_inside: "stays_inside (add_proxy_instance env tunnels p)"
  unfolding add_proxy_instance_def
  by (auto intro!: inside_intros add_items_inside add_service_inside add_client_connection_inside split: option.split)

lemma add_ssh_tunnel_inside: "stays_inside (add_ssh_tunnel env t)"
  unfolding add_ssh_tunnel_def by (auto intro!: inside_intros)

lemma add_document_inside: "stays_inside (add_document env proxies start_time tunnels)"
  unfolding add_document_def add_tunnels_items
  by (auto intro!: inside_intros add_items_inside add_proxy_instance_inside add_ssh_tunnel_inside)

text \<open>
  C25: a text that \<open>build_json\<close> returns always ends inside the buffer it was built in, for every answer
  of the allocator, every state and every string.
\<close>

theorem build_json_stays_inside:
  assumes "build_json env default_size proxies start_time tunnels = Inr (Some t, n)"
    and "0 < default_size" and "default_size \<le> INT_MAX"
  shows "int (length t) < n \<and> n \<le> INT_MAX"
proof -
  obtain b where b: "add_document env proxies start_time tunnels \<lparr>jb_text = [], jb_size = default_size\<rparr> = Inr b"
      "t = jb_text b" "n = jb_size b"
    using assms(1) by (auto simp: build_json_def cmap_def split: if_splits elim: cbind_InrE)
  have "buf_ok \<lparr>jb_text = [], jb_size = default_size\<rparr>" using assms(2,3) by (simp add: buf_ok_def)
  then have "buf_ok b" using add_document_inside b(1) unfolding stays_inside_def by blast
  then show ?thesis by (simp add: b(2,3) buf_ok_def)
qed

theorem build_json_stays_inside_witness:
  "\<exists>t n. build_json demo_json_env 1024 [demo_proxy] 7 [demo_tunnel] = Inr (Some t, n) \<and> int (length t) < n \<and> n \<le> INT_MAX"
proof -
  obtain n where run: "build_json demo_json_env 1024 [demo_proxy] 7 [demo_tunnel] =
      Inr (Some (json_text (status_json demo_json_env [demo_proxy] 7 [demo_tunnel])), n)"
    using build_json_emits [OF demo_json_memory _ _ _ demo_length, of 1024] by (auto simp: INT_MAX_def demo_proxy_typed)
  from build_json_stays_inside [OF run] run show ?thesis by (auto simp: INT_MAX_def)
qed

end
