(* ===== verification/Ssh_Policy.thy ===== *)
theory Ssh_Policy
  imports Proxy_Instance
begin

text \<open>
  \<open>src/ssh_policy.c\<close>: which tunnels must run (mark and sweep over the connections), and the
  life of the process behind a tunnel. The system calls of one check are a record of their
  outcomes; of the processes a check can become, the parent goes on and the child turns into a
  shell.
\<close>

section \<open>The pipes of a tunnel\<close>

text \<open>
  The descriptors that are closed, in order. The loop tests a variable that was never set:
  \<open>again\<close> says that it happens to be negative while \<open>errno\<close> is \<open>EINTR\<close>, and then the
  descriptor is closed a second time (which fails, and ends the loop).
\<close>

definition ssh_tunnel_close_pipe :: "bool \<Rightarrow> int \<Rightarrow> int list" where
  "ssh_tunnel_close_pipe again fd = (if fd < 0 then [] else if again then [fd, fd] else [fd])"

definition ssh_tunnel_close_pipes :: "bool \<Rightarrow> ssh_tunnel \<Rightarrow> ssh_tunnel \<times> int list" where
  "ssh_tunnel_close_pipes again ssh =
     (ssh\<lparr>st_parent_stdin_fd := -1, st_parent_stdout_fd := -1, st_parent_stderr_fd := -1,
          st_child_stdin_fd := -1, st_child_stdout_fd := -1, st_child_stderr_fd := -1\<rparr>,
      concat (map (ssh_tunnel_close_pipe again)
        [st_parent_stdin_fd ssh, st_parent_stdout_fd ssh, st_parent_stderr_fd ssh,
         st_child_stdin_fd ssh, st_child_stdout_fd ssh, st_child_stderr_fd ssh]))"

text \<open>The outcomes of \<open>fcntl\<close>: the flags read and the result of setting them.\<close>

definition ssh_tunnel_set_nonblocking :: "int \<times> int \<Rightarrow> unit cres" where
  "ssh_tunnel_set_nonblocking fc = (if fst fc < 0 then Inl (Exit 86) else if snd fc < 0 then Inl (Exit 87) else Inr ())"

text \<open>
  The outcomes of the system calls of one check. \<open>pe_pipes\<close> gives the read and the write ends
  for the three pipes, and \<open>None\<close> when one of them cannot be made; \<open>pe_time\<close> gives the three
  readings of the clock.
\<close>

record policy_env =
  pe_again :: bool
  pe_time :: "int \<times> int \<times> int"
  pe_waitpid :: int
  pe_pipes :: "((int \<times> int) \<times> (int \<times> int) \<times> (int \<times> int)) option"
  pe_fcntl_out :: "int \<times> int"
  pe_fcntl_err :: "int \<times> int"
  pe_fork :: int
  pe_dup2 :: "int \<times> int \<times> int"
  pe_exec_ok :: bool

definition create_tunnel_pipes :: "policy_env \<Rightarrow> ssh_tunnel \<Rightarrow> ssh_tunnel cres" where
  "create_tunnel_pipes env ssh =
     (let (ssh, closed) = ssh_tunnel_close_pipes (pe_again env) ssh
      in case pe_pipes env of
           None \<Rightarrow> Inl (Exit 85)
         | Some ((in0, in1), (out0, out1), (err0, err1)) \<Rightarrow>
             let ssh = ssh\<lparr>st_parent_stdin_fd := in1, st_child_stdin_fd := in0, st_parent_stdout_fd := out0,
                           st_child_stdout_fd := out1, st_parent_stderr_fd := err0, st_child_stderr_fd := err1\<rparr>
             in cbind (ssh_tunnel_set_nonblocking (pe_fcntl_out env)) (\<lambda>_.
                cbind (ssh_tunnel_set_nonblocking (pe_fcntl_err env)) (\<lambda>_. Inr ssh)))"

section \<open>One tunnel\<close>

definition ssh_report_interval :: int where "ssh_report_interval = 10"

datatype tunnel_process = Parent ssh_tunnel | Shell string

text \<open>The child: its standard descriptors, and the shell that takes its place.\<close>

definition tunnel_child :: "policy_env \<Rightarrow> ssh_tunnel \<Rightarrow> tunnel_process cres" where
  "tunnel_child env ssh =
     (case pe_dup2 env of
        (d_in, d_out, d_err) \<Rightarrow>
          if d_in < 0 then Inl (Exit 81)
          else if d_out < 0 then Inl (Exit 82)
          else if d_err < 0 then Inl (Exit 83)
          else if pe_exec_ok env then Inr (Shell (take 8191 (''exec '' @ st_command ssh)))
          else Inl (Exit 84))"

text \<open>The look at a process that was started before: whether it runs, and the tunnel.\<close>

definition reap_tunnel :: "policy_env \<Rightarrow> int \<Rightarrow> ssh_tunnel \<Rightarrow> bool \<times> ssh_tunnel" where
  "reap_tunnel env cur_time ssh =
     (if st_pid ssh > 0 then
        if pe_waitpid env = 0 then
          (True,
           if cur_time - st_last_update_time ssh \<ge> ssh_report_interval then ssh\<lparr>st_last_update_time := cur_time\<rparr> else ssh)
        else if pe_waitpid env > 0 then
          (False, (fst (ssh_tunnel_close_pipes (pe_again env) ssh))\<lparr>st_pid := -1\<rparr>)
        else (False, ssh)
      else (False, ssh))"

text \<open>Whether a process must be started; one that was started less than two seconds ago is not started again.\<close>

definition tunnel_must_start :: "int \<Rightarrow> bool \<Rightarrow> bool \<Rightarrow> ssh_tunnel \<Rightarrow> bool" where
  "tunnel_must_start t1 should_be_running is_running ssh =
     (let needs_to_run = should_be_running;
          needs_to_run = (if \<not> is_running \<and> needs_to_run \<and> t1 - st_start_time ssh < 2 then False else needs_to_run)
      in \<not> is_running \<and> needs_to_run)"

definition check_ssh_tunnel :: "policy_env \<Rightarrow> ssh_tunnel \<Rightarrow> tunnel_process cres" where
  "check_ssh_tunnel env ssh =
     (case pe_time env of
        (t0, t1, t2) \<Rightarrow>
          let should_be_running = (st_mark ssh > 0);
              (is_running, ssh) = reap_tunnel env t0 ssh
          in if tunnel_must_start t1 should_be_running is_running ssh then
               cbind (create_tunnel_pipes env ssh) (\<lambda>ssh.
               let ssh = ssh\<lparr>st_pid := pe_fork env\<rparr>
               in if st_pid ssh > 0 then Inr (Parent (ssh\<lparr>st_start_time := t2\<rparr>))
                  else if st_pid ssh = 0 then tunnel_child env ssh
                  else Inr (Parent ssh))
             else Inr (Parent ssh))"

section \<open>Mark and sweep\<close>

definition clear_marks :: "ssh_tunnel list \<Rightarrow> ssh_tunnel list" where
  "clear_marks ts = map (\<lambda>t. t\<lparr>st_mark := 0, st_connection_count := 0\<rparr>) ts"

definition mark_ref :: "tun_ref \<Rightarrow> ssh_tunnel list \<Rightarrow> ssh_tunnel list" where
  "mark_ref r ts = map (\<lambda>t. if st_id t = r then t\<lparr>st_mark := st_mark t + 1\<rparr> else t) ts"

definition count_ref :: "tun_ref \<Rightarrow> ssh_tunnel list \<Rightarrow> ssh_tunnel list" where
  "count_ref r ts = map (\<lambda>t. if st_id t = r then t\<lparr>st_connection_count := st_connection_count t + 1\<rparr> else t) ts"

definition mark_connection :: "client_connection \<Rightarrow> ssh_tunnel list \<Rightarrow> ssh_tunnel list" where
  "mark_connection con ts =
     (case cc_route con of
        None \<Rightarrow> ts
      | Some route_in_use \<Rightarrow>
          (case cc_tunnel con of
             Some tunnel_in_use \<Rightarrow> count_ref tunnel_in_use (mark_ref tunnel_in_use ts)
           | None \<Rightarrow> fold mark_ref (rr_tunnel route_in_use) ts))"

definition mark_tunnels :: "proxy_instance list \<Rightarrow> ssh_tunnel list \<Rightarrow> ssh_tunnel list" where
  "mark_tunnels proxies ts = fold (\<lambda>p. fold mark_connection (pi_client_connection_list p)) proxies (clear_marks ts)"

text \<open>
  The sweep. Each tunnel has its own outcomes; a check that turns this process into a shell
  ends the sweep.
\<close>

fun sweep_tunnels ::
  "(tun_ref \<Rightarrow> policy_env) \<Rightarrow> ssh_globals \<Rightarrow> ssh_tunnel list \<Rightarrow> (string + ssh_tunnel list) cres" where
  "sweep_tunnels env g [] = Inr (Inr [])"
| "sweep_tunnels env g (ssh # rest) =
     (if st_id ssh = ssh_tunnel_direct g \<or> st_id ssh = ssh_tunnel_null g
      then cmap (map_sum id (\<lambda>ts. ssh # ts)) (sweep_tunnels env g rest)
      else
        cbind (check_ssh_tunnel (env (st_id ssh)) ssh) (\<lambda>p.
        case p of
          Shell cmd \<Rightarrow> Inr (Inl cmd)
        | Parent ssh' \<Rightarrow> cmap (map_sum id (\<lambda>ts. ssh' # ts)) (sweep_tunnels env g rest)))"

definition check_ssh_tunnels ::
  "(tun_ref \<Rightarrow> policy_env) \<Rightarrow> ssh_globals \<Rightarrow> proxy_instance list \<Rightarrow> ssh_tunnel list \<Rightarrow> (string + ssh_tunnel list) cres" where
  "check_ssh_tunnels env g proxies ts = sweep_tunnels env g (mark_tunnels proxies ts)"

section \<open>What the marks count\<close>

definition carries :: "tun_ref \<Rightarrow> client_connection \<Rightarrow> bool" where
  "carries r con \<longleftrightarrow> cc_route con \<noteq> None \<and> cc_tunnel con = Some r"

definition mark_weight :: "tun_ref \<Rightarrow> client_connection \<Rightarrow> nat" where
  "mark_weight r con =
     (case cc_route con of
        None \<Rightarrow> 0
      | Some route \<Rightarrow>
          (case cc_tunnel con of Some u \<Rightarrow> if u = r then 1 else 0 | None \<Rightarrow> count_list (rr_tunnel route) r))"

definition add_marks :: "(tun_ref \<Rightarrow> nat) \<Rightarrow> (tun_ref \<Rightarrow> nat) \<Rightarrow> ssh_tunnel list \<Rightarrow> ssh_tunnel list" where
  "add_marks m c ts =
     map (\<lambda>t. t\<lparr>st_mark := st_mark t + int (m (st_id t)), st_connection_count := st_connection_count t + int (c (st_id t))\<rparr>) ts"

lemma add_marks_0 [simp]: "add_marks (\<lambda>_. 0) (\<lambda>_. 0) ts = ts"
  by (simp add: add_marks_def)

lemma add_marks_add: "add_marks m c (add_marks m' c' ts) = add_marks (\<lambda>r. m' r + m r) (\<lambda>r. c' r + c r) ts"
  by (simp add: add_marks_def add.assoc)

lemma mark_ref_add: "mark_ref r ts = add_marks (\<lambda>x. if x = r then 1 else 0) (\<lambda>_. 0) ts"
  by (simp add: mark_ref_def add_marks_def)

lemma count_ref_add: "count_ref r ts = add_marks (\<lambda>_. 0) (\<lambda>x. if x = r then 1 else 0) ts"
  by (simp add: count_ref_def add_marks_def)

lemma fold_mark_ref: "fold mark_ref rs ts = add_marks (count_list rs) (\<lambda>_. 0) ts"
proof (induction rs arbitrary: ts)
  case (Cons r rs)
  then show ?case
    by (simp add: mark_ref_add add_marks_add) (rule arg_cong [where f = "\<lambda>m. add_marks m _ _"], auto)
qed (simp add: add_marks_def)

lemma mark_connection_add:
  "mark_connection con ts = add_marks (\<lambda>r. mark_weight r con) (\<lambda>r. if carries r con then 1 else 0) ts"
  by (cases "cc_route con"; cases "cc_tunnel con")
     (simp_all add: mark_connection_def mark_weight_def carries_def fold_mark_ref mark_ref_add count_ref_add add_marks_add,
      simp_all add: add_marks_def eq_commute)

lemma fold_mark_connection:
  "fold mark_connection cons ts =
     add_marks (\<lambda>r. sum_list (map (mark_weight r) cons)) (\<lambda>r. length (filter (carries r) cons)) ts"
proof (induction cons arbitrary: ts)
  case (Cons con cons)
  then show ?case
    by (simp add: mark_connection_add add_marks_add) (rule arg_cong2 [where f = "\<lambda>m c. add_marks m c _"], auto)
qed simp

lemma fold_mark_proxies:
  "fold (\<lambda>p. fold mark_connection (pi_client_connection_list p)) proxies ts =
     fold mark_connection (concat (map pi_client_connection_list proxies)) ts"
  by (induction proxies arbitrary: ts) simp_all

text \<open>
  Mark and sweep marks what is needed. Afterwards a tunnel is marked exactly when some
  connection of some proxy goes through it, or has a route via it and is not connected through
  any tunnel yet; and its connection count is the number of the connections that go through
  it. Nothing else of a tunnel changes.
\<close>

theorem mark_tunnels_correct:
  "\<exists>m. mark_tunnels proxies ts =
      map (\<lambda>t. t\<lparr>st_mark := int (m (st_id t)),
               st_connection_count := int (length (filter (carries (st_id t)) (concat (map pi_client_connection_list proxies))))\<rparr>) ts \<and>
    (\<forall>r. 0 < m r \<longleftrightarrow>
      (\<exists>con \<in> set (concat (map pi_client_connection_list proxies)). \<exists>route. cc_route con = Some route \<and>
         (cc_tunnel con = Some r \<or> cc_tunnel con = None \<and> r \<in> set (rr_tunnel route))))"
proof (intro exI conjI allI)
  let ?cons = "concat (map pi_client_connection_list proxies)"
  let ?m = "\<lambda>r. sum_list (map (mark_weight r) ?cons)"
  show "mark_tunnels proxies ts =
      map (\<lambda>t. t\<lparr>st_mark := int (?m (st_id t)), st_connection_count := int (length (filter (carries (st_id t)) ?cons))\<rparr>) ts"
    unfolding mark_tunnels_def fold_mark_proxies fold_mark_connection by (simp add: add_marks_def clear_marks_def)
  have pos: "0 < count_list rs r \<longleftrightarrow> r \<in> set rs" for rs and r :: tun_ref
    using count_list_0_iff [of rs r] by (cases "count_list rs r") simp_all
  have "0 < mark_weight r con \<longleftrightarrow> (\<exists>route. cc_route con = Some route \<and>
      (cc_tunnel con = Some r \<or> cc_tunnel con = None \<and> r \<in> set (rr_tunnel route)))" for r con
    by (cases "cc_route con"; cases "cc_tunnel con") (simp_all add: mark_weight_def pos)
  moreover have "0 < sum_list (map f xs) \<longleftrightarrow> (\<exists>x \<in> set xs. 0 < f x)" for f :: "client_connection \<Rightarrow> nat" and xs
    by (induction xs) auto
  ultimately show "0 < ?m r \<longleftrightarrow> (\<exists>con \<in> set ?cons. \<exists>route. cc_route con = Some route \<and>
      (cc_tunnel con = Some r \<or> cc_tunnel con = None \<and> r \<in> set (rr_tunnel route)))" for r
    by (simp only: )
qed

section \<open>One process per tunnel\<close>

text \<open>
  A tunnel with its processes: those that run and those that have exited and are not waited
  for yet. A check sees them through \<open>waitpid\<close>, and \<open>fork\<close> gives a new id.
\<close>

record tunnel_world =
  tw_ssh :: ssh_tunnel
  tw_running :: "int set"
  tw_exited :: "int set"

definition sees :: "policy_env \<Rightarrow> tunnel_world \<Rightarrow> bool" where
  "sees env w \<longleftrightarrow>
     pe_waitpid env =
       (if st_pid (tw_ssh w) \<in> tw_running w then 0 else if st_pid (tw_ssh w) \<in> tw_exited w then st_pid (tw_ssh w) else -1) \<and>
     pe_fork env \<noteq> 0 \<and> (0 < pe_fork env \<longrightarrow> pe_fork env \<notin> tw_running w \<union> tw_exited w)"

text \<open>The processes there are behind a check: the one waited for is gone, the one started is there.\<close>

definition started :: "policy_env \<Rightarrow> ssh_tunnel \<Rightarrow> int set" where
  "started env ssh =
     (case reap_tunnel env (fst (pe_time env)) ssh of
        (is_running, ssh') \<Rightarrow>
          if tunnel_must_start (fst (snd (pe_time env))) (st_mark ssh > 0) is_running ssh' \<and> 0 < pe_fork env
          then {pe_fork env} else {})"

inductive tunnel_step :: "tunnel_world \<Rightarrow> tunnel_world \<Rightarrow> bool" where
  exits: "p \<in> tw_running w \<Longrightarrow>
    tunnel_step w (w\<lparr>tw_running := tw_running w - {p}, tw_exited := insert p (tw_exited w)\<rparr>)"
| marks: "tunnel_step w (w\<lparr>tw_ssh := (tw_ssh w)\<lparr>st_mark := m, st_connection_count := c\<rparr>\<rparr>)"
| checks: "sees env w \<Longrightarrow> check_ssh_tunnel env (tw_ssh w) = Inr (Parent ssh') \<Longrightarrow>
    tunnel_step w \<lparr>tw_ssh = ssh', tw_running = tw_running w \<union> started env (tw_ssh w),
      tw_exited = tw_exited w - (if 0 < st_pid (tw_ssh w) \<and> 0 < pe_waitpid env then {pe_waitpid env} else {})\<rparr>"

inductive_cases tunnel_stepE: "tunnel_step w w'"

definition one_process :: "tunnel_world \<Rightarrow> bool" where
  "one_process w \<longleftrightarrow>
     tw_running w \<union> tw_exited w = (if 0 < st_pid (tw_ssh w) then {st_pid (tw_ssh w)} else {}) \<and>
     tw_running w \<inter> tw_exited w = {}"

lemma close_pipes_frame [simp]:
  "st_pid (fst (ssh_tunnel_close_pipes a t)) = st_pid t" "st_start_time (fst (ssh_tunnel_close_pipes a t)) = st_start_time t"
  by (simp_all add: ssh_tunnel_close_pipes_def)

lemma create_pipes_pid: "create_tunnel_pipes env t = Inr t' \<Longrightarrow> st_pid t' = st_pid t"
  by (auto simp: create_tunnel_pipes_def ssh_tunnel_close_pipes_def Let_def split: option.splits prod.splits elim!: cbind_InrE)

text \<open>The process id behind a check.\<close>

lemma check_pid:
  assumes "check_ssh_tunnel env t = Inr (Parent t')" and "reap_tunnel env (fst (pe_time env)) t = (running, t1)"
  shows "st_pid t' = (if tunnel_must_start (fst (snd (pe_time env))) (st_mark t > 0) running t1 then pe_fork env else st_pid t1)"
proof -
  obtain x0 x1 x2 where tm: "pe_time env = (x0, x1, x2)" by (cases "pe_time env")
  show ?thesis
  proof (cases "tunnel_must_start x1 (st_mark t > 0) running t1")
    case True
    then obtain t2 where "create_tunnel_pipes env t1 = Inr t2"
      "(if pe_fork env > 0 then Inr (Parent (t2\<lparr>st_pid := pe_fork env, st_start_time := x2\<rparr>))
        else if st_pid (t2\<lparr>st_pid := pe_fork env\<rparr>) = 0 then tunnel_child env (t2\<lparr>st_pid := pe_fork env\<rparr>)
        else Inr (Parent (t2\<lparr>st_pid := pe_fork env\<rparr>))) = Inr (Parent t')"
      using assms by (auto simp: check_ssh_tunnel_def tm Let_def elim!: cbind_InrE)
    then show ?thesis using True
      by (auto simp: tm tunnel_child_def split: if_splits prod.splits)
  next
    case False
    with assms show ?thesis by (simp add: check_ssh_tunnel_def tm)
  qed
qed

lemma one_process_cases:
  assumes "one_process w"
  obtains (none) "st_pid (tw_ssh w) \<le> 0" "tw_running w = {}" "tw_exited w = {}"
  | (runs) "0 < st_pid (tw_ssh w)" "tw_running w = {st_pid (tw_ssh w)}" "tw_exited w = {}"
  | (over) "0 < st_pid (tw_ssh w)" "tw_running w = {}" "tw_exited w = {st_pid (tw_ssh w)}"
proof (cases "0 < st_pid (tw_ssh w)")
  case True
  then have u: "tw_running w \<union> tw_exited w = {st_pid (tw_ssh w)}" "tw_running w \<inter> tw_exited w = {}"
    using assms by (simp_all add: one_process_def)
  from u(1) consider "tw_running w = {}" "tw_exited w = {st_pid (tw_ssh w)}"
    | "tw_running w = {st_pid (tw_ssh w)}" "tw_exited w = {}"
    | "tw_running w = {st_pid (tw_ssh w)}" "tw_exited w = {st_pid (tw_ssh w)}"
    unfolding Un_singleton_iff by blast
  then show thesis
  proof cases
    case 3
    with u(2) show thesis by simp
  qed (use that(2,3) True in blast)+
next
  case False
  with assms that(1) show thesis by (auto simp: one_process_def)
qed

lemma tunnel_step_one_process: "tunnel_step w w' \<Longrightarrow> one_process w \<Longrightarrow> one_process w'"
proof (induction rule: tunnel_step.induct)
  case (checks env w ssh')
  obtain running t1 where r: "reap_tunnel env (fst (pe_time env)) (tw_ssh w) = (running, t1)" by fastforce
  note pid = check_pid [OF checks(2) r]
  from checks(3) show ?case
  proof (cases rule: one_process_cases)
    case none
    then have "\<not> running" "t1 = tw_ssh w" using r by (simp_all add: reap_tunnel_def)
    with none pid r checks(1) show ?thesis by (simp add: one_process_def started_def sees_def)
  next
    case runs
    then have "running" "st_pid t1 = st_pid (tw_ssh w)" "pe_waitpid env = 0"
      using r checks(1) by (auto simp: reap_tunnel_def sees_def split: if_splits)
    with runs pid r show ?thesis by (simp add: one_process_def started_def tunnel_must_start_def)
  next
    case over
    then have "\<not> running" "st_pid t1 = -1" "pe_waitpid env = st_pid (tw_ssh w)"
      using r checks(1) by (auto simp: reap_tunnel_def sees_def)
    with over pid r checks(1) show ?thesis by (simp add: one_process_def started_def sees_def)
  qed
qed (auto simp: one_process_def split: if_splits)

text \<open>
  C35: whatever happens to its processes, and however often it is checked and marked, a tunnel
  has at most one process at a time, and its \<open>pid\<close> is that process: no process is started
  while one runs, and none is forgotten before it has been waited for.
\<close>

theorem tunnel_one_process:
  assumes "tunnel_step\<^sup>*\<^sup>* \<lparr>tw_ssh = t, tw_running = {}, tw_exited = {}\<rparr> w" and "st_pid t = -1"
  shows "tw_running w \<union> tw_exited w = (if 0 < st_pid (tw_ssh w) then {st_pid (tw_ssh w)} else {})"
proof -
  have "one_process \<lparr>tw_ssh = t, tw_running = {}, tw_exited = {}\<rparr>" using assms(2) by (simp add: one_process_def)
  with assms(1) have "one_process w" by (induction rule: rtranclp_induct) (auto intro: tunnel_step_one_process)
  then show ?thesis by (simp add: one_process_def)
qed

definition demo_policy_env :: "int \<Rightarrow> policy_env" where
  "demo_policy_env pid =
     \<lparr>pe_again = False, pe_time = (100, 100, 100), pe_waitpid = -1, pe_pipes = Some ((3, 4), (5, 6), (7, 8)),
      pe_fcntl_out = (0, 0), pe_fcntl_err = (0, 0), pe_fork = pid, pe_dup2 = (0, 1, 2), pe_exec_ok = True\<rparr>"

text \<open>A world in which nothing goes wrong with the system calls, seen by the parent.\<close>

definition calls_succeed :: "policy_env \<Rightarrow> bool" where
  "calls_succeed env \<longleftrightarrow>
     pe_pipes env \<noteq> None \<and> 0 \<le> fst (pe_fcntl_out env) \<and> 0 \<le> snd (pe_fcntl_out env) \<and>
     0 \<le> fst (pe_fcntl_err env) \<and> 0 \<le> snd (pe_fcntl_err env) \<and> 0 < pe_fork env"

lemma calls_succeed_demo [simp]: "0 < pid \<Longrightarrow> calls_succeed (demo_policy_env pid)"
  by (simp add: calls_succeed_def demo_policy_env_def)

lemma create_pipes_succeed:
  assumes "calls_succeed env"
  shows "\<exists>t'. create_tunnel_pipes env t = Inr t' \<and> st_id t' = st_id t \<and> st_name t' = st_name t"
proof -
  obtain i0 i1 o0 o1 e0 e1 where "pe_pipes env = Some ((i0, i1), (o0, o1), (e0, e1))"
    using assms by (auto simp: calls_succeed_def)
  then show ?thesis
    using assms by (simp add: create_tunnel_pipes_def calls_succeed_def ssh_tunnel_close_pipes_def ssh_tunnel_set_nonblocking_def)
qed

lemma reap_frame:
  "reap_tunnel env t0 t = (running, t') \<Longrightarrow> st_id t' = st_id t \<and> st_start_time t' = st_start_time t"
  by (auto simp: reap_tunnel_def ssh_tunnel_close_pipes_def split: if_splits)

lemma check_succeeds:
  assumes "calls_succeed env"
  shows "\<exists>t'. check_ssh_tunnel env t = Inr (Parent t') \<and> st_id t' = st_id t"
proof -
  obtain x0 x1 x2 where tm: "pe_time env = (x0, x1, x2)" by (cases "pe_time env")
  obtain running t1 where r: "reap_tunnel env x0 t = (running, t1)" by fastforce
  obtain t2 where "create_tunnel_pipes env t1 = Inr t2" "st_id t2 = st_id t1"
    using create_pipes_succeed [OF assms] by blast
  with assms reap_frame [OF r] show ?thesis
    by (simp add: check_ssh_tunnel_def tm r calls_succeed_def)
qed

definition not_running :: "policy_env \<Rightarrow> ssh_tunnel \<Rightarrow> bool" where
  "not_running env t \<longleftrightarrow> st_pid t \<le> 0 \<or> pe_waitpid env \<noteq> 0"

lemma check_starts:
  assumes "calls_succeed env" and "0 < st_mark t" and "not_running env t"
    and "2 \<le> fst (snd (pe_time env)) - st_start_time t" and "check_ssh_tunnel env t = Inr (Parent t')"
  shows "st_pid t' = pe_fork env"
proof -
  obtain running t1 where r: "reap_tunnel env (fst (pe_time env)) t = (running, t1)" by fastforce
  then have "\<not> running" using assms(3) by (auto simp: reap_tunnel_def not_running_def split: if_splits)
  with assms reap_frame [OF r] have "tunnel_must_start (fst (snd (pe_time env))) (st_mark t > 0) running t1"
    by (simp add: tunnel_must_start_def)
  with check_pid [OF assms(5) r] show ?thesis by simp
qed

lemma sweep_succeeds:
  assumes "\<forall>t \<in> set ts. calls_succeed (env (st_id t))"
  shows "\<exists>ts'. sweep_tunnels env g ts = Inr (Inr ts') \<and>
    (\<forall>t \<in> set ts. st_id t \<notin> {ssh_tunnel_direct g, ssh_tunnel_null g} \<longrightarrow>
       (\<exists>t' \<in> set ts'. st_id t' = st_id t \<and> check_ssh_tunnel (env (st_id t)) t = Inr (Parent t')))"
  using assms
proof (induction ts)
  case (Cons t ts)
  then obtain ts' where ih: "sweep_tunnels env g ts = Inr (Inr ts')"
    "\<forall>t \<in> set ts. st_id t \<notin> {ssh_tunnel_direct g, ssh_tunnel_null g} \<longrightarrow>
       (\<exists>t' \<in> set ts'. st_id t' = st_id t \<and> check_ssh_tunnel (env (st_id t)) t = Inr (Parent t'))" by auto
  show ?case
  proof (cases "st_id t = ssh_tunnel_direct g \<or> st_id t = ssh_tunnel_null g")
    case True
    with ih show ?thesis by auto
  next
    case False
    obtain t' where t': "check_ssh_tunnel (env (st_id t)) t = Inr (Parent t')" "st_id t' = st_id t"
      using check_succeeds Cons.prems by (meson list.set_intros(1))
    have "sweep_tunnels env g (t # ts) = Inr (Inr (t' # ts'))" using False t' ih(1) by simp
    with ih(2) t' show ?thesis by (metis list.set_intros set_ConsD)
  qed
qed simp

lemma mark_tunnels_mem:
  assumes "t \<in> set ts" and "con \<in> set (pi_client_connection_list p)" and "p \<in> set proxies"
    and "0 < mark_weight (st_id t) con"
  shows "\<exists>t' \<in> set (mark_tunnels proxies ts). st_id t' = st_id t \<and> st_pid t' = st_pid t \<and>
    st_start_time t' = st_start_time t \<and> 0 < st_mark t'"
proof -
  let ?cons = "concat (map pi_client_connection_list proxies)"
  have "mark_weight (st_id t) con \<le> sum_list (map (mark_weight (st_id t)) ?cons)"
    using assms(2,3) by (intro member_le_sum_list) auto
  with assms(1,4) show ?thesis
    unfolding mark_tunnels_def fold_mark_proxies fold_mark_connection add_marks_def clear_marks_def by force
qed

text \<open>
  C36: a tunnel that is needed comes up: when a connection has a route via a tunnel and no
  tunnel yet, the next check of the tunnels starts a process for it, unless one runs already
  or one was started less than two seconds ago (and the system calls succeed; the tunnels
  \<open>direct\<close> and \<open>null\<close> need none).
\<close>

theorem needed_tunnel_starts:
  assumes "t \<in> set ts" and "p \<in> set proxies" and "con \<in> set (pi_client_connection_list p)"
    and "cc_route con = Some route" and "cc_tunnel con = None" and "st_id t \<in> set (rr_tunnel route)"
    and "st_id t \<notin> {ssh_tunnel_direct g, ssh_tunnel_null g}" and "\<forall>t \<in> set ts. calls_succeed (env (st_id t))"
    and "not_running (env (st_id t)) t" and "2 \<le> fst (snd (pe_time (env (st_id t)))) - st_start_time t"
  shows "\<exists>ts'. check_ssh_tunnels env g proxies ts = Inr (Inr ts') \<and>
    (\<exists>t' \<in> set ts'. st_id t' = st_id t \<and> st_pid t' = pe_fork (env (st_id t)))"
proof -
  have "0 < mark_weight (st_id t) con"
    using assms(4-6) count_list_0_iff [of "rr_tunnel route" "st_id t"] by (simp add: mark_weight_def)
  from mark_tunnels_mem [OF assms(1,3,2) this] obtain tm where tm: "tm \<in> set (mark_tunnels proxies ts)"
    "st_id tm = st_id t" "st_pid tm = st_pid t" "st_start_time tm = st_start_time t" "0 < st_mark tm" by blast
  have "st_id ` set (mark_tunnels proxies ts) = st_id ` set ts"
    unfolding mark_tunnels_def fold_mark_proxies fold_mark_connection add_marks_def clear_marks_def by (simp add: image_image)
  then have "\<forall>t \<in> set (mark_tunnels proxies ts). calls_succeed (env (st_id t))" using assms(8) by (metis image_iff)
  from sweep_succeeds [OF this, of g] obtain ts' where ts': "sweep_tunnels env g (mark_tunnels proxies ts) = Inr (Inr ts')"
    "\<forall>t \<in> set (mark_tunnels proxies ts). st_id t \<notin> {ssh_tunnel_direct g, ssh_tunnel_null g} \<longrightarrow>
       (\<exists>t' \<in> set ts'. st_id t' = st_id t \<and> check_ssh_tunnel (env (st_id t)) t = Inr (Parent t'))" by blast
  then obtain t' where t': "t' \<in> set ts'" "st_id t' = st_id t" "check_ssh_tunnel (env (st_id t)) tm = Inr (Parent t')"
    using tm(1,2) assms(7) by metis
  have "st_pid t' = pe_fork (env (st_id t))"
    using check_starts [OF _ tm(5) _ _ t'(3)] assms(1,8-10) tm(3,4) by (simp add: not_running_def)
  with ts'(1) t' show ?thesis unfolding check_ssh_tunnels_def by blast
qed

theorem needed_tunnel_starts_witness:
  "let t = zero_tunnel\<lparr>st_id := 4\<rparr>;
       con = blank_connection\<lparr>cc_route := Some ((fst (new_route_rule 0))\<lparr>rr_tunnel := [4]\<rparr>)\<rparr>;
       p = (new_proxy_instance (st_log t))\<lparr>pi_client_connection_list := [con]\<rparr>
   in \<exists>ts'. check_ssh_tunnels (\<lambda>_. demo_policy_env 77) \<lparr>ssh_id_pool = 4, ssh_tunnel_direct = 1, ssh_tunnel_socks_proxy = 2,
        ssh_tunnel_null = 3\<rparr> [p] [t] = Inr (Inr ts') \<and> (\<exists>t' \<in> set ts'. st_id t' = 4 \<and> st_pid t' = 77)"
proof -
  let ?t = "zero_tunnel\<lparr>st_id := 4\<rparr>"
  let ?route = "(fst (new_route_rule 0))\<lparr>rr_tunnel := [4]\<rparr>"
  let ?con = "blank_connection\<lparr>cc_route := Some ?route\<rparr>"
  let ?p = "(new_proxy_instance (st_log ?t))\<lparr>pi_client_connection_list := [?con]\<rparr>"
  let ?g = "\<lparr>ssh_id_pool = 4, ssh_tunnel_direct = 1, ssh_tunnel_socks_proxy = 2, ssh_tunnel_null = 3\<rparr>"
  have "?t \<in> set [?t]" "?p \<in> set [?p]" "?con \<in> set (pi_client_connection_list ?p)" "cc_route ?con = Some ?route"
    "cc_tunnel ?con = None" "st_id ?t \<in> set (rr_tunnel ?route)" "st_id ?t \<notin> {ssh_tunnel_direct ?g, ssh_tunnel_null ?g}"
    "\<forall>t \<in> set [?t]. calls_succeed ((\<lambda>_. demo_policy_env 77) (st_id t))" "not_running ((\<lambda>_. demo_policy_env 77) (st_id ?t)) ?t"
    "2 \<le> fst (snd (pe_time ((\<lambda>_. demo_policy_env 77) (st_id ?t)))) - st_start_time ?t"
    by (simp_all add: blank_connection_def Let_def not_running_def zero_tunnel_def demo_policy_env_def calls_succeed_def)
  from needed_tunnel_starts [OF this] show ?thesis by (simp add: Let_def demo_policy_env_def zero_tunnel_def)
qed

theorem tunnel_one_process_witness:
  "\<exists>w. tunnel_step\<^sup>*\<^sup>* \<lparr>tw_ssh = zero_tunnel\<lparr>st_pid := -1, st_mark := 1\<rparr>, tw_running = {}, tw_exited = {}\<rparr> w \<and>
     77 \<in> tw_running w \<and> tw_running w \<union> tw_exited w = {77}"
proof -
  let ?t = "zero_tunnel\<lparr>st_pid := -1, st_mark := 1\<rparr>"
  let ?w = "\<lparr>tw_ssh = ?t, tw_running = {}, tw_exited = {}\<rparr>"
  let ?env = "demo_policy_env 77"
  obtain t' where t': "check_ssh_tunnel ?env ?t = Inr (Parent t')" using check_succeeds [of ?env ?t] by auto
  have pid: "st_pid t' = 77"
    using check_starts [OF _ _ _ _ t'] by (simp add: not_running_def demo_policy_env_def calls_succeed_def zero_tunnel_def)
  have "sees ?env ?w" by (simp add: sees_def demo_policy_env_def)
  moreover have "started ?env ?t = {77}"
    by (simp add: started_def reap_tunnel_def tunnel_must_start_def demo_policy_env_def zero_tunnel_def)
  ultimately have s: "tunnel_step ?w \<lparr>tw_ssh = t', tw_running = {77}, tw_exited = {}\<rparr>"
    using tunnel_step.checks [of ?env ?w t'] t' by simp
  then have run: "tunnel_step\<^sup>*\<^sup>* ?w \<lparr>tw_ssh = t', tw_running = {77}, tw_exited = {}\<rparr>" by (rule r_into_rtranclp)
  let ?w' = "\<lparr>tw_ssh = t', tw_running = {77}, tw_exited = {}\<rparr>"
  have "tw_running ?w' \<union> tw_exited ?w' = (if 0 < st_pid (tw_ssh ?w') then {st_pid (tw_ssh ?w')} else {})"
    by (rule tunnel_one_process [OF run]) (simp add: zero_tunnel_def)
  then have "77 \<in> tw_running ?w' \<and> tw_running ?w' \<union> tw_exited ?w' = {77}" using pid by simp
  with run show ?thesis by blast
qed

end
