(* ===== verification/Dns_Util.thy ===== *)
theory Dns_Util
  imports Host_Id
begin

text \<open>
  \<open>src/dns_util.c\<close>. The resolver \<open>getaddrinfo\<close> is a parameter: for a name, the list of the
  answers it gives to successive calls, each a temporary failure (\<open>EAI_AGAIN\<close>), another
  failure, or the list of addresses found, in the numeric text form \<open>getnameinfo\<close> gives
  them. \<open>stack_sin_addr\<close> is what the uninitialised \<open>sin.sin_addr\<close> on the stack holds: the
  code ignores the result of \<open>inet_pton\<close>, so an answer that is not an IPv4 address leaves
  that value in place.
\<close>

datatype gai_answer = Gai_again | Gai_error | Gai_addrs "string list"

record dns_env =
  getaddrinfo :: "string \<Rightarrow> gai_answer list"
  stack_sin_addr :: u32

fun gai_retry :: "gai_answer list \<Rightarrow> gai_answer cres" where
  "gai_retry [] = Inl Hang"
| "gai_retry (Gai_again # r) = gai_retry r"
| "gai_retry (a # r) = Inr a"

definition resolve_dns_for_host_id :: "dns_env \<Rightarrow> host_id \<Rightarrow> (int \<times> host_id) cres" where
  "resolve_dns_for_host_id env h =
     (if \<not> host_id_has_name h then Inr (0, h)
      else cbind (gai_retry (getaddrinfo env (host_id_get_name h))) (\<lambda>answer.
        case answer of
          Gai_addrs (hostname # _) \<Rightarrow>
            Inr (1, host_id_set_addr_in h
                      \<lparr>sin_port = htons (host_id_get_port h),
                       sin_addr = (case inet_pton4 hostname of
                                     Some a \<Rightarrow> a | None \<Rightarrow> stack_sin_addr env)\<rparr>)
        | Gai_addrs [] \<Rightarrow> Inl UB
        | _ \<Rightarrow> Inr (0, h)))"

section \<open>The resolver's answers\<close>

text \<open>
  What the code relies on: for each name the resolver answers in the end, and a success
  comes with at least one address (as \<open>getaddrinfo\<close> documents).
\<close>

definition answers_ok :: "gai_answer list \<Rightarrow> bool" where
  "answers_ok as \<longleftrightarrow> (\<exists>a. gai_retry as = Inr a \<and> a \<noteq> Gai_addrs [])"

definition resolver_ok :: "dns_env \<Rightarrow> bool" where
  "resolver_ok env \<longleftrightarrow> (\<forall>n. answers_ok (getaddrinfo env n))"

lemma gai_retry_not_again: "gai_retry as = Inr a \<Longrightarrow> a \<noteq> Gai_again"
  by (induction as rule: gai_retry.induct) auto

lemma resolve_dns_defined:
  assumes "resolver_ok env"
  shows "\<exists>rc h'. resolve_dns_for_host_id env h = Inr (rc, h')"
proof -
  obtain a where "gai_retry (getaddrinfo env (host_id_get_name h)) = Inr a" "a \<noteq> Gai_addrs []"
    using assms by (auto simp: resolver_ok_def answers_ok_def)
  then show ?thesis
    by (auto simp: resolve_dns_for_host_id_def split: gai_answer.splits list.splits)
qed

text \<open>Whatever the resolver does, the identity is unchanged or gets some IPv4 address.\<close>

lemma resolve_dns_cases:
  assumes "resolve_dns_for_host_id env h = Inr (rc, h')"
  shows "(rc = 0 \<and> h' = h) \<or>
         (rc = 1 \<and> (\<exists>a. h' = host_id_set_addr_in h \<lparr>sin_port = htons (hid_port h), sin_addr = a\<rparr>))"
proof (cases "host_id_has_name h")
  case True
  with assms obtain a where a: "gai_retry (getaddrinfo env (host_id_get_name h)) = Inr a"
    by (auto simp: resolve_dns_for_host_id_def)
  show ?thesis
  proof (cases a)
    case (Gai_addrs ts)
    with a assms True show ?thesis
      by (cases ts) (auto simp: resolve_dns_for_host_id_def host_id_get_port_def)
  qed (use a assms True in \<open>auto simp: resolve_dns_for_host_id_def\<close>)
next
  case False
  with assms show ?thesis by (simp add: resolve_dns_for_host_id_def)
qed

lemma resolve_dns_keeps:
  assumes "resolve_dns_for_host_id env h = Inr (rc, h')" and "host_id_ok h"
  shows "hid_name h' = hid_name h \<and> host_id_ok h' \<and> hid_port h' mod 65536 = hid_port h mod 65536
         \<and> (host_id_has_addr h \<longrightarrow> host_id_has_addr h')"
  using resolve_dns_cases [OF assms(1)] assms(2)
  by (auto simp: host_id_has_addr_def intro: host_id_ok_set_addr_in)

lemma resolve_dns_no_name: "hid_name h = [] \<Longrightarrow> resolve_dns_for_host_id env h = Inr (0, h)"
  by (simp add: resolve_dns_for_host_id_def host_id_has_name_def)

lemma resolve_dns_first:
  assumes "hid_name h \<noteq> []"
    and "gai_retry (getaddrinfo env (hid_name h)) = Inr (Gai_addrs (t # ts))"
  shows "resolve_dns_for_host_id env h =
           Inr (1, host_id_set_addr_in h
                     \<lparr>sin_port = htons (hid_port h),
                      sin_addr = (case inet_pton4 t of Some a \<Rightarrow> a | None \<Rightarrow> stack_sin_addr env)\<rparr>)"
  using assms
  by (simp add: resolve_dns_for_host_id_def host_id_has_name_def host_id_get_name_def host_id_get_port_def)

section \<open>The resolver as an interface\<close>

text \<open>
  What the rules engine and the direct connector rely on: in a working environment a lookup
  returns, keeps the name and keeps the identity well-formed.
\<close>

locale resolver =
  fixes resolve :: "'e \<Rightarrow> host_id \<Rightarrow> (int \<times> host_id) cres" and env_ok :: "'e \<Rightarrow> bool"
  assumes resolve_defined: "env_ok env \<Longrightarrow> \<exists>rc h'. resolve env h = Inr (rc, h')"
    and resolve_keeps_ok: "resolve env h = Inr (rc, h') \<Longrightarrow> host_id_ok h \<Longrightarrow> host_id_ok h'"
    and resolve_keeps_name: "resolve env h = Inr (rc, h') \<Longrightarrow> hid_name h' = hid_name h"
begin

lemma resolveE:
  assumes "env_ok env" and "host_id_ok h"
  obtains rc h' where "resolve env h = Inr (rc, h')" "host_id_ok h'" "hid_name h' = hid_name h"
  using resolve_defined [OF assms(1), of h] resolve_keeps_ok resolve_keeps_name assms(2) by blast

end

interpretation dns: resolver resolve_dns_for_host_id resolver_ok
proof
  show "\<exists>rc h'. resolve_dns_for_host_id env h = Inr (rc, h')" if "resolver_ok env" for env h
    using that by (rule resolve_dns_defined)
  show "host_id_ok h'" if "resolve_dns_for_host_id env h = Inr (rc, h')" "host_id_ok h" for env h rc h'
    using resolve_dns_keeps [OF that] by simp
  show "hid_name h' = hid_name h" if "resolve_dns_for_host_id env h = Inr (rc, h')" for env h rc h'
    using resolve_dns_cases [OF that] by auto
qed

text \<open>
  A lookup whose first answer is an IPv4 address, after any number of temporary
  failures, reports success and gives the identity exactly that address, keeping its name
  and its well-formedness and the low 16 bits of the port; a lookup that fails reports
  failure and leaves the identity unchanged.
\<close>

theorem resolve_dns_correct:
  assumes "host_id_ok h" and "hid_name h \<noteq> []"
    and "getaddrinfo env (hid_name h) = replicate n Gai_again @ a # rest"
    and "a = Gai_error \<or> a = Gai_addrs (inet_ntop4 w # others)"
  shows "if a = Gai_error then resolve_dns_for_host_id env h = Inr (0, h)
         else \<exists>h'. resolve_dns_for_host_id env h = Inr (1, h') \<and> host_id_ok h' \<and>
                hid_name h' = hid_name h \<and> hid_port h' = hid_port h mod 65536 \<and>
                hid_addr h' = AF_INET \<lparr>sin_port = htons (hid_port h), sin_addr = w\<rparr>"
proof -
  have retry: "gai_retry (getaddrinfo env (hid_name h)) = Inr a"
    using assms(4) unfolding assms(3) by (induction n) auto
  show ?thesis
  proof (cases "a = Gai_error")
    case True
    with retry assms(2) show ?thesis
      by (simp add: resolve_dns_for_host_id_def host_id_has_name_def host_id_get_name_def)
  next
    case False
    then have "a = Gai_addrs (inet_ntop4 w # others)" using assms(4) by simp
    with retry assms(1,2) False show ?thesis
      by (auto simp: resolve_dns_first intro!: host_id_ok_set_addr_in)
  qed
qed

theorem resolve_dns_correct_witness:
  "let h = \<lparr>hid_name = ''db'', hid_addr = AF_UNSPEC, hid_port = 80\<rparr>;
       env = \<lparr>getaddrinfo = (\<lambda>_. [Gai_again, Gai_addrs [inet_ntop4 7]]), stack_sin_addr = 0\<rparr>
   in resolver_ok env \<and>
      (\<exists>h'. resolve_dns_for_host_id env h = Inr (1, h') \<and>
            hid_addr h' = AF_INET \<lparr>sin_port = htons 80, sin_addr = 7\<rparr>)"
proof -
  let ?h = "\<lparr>hid_name = ''db'', hid_addr = AF_UNSPEC, hid_port = 80\<rparr>"
  let ?env = "\<lparr>getaddrinfo = (\<lambda>_. [Gai_again, Gai_addrs [inet_ntop4 7]]), stack_sin_addr = 0\<rparr>"
  have ok: "host_id_ok ?h" by (simp add: host_id_ok_def addr_port_def MAX_DNS_def addr_wf_def)
  have r: "resolver_ok ?env" by (simp add: resolver_ok_def answers_ok_def)
  have "getaddrinfo ?env (hid_name ?h) = replicate 1 Gai_again @ Gai_addrs (inet_ntop4 7 # []) # []"
    by simp
  from resolve_dns_correct [OF ok _ this] r show ?thesis by (auto simp: Let_def)
qed

end
