(* ===== verification/Net.thy ===== *)
theory Net
  imports Dns_Util
begin

text \<open>
  The operating system as the connection threads see it. What the peers, the kernel and the
  clock do is given by scripts, the outcomes of the successive system calls, so that a theorem
  for all scripts is a theorem for all behaviours; a script that has run out stands for a
  call that blocks for ever. What the program does to the outside (bytes sent, sockets
  closed, addresses connected to, wake-up bytes to the main thread, sleeps) is recorded.
  Error numbers are those of the BSD system the program is written for.
\<close>

abbreviation EINTR :: int where "EINTR \<equiv> 4"

abbreviation ECONNRESET :: int where "ECONNRESET \<equiv> 54"

abbreviation ECONNREFUSED :: int where "ECONNREFUSED \<equiv> 61"

section \<open>Scripts and sockets\<close>

text \<open>
  \<open>read\<close>: data that has arrived (a call takes as much of it as it asked for), the end of the
  stream, or a failure with its error number. \<open>write\<close>: how many bytes the kernel has room for
  next, or a failure.
\<close>

datatype rd_event = Rd_data "byte list" | Rd_eof | Rd_fail int

datatype wr_event = Wr_take nat | Wr_fail int

record sock =
  sk_rx :: "rd_event list"
  sk_wr :: "wr_event list"
  sk_sent :: "byte list"
  sk_open :: bool

datatype conn_event = Conn_ok sock | Conn_fail int

datatype dial = No_socket int | New_socket int "conn_event list"

record revents =
  ev_rdnorm :: bool
  ev_hup :: bool
  ev_bad :: bool

datatype poll_event = Poll_fail int | Poll_ok revents revents

record world =
  w_sock :: "int \<Rightarrow> sock"
  w_dials :: "dial list"
  w_polls :: "poll_event list"
  w_errno :: int
  w_dns :: dns_env
  w_now :: int
  w_strerror :: "int \<Rightarrow> string"
  w_dialed :: "(int \<times> sockaddr_in) list"
  w_msgs :: nat
  w_sleeps :: nat

abbreviation upd_sock :: "world \<Rightarrow> int \<Rightarrow> sock \<Rightarrow> world" where
  "upd_sock w fd s \<equiv> w\<lparr>w_sock := (w_sock w)(fd := s)\<rparr>"

section \<open>System calls\<close>

text \<open>
  \<open>read (fd, buf, n)\<close> on the script of a socket and \<open>errno\<close>: the return value, the bytes
  stored, the rest of the script and \<open>errno\<close>. The end of the stream stays the end.
\<close>

fun sys_read :: "nat \<Rightarrow> rd_event list \<times> int \<Rightarrow> (int \<times> byte list \<times> rd_event list \<times> int) cres" where
  "sys_read n ([], en) = (if n = 0 then Inr (0, [], [], en) else Inl Hang)"
| "sys_read n (Rd_data bs # es, en) =
     (if n = 0 then Inr (0, [], Rd_data bs # es, en)
      else if bs = [] then sys_read n (es, en)
      else Inr (int (min n (length bs)), take n bs,
                if length bs \<le> n then es else Rd_data (drop n bs) # es, en))"
| "sys_read n (Rd_eof # es, en) = Inr (0, [], Rd_eof # es, en)"
| "sys_read n (Rd_fail e # es, en) =
     (if n = 0 then Inr (0, [], Rd_fail e # es, en) else Inr (-1, [], es, e))"

text \<open>\<open>write (fd, buf, n)\<close>: the return value, the bytes taken, the rest of the script and \<open>errno\<close>.\<close>

fun sys_write :: "byte list \<Rightarrow> wr_event list \<times> int \<Rightarrow> (int \<times> byte list \<times> wr_event list \<times> int) cres" where
  "sys_write buf ([], en) = (if buf = [] then Inr (0, [], [], en) else Inl Hang)"
| "sys_write buf (Wr_take k # es, en) =
     Inr (int (min k (length buf)), take k buf,
          if k \<le> length buf then es else Wr_take (k - length buf) # es, en)"
| "sys_write buf (Wr_fail e # es, en) = Inr (-1, [], es, e)"

definition sys_close :: "world \<Rightarrow> int \<Rightarrow> world" where
  "sys_close w fd = upd_sock w fd ((w_sock w fd)\<lparr>sk_open := False\<rparr>)"

text \<open>After \<open>shutdown (fd, SHUT_RDWR)\<close> a read meets the end of the stream behind what has arrived.\<close>

definition sys_shutdown :: "world \<Rightarrow> int \<Rightarrow> world" where
  "sys_shutdown w fd = upd_sock w fd ((w_sock w fd)\<lparr>sk_rx := sk_rx (w_sock w fd) @ [Rd_eof]\<rparr>)"

text \<open>\<open>connect\<close>, called again while it is interrupted.\<close>

fun sys_connect :: "conn_event list \<Rightarrow> (int + sock) cres" where
  "sys_connect [] = Inl Hang"
| "sys_connect (Conn_ok s # es) = Inr (Inr s)"
| "sys_connect (Conn_fail e # es) = (if e = EINTR then sys_connect es else Inr (Inl e))"

section \<open>What a script delivers\<close>

datatype rx_end = End_block | End_eof | End_fail int

fun rx_stream :: "rd_event list \<Rightarrow> byte list" where
  "rx_stream [] = []"
| "rx_stream (Rd_data bs # es) = bs @ rx_stream es"
| "rx_stream (Rd_eof # es) = []"
| "rx_stream (Rd_fail e # es) = (if e = EINTR then rx_stream es else [])"

fun rx_end_of :: "rd_event list \<Rightarrow> rx_end" where
  "rx_end_of [] = End_block"
| "rx_end_of (Rd_data bs # es) = rx_end_of es"
| "rx_end_of (Rd_eof # es) = End_eof"
| "rx_end_of (Rd_fail e # es) = (if e = EINTR then rx_end_of es else End_fail e)"

text \<open>How many bytes a write script takes before it fails for good or runs out.\<close>

fun wr_end_of :: "wr_event list \<Rightarrow> rx_end" where
  "wr_end_of [] = End_block"
| "wr_end_of (Wr_take k # es) = wr_end_of es"
| "wr_end_of (Wr_fail e # es) = (if e = EINTR then wr_end_of es else End_fail e)"

fun wr_room :: "wr_event list \<Rightarrow> nat" where
  "wr_room [] = 0"
| "wr_room (Wr_take k # es) = k + wr_room es"
| "wr_room (Wr_fail e # es) = (if e = EINTR then wr_room es else 0)"

lemma sys_read_length:
  "sys_read n (es, en) = Inr (rc, d, es', en') \<Longrightarrow>
     length es' \<le> length es \<and> (rc < 0 \<longrightarrow> length es' < length es) \<and> (0 \<le> rc \<longrightarrow> rc = int (length d))
     \<and> length d \<le> n \<and> (rc < 0 \<longrightarrow> rc = -1 \<and> d = [])"
proof (induction n "(es, en)" arbitrary: es rule: sys_read.induct)
  case (2 n bs es)
  then show ?case by (auto split: if_splits)
qed (auto split: if_splits)

lemma take_min_length: "take (min (length xs) k) xs = take k xs"
  by (simp add: min_def)

lemma sys_write_length:
  "sys_write buf (es, en) = Inr (rc, d, es', en') \<Longrightarrow>
     length es' \<le> length es \<and> (drop (length d) buf \<noteq> [] \<or> rc < 0 \<longrightarrow> length es' < length es) \<and>
     (0 \<le> rc \<longrightarrow> rc = int (length d)) \<and> d = take (length d) buf \<and> (rc < 0 \<longrightarrow> rc = -1 \<and> d = [])"
  by (induction buf "(es, en)" rule: sys_write.induct) (auto simp: take_min_length split: if_splits)

text \<open>One read, by what the script delivers.\<close>

lemma sys_read_stream:
  "sys_read n (es, en) = Inr (rc, d, es', en') \<Longrightarrow> 0 < n \<Longrightarrow>
     (if 0 < rc then rx_stream es = d @ rx_stream es' \<and> rx_end_of es' = rx_end_of es
      else if rc = 0 then rx_stream es = [] \<and> rx_end_of es = End_eof \<and> rx_stream es' = [] \<and> rx_end_of es' = End_eof
      else if en' = EINTR then rx_stream es' = rx_stream es \<and> rx_end_of es' = rx_end_of es
      else rx_stream es = [] \<and> rx_end_of es = End_fail en')"
proof (induction n "(es, en)" arbitrary: es rule: sys_read.induct)
  case (2 n bs es)
  then show ?case by (cases "bs = []") (auto split: if_splits)
qed (auto split: if_splits)

lemma sys_read_blocks: "0 < n \<Longrightarrow> sys_read n (es, en) = Inl f \<Longrightarrow> f = Hang \<and> rx_stream es = [] \<and> rx_end_of es = End_block"
proof (induction n "(es, en)" arbitrary: es rule: sys_read.induct)
  case (2 n bs es)
  then show ?case by (auto split: if_splits)
qed (auto split: if_splits)

lemma sys_read_zero: "sys_read 0 (es, en) = Inr (0, [], es, en)"
  by (cases es; cases "hd es") auto

text \<open>One write.\<close>

lemma sys_write_room:
  "sys_write buf (es, en) = Inr (rc, d, es', en') \<Longrightarrow> buf \<noteq> [] \<Longrightarrow>
     (if 0 \<le> rc then wr_room es = length d + wr_room es' \<and> wr_end_of es' = wr_end_of es
      else if en' = EINTR then wr_room es' = wr_room es \<and> wr_end_of es' = wr_end_of es
      else wr_room es = 0 \<and> wr_end_of es = End_fail en')"
  by (induction buf "(es, en)" rule: sys_write.induct) (auto split: if_splits)

lemma sys_write_blocks:
  "sys_write buf (es, en) = Inl f \<Longrightarrow> f = Hang \<and> wr_room es = 0 \<and> wr_end_of es = End_block \<and> buf \<noteq> []"
  by (induction buf "(es, en)" rule: sys_write.induct) (auto split: if_splits)

section \<open>A quiet world\<close>

definition quiet_sock :: sock where
  "quiet_sock = \<lparr>sk_rx = [], sk_wr = [], sk_sent = [], sk_open = True\<rparr>"

definition quiet_world :: world where
  "quiet_world =
     \<lparr>w_sock = (\<lambda>_. quiet_sock), w_dials = [], w_polls = [], w_errno = 0,
      w_dns = \<lparr>getaddrinfo = (\<lambda>_. [Gai_error]), stack_sin_addr = 0\<rparr>,
      w_now = 1000, w_strerror = (\<lambda>_. ''error''), w_dialed = [], w_msgs = 0, w_sleeps = 0\<rparr>"

end
