(* ===== verification/Connection_List.thy ===== *)
theory Connection_List
  imports Client_Connection Net
begin

text \<open>
  The list of client connections of \<open>src/client_connection.c\<close> and its sweep in
  \<open>src/server.c\<close>, on an explicit heap: a doubly linked list that the main thread inserts into
  at the head and removes from anywhere while it walks it. A node is reached by its address;
  following a pointer to a node that has been freed, or that never was, is undefined.
\<close>

type_synonym addr = nat

record conn_node =
  nd_prev :: "addr option"
  nd_next :: "addr option"
  nd_con :: client_connection

type_synonym conn_heap = "addr \<Rightarrow> conn_node option"

definition deref :: "conn_heap \<Rightarrow> addr \<Rightarrow> conn_node cres" where
  "deref h a = (case h a of None \<Rightarrow> Inl UB | Some n \<Rightarrow> Inr n)"

definition set_prev :: "addr \<Rightarrow> addr option \<Rightarrow> conn_heap \<Rightarrow> conn_heap cres" where
  "set_prev a p h = cmap (\<lambda>n. h(a \<mapsto> n\<lparr>nd_prev := p\<rparr>)) (deref h a)"

definition set_next :: "addr \<Rightarrow> addr option \<Rightarrow> conn_heap \<Rightarrow> conn_heap cres" where
  "set_next a q h = cmap (\<lambda>n. h(a \<mapsto> n\<lparr>nd_next := q\<rparr>)) (deref h a)"

section \<open>The operations\<close>

definition insert_client_connection :: "conn_heap \<Rightarrow> addr option \<Rightarrow> addr \<Rightarrow> (conn_heap \<times> addr) cres" where
  "insert_client_connection h head con =
     cbind (set_next con head h) (\<lambda>h.
     cbind (set_prev con None h) (\<lambda>h.
     cbind (case head of None \<Rightarrow> Inr h | Some x \<Rightarrow> set_prev x (Some con) h) (\<lambda>h.
     Inr (h, con))))"

definition remove_client_connection :: "conn_heap \<Rightarrow> addr \<Rightarrow> conn_heap cres" where
  "remove_client_connection h con =
     cbind (deref h con) (\<lambda>n.
     cbind (case nd_next n of None \<Rightarrow> Inr h | Some x \<Rightarrow> set_prev x (nd_prev n) h) (\<lambda>h.
     cbind (case nd_prev n of None \<Rightarrow> Inr h | Some x \<Rightarrow> set_next x (nd_next n) h) (\<lambda>h.
     cbind (set_next con None h) (set_prev con None))))"

text \<open>
  The outcomes of the successive \<open>close\<close> calls, with \<open>errno\<close>, which a call that succeeds leaves
  alone. The first loop of \<open>free_client_connection\<close> calls again while it is interrupted; its
  result is whether the last call failed (what is left in \<open>rc\<close>), and the descriptors in the
  order of the calls.
\<close>

datatype close_event = Close_ok | Close_fail int

type_synonym close_script = "close_event list \<times> int"

fun close_retry :: "int \<Rightarrow> close_script \<Rightarrow> (bool \<times> int list \<times> close_script) cres" where
  "close_retry fd ([], en) = Inl Hang"
| "close_retry fd (Close_ok # es, en) = Inr (False, [fd], es, en)"
| "close_retry fd (Close_fail e # es, en) =
     (if e = EINTR then cmap (\<lambda>(failed, fds, s). (failed, fd # fds, s)) (close_retry fd (es, e))
      else Inr (True, [fd], es, e))"

text \<open>
  The second loop calls \<open>close\<close> without storing what it returns, and tests the \<open>rc\<close> of the first
  loop: \<open>None\<close> when there was no first loop, and then the test reads a variable that was never
  set.
\<close>

fun close_untested :: "bool option \<Rightarrow> int \<Rightarrow> close_script \<Rightarrow> (int list \<times> close_script) cres" where
  "close_untested rc fd ([], en) = Inl Hang"
| "close_untested rc fd (c # es, en) =
     (let en = (case c of Close_ok \<Rightarrow> en | Close_fail e \<Rightarrow> e)
      in case rc of
           None \<Rightarrow> Inl UB
         | Some failed \<Rightarrow>
             if failed \<and> en = EINTR then cmap (\<lambda>(fds, s). (fd # fds, s)) (close_untested rc fd (es, en))
             else Inr ([fd], es, en))"

definition close_connection_fds :: "client_connection \<Rightarrow> close_script \<Rightarrow> (int list \<times> close_script) cres" where
  "close_connection_fds c s =
     cbind (if cc_fd_in c > -1
            then cmap (\<lambda>(failed, fds, s). (Some failed, fds, s)) (close_retry (cc_fd_in c) s)
            else Inr (None, [], s)) (\<lambda>(rc, fds_in, s).
     cmap (\<lambda>(fds_out, s). (fds_in @ fds_out, s)) (if cc_fd_out c > -1 then close_untested rc (cc_fd_out c) s else Inr ([], s)))"

definition free_client_connection ::
  "conn_heap \<Rightarrow> addr \<Rightarrow> close_script \<Rightarrow> (conn_heap \<times> int list \<times> close_script) cres" where
  "free_client_connection h con s =
     cbind (remove_client_connection h con) (\<lambda>h.
     cbind (deref h con) (\<lambda>n.
     cmap (\<lambda>(fds, s). (h(con := None), fds, s)) (close_connection_fds (nd_con n) s)))"

definition CLOSED_CONNECTION_LOITER_TIME_S :: int where "CLOSED_CONNECTION_LOITER_TIME_S = 4"

definition loitered :: "int \<Rightarrow> client_connection \<Rightarrow> bool" where
  "loitered now con \<longleftrightarrow> cc_thread_has_exited con \<and> now - cc_end_time con > CLOSED_CONNECTION_LOITER_TIME_S"

text \<open>
  The walk of \<open>cleanup_connections\<close>. A list that loops would be walked for ever; \<open>fuel\<close> bounds
  the number of nodes visited. The result is the heap, the new head and what was closed.
\<close>

fun cleanup_loop ::
  "nat \<Rightarrow> int \<Rightarrow> conn_heap \<Rightarrow> addr option \<Rightarrow> addr option \<Rightarrow> addr option \<Rightarrow> int list \<Rightarrow> close_script
     \<Rightarrow> (conn_heap \<times> addr option \<times> int list \<times> close_script) cres" where
  "cleanup_loop fuel now h pool None nxt closed s = Inr (h, pool, closed, s)"
| "cleanup_loop 0 now h pool (Some cur) nxt closed s = Inl Hang"
| "cleanup_loop (Suc fuel) now h pool (Some cur) nxt closed s =
     cbind (deref h cur) (\<lambda>n.
     cbind
       (if loitered now (nd_con n) then
          cmap (\<lambda>(h, fds, s). (h, if pool = Some cur then nxt else pool, closed @ fds, s)) (free_client_connection h cur s)
        else Inr (h, pool, closed, s)) (\<lambda>(h, pool, closed, s).
     case nxt of
       None \<Rightarrow> cleanup_loop fuel now h pool None nxt closed s
     | Some c \<Rightarrow>
         cbind (deref h c) (\<lambda>n. cleanup_loop fuel now h pool (Some c) (nd_next n) closed s)))"

definition cleanup_connections ::
  "nat \<Rightarrow> int \<Rightarrow> conn_heap \<Rightarrow> addr option \<Rightarrow> close_script
     \<Rightarrow> (conn_heap \<times> addr option \<times> int list \<times> close_script) cres" where
  "cleanup_connections fuel now h pool s =
     (case pool of
        None \<Rightarrow> Inr (h, None, [], s)
      | Some cur \<Rightarrow> cbind (deref h cur) (\<lambda>n. cleanup_loop fuel now h pool (Some cur) (nd_next n) [] s))"

section \<open>Segments of a doubly linked list\<close>

type_synonym conn_cells = "(addr \<times> client_connection) list"

definition hd_addr :: "conn_cells \<Rightarrow> addr option \<Rightarrow> addr option" where
  "hd_addr xs q = (case xs of [] \<Rightarrow> q | (a, c) # _ \<Rightarrow> Some a)"

definition last_addr :: "addr option \<Rightarrow> conn_cells \<Rightarrow> addr option" where
  "last_addr p xs = (if xs = [] then p else Some (fst (last xs)))"

lemma addr_simps [simp]:
  "hd_addr [] q = q" "hd_addr ((a, c) # xs) q = Some a" "last_addr p [] = p" "last_addr p (xs @ [(a, c)]) = Some a"
  "last_addr p ((a, c) # xs) = last_addr (Some a) xs"
  by (simp_all add: hd_addr_def last_addr_def)

lemma hd_addr_append [simp]: "hd_addr (xs @ ys) q = hd_addr xs (hd_addr ys q)"
  by (cases xs) auto

fun segment :: "conn_heap \<Rightarrow> addr option \<Rightarrow> conn_cells \<Rightarrow> addr option \<Rightarrow> bool" where
  "segment h p [] q = True"
| "segment h p ((a, c) # xs) q =
     (h a = Some \<lparr>nd_prev = p, nd_next = hd_addr xs q, nd_con = c\<rparr> \<and> segment h (Some a) xs q)"

text \<open>The list from a head: what the program's pointer stands for.\<close>

definition conn_list :: "conn_heap \<Rightarrow> addr option \<Rightarrow> conn_cells \<Rightarrow> bool" where
  "conn_list h head xs \<longleftrightarrow> head = hd_addr xs None \<and> distinct (map fst xs) \<and> segment h None xs None"

lemma segment_append: "segment h p (xs @ ys) q \<longleftrightarrow> segment h p xs (hd_addr ys q) \<and> segment h (last_addr p xs) ys q"
proof (induction xs arbitrary: p)
  case (Cons x xs)
  then show ?case by (cases x) auto
qed simp

lemma segment_frame: "a \<notin> fst ` set xs \<Longrightarrow> segment (h(a := v)) p xs q = segment h p xs q"
  by (induction xs arbitrary: p) (auto simp: image_iff)

lemma segment_set_prev:
  assumes "segment h p ((b, d) # ys) q" and "b \<notin> fst ` set ys"
  shows "\<exists>h'. set_prev b p' h = Inr h' \<and> segment h' p' ((b, d) # ys) q \<and> (\<forall>x. x \<noteq> b \<longrightarrow> h' x = h x)"
  using assms by (simp add: set_prev_def deref_def segment_frame)

lemma segment_set_next:
  assumes "segment h p (xs @ [(b, d)]) q" and "b \<notin> fst ` set xs"
  shows "\<exists>h'. set_next b q' h = Inr h' \<and> segment h' p (xs @ [(b, d)]) q' \<and> (\<forall>x. x \<noteq> b \<longrightarrow> h' x = h x)"
  using assms by (simp add: set_next_def deref_def segment_frame segment_append)

lemma segment_agree: "(\<And>x. x \<in> fst ` set xs \<Longrightarrow> h' x = h x) \<Longrightarrow> segment h' p xs q = segment h p xs q"
  by (induction xs arbitrary: p) auto

section \<open>What the operations do to the list\<close>

lemma insert_client_connection_list:
  assumes "conn_list h head xs" and "h a = Some n" and "a \<notin> fst ` set xs"
  shows "\<exists>h'. insert_client_connection h head a = Inr (h', a) \<and> conn_list h' (Some a) ((a, nd_con n) # xs) \<and>
    (\<forall>x. x \<notin> insert a (fst ` set xs) \<longrightarrow> h' x = h x)"
proof -
  let ?h = "h(a \<mapsto> \<lparr>nd_prev = None, nd_next = head, nd_con = nd_con n\<rparr>)"
  have s: "segment ?h None xs None" "head = hd_addr xs None" "distinct (map fst xs)"
    using assms(1,3) by (simp_all add: conn_list_def segment_frame)
  have two: "cbind (set_next a head h) (set_prev a None) = Inr ?h"
    using assms(2) by (cases n) (simp add: set_next_def set_prev_def deref_def)
  show ?thesis
  proof (cases xs)
    case Nil
    with s assms two show ?thesis
      by (auto simp: insert_client_connection_def cbind_assoc [symmetric] conn_list_def)
  next
    case (Cons y ys)
    obtain b d where y: "y = (b, d)" by (cases y)
    have "b \<notin> fst ` set ys" using s(3) by (simp add: Cons y)
    from segment_set_prev [OF s(1) [unfolded Cons y] this, of "Some a"] obtain h' where
      h': "set_prev b (Some a) ?h = Inr h'" "segment h' (Some a) ((b, d) # ys) None" "\<forall>x. x \<noteq> b \<longrightarrow> h' x = ?h x" by blast
    have "insert_client_connection h head a = Inr (h', a)"
      using two h'(1) s(2) by (simp add: insert_client_connection_def cbind_assoc [symmetric] Cons y)
    moreover have "a \<noteq> b" using assms(3) by (auto simp: Cons y)
    ultimately show ?thesis using h' s assms(3) by (auto simp: conn_list_def Cons y)
  qed
qed

definition fds_of :: "client_connection \<Rightarrow> int list" where
  "fds_of c = (if cc_fd_in c > -1 then [cc_fd_in c] else []) @ (if cc_fd_out c > -1 then [cc_fd_out c] else [])"

lemma relink_next:
  assumes "segment h p ys None" and "distinct (map fst ys)"
  shows "\<exists>h'. (case hd_addr ys None of None \<Rightarrow> Inr h | Some x \<Rightarrow> set_prev x p' h) = Inr h' \<and> segment h' p' ys None \<and>
    (\<forall>x. x \<notin> fst ` set ys \<longrightarrow> h' x = h x)"
proof (cases ys)
  case (Cons y r)
  obtain b d where y: "y = (b, d)" by (cases y)
  have "b \<notin> fst ` set r" using assms(2) by (simp add: Cons y)
  from segment_set_prev [OF assms(1) [unfolded Cons y] this, of p'] show ?thesis by (auto simp: Cons y)
qed simp

lemma relink_prev:
  assumes "segment h None xs q" and "distinct (map fst xs)"
  shows "\<exists>h'. (case last_addr None xs of None \<Rightarrow> Inr h | Some x \<Rightarrow> set_next x q' h) = Inr h' \<and> segment h' None xs q' \<and>
    (\<forall>x. x \<notin> fst ` set xs \<longrightarrow> h' x = h x)"
proof (cases xs rule: rev_cases)
  case (snoc r y)
  obtain b d where y: "y = (b, d)" by (cases y)
  have "b \<notin> fst ` set r" using assms(2) by (simp add: snoc y)
  from segment_set_next [OF assms(1) [unfolded snoc y] this, of q'] show ?thesis by (auto simp: snoc y)
qed simp

text \<open>
  A connection for which \<open>rc\<close> is never set: only its outgoing descriptor is still there. A thread
  that ends has set both to \<open>-1\<close>, and a connection whose thread never started has its incoming one.
\<close>

definition rc_unset :: "client_connection \<Rightarrow> bool" where
  "rc_unset c \<longleftrightarrow> cc_fd_in c \<le> -1 \<and> cc_fd_out c > -1"

text \<open>No \<open>close\<close> is interrupted; it may fail otherwise.\<close>

definition close_calm :: "close_event list \<Rightarrow> bool" where
  "close_calm es \<longleftrightarrow> Close_fail EINTR \<notin> set es"

lemma close_calm_drop: "close_calm es \<Longrightarrow> close_calm (drop n es)"
  using set_drop_subset [of n es] by (auto simp: close_calm_def)

lemma close_retry_calm:
  assumes "close_calm es" and "es \<noteq> []"
  shows "\<exists>failed en'. close_retry fd (es, en) = Inr (failed, [fd], drop 1 es, en') \<and> (failed \<longrightarrow> en' \<noteq> EINTR)"
proof (cases es)
  case (Cons c r)
  with assms show ?thesis by (cases c) (auto simp: close_calm_def)
qed (use assms in simp)

lemma close_untested_calm:
  assumes "close_calm es" and "es \<noteq> []" and "failed \<longrightarrow> en \<noteq> EINTR"
  shows "\<exists>en'. close_untested (Some failed) fd (es, en) = Inr ([fd], drop 1 es, en')"
    and "close_untested None fd (es, en) = Inl UB"
proof -
  obtain c r where "es = c # r" using assms(2) by (cases es) auto
  with assms show "\<exists>en'. close_untested (Some failed) fd (es, en) = Inr ([fd], drop 1 es, en')"
    "close_untested None fd (es, en) = Inl UB"
    by (cases c; auto simp: close_calm_def)+
qed

lemma close_connection_fds_calm:
  assumes "close_calm es" and "length (fds_of c) \<le> length es"
  shows "if rc_unset c then close_connection_fds c (es, en) = Inl UB
    else \<exists>en'. close_connection_fds c (es, en) = Inr (fds_of c, drop (length (fds_of c)) es, en')"
proof (cases "cc_fd_in c > -1")
  case True
  then have "es \<noteq> []" using assms(2) by (auto simp: fds_of_def)
  then obtain failed en1 where 1: "close_retry (cc_fd_in c) (es, en) = Inr (failed, [cc_fd_in c], drop 1 es, en1)"
    "failed \<longrightarrow> en1 \<noteq> EINTR" using close_retry_calm [OF assms(1), of "cc_fd_in c" en] by blast
  show ?thesis
  proof (cases "cc_fd_out c > -1")
    case out: True
    then have "drop 1 es \<noteq> []" using True assms(2) by (simp add: fds_of_def)
    then obtain en2 where "close_untested (Some failed) (cc_fd_out c) (drop 1 es, en1) = Inr ([cc_fd_out c], drop 1 (drop 1 es), en2)"
      using close_untested_calm(1) [OF close_calm_drop [OF assms(1)] _ 1(2)] by blast
    with True out 1(1) show ?thesis by (simp add: close_connection_fds_def rc_unset_def fds_of_def numeral_2_eq_2)
  qed (use True 1 in \<open>simp add: close_connection_fds_def rc_unset_def fds_of_def\<close>)
next
  case False
  show ?thesis
  proof (cases "cc_fd_out c > -1")
    case True
    then have "es \<noteq> []" using assms(2) by (auto simp: fds_of_def)
    with True False close_untested_calm(2) [OF assms(1), of False en] show ?thesis
      by (simp add: close_connection_fds_def rc_unset_def fds_of_def)
  qed (use False in \<open>simp add: close_connection_fds_def rc_unset_def fds_of_def\<close>)
qed

lemma free_client_connection_list:
  assumes "segment h None (xs @ (a, c) # ys) None" and "distinct (map fst (xs @ (a, c) # ys))"
    and "close_calm es" and "length (fds_of c) \<le> length es"
  shows "if rc_unset c then free_client_connection h a (es, en) = Inl UB
    else \<exists>h' en'. free_client_connection h a (es, en) = Inr (h', fds_of c, drop (length (fds_of c)) es, en') \<and> segment h' None (xs @ ys) None \<and> h' a = None \<and>
    (\<forall>x. x \<notin> fst ` set (xs @ (a, c) # ys) \<longrightarrow> h' x = h x)"
proof -
  have d: "distinct (map fst xs)" "distinct (map fst ys)" "a \<notin> fst ` set xs" "a \<notin> fst ` set ys"
    "fst ` set xs \<inter> fst ` set ys = {}" using assms(2) by auto
  have s: "segment h None xs (Some a)" "segment h (Some a) ys None"
    "h a = Some \<lparr>nd_prev = last_addr None xs, nd_next = hd_addr ys None, nd_con = c\<rparr>"
    using assms(1) by (simp_all add: segment_append)
  obtain h1 where h1: "(case hd_addr ys None of None \<Rightarrow> Inr h | Some x \<Rightarrow> set_prev x (last_addr None xs) h) = Inr h1"
    "segment h1 (last_addr None xs) ys None" "\<forall>x. x \<notin> fst ` set ys \<longrightarrow> h1 x = h x"
    using relink_next [OF s(2) d(2)] by blast
  have x1: "segment h1 None xs (Some a)" using s(1) h1(3) d(5) by (subst segment_agree [where h = h]) auto
  obtain h2 where h2: "(case last_addr None xs of None \<Rightarrow> Inr h1 | Some x \<Rightarrow> set_next x (hd_addr ys None) h1) = Inr h2"
    "segment h2 None xs (hd_addr ys None)" "\<forall>x. x \<notin> fst ` set xs \<longrightarrow> h2 x = h1 x"
    using relink_prev [OF x1 d(1)] by blast
  have y2: "segment h2 (last_addr None xs) ys None" using h1(2) h2(3) d(5) by (subst segment_agree [where h = h1]) auto
  have a2: "h2 a = Some \<lparr>nd_prev = last_addr None xs, nd_next = hd_addr ys None, nd_con = c\<rparr>"
    using s(3) h1(3) h2(3) d(3,4) by simp
  let ?h3 = "h2(a \<mapsto> \<lparr>nd_prev = None, nd_next = None, nd_con = c\<rparr>)"
  have "remove_client_connection h a = Inr ?h3"
  proof -
    have "deref h a = Inr \<lparr>nd_prev = last_addr None xs, nd_next = hd_addr ys None, nd_con = c\<rparr>"
      using s(3) by (simp add: deref_def)
    then have "remove_client_connection h a = cbind (set_next a None h2) (set_prev a None)"
      by (simp only: remove_client_connection_def cbind_Inr conn_node.select_convs h1(1) h2(1))
    then show ?thesis using a2 by (simp add: deref_def set_next_def set_prev_def)
  qed
  then have run: "free_client_connection h a s = cmap (\<lambda>(fds, s). (h2(a := None), fds, s)) (close_connection_fds c s)" for s
    by (simp add: free_client_connection_def deref_def)
  show ?thesis
  proof (cases "rc_unset c")
    case True
    with close_connection_fds_calm [OF assms(3,4), of en] show ?thesis by (simp add: run)
  next
    case False
    then obtain en' where "close_connection_fds c (es, en) = Inr (fds_of c, drop (length (fds_of c)) es, en')"
      using close_connection_fds_calm [OF assms(3,4), of en] by auto
    moreover have "segment (h2(a := None)) None (xs @ ys) None"
      using h2(2) y2 d(3,4) by (simp add: segment_append segment_frame)
    moreover have "\<forall>x. x \<notin> fst ` set (xs @ (a, c) # ys) \<longrightarrow> (h2(a := None)) x = h x"
      using h1(3) h2(3) by (auto simp: image_Un)
    ultimately show ?thesis using False by (auto simp: run)
  qed
qed

text \<open>The nodes that stay, and the descriptors of those that go.\<close>

definition staying :: "int \<Rightarrow> conn_cells \<Rightarrow> conn_cells" where
  "staying now xs = filter (\<lambda>(a, c). \<not> loitered now c) xs"

definition closed_fds :: "int \<Rightarrow> conn_cells \<Rightarrow> int list" where
  "closed_fds now xs = concat (map (\<lambda>(a, c). fds_of c) (filter (\<lambda>(a, c). loitered now c) xs))"

text \<open>One round: the next node is looked up in the heap that the round leaves.\<close>

lemma cleanup_loop_round:
  assumes a: "h a = Some \<lparr>nd_prev = p0, nd_next = hd_addr ys None, nd_con = c\<rparr>" and nxt: "nxt = hd_addr ys None"
    and body: "(if loitered now c then cmap (\<lambda>(h, fds, s). (h, if pool = Some a then nxt else pool, closed @ fds, s)) (free_client_connection h a s)
         else Inr (h, pool, closed, s)) = Inr (h1, p1, closed1, s1)"
    and there: "segment h1 None (us @ ys) None"
  shows "cleanup_loop (Suc f) now h pool (Some a) nxt closed s =
     cleanup_loop f now h1 p1 (hd_addr ys None) (if ys = [] then nxt else hd_addr (tl ys) None) closed1 s1"
proof -
  have "deref h a = Inr \<lparr>nd_prev = p0, nd_next = hd_addr ys None, nd_con = c\<rparr>" using a by (simp add: deref_def)
  then have u: "cleanup_loop (Suc f) now h pool (Some a) nxt closed s =
      (case nxt of None \<Rightarrow> cleanup_loop f now h1 p1 None nxt closed1 s1
       | Some c \<Rightarrow> cbind (deref h1 c) (\<lambda>n. cleanup_loop f now h1 p1 (Some c) (nd_next n) closed1 s1))"
    by (simp only: cleanup_loop.simps cbind_Inr conn_node.select_convs body prod.case)
  show ?thesis
  proof (cases ys)
    case Nil
    with nxt u show ?thesis by simp
  next
    case (Cons z r)
    obtain b d where z: "z = (b, d)" by (cases z)
    have "\<exists>p. h1 b = Some \<lparr>nd_prev = p, nd_next = hd_addr r None, nd_con = d\<rparr>"
      using there by (auto simp: Cons z segment_append)
    with nxt u show ?thesis by (auto simp: deref_def Cons z)
  qed
qed

text \<open>The two kinds of round: a node is removed, or it stays and joins the part \<open>xs\<close> behind the walk.\<close>

lemma cleanup_loop_removes:
  assumes l: "conn_list h pool (xs @ (a, c) # ys)" and nxt: "nxt = hd_addr ys None"
    and "loitered now c" and "\<not> rc_unset c" and "close_calm es" and "length (fds_of c) \<le> length es"
  shows "\<exists>h1 en1. cleanup_loop (Suc f) now h pool (Some a) nxt closed (es, en) =
      cleanup_loop f now h1 (hd_addr (xs @ ys) None) (hd_addr ys None) (if ys = [] then nxt else hd_addr (tl ys) None)
        (closed @ fds_of c) (drop (length (fds_of c)) es, en1) \<and>
    conn_list h1 (hd_addr (xs @ ys) None) (xs @ ys) \<and> h1 a = None \<and>
    (\<forall>x. x \<notin> fst ` set (xs @ (a, c) # ys) \<longrightarrow> h1 x = h x)"
proof -
  have cl: "segment h None (xs @ (a, c) # ys) None" "distinct (map fst (xs @ (a, c) # ys))" "pool = hd_addr (xs @ (a, c) # ys) None"
    using l by (simp_all add: conn_list_def)
  have a: "h a = Some \<lparr>nd_prev = last_addr None xs, nd_next = hd_addr ys None, nd_con = c\<rparr>"
    using cl(1) by (simp add: segment_append)
  obtain h1 en1 where h1: "free_client_connection h a (es, en) = Inr (h1, fds_of c, drop (length (fds_of c)) es, en1)"
    "segment h1 None (xs @ ys) None" "h1 a = None" "\<forall>x. x \<notin> fst ` set (xs @ (a, c) # ys) \<longrightarrow> h1 x = h x"
    using free_client_connection_list [OF cl(1,2) assms(5,6), of en] assms(4) by auto
  have "a \<notin> fst ` set xs" using cl(2) by auto
  then have p1: "(if pool = Some a then nxt else pool) = hd_addr (xs @ ys) None"
    using cl(3) nxt by (cases xs) (auto simp: hd_addr_def split: prod.splits list.splits)
  have "conn_list h1 (hd_addr (xs @ ys) None) (xs @ ys)" using h1(2) cl(2) by (simp add: conn_list_def)
  moreover have "cleanup_loop (Suc f) now h pool (Some a) nxt closed (es, en) =
      cleanup_loop f now h1 (hd_addr (xs @ ys) None) (hd_addr ys None) (if ys = [] then nxt else hd_addr (tl ys) None)
        (closed @ fds_of c) (drop (length (fds_of c)) es, en1)"
    by (rule cleanup_loop_round [where h = h and a = a and ys = ys and us = xs, OF a nxt]) (use assms(3) h1(1,2) p1 in auto)
  ultimately show ?thesis using h1(3,4) by blast
qed

lemma cleanup_loop_skips:
  assumes l: "conn_list h pool (xs @ (a, c) # ys)" and nxt: "nxt = hd_addr ys None" and "\<not> loitered now c"
  shows "cleanup_loop (Suc f) now h pool (Some a) nxt closed s =
    cleanup_loop f now h pool (hd_addr ys None) (if ys = [] then nxt else hd_addr (tl ys) None) closed s"
proof -
  have seg: "segment h None (xs @ (a, c) # ys) None" using l by (simp add: conn_list_def)
  then have a: "h a = Some \<lparr>nd_prev = last_addr None xs, nd_next = hd_addr ys None, nd_con = c\<rparr>"
    by (simp add: segment_append)
  show ?thesis
    by (rule cleanup_loop_round [where h = h and a = a and ys = ys and us = "xs @ [(a, c)]", OF a nxt])
      (use assms(3) seg in auto)
qed

text \<open>What the walk over the nodes \<open>ys\<close> comes to, behind the part \<open>xs\<close>.\<close>

definition walked ::
  "int \<Rightarrow> conn_heap \<Rightarrow> conn_cells \<Rightarrow> conn_cells \<Rightarrow> int list \<Rightarrow> close_event list \<Rightarrow>
     (conn_heap \<times> addr option \<times> int list \<times> close_script) cres \<Rightarrow> bool" where
  "walked now h xs ys closed es r \<longleftrightarrow>
     (if list_ex (\<lambda>(a, c). loitered now c \<and> rc_unset c) ys then r = Inl UB
      else \<exists>h' en'. r = Inr (h', hd_addr (xs @ staying now ys) None, closed @ closed_fds now ys,
                             drop (length (closed_fds now ys)) es, en') \<and>
        conn_list h' (hd_addr (xs @ staying now ys) None) (xs @ staying now ys) \<and>
        (\<forall>a \<in> fst ` set ys. a \<notin> fst ` set (staying now ys) \<longrightarrow> h' a = None) \<and>
        (\<forall>x. x \<notin> fst ` set (xs @ ys) \<longrightarrow> h' x = h x))"

lemma walked_removed:
  assumes "walked now h1 xs ys (closed @ fds_of c) (drop (length (fds_of c)) es) r"
    and "loitered now c" and "\<not> rc_unset c" and "h1 a = None" and "a \<notin> fst ` set (xs @ ys)"
    and "\<forall>x. x \<notin> fst ` set (xs @ (a, c) # ys) \<longrightarrow> h1 x = h x"
  shows "walked now h xs ((a, c) # ys) closed es r"
proof -
  have "closed_fds now ((a, c) # ys) = fds_of c @ closed_fds now ys" "staying now ((a, c) # ys) = staying now ys"
    using assms(2) by (simp_all add: closed_fds_def staying_def)
  with assms show ?thesis by (auto simp: walked_def add.commute split: if_splits)
qed

lemma walked_kept:
  assumes "walked now h (xs @ [(a, c)]) ys closed es r" and "\<not> loitered now c"
  shows "walked now h xs ((a, c) # ys) closed es r"
proof -
  have "closed_fds now ((a, c) # ys) = closed_fds now ys" "staying now ((a, c) # ys) = (a, c) # staying now ys"
    using assms(2) by (simp_all add: closed_fds_def staying_def)
  with assms show ?thesis by (auto simp: walked_def split: if_splits)
qed

lemma cleanup_loop_list:
  assumes "conn_list h pool (xs @ ys)" and "length ys \<le> fuel" and "nxt = (if ys = [] then any else hd_addr (tl ys) None)"
    and "close_calm es" and "length (closed_fds now ys) \<le> length es"
  shows "walked now h xs ys closed es (cleanup_loop fuel now h pool (hd_addr ys None) nxt closed (es, en))"
  using assms
proof (induction ys arbitrary: h pool xs fuel nxt closed any es en)
  case Nil
  then show ?case by (auto simp: walked_def staying_def closed_fds_def conn_list_def)
next
  case (Cons y ys)
  obtain a c where y: "y = (a, c)" by (cases y)
  obtain f where f: "fuel = Suc f" "length ys \<le> f" using Cons.prems(2) by (cases fuel) auto
  have l: "conn_list h pool (xs @ (a, c) # ys)" and nxt: "nxt = hd_addr ys None"
    using Cons.prems(1,3) by (simp_all add: y)
  show ?case
  proof (cases "loitered now c")
    case True
    have len: "length (fds_of c) \<le> length es" "length (closed_fds now ys) \<le> length (drop (length (fds_of c)) es)"
      using Cons.prems(5) True by (simp_all add: y closed_fds_def)
    show ?thesis
    proof (cases "rc_unset c")
      case unset: True
      have seg: "segment h None (xs @ (a, c) # ys) None" "distinct (map fst (xs @ (a, c) # ys))" using l by (simp_all add: conn_list_def)
      then have "free_client_connection h a (es, en) = Inl UB"
        using free_client_connection_list [OF seg Cons.prems(4) len(1), of en] unset by simp
      then show ?thesis using True unset seg(1) by (simp add: walked_def f(1) y deref_def segment_append)
    next
      case False
      obtain h1 en1 where step: "cleanup_loop (Suc f) now h pool (Some a) nxt closed (es, en) =
          cleanup_loop f now h1 (hd_addr (xs @ ys) None) (hd_addr ys None) (if ys = [] then nxt else hd_addr (tl ys) None)
            (closed @ fds_of c) (drop (length (fds_of c)) es, en1)"
        and h1: "conn_list h1 (hd_addr (xs @ ys) None) (xs @ ys)" "h1 a = None"
          "\<forall>x. x \<notin> fst ` set (xs @ (a, c) # ys) \<longrightarrow> h1 x = h x"
        using cleanup_loop_removes [OF l nxt True False Cons.prems(4) len(1)] by blast
      have "a \<notin> fst ` set (xs @ ys)" using l by (auto simp: conn_list_def)
      from walked_removed [OF Cons.IH [OF h1(1) f(2) refl close_calm_drop [OF Cons.prems(4)] len(2)] True False h1(2) this h1(3)]
      show ?thesis unfolding y f(1) addr_simps(2) step .
    qed
  next
    case False
    have "length (closed_fds now ys) \<le> length es" "conn_list h pool ((xs @ [(a, c)]) @ ys)"
      using Cons.prems(5) False l by (simp_all add: y closed_fds_def)
    from walked_kept [OF Cons.IH [OF this(2) f(2) refl Cons.prems(4) this(1)] False]
    show ?thesis unfolding y f(1) addr_simps(2) cleanup_loop_skips [OF l nxt False] .
  qed
qed

text \<open>
  C33: the sweep of the connection list, on a well-formed doubly linked list and when no \<open>close\<close> is
  interrupted (it may fail otherwise). When some connection that is over still has its outgoing
  descriptor but not its incoming one, the sweep comes to a test of a variable that was never
  set. In every other case it is safe and does what it says: it follows no dangling pointer,
  although it frees nodes while it walks; it ends after one visit per node; exactly the
  connections whose thread has exited more than four seconds ago are removed and freed, and
  \<open>close\<close> is called once for each descriptor they have, in the order of the list; the others
  stay, in order, in a well-formed list again; and no other memory is written.
\<close>

theorem cleanup_connections_refines:
  assumes "conn_list h pool xs" and "length xs \<le> fuel"
    and "close_calm es" and "length (closed_fds now xs) \<le> length es"
  shows "if list_ex (\<lambda>(a, c). loitered now c \<and> rc_unset c) xs
    then cleanup_connections fuel now h pool (es, en) = Inl UB
    else \<exists>h' pool' en'. cleanup_connections fuel now h pool (es, en) =
        Inr (h', pool', closed_fds now xs, drop (length (closed_fds now xs)) es, en') \<and>
      conn_list h' pool' (staying now xs) \<and>
      (\<forall>a \<in> fst ` set xs - fst ` set (staying now xs). h' a = None) \<and> (\<forall>a. a \<notin> fst ` set xs \<longrightarrow> h' a = h a)"
proof (cases xs)
  case Nil
  with assms(1) show ?thesis by (simp add: cleanup_connections_def conn_list_def staying_def closed_fds_def)
next
  case (Cons y ys)
  obtain a c where y: "y = (a, c)" by (cases y)
  have p: "pool = Some a" "h a = Some \<lparr>nd_prev = None, nd_next = hd_addr ys None, nd_con = c\<rparr>"
    using assms(1) by (simp_all add: conn_list_def Cons y)
  then have run: "cleanup_connections fuel now h pool (es, en) =
      cleanup_loop fuel now h pool (hd_addr xs None) (hd_addr (tl xs) None) [] (es, en)"
    by (simp add: cleanup_connections_def deref_def Cons y)
  have "conn_list h pool ([] @ xs)" using assms(1) by simp
  from cleanup_loop_list [OF this assms(2) _ assms(3,4), of "hd_addr (tl xs) None" "hd_addr (tl xs) None" "[]" en]
  show ?thesis unfolding run by (auto simp: walked_def split: if_splits)
qed

text \<open>Two connections, the first of which is over.\<close>

definition old_connection :: client_connection where
  "old_connection = blank_connection\<lparr>cc_thread_has_exited := True, cc_end_time := 10\<rparr>"

definition two_cells :: conn_heap where
  "two_cells = [7 \<mapsto> \<lparr>nd_prev = None, nd_next = Some 9, nd_con = old_connection\<rparr>,
                9 \<mapsto> \<lparr>nd_prev = Some 7, nd_next = None, nd_con = blank_connection\<rparr>]"

theorem cleanup_connections_refines_witness:
  "\<exists>h' s'. cleanup_connections 2 100 two_cells (Some 7) ([Close_fail 9], 0) = Inr (h', Some 9, [5], s') \<and> h' 7 = None \<and>
     conn_list h' (Some 9) [(9, blank_connection)]"
proof -
  let ?xs = "[(7, old_connection), (9, blank_connection)]"
  have l: "conn_list two_cells (Some 7) ?xs" by (simp add: conn_list_def two_cells_def)
  have s: "staying 100 ?xs = [(9, blank_connection)]" "closed_fds 100 ?xs = [5]" "\<not> rc_unset old_connection"
      "\<not> loitered 100 blank_connection"
    by (simp_all add: staying_def closed_fds_def loitered_def old_connection_def blank_connection_def fds_of_def rc_unset_def
        CLOSED_CONNECTION_LOITER_TIME_S_def Let_def)
  have c: "close_calm [Close_fail 9]" by (simp add: close_calm_def)
  from cleanup_connections_refines [OF l _ c, of 2 100 0] obtain h' pool' s' where
    r: "cleanup_connections 2 100 two_cells (Some 7) ([Close_fail 9], 0) = Inr (h', pool', [5], s')"
    "conn_list h' pool' [(9, blank_connection)]"
    "\<forall>a \<in> fst ` set ?xs - fst ` set [(9 :: nat, blank_connection)]. h' a = None" by (auto simp: s)
  moreover have "pool' = Some 9" using r(2) by (simp add: conn_list_def)
  ultimately show ?thesis by auto
qed

end
