(* ===== verification/Server.thy ===== *)
theory Server
  imports Status_Document Ssh_Policy Connection_List Net
begin

text \<open>
  \<open>src/server.c\<close>: the main thread. It listens on every service, and then in each turn waits
  for events, accepts connections and starts their threads, frees the connections that are
  over, looks after the tunnels, answers requests for the status document and rotates the
  logs. A turn is a function of the outcomes of its system calls. The lists of connections
  are lists here: \<open>Connection_List\<close> shows that inserting and the sweep on the heap do to the
  linked list what is done to these lists. Log messages and the thread-local pointers that
  serve them are left out: they do not change \<open>errno\<close>. A call that succeeds leaves \<open>errno\<close> alone.
\<close>

abbreviation EAGAIN :: int where "EAGAIN \<equiv> 35"

section \<open>The table of descriptors\<close>

record fd_events =
  pv_err :: bool
  pv_hup :: bool
  pv_nval :: bool
  pv_pri :: bool
  pv_rdband :: bool
  pv_rdnorm :: bool

definition no_events :: fd_events where
  "no_events = \<lparr>pv_err = False, pv_hup = False, pv_nval = False, pv_pri = False, pv_rdband = False, pv_rdnorm = False\<rparr>"

record pollfd =
  pfd_fd :: int
  pfd_revents :: fd_events

text \<open>The part of the array that is filled; \<open>*index\<close> is its length.\<close>

definition set_pfd :: "int \<Rightarrow> int \<Rightarrow> pollfd list \<Rightarrow> pollfd list cres" where
  "set_pfd ulimit fd pfd =
     (if int (length pfd) \<ge> ulimit then Inl (Exit 95)
      else Inr (pfd @ [\<lparr>pfd_fd = fd, pfd_revents = no_events\<rparr>]))"

fun find_pfd_from :: "int \<Rightarrow> pollfd list \<Rightarrow> int \<Rightarrow> int" where
  "find_pfd_from i [] fd = -1"
| "find_pfd_from i (p # pfd) fd = (if pfd_fd p = fd then i else find_pfd_from (i + 1) pfd fd)"

definition find_pfd :: "pollfd list \<Rightarrow> int \<Rightarrow> int" where
  "find_pfd pfd fd = (if fd < 0 then -1 else find_pfd_from 0 pfd fd)"

text \<open>\<open>pfd[pfd_idx].revents\<close>: undefined outside the array.\<close>

definition revents_at :: "pollfd list \<Rightarrow> int \<Rightarrow> fd_events cres" where
  "revents_at pfd i = (if 0 \<le> i \<and> i < int (length pfd) then Inr (pfd_revents (pfd ! nat i)) else Inl UB)"

fun set_pfds :: "int \<Rightarrow> int list \<Rightarrow> pollfd list \<Rightarrow> pollfd list cres" where
  "set_pfds ulimit [] pfd = Inr pfd"
| "set_pfds ulimit (fd # fds) pfd = cbind (set_pfd ulimit fd pfd) (set_pfds ulimit fds)"

definition service_fds :: "proxy_instance list \<Rightarrow> int list" where
  "service_fds proxies = concat (map (\<lambda>p. map (srv_fd \<circ> any_service_base) (pi_service_list p)) proxies)"

definition tunnel_fds :: "ssh_tunnel list \<Rightarrow> int list" where
  "tunnel_fds tunnels = concat (map (\<lambda>t. [st_parent_stdout_fd t, st_parent_stderr_fd t]) tunnels)"

definition fill_pfd :: "int \<Rightarrow> int \<Rightarrow> proxy_instance list \<Rightarrow> ssh_tunnel list \<Rightarrow> pollfd list cres" where
  "fill_pfd ulimit msg_fd proxies tunnels =
     cbind (set_pfd ulimit msg_fd []) (\<lambda>pfd.
     cbind (set_pfds ulimit (service_fds proxies) pfd) (\<lambda>pfd.
     set_pfds ulimit (tunnel_fds tunnels) pfd))"

section \<open>Waiting\<close>

text \<open>
  The answers of the successive calls of \<open>poll\<close>: a failure with its error number, or the events
  of each descriptor (none for a negative one). The loop looks at \<open>errno\<close>, also behind a call
  that did not fail and left it alone. A list that has run out means that the loop still runs
  after these calls.
\<close>

datatype poll_answer = Poll_failed int | Poll_ready "int \<Rightarrow> fd_events"

fun poll_loop :: "poll_answer list \<Rightarrow> int \<Rightarrow> pollfd list \<Rightarrow> (int \<times> pollfd list \<times> int) cres" where
  "poll_loop [] en pfd = Inl Hang"
| "poll_loop (Poll_failed e # polls) en pfd =
     (if e = EAGAIN then poll_loop polls e pfd else Inr (-1, pfd, e))"
| "poll_loop (Poll_ready ev # polls) en pfd =
     (let pfd = map (\<lambda>p. p\<lparr>pfd_revents := if pfd_fd p < 0 then no_events else ev (pfd_fd p)\<rparr>) pfd
      in if en = EAGAIN then poll_loop polls en pfd else Inr (0, pfd, en))"

definition server_poll :: "poll_answer list \<Rightarrow> int \<Rightarrow> pollfd list \<Rightarrow> (pollfd list \<times> int) cres" where
  "server_poll polls en pfd =
     cbind (poll_loop polls en pfd) (\<lambda>(rc, pfd, en).
       if rc < 0 \<and> en \<noteq> EINTR then Inl (Exit 87) else Inr (pfd, en))"

section \<open>Messages of the tunnels and of the threads\<close>

definition read_from_child :: "int \<Rightarrow> unit cres" where
  "read_from_child rc = (if rc < 0 then Inl (Exit 91) else Inr ())"

text \<open>One pipe of a tunnel: \<open>code\<close> is the exit code of an error on it, \<open>reads\<close> what a read gives.\<close>

definition check_child_fd :: "pollfd list \<Rightarrow> (int \<Rightarrow> int) \<Rightarrow> int \<Rightarrow> int \<Rightarrow> unit cres" where
  "check_child_fd pfd reads code fd =
     (let pfd_idx = find_pfd pfd fd
      in if pfd_idx \<ge> 0 then
           cbind (revents_at pfd pfd_idx) (\<lambda>ev.
             if pv_err ev \<or> pv_nval ev then Inl (Exit code)
             else if pv_rdnorm ev then read_from_child (reads fd)
             else Inr ())
         else Inr ())"

fun check_children :: "pollfd list \<Rightarrow> (int \<Rightarrow> int) \<Rightarrow> ssh_tunnel list \<Rightarrow> unit cres" where
  "check_children pfd reads [] = Inr ()"
| "check_children pfd reads (ssh # rest) =
     cbind (check_child_fd pfd reads 93 (st_parent_stdout_fd ssh)) (\<lambda>_.
     cbind (check_child_fd pfd reads 94 (st_parent_stderr_fd ssh)) (\<lambda>_.
     check_children pfd reads rest))"

definition check_msg_pipe :: "pollfd list \<Rightarrow> int \<Rightarrow> unit cres" where
  "check_msg_pipe pfd msg_fd =
     (let pfd_idx = find_pfd pfd msg_fd
      in if pfd_idx \<ge> 0 then
           cbind (revents_at pfd pfd_idx) (\<lambda>ev.
             if pv_err ev \<or> pv_hup ev \<or> pv_nval ev then Inl (Exit 90) else Inr ())
         else Inr ())"

section \<open>New connections\<close>

datatype accept_event = Accepted int sockaddr_in | Accept_failed int

record thread_env =
  th_malloc :: bool
  th_attr_init :: int
  th_setdetachstate :: int
  th_create :: int
  th_destroy :: int

text \<open>The connection and \<open>errno\<close> behind \<open>launch_thread\<close>.\<close>

definition launch_thread :: "thread_env \<Rightarrow> client_connection \<Rightarrow> int \<Rightarrow> (client_connection \<times> int) cres" where
  "launch_thread env con en =
     (if \<not> th_malloc env then Inl (Exit 80)
      else if th_attr_init env \<noteq> 0 then Inr (con\<lparr>cc_thread_has_exited := True\<rparr>, th_attr_init env)
      else if th_setdetachstate env \<noteq> 0 then Inr (con\<lparr>cc_thread_has_exited := True\<rparr>, th_setdetachstate env)
      else
        let con = con\<lparr>cc_pthread_create_value := th_create env, cc_pthread_create_called := True\<rparr>;
            (con, en) = (if th_create env \<noteq> 0 then (con\<lparr>cc_thread_has_exited := True\<rparr>, th_create env) else (con, en));
            en = (if th_destroy env \<noteq> 0 then th_destroy env else en)
        in Inr (con, en))"

text \<open>A listening socket blocks when nobody is there.\<close>

fun accept_loop :: "accept_event list \<Rightarrow> int \<Rightarrow> ((int \<times> sockaddr_in) option \<times> int) cres" where
  "accept_loop [] en = Inl Hang"
| "accept_loop (Accepted fd addr # es) en = Inr (Some (fd, addr), en)"
| "accept_loop (Accept_failed e # es) en = (if e = EINTR then accept_loop es e else Inr (None, e))"

text \<open>
  What the accepting phase meets at one service: the answers of \<open>accept\<close>, the memory of the
  new connection (\<open>None\<close> when there is none left), the clock and the calls that start the thread.
\<close>

record arrival_env =
  ar_accept :: "accept_event list"
  ar_mem :: "client_connection option"
  ar_now :: int
  ar_thread :: thread_env

definition accept_connection :: "arrival_env \<Rightarrow> service \<Rightarrow> nat \<Rightarrow> int \<Rightarrow> (client_connection option \<times> nat \<times> int) cres" where
  "accept_connection env srv id_pool en =
     cbind (accept_loop (ar_accept env) en) (\<lambda>(r, en).
     case r of
       None \<Rightarrow> Inr (None, id_pool, en)
     | Some (fd, addr) \<Rightarrow>
         cmap (\<lambda>(con, id_pool).
             let con = con\<lparr>cc_srv := srv_id srv, cc_fd_in := fd, cc_src_host := host_id_set_addr_in (cc_src_host con) addr\<rparr>
             in (Some con, id_pool, en))
           (new_client_connection (ar_mem env) id_pool (ar_now env)))"

text \<open>
  The body of the loop over the services. The test that should ask whether the descriptor was
  found compares the array pointer instead, so it is always true.
\<close>

definition accept_at_service ::
  "arrival_env \<Rightarrow> pollfd list \<Rightarrow> any_service \<Rightarrow> client_connection list \<Rightarrow> nat \<Rightarrow> int
     \<Rightarrow> (client_connection list \<times> nat \<times> int) cres" where
  "accept_at_service env pfd a cons id_pool en =
     (let srv = any_service_base a;
          pfd_idx = find_pfd pfd (srv_fd srv)
      in cbind (revents_at pfd pfd_idx) (\<lambda>ev.
         if pv_err ev \<or> pv_hup ev \<or> pv_nval ev then Inl (Exit 88)
         else if pfd_idx \<ge> 0 \<and> (pv_pri ev \<or> pv_rdband ev \<or> pv_rdnorm ev) then
           cbind (accept_connection env srv id_pool en) (\<lambda>(con, id_pool, en).
           case con of
             None \<Rightarrow> Inr (cons, id_pool, en)
           | Some con \<Rightarrow> cmap (\<lambda>(con, en). (con # cons, id_pool, en)) (launch_thread (ar_thread env) con en))
         else Inr (cons, id_pool, en)))"

fun accept_at_services ::
  "(nat \<Rightarrow> arrival_env) \<Rightarrow> pollfd list \<Rightarrow> any_service list \<Rightarrow> client_connection list \<Rightarrow> nat \<Rightarrow> int
     \<Rightarrow> (client_connection list \<times> nat \<times> int) cres" where
  "accept_at_services env pfd [] cons id_pool en = Inr (cons, id_pool, en)"
| "accept_at_services env pfd (a # services) cons id_pool en =
     cbind (accept_at_service (env (srv_id (any_service_base a))) pfd a cons id_pool en) (\<lambda>(cons, id_pool, en).
     accept_at_services env pfd services cons id_pool en)"

fun accept_connections ::
  "(nat \<Rightarrow> arrival_env) \<Rightarrow> pollfd list \<Rightarrow> proxy_instance list \<Rightarrow> nat \<Rightarrow> int \<Rightarrow> (proxy_instance list \<times> nat \<times> int) cres" where
  "accept_connections env pfd [] id_pool en = Inr ([], id_pool, en)"
| "accept_connections env pfd (proxy # rest) id_pool en =
     cbind (accept_at_services env pfd (pi_service_list proxy) (pi_client_connection_list proxy) id_pool en)
       (\<lambda>(cons, id_pool, en).
     cmap (\<lambda>(rest, id_pool, en). (proxy\<lparr>pi_client_connection_list := cons\<rparr> # rest, id_pool, en))
       (accept_connections env pfd rest id_pool en))"

section \<open>The sweep and the status requests\<close>

definition sweep_connections :: "int \<Rightarrow> proxy_instance \<Rightarrow> proxy_instance" where
  "sweep_connections now proxy =
     proxy\<lparr>pi_client_connection_list := filter (\<lambda>c. \<not> loitered now c) (pi_client_connection_list proxy)\<rparr>"

text \<open>
  What the sweep of all the instances does besides: it closes the descriptors of the connections
  it frees, and is undefined on one that \<open>free_client_connection\<close> is (\<open>Connection_List\<close>). \<open>closes\<close>
  is the error number that the closing of a descriptor leaves, if any.
\<close>

definition closes_errno :: "(int \<Rightarrow> int option) \<Rightarrow> client_connection list \<Rightarrow> int \<Rightarrow> int" where
  "closes_errno closes cons = fold (\<lambda>fd en. case closes fd of None \<Rightarrow> en | Some e \<Rightarrow> e) (concat (map fds_of cons))"

definition sweep_all ::
  "(int \<Rightarrow> int option) \<Rightarrow> int \<Rightarrow> proxy_instance list \<Rightarrow> int \<Rightarrow> (proxy_instance list \<times> int) cres" where
  "sweep_all closes now proxies en =
     (let gone = filter (loitered now) (concat (map pi_client_connection_list proxies))
      in if list_ex rc_unset gone then Inl UB
         else Inr (map (sweep_connections now) proxies, closes_errno closes gone en))"

definition wants_json :: "client_connection \<Rightarrow> bool" where
  "wants_json con \<longleftrightarrow> cc_JSONStatusRequested con \<and> \<not> cc_JSONStatusReady con"

definition answer_json :: "string option \<Rightarrow> proxy_instance \<Rightarrow> proxy_instance" where
  "answer_json json proxy =
     proxy\<lparr>pi_client_connection_list :=
       map (\<lambda>con. if wants_json con then answer_status json con else con) (pi_client_connection_list proxy)\<rparr>"

definition answer_requests ::
  "json_env \<Rightarrow> int \<Rightarrow> int \<Rightarrow> proxy_instance list \<Rightarrow> ssh_tunnel list \<Rightarrow> (proxy_instance list \<times> int) cres" where
  "answer_requests env default_size start_time proxies tunnels =
     (let needJSON = list_ex (\<lambda>p. list_ex wants_json (pi_client_connection_list p)) proxies
      in if needJSON then
           cmap (\<lambda>(json, default_size). (map (answer_json json) proxies, default_size))
             (build_json env default_size proxies start_time tunnels)
         else Inr (proxies, default_size))"

fun rotate_logs :: "(string \<Rightarrow> string \<Rightarrow> bool) \<Rightarrow> 'c file_map \<Rightarrow> log_file list \<Rightarrow> ('c file_map \<times> log_file list) cres" where
  "rotate_logs denied fs [] = Inr (fs, [])"
| "rotate_logs denied fs (log # logs) =
     cbind (log_file_rotate denied fs log) (\<lambda>(fs, log).
     cmap (\<lambda>(fs, logs). (fs, log # logs)) (rotate_logs denied fs logs))"

section \<open>One turn of the main loop\<close>

text \<open>What does not change, and the state of the main thread.\<close>

record server_config =
  sc_ulimit :: int
  sc_msg_fd :: int
  sc_globals :: ssh_globals
  sc_start_time :: int

record 'c server_state =
  ss_proxies :: "proxy_instance list"
  ss_tunnels :: "ssh_tunnel list"
  ss_logs :: "log_file list"
  ss_files :: "'c file_map"
  ss_id_pool :: nat
  ss_json_size :: int
  ss_errno :: int

text \<open>
  The outcomes of the system calls of a turn. \<open>te_closes\<close> is the error number that the closing of
  a descriptor in the sweep leaves, if any. \<open>te_errno\<close> is what the calls behind the sweep do to
  \<open>errno\<close>: those for the tunnels, for the status document and for the logs.
\<close>

record turn_env =
  te_polls :: "poll_answer list"
  te_child_reads :: "int \<Rightarrow> int"
  te_arrivals :: "nat \<Rightarrow> arrival_env"
  te_now :: int
  te_closes :: "int \<Rightarrow> int option"
  te_policy :: "tun_ref \<Rightarrow> policy_env"
  te_json :: json_env
  te_rename_denied :: "string \<Rightarrow> string \<Rightarrow> bool"
  te_errno :: "int \<Rightarrow> int"

text \<open>
  The turn up to the tunnels: what is there to be shown to a request for the status document.
  \<open>Inl\<close> is the process that a tunnel's check has turned into a shell.
\<close>

definition server_events ::
  "server_config \<Rightarrow> turn_env \<Rightarrow> 'c server_state
     \<Rightarrow> (string + proxy_instance list \<times> ssh_tunnel list \<times> nat \<times> int) cres" where
  "server_events cf env s =
     cbind (fill_pfd (sc_ulimit cf) (sc_msg_fd cf) (ss_proxies s) (ss_tunnels s)) (\<lambda>pfd.
     cbind (server_poll (te_polls env) (ss_errno s) pfd) (\<lambda>(pfd, en).
     cbind (check_children pfd (te_child_reads env) (ss_tunnels s)) (\<lambda>_.
     cbind (check_msg_pipe pfd (sc_msg_fd cf)) (\<lambda>_.
     cbind (accept_connections (te_arrivals env) pfd (ss_proxies s) (ss_id_pool s) en) (\<lambda>(proxies, id_pool, en).
     cbind (sweep_all (te_closes env) (te_now env) proxies en) (\<lambda>(proxies, en).
     cmap (map_sum id (\<lambda>tunnels. (proxies, tunnels, id_pool, en)))
       (check_ssh_tunnels (te_policy env) (sc_globals cf) proxies (ss_tunnels s))))))))"

text \<open>
  Whether anything behind the sweep calls the system in a way that may fail: a tunnel with a
  process or one that is needed, a request for the status document, a log that is full.
  Otherwise the turn passes those parts without such a call, and leaves \<open>errno\<close> as it is.
\<close>

definition tunnel_calls :: "ssh_globals \<Rightarrow> ssh_tunnel \<Rightarrow> bool" where
  "tunnel_calls g ssh \<longleftrightarrow>
     st_id ssh \<noteq> ssh_tunnel_direct g \<and> st_id ssh \<noteq> ssh_tunnel_null g \<and> (st_pid ssh > 0 \<or> st_mark ssh > 0)"

definition log_full :: "log_file \<Rightarrow> bool" where
  "log_full log \<longleftrightarrow> lf_can_rotate log \<and> lf_byte_count_max log \<le> lf_byte_count log"

definition calls_behind :: "ssh_globals \<Rightarrow> proxy_instance list \<Rightarrow> ssh_tunnel list \<Rightarrow> log_file list \<Rightarrow> bool" where
  "calls_behind g proxies tunnels logs \<longleftrightarrow>
     list_ex (tunnel_calls g) (mark_tunnels proxies tunnels) \<or>
     list_ex (\<lambda>p. list_ex wants_json (pi_client_connection_list p)) proxies \<or> list_ex log_full logs"

definition server_turn :: "server_config \<Rightarrow> turn_env \<Rightarrow> 'c server_state \<Rightarrow> (string + 'c server_state) cres" where
  "server_turn cf env s =
     cbind (server_events cf env s) (\<lambda>r.
     case r of
       Inl shell \<Rightarrow> Inr (Inl shell)
     | Inr (proxies, tunnels, id_pool, en) \<Rightarrow>
         cbind (answer_requests (te_json env) (ss_json_size s) (sc_start_time cf) proxies tunnels)
           (\<lambda>(answered, json_size).
         cmap (\<lambda>(files, logs).
             Inr (s\<lparr>ss_proxies := answered, ss_tunnels := tunnels, ss_logs := logs, ss_files := files,
                    ss_id_pool := id_pool, ss_json_size := json_size,
                    ss_errno := (if calls_behind (sc_globals cf) proxies (ss_tunnels s) (ss_logs s)
                                 then te_errno env en else en)\<rparr>))
           (rotate_logs (te_rename_denied env) (ss_files s) (ss_logs s))))"

section \<open>The start\<close>

definition listen_any :: "(nat \<Rightarrow> listen_env) \<Rightarrow> any_service \<Rightarrow> any_service cres" where
  "listen_any env a =
     (let srv = any_service_base a
      in cmap (\<lambda>(fd, addr).
           case a of
             Socks_srv s \<Rightarrow> Socks_srv (s\<lparr>srv_fd := fd\<rparr>)
           | Port_forward_srv s \<Rightarrow> Port_forward_srv (s\<lparr>srv_fd := fd\<rparr>)
           | Http_srv s \<Rightarrow> Http_srv (s\<lparr>srv_fd := fd\<rparr>))
         (listen_socket (env (srv_id srv)) (srv_bind_address srv) (srv_port srv)))"

fun map_cres :: "('a \<Rightarrow> 'b cres) \<Rightarrow> 'a list \<Rightarrow> 'b list cres" where
  "map_cres f [] = Inr []"
| "map_cres f (x # xs) = cbind (f x) (\<lambda>y. cmap (\<lambda>ys. y # ys) (map_cres f xs))"

definition listen_all :: "(nat \<Rightarrow> listen_env) \<Rightarrow> proxy_instance list \<Rightarrow> proxy_instance list cres" where
  "listen_all env proxies =
     map_cres (\<lambda>p. cmap (\<lambda>services. p\<lparr>pi_service_list := services\<rparr>) (map_cres (listen_any env) (pi_service_list p)))
       proxies"

text \<open>
  \<open>signal_ok\<close>, \<open>pipe\<close> (the two ends) and \<open>malloc_ok\<close> are outcomes of calls. The test of the
  memory for the table compares a pointer with \<open>< 0\<close> and is never true, so without memory the
  first turn writes through a null pointer.
\<close>

record start_env =
  se_signal_ok :: bool
  se_pipe :: "(int \<times> int) option"
  se_listen :: "nat \<Rightarrow> listen_env"
  se_time :: int
  se_malloc_ok :: bool

definition server_start ::
  "start_env \<Rightarrow> main_config \<Rightarrow> ssh_globals \<Rightarrow> 'c server_state \<Rightarrow> (server_config \<times> 'c server_state) cres" where
  "server_start env main_conf g s =
     (if \<not> se_signal_ok env then Inl (Exit 92)
      else case se_pipe env of
        None \<Rightarrow> Inl (Exit 86)
      | Some (rd, wr) \<Rightarrow>
          cbind (listen_all (se_listen env) (ss_proxies s)) (\<lambda>proxies.
          if \<not> se_malloc_ok env then Inl UB
          else Inr (\<lparr>sc_ulimit = mc_ulimit main_conf, sc_msg_fd = rd, sc_globals = g, sc_start_time = se_time env\<rparr>,
                    s\<lparr>ss_proxies := proxies\<rparr>)))"

text \<open>The main loop: nothing sets \<open>exit_server\<close>, so it runs for as many turns as there are.\<close>

fun server_loop :: "server_config \<Rightarrow> turn_env list \<Rightarrow> 'c server_state \<Rightarrow> (string + 'c server_state) cres" where
  "server_loop cf [] s = Inr (Inr s)"
| "server_loop cf (env # envs) s =
     cbind (server_turn cf env s) (\<lambda>r. case r of Inl shell \<Rightarrow> Inr (Inl shell) | Inr s \<Rightarrow> server_loop cf envs s)"

end
