(* ===== verification/Server_Inv.thy ===== *)
theory Server_Inv
  imports Server
begin

text \<open>
  What every turn of the main loop keeps: the table of descriptors holds every service, names
  and ids stay unique, every connection belongs to a service and a tunnel that exist, and no
  request for the status document stays unanswered.
\<close>

section \<open>The table\<close>

definition pfd_entry :: "int \<Rightarrow> pollfd" where
  "pfd_entry fd = \<lparr>pfd_fd = fd, pfd_revents = no_events\<rparr>"

lemma set_pfds_eq:
  "set_pfds ulimit fds pfd =
     (if fds = [] \<or> int (length pfd + length fds) \<le> ulimit then Inr (pfd @ map pfd_entry fds) else Inl (Exit 95))"
  by (induction fds arbitrary: pfd) (auto simp: set_pfd_def pfd_entry_def)

definition all_fds :: "int \<Rightarrow> proxy_instance list \<Rightarrow> ssh_tunnel list \<Rightarrow> int list" where
  "all_fds msg_fd proxies tunnels = msg_fd # service_fds proxies @ tunnel_fds tunnels"

lemma fill_pfd_eq:
  "fill_pfd ulimit msg_fd proxies tunnels =
     (if int (length (all_fds msg_fd proxies tunnels)) \<le> ulimit
      then Inr (map pfd_entry (all_fds msg_fd proxies tunnels)) else Inl (Exit 95))"
  by (auto simp: fill_pfd_def set_pfd_def set_pfds_eq all_fds_def pfd_entry_def)

lemma find_pfd_from_found:
  "fd \<in> pfd_fd ` set pfd \<Longrightarrow> i \<le> find_pfd_from i pfd fd \<and> find_pfd_from i pfd fd < i + int (length pfd)"
  by (induction i pfd fd rule: find_pfd_from.induct) auto

lemma find_pfd_found: "0 \<le> fd \<Longrightarrow> fd \<in> pfd_fd ` set pfd \<Longrightarrow> \<exists>ev. revents_at pfd (find_pfd pfd fd) = Inr ev \<and> 0 \<le> find_pfd pfd fd"
  using find_pfd_from_found [of fd pfd 0] by (simp add: find_pfd_def revents_at_def)

lemma poll_loop_fds: "poll_loop polls en pfd = Inr (rc, pfd', en') \<Longrightarrow> map pfd_fd pfd' = map pfd_fd pfd"
  by (induction polls en pfd rule: poll_loop.induct) (fastforce simp: Let_def o_def split: if_splits)+

lemma server_poll_fds: "server_poll polls en pfd = Inr (pfd', en') \<Longrightarrow> map pfd_fd pfd' = map pfd_fd pfd"
  by (auto simp: server_poll_def split: if_splits elim!: cbind_InrE dest: poll_loop_fds)

section \<open>The connections of an instance\<close>

definition conns_ok :: "any_service list \<Rightarrow> ssh_tunnel list \<Rightarrow> nat \<Rightarrow> client_connection list \<Rightarrow> bool" where
  "conns_ok services tunnels pool cons \<longleftrightarrow>
     list_all (connection_typed services tunnels) cons \<and> distinct (map cc_id cons) \<and>
     list_all (\<lambda>c. cc_id c \<le> pool) cons"

lemma conns_ok_mono: "conns_ok S T pool cons \<Longrightarrow> pool \<le> pool' \<Longrightarrow> conns_ok S T pool' cons"
  by (auto simp: conns_ok_def list_all_iff)

lemma conns_ok_filter: "conns_ok S T pool cons \<Longrightarrow> conns_ok S T pool (filter P cons)"
  by (auto simp: conns_ok_def list_all_iff distinct_map_filter)

lemma conns_ok_map:
  assumes "conns_ok S T pool cons" and "\<And>c. c \<in> set cons \<Longrightarrow> cc_id (f c) = cc_id c \<and> connection_typed S T (f c)"
  shows "conns_ok S T pool (map f cons)"
proof -
  have "map cc_id (map f cons) = map cc_id cons" using assms(2) by simp
  then have "distinct (map cc_id (map f cons))" using assms(1) unfolding conns_ok_def by (simp only:)
  moreover have "list_all (connection_typed S T) (map f cons)" "list_all (\<lambda>c. cc_id c \<le> pool) (map f cons)"
    using assms by (simp_all add: conns_ok_def list_all_iff)
  ultimately show ?thesis by (simp only: conns_ok_def simp_thms)
qed

lemma connection_typed_tunnels:
  "connection_typed S T c \<Longrightarrow> st_id ` set T' = st_id ` set T \<Longrightarrow> connection_typed S T' c"
proof -
  have mem: "deref_ssh ts k \<noteq> None \<longleftrightarrow> k \<in> st_id ` set ts" for ts k
    by (auto simp: deref_ssh_def find_None_iff)
  show "connection_typed S T c \<Longrightarrow> st_id ` set T' = st_id ` set T \<Longrightarrow> connection_typed S T' c"
    unfolding connection_typed_def mem by (simp split: option.splits)
qed

lemma launch_thread_frame:
  assumes "launch_thread env con en = Inr (con', en')"
  shows "cc_id con' = cc_id con \<and> connection_typed S T con' = connection_typed S T con"
  using assms
  by (auto simp: launch_thread_def Let_def connection_typed_def connection_service_def con_ok_def split: if_splits)

lemma accepted_has_addr: "host_id_has_addr (host_id_set_addr_in h a)"
  by (simp add: host_id_has_addr_def host_id_set_addr_in_def)

lemma accept_connection_typed:
  assumes "accept_connection env (any_service_base a) pool en = Inr (Some con, pool', en')" and "a \<in> set S"
  shows "connection_typed S T con \<and> cc_id con = pool' \<and> pool' = pool + 1"
proof -
  have "connection_service S con \<noteq> None" if "cc_srv con = srv_id (any_service_base a)" for con
    using assms(2) that by (auto simp: connection_service_def find_None_iff)
  with assms(1) show ?thesis
    by (auto simp: accept_connection_def cmap_def new_client_connection_def Let_def connection_typed_def con_ok_def
        accepted_has_addr host_id_ok_set_addr_in split: option.splits elim!: cbind_InrE)
qed

lemma accept_connection_pool:
  "accept_connection env srv pool en = Inr (con, pool', en') \<Longrightarrow> pool \<le> pool'"
  by (auto simp: accept_connection_def cmap_def new_client_connection_def Let_def split: option.splits elim!: cbind_InrE)

lemma conns_ok_Cons:
  assumes "conns_ok S T pool cons" and "connection_typed S T con" and "cc_id con = pool + 1"
  shows "conns_ok S T (pool + 1) (con # cons)"
proof -
  have "cc_id con \<notin> cc_id ` set cons" using assms(1,3) by (auto simp: conns_ok_def list_all_iff)
  with assms show ?thesis by (auto simp: conns_ok_def list_all_iff)
qed

lemma accept_at_service_ok:
  assumes ok: "conns_ok S T pool cons" and a: "a \<in> set S"
    and run: "accept_at_service env pfd a cons pool en = Inr (cons', pool', en')"
  shows "conns_ok S T pool' cons' \<and> pool \<le> pool'"
proof -
  let ?srv = "any_service_base a"
  obtain ev where ev: "revents_at pfd (find_pfd pfd (srv_fd ?srv)) = Inr ev"
    using run by (auto simp: accept_at_service_def Let_def elim: cbind_InrE)
  show ?thesis
  proof (cases "0 \<le> find_pfd pfd (srv_fd ?srv) \<and> (pv_pri ev \<or> pv_rdband ev \<or> pv_rdnorm ev) \<and>
      \<not> (pv_err ev \<or> pv_hup ev \<or> pv_nval ev)")
    case False
    with run ev ok show ?thesis by (auto simp: accept_at_service_def Let_def split: if_splits)
  next
    case True
    with run ev have step: "cbind (accept_connection env ?srv pool en) (\<lambda>(con, id_pool, en).
        case con of
          None \<Rightarrow> Inr (cons, id_pool, en)
        | Some con \<Rightarrow> cmap (\<lambda>(con, en). (con # cons, id_pool, en)) (launch_thread (ar_thread env) con en)) =
        Inr (cons', pool', en')"
      by (simp add: accept_at_service_def)
    then obtain r p1 en1 where acc: "accept_connection env ?srv pool en = Inr (r, p1, en1)"
      by (auto elim: cbind_InrE)
    show ?thesis
    proof (cases r)
      case None
      with step acc accept_connection_pool [OF acc] ok show ?thesis by (auto intro: conns_ok_mono)
    next
      case (Some con)
      from accept_connection_typed [OF acc [unfolded Some] a]
      have typed: "connection_typed S T con" "cc_id con = p1" "p1 = pool + 1" by auto
      obtain con2 en2 where l: "launch_thread (ar_thread env) con en1 = Inr (con2, en2)" and
        res: "cons' = con2 # cons" "pool' = p1"
        using step acc Some by (auto simp: cmap_def elim!: cbind_InrE)
      from launch_thread_frame [OF l] typed have "connection_typed S T con2" "cc_id con2 = pool + 1" by auto
      from conns_ok_Cons [OF ok this] show ?thesis by (simp add: res typed)
    qed
  qed
qed

lemma accept_at_services_ok:
  "conns_ok S T pool cons \<Longrightarrow> set services \<subseteq> set S \<Longrightarrow>
     accept_at_services env pfd services cons pool en = Inr (cons', pool', en') \<Longrightarrow>
     conns_ok S T pool' cons' \<and> pool \<le> pool'"
proof (induction services arbitrary: cons pool en)
  case (Cons a services)
  obtain c1 p1 e1 where one: "accept_at_service (env (srv_id (any_service_base a))) pfd a cons pool en = Inr (c1, p1, e1)"
    and rest: "accept_at_services env pfd services c1 p1 e1 = Inr (cons', pool', en')"
    using Cons.prems(3) by (auto elim: cbind_InrE)
  have "conns_ok S T p1 c1 \<and> pool \<le> p1" using accept_at_service_ok [OF Cons.prems(1) _ one] Cons.prems(2) by simp
  with Cons.IH [OF _ _ rest] Cons.prems(2) show ?case by auto
qed simp

section \<open>The instances\<close>

definition proxy_inv :: "ssh_tunnel list \<Rightarrow> nat \<Rightarrow> proxy_instance \<Rightarrow> bool" where
  "proxy_inv tunnels pool p \<longleftrightarrow>
     log_level_str (lc_level (pi_log p)) \<noteq> None \<and>
     list_all service_typed (pi_service_list p) \<and>
     list_all (\<lambda>a. 0 \<le> srv_fd (any_service_base a)) (pi_service_list p) \<and>
     ids_distinct (map (srv_id \<circ> any_service_base) (pi_service_list p)) \<and>
     conns_ok (pi_service_list p) tunnels pool (pi_client_connection_list p)"

lemma proxy_inv_conns:
  "proxy_inv T pool p \<Longrightarrow> conns_ok (pi_service_list p) T' pool' cons \<Longrightarrow>
     proxy_inv T' pool' (p\<lparr>pi_client_connection_list := cons\<rparr>)"
  by (simp add: proxy_inv_def)

lemma proxy_inv_mono: "proxy_inv T pool p \<Longrightarrow> pool \<le> pool' \<Longrightarrow> proxy_inv T pool' p"
  by (auto simp: proxy_inv_def intro: conns_ok_mono)

lemma accept_connections_ok:
  "list_all (proxy_inv T pool) proxies \<Longrightarrow> accept_connections env pfd proxies pool en = Inr (proxies', pool', en') \<Longrightarrow>
     list_all (proxy_inv T pool') proxies' \<and> pool \<le> pool' \<and> map pi_name proxies' = map pi_name proxies \<and>
     map pi_service_list proxies' = map pi_service_list proxies"
proof (induction proxies arbitrary: pool en proxies')
  case (Cons p rest)
  obtain c1 p1 e1 where one: "accept_at_services env pfd (pi_service_list p) (pi_client_connection_list p) pool en = Inr (c1, p1, e1)"
    using Cons.prems(2) by (auto elim: cbind_InrE)
  obtain rest' where more: "accept_connections env pfd rest p1 e1 = Inr (rest', pool', en')"
    and res: "proxies' = p\<lparr>pi_client_connection_list := c1\<rparr> # rest'"
    using Cons.prems(2) one by (auto simp: cmap_def elim!: cbind_InrE)
  have inv: "proxy_inv T pool p" "list_all (proxy_inv T pool) rest" using Cons.prems(1) by simp_all
  then have c1: "conns_ok (pi_service_list p) T p1 c1" "pool \<le> p1"
    using accept_at_services_ok [OF _ _ one, of "pi_service_list p" T] by (auto simp: proxy_inv_def)
  then have "list_all (proxy_inv T p1) rest" using inv(2) by (auto simp: list_all_iff intro: proxy_inv_mono)
  from Cons.IH [OF this more] proxy_inv_conns [OF inv(1) c1(1)] c1(2)
  show ?case by (auto simp: res intro: proxy_inv_mono)
qed simp

lemma sweep_ok: "proxy_inv T pool p \<Longrightarrow> proxy_inv T pool (sweep_connections now p)"
  unfolding sweep_connections_def by (rule proxy_inv_conns) (auto simp: proxy_inv_def intro: conns_ok_filter)

lemma answer_status_typed: "connection_typed S T (answer_status json c) = connection_typed S T c"
  by (simp add: answer_status_def connection_typed_def connection_service_def con_ok_def)

lemma answer_status_id [simp]: "cc_id (answer_status json c) = cc_id c"
  by (simp add: answer_status_def)

lemma answer_json_ok: "proxy_inv T pool p \<Longrightarrow> proxy_inv T pool (answer_json json p)"
  unfolding answer_json_def
  by (rule proxy_inv_conns, assumption, rule conns_ok_map)
    (auto simp: proxy_inv_def conns_ok_def list_all_iff answer_status_typed)

lemma proxy_inv_tunnels: "proxy_inv T pool p \<Longrightarrow> st_id ` set T' = st_id ` set T \<Longrightarrow> proxy_inv T' pool p"
  by (auto simp: proxy_inv_def conns_ok_def list_all_iff intro: connection_typed_tunnels)

section \<open>The tunnels\<close>

lemma create_pipes_frame: "create_tunnel_pipes env t = Inr t' \<Longrightarrow> st_id t' = st_id t \<and> st_name t' = st_name t"
  by (auto simp: create_tunnel_pipes_def ssh_tunnel_close_pipes_def Let_def split: option.splits prod.splits elim!: cbind_InrE)

lemma reap_keeps: "reap_tunnel env t0 t = (running, t') \<Longrightarrow> st_id t' = st_id t \<and> st_name t' = st_name t"
  by (auto simp: reap_tunnel_def ssh_tunnel_close_pipes_def split: if_splits)

lemma check_tunnel_frame:
  assumes "check_ssh_tunnel env t = Inr (Parent t')"
  shows "st_id t' = st_id t \<and> st_name t' = st_name t"
proof -
  obtain x0 x1 x2 where tm: "pe_time env = (x0, x1, x2)" by (cases "pe_time env")
  obtain running t1 where r: "reap_tunnel env x0 t = (running, t1)" by fastforce
  show ?thesis
  proof (cases "tunnel_must_start x1 (st_mark t > 0) running t1")
    case False
    with assms reap_keeps [OF r] show ?thesis by (simp add: check_ssh_tunnel_def tm r)
  next
    case True
    then obtain t2 where t2: "create_tunnel_pipes env t1 = Inr t2"
      using assms by (auto simp: check_ssh_tunnel_def tm r elim: cbind_InrE)
    with True assms have "st_id t' = st_id t2 \<and> st_name t' = st_name t2"
      by (auto simp: check_ssh_tunnel_def tm r tunnel_child_def Let_def split: if_splits prod.splits)
    with create_pipes_frame [OF t2] reap_keeps [OF r] show ?thesis by simp
  qed
qed

definition tunnel_key :: "ssh_tunnel \<Rightarrow> nat \<times> string" where
  "tunnel_key t = (st_id t, st_name t)"

lemma sweep_tunnels_keys: "sweep_tunnels env g ts = Inr (Inr ts') \<Longrightarrow> map tunnel_key ts' = map tunnel_key ts"
proof (induction ts arbitrary: ts')
  case (Cons t ts)
  show ?case
  proof (cases "st_id t = ssh_tunnel_direct g \<or> st_id t = ssh_tunnel_null g")
    case True
    with Cons.prems obtain r where "sweep_tunnels env g ts = Inr r" "map_sum id ((#) t) r = Inr ts'"
      by (auto simp: cmap_def elim!: cbind_InrE)
    with Cons.IH show ?thesis by (cases r) auto
  next
    case False
    with Cons.prems obtain p where p: "check_ssh_tunnel (env (st_id t)) t = Inr p" by (auto elim: cbind_InrE)
    with Cons.prems False obtain t1 where t1: "p = Parent t1" by (cases p) auto
    with Cons.prems False p obtain r where r: "sweep_tunnels env g ts = Inr r" "map_sum id ((#) t1) r = Inr ts'"
      by (auto simp: cmap_def elim!: cbind_InrE)
    with Cons.IH check_tunnel_frame [OF p [unfolded t1]] show ?thesis by (cases r) (auto simp: tunnel_key_def)
  qed
qed simp

lemma check_ssh_tunnels_keys:
  assumes "check_ssh_tunnels env g proxies ts = Inr (Inr ts')"
  shows "map tunnel_key ts' = map tunnel_key ts"
proof -
  have "map tunnel_key (mark_tunnels proxies ts) = map tunnel_key ts"
    unfolding mark_tunnels_def fold_mark_proxies fold_mark_connection
    by (simp add: add_marks_def clear_marks_def tunnel_key_def)
  with sweep_tunnels_keys assms show ?thesis by (simp add: check_ssh_tunnels_def)
qed

section \<open>The invariant\<close>

definition server_ok :: "'c server_state \<Rightarrow> bool" where
  "server_ok s \<longleftrightarrow>
     distinct (map pi_name (ss_proxies s)) \<and> distinct (map st_name (ss_tunnels s)) \<and>
     list_all (proxy_inv (ss_tunnels s) (ss_id_pool s)) (ss_proxies s)"

lemma keys_names: "map tunnel_key ts' = map tunnel_key ts \<Longrightarrow> map st_name ts' = map st_name ts"
  by (drule arg_cong [where f = "map snd"]) (simp add: tunnel_key_def comp_def)

lemma keys_ids: "map tunnel_key ts' = map tunnel_key ts \<Longrightarrow> st_id ` set ts' = st_id ` set ts"
  by (drule arg_cong [where f = "\<lambda>xs. set (map fst xs)"]) (simp add: tunnel_key_def comp_def)

text \<open>A turn taken apart.\<close>

lemma server_events_obtain:
  assumes "server_events cf env s = Inr (Inr (proxies, tunnels, pool, en))"
  obtains pfd0 pfd en0 proxies0 en1 where
    "fill_pfd (sc_ulimit cf) (sc_msg_fd cf) (ss_proxies s) (ss_tunnels s) = Inr pfd0"
    "server_poll (te_polls env) (ss_errno s) pfd0 = Inr (pfd, en0)"
    "accept_connections (te_arrivals env) pfd (ss_proxies s) (ss_id_pool s) en0 = Inr (proxies0, pool, en1)"
    "en = closes_errno (te_closes env) (filter (loitered (te_now env)) (concat (map pi_client_connection_list proxies0))) en1"
    "proxies = map (sweep_connections (te_now env)) proxies0"
    "check_ssh_tunnels (te_policy env) (sc_globals cf) proxies (ss_tunnels s) = Inr (Inr tunnels)"
  using assms
  by (fastforce simp: server_events_def sweep_all_def Let_def cmap_def map_sum_def split: sum.splits if_splits
      elim!: cbind_InrE)

lemma server_turn_obtain:
  assumes "server_turn cf env s = Inr (Inr s')"
  obtains proxies en where
    "server_events cf env s = Inr (Inr (proxies, ss_tunnels s', ss_id_pool s', en))"
    "answer_requests (te_json env) (ss_json_size s) (sc_start_time cf) proxies (ss_tunnels s')
       = Inr (ss_proxies s', ss_json_size s')"
    "ss_errno s' = (if calls_behind (sc_globals cf) proxies (ss_tunnels s) (ss_logs s) then te_errno env en else en)"
  using assms
  by (fastforce simp: server_turn_def cmap_def split: sum.splits elim!: cbind_InrE)

lemma answer_requests_ok:
  assumes "answer_requests env d st proxies T = Inr (proxies', d')" and "list_all (proxy_inv T pool) proxies"
  shows "list_all (proxy_inv T pool) proxies' \<and> map pi_name proxies' = map pi_name proxies \<and>
    map pi_service_list proxies' = map pi_service_list proxies"
proof -
  have *: "list_all (proxy_inv T pool) (map (answer_json j) proxies) \<and>
      map pi_name (map (answer_json j) proxies) = map pi_name proxies \<and>
      map pi_service_list (map (answer_json j) proxies) = map pi_service_list proxies" for j
    using assms(2) by (auto simp: list_all_iff answer_json_ok) (simp_all add: answer_json_def)
  show ?thesis
  proof (cases "list_ex (\<lambda>p. list_ex wants_json (pi_client_connection_list p)) proxies")
    case True
    with assms(1) obtain j where "proxies' = map (answer_json j) proxies"
      by (auto simp: answer_requests_def cmap_def elim!: cbind_InrE)
    with * [of j] show ?thesis by (simp only:)
  next
    case False
    with assms show ?thesis by (simp add: answer_requests_def)
  qed
qed

text \<open>The invariant on the parts of the state.\<close>

definition instances_ok :: "proxy_instance list \<Rightarrow> ssh_tunnel list \<Rightarrow> nat \<Rightarrow> bool" where
  "instances_ok proxies tunnels pool \<longleftrightarrow>
     distinct (map pi_name proxies) \<and> distinct (map st_name tunnels) \<and> list_all (proxy_inv tunnels pool) proxies"

lemma server_ok_instances: "server_ok s \<longleftrightarrow> instances_ok (ss_proxies s) (ss_tunnels s) (ss_id_pool s)"
  by (simp add: server_ok_def instances_ok_def)

lemma server_events_ok:
  assumes "server_ok s" and "server_events cf env s = Inr (Inr (proxies, tunnels, pool, en))"
  shows "instances_ok proxies tunnels pool"
  using assms(2)
proof (rule server_events_obtain)
  fix pfd0 pfd en0 proxies0 en1
  assume acc: "accept_connections (te_arrivals env) pfd (ss_proxies s) (ss_id_pool s) en0 = Inr (proxies0, pool, en1)"
    and sweep: "proxies = map (sweep_connections (te_now env)) proxies0"
    and check: "check_ssh_tunnels (te_policy env) (sc_globals cf) proxies (ss_tunnels s) = Inr (Inr tunnels)"
  note keys = check_ssh_tunnels_keys [OF check]
  have inv: "list_all (proxy_inv (ss_tunnels s) pool) proxies0" "map pi_name proxies0 = map pi_name (ss_proxies s)"
    using accept_connections_ok [OF _ acc, of "ss_tunnels s"] assms(1) by (auto simp: server_ok_def)
  have "proxy_inv tunnels pool (sweep_connections (te_now env) p)" if "proxy_inv (ss_tunnels s) pool p" for p
    by (rule sweep_ok, rule proxy_inv_tunnels [OF that keys_ids [OF keys]])
  with inv(1) have "list_all (proxy_inv tunnels pool) proxies" by (simp add: list_all_iff sweep)
  moreover have "map pi_name proxies = map pi_name (ss_proxies s)"
    using inv(2) by (simp add: sweep sweep_connections_def o_def)
  ultimately show ?thesis using keys_names [OF keys] assms(1) by (simp add: server_ok_def instances_ok_def)
qed

lemma server_turn_ok:
  assumes "server_ok s" and "server_turn cf env s = Inr (Inr s')"
  shows "server_ok s'"
proof -
  obtain proxies en where ev: "server_events cf env s = Inr (Inr (proxies, ss_tunnels s', ss_id_pool s', en))"
    and ans: "answer_requests (te_json env) (ss_json_size s) (sc_start_time cf) proxies (ss_tunnels s')
       = Inr (ss_proxies s', ss_json_size s')"
    using server_turn_obtain [OF assms(2)] by metis
  from server_events_ok [OF assms(1) ev] answer_requests_ok [OF ans] show ?thesis
    by (auto simp: server_ok_instances instances_ok_def)
qed

section \<open>Turns and threads\<close>

text \<open>
  Between the calls of a turn, and during it, the threads change their connections. A thread
  writes the fields of its own connection only, and leaves it well-formed: its number, a
  service and a tunnel that exist.
\<close>

definition update_connection :: "nat \<Rightarrow> (client_connection \<Rightarrow> client_connection) \<Rightarrow> proxy_instance \<Rightarrow> proxy_instance" where
  "update_connection k f p =
     p\<lparr>pi_client_connection_list := map (\<lambda>c. if cc_id c = k then f c else c) (pi_client_connection_list p)\<rparr>"

definition thread_allowed :: "nat \<Rightarrow> (client_connection \<Rightarrow> client_connection) \<Rightarrow> 'c server_state \<Rightarrow> bool" where
  "thread_allowed k f s \<longleftrightarrow>
     (\<forall>p \<in> set (ss_proxies s). \<forall>c \<in> set (pi_client_connection_list p). cc_id c = k \<longrightarrow>
        cc_id (f c) = k \<and> connection_typed (pi_service_list p) (ss_tunnels s) (f c))"

inductive server_step :: "server_config \<Rightarrow> 'c server_state \<Rightarrow> 'c server_state \<Rightarrow> bool" for cf where
  turn: "server_turn cf env s = Inr (Inr s') \<Longrightarrow> server_step cf s s'"
| thread: "thread_allowed k f s \<Longrightarrow>
    server_step cf s (s\<lparr>ss_proxies := map (update_connection k f) (ss_proxies s)\<rparr>)"

lemma thread_step_ok:
  assumes "server_ok s" and "thread_allowed k f s"
  shows "server_ok (s\<lparr>ss_proxies := map (update_connection k f) (ss_proxies s)\<rparr>)"
proof -
  have "proxy_inv (ss_tunnels s) (ss_id_pool s) (update_connection k f p)" if p: "p \<in> set (ss_proxies s)" for p
  proof -
    have inv: "proxy_inv (ss_tunnels s) (ss_id_pool s) p" using assms(1) p by (simp add: server_ok_def list_all_iff)
    then have "conns_ok (pi_service_list p) (ss_tunnels s) (ss_id_pool s)
        (map (\<lambda>c. if cc_id c = k then f c else c) (pi_client_connection_list p))"
      using assms(2) p by (intro conns_ok_map) (auto simp: proxy_inv_def thread_allowed_def conns_ok_def list_all_iff)
    from proxy_inv_conns [OF inv this] show ?thesis by (simp add: update_connection_def)
  qed
  with assms(1) show ?thesis by (auto simp: server_ok_def list_all_iff o_def) (simp add: update_connection_def)
qed

lemma server_step_ok: "server_step cf s s' \<Longrightarrow> server_ok s \<Longrightarrow> server_ok s'"
  by (induction rule: server_step.induct) (auto intro: server_turn_ok thread_step_ok)

lemma server_steps_ok: "(server_step cf)\<^sup>*\<^sup>* s s' \<Longrightarrow> server_ok s \<Longrightarrow> server_ok s'"
  by (induction rule: rtranclp_induct) (auto intro: server_step_ok)

section \<open>The start\<close>

text \<open>What the configuration promises: names and numbers are unique, and nobody is connected.\<close>

definition configured :: "'c server_state \<Rightarrow> bool" where
  "configured s \<longleftrightarrow>
     distinct (map pi_name (ss_proxies s)) \<and> distinct (map st_name (ss_tunnels s)) \<and>
     list_all (\<lambda>p. log_level_str (lc_level (pi_log p)) \<noteq> None \<and> list_all service_typed (pi_service_list p) \<and>
       ids_distinct (map (srv_id \<circ> any_service_base) (pi_service_list p)) \<and> pi_client_connection_list p = [])
       (ss_proxies s)"

lemma map_cres_all2: "map_cres f xs = Inr ys \<Longrightarrow> list_all2 (\<lambda>x y. f x = Inr y) xs ys"
  by (induction xs arbitrary: ys) (auto simp: cmap_def elim!: cbind_InrE)

lemma listen_any_frame:
  "listen_any env a = Inr b \<Longrightarrow>
     srv_id (any_service_base b) = srv_id (any_service_base a) \<and> service_typed b = service_typed a \<and>
     0 \<le> srv_fd (any_service_base b)"
  by (cases a)
    (auto simp: listen_any_def cmap_def listen_socket_def Let_def service_typed_def service.truncate_def
      split: if_splits option.splits elim!: cbind_InrE)

lemma listen_all_ok:
  assumes "listen_all env proxies = Inr proxies'"
    and "list_all (\<lambda>p. log_level_str (lc_level (pi_log p)) \<noteq> None \<and> list_all service_typed (pi_service_list p) \<and>
       ids_distinct (map (srv_id \<circ> any_service_base) (pi_service_list p)) \<and> pi_client_connection_list p = []) proxies"
  shows "map pi_name proxies' = map pi_name proxies \<and> list_all (proxy_inv T pool) proxies'"
proof -
  have one: "pi_name p' = pi_name p \<and> proxy_inv T pool p'"
    if run: "cmap (\<lambda>services. p\<lparr>pi_service_list := services\<rparr>) (map_cres (listen_any env) (pi_service_list p)) = Inr p'"
      and p: "p \<in> set proxies" for p p'
  proof -
    obtain services where services: "map_cres (listen_any env) (pi_service_list p) = Inr services"
      "p' = p\<lparr>pi_service_list := services\<rparr>"
      using run by (auto simp: cmap_def elim: cbind_InrE)
    have all2: "list_all2 (\<lambda>a b. listen_any env a = Inr b) (pi_service_list p) services"
      by (rule map_cres_all2 [OF services(1)])
    then have "list_all2 (\<lambda>a b. srv_id (any_service_base b) = srv_id (any_service_base a) \<and>
        service_typed b = service_typed a \<and> 0 \<le> srv_fd (any_service_base b)) (pi_service_list p) services"
      by (rule list_all2_mono) (rule listen_any_frame)
    then have "map (srv_id \<circ> any_service_base) services = map (srv_id \<circ> any_service_base) (pi_service_list p) \<and>
        (list_all service_typed services = list_all service_typed (pi_service_list p)) \<and>
        list_all (\<lambda>b. 0 \<le> srv_fd (any_service_base b)) services"
      by (induction rule: list_all2_induct) simp_all
    moreover have "log_level_str (lc_level (pi_log p)) \<noteq> None" "list_all service_typed (pi_service_list p)"
      "ids_distinct (map (srv_id \<circ> any_service_base) (pi_service_list p))" "pi_client_connection_list p = []"
      using assms(2) p by (simp_all add: list_all_iff)
    ultimately show ?thesis by (simp add: services(2) proxy_inv_def conns_ok_def)
  qed
  have "list_all2 (\<lambda>p p'. cmap (\<lambda>services. p\<lparr>pi_service_list := services\<rparr>) (map_cres (listen_any env) (pi_service_list p))
      = Inr p') proxies proxies'"
    using map_cres_all2 [OF assms(1) [unfolded listen_all_def]] .
  then have "list_all2 (\<lambda>p p'. pi_name p' = pi_name p \<and> proxy_inv T pool p') proxies proxies'"
    by (rule list.rel_mono_strong) (use one in blast)
  then show ?thesis by (induction rule: list_all2_induct) simp_all
qed

lemma server_start_ok:
  assumes "server_start senv mc g s = Inr (cf, s')" and "configured s"
  shows "server_ok s'"
proof -
  obtain proxies where "listen_all (se_listen senv) (ss_proxies s) = Inr proxies" "s' = s\<lparr>ss_proxies := proxies\<rparr>"
    using assms(1) by (auto simp: server_start_def split: if_splits option.splits prod.splits elim!: cbind_InrE)
  with listen_all_ok [OF this(1)] assms(2) show ?thesis by (auto simp: configured_def server_ok_def)
qed

text \<open>
  The state of the main thread stays well-formed for ever. Started on a configuration with
  unique names and numbers, through any number of turns and any interleaving with what the
  threads do to their own connections: names of instances and tunnels and numbers of
  connections stay unique, every connection belongs to a service of its own instance, every
  tunnel a connection points to exists, and every service listens.
\<close>

theorem server_stays_well_formed:
  assumes "server_start senv mc g s0 = Inr (cf, s1)" and "configured s0" and "(server_step cf)\<^sup>*\<^sup>* s1 s"
  shows "distinct (map pi_name (ss_proxies s)) \<and> distinct (map st_name (ss_tunnels s)) \<and>
    list_all (\<lambda>p. distinct (map cc_id (pi_client_connection_list p)) \<and>
                  list_all (\<lambda>a. service_typed a \<and> 0 \<le> srv_fd (any_service_base a)) (pi_service_list p) \<and>
                  list_all (connection_typed (pi_service_list p) (ss_tunnels s)) (pi_client_connection_list p))
      (ss_proxies s)"
  using server_steps_ok [OF assms(3) server_start_ok [OF assms(1,2)]]
  by (auto simp: server_ok_def list_all_iff proxy_inv_def conns_ok_def)

section \<open>Requests for the status document\<close>

lemma accept_at_services_keeps:
  "accept_at_services env pfd services cons pool en = Inr (cons', pool', en') \<Longrightarrow> set cons \<subseteq> set cons'"
proof (induction services arbitrary: cons pool en)
  case (Cons a services)
  obtain c1 p1 e1 where one: "accept_at_service (env (srv_id (any_service_base a))) pfd a cons pool en = Inr (c1, p1, e1)"
    and rest: "accept_at_services env pfd services c1 p1 e1 = Inr (cons', pool', en')"
    using Cons.prems by (auto elim: cbind_InrE)
  have "set cons \<subseteq> set c1"
    using one by (auto simp: accept_at_service_def Let_def cmap_def split: if_splits option.splits elim!: cbind_InrE)
  with Cons.IH [OF rest] show ?case by blast
qed simp

lemma accept_connections_keeps:
  "accept_connections env pfd proxies pool en = Inr (proxies', pool', en') \<Longrightarrow> p \<in> set proxies \<Longrightarrow>
     \<exists>p' \<in> set proxies'. pi_name p' = pi_name p \<and> set (pi_client_connection_list p) \<subseteq> set (pi_client_connection_list p')"
proof (induction proxies arbitrary: pool en proxies')
  case (Cons q rest)
  obtain c1 p1 e1 where one: "accept_at_services env pfd (pi_service_list q) (pi_client_connection_list q) pool en = Inr (c1, p1, e1)"
    using Cons.prems(1) by (auto elim: cbind_InrE)
  obtain rest' where more: "accept_connections env pfd rest p1 e1 = Inr (rest', pool', en')"
    and res: "proxies' = q\<lparr>pi_client_connection_list := c1\<rparr> # rest'"
    using Cons.prems(1) one by (auto simp: cmap_def elim!: cbind_InrE)
  show ?case
  proof (cases "p = q")
    case True
    with accept_at_services_keeps [OF one] show ?thesis by (simp add: res)
  next
    case False
    with Cons.IH [OF more] Cons.prems(2) show ?thesis by (auto simp: res)
  qed
qed simp

text \<open>A connection that has not lain around too long is still there when the requests are answered.\<close>

lemma server_events_keeps:
  assumes "server_events cf env s = Inr (Inr (proxies, tunnels, pool, en))"
    and "p \<in> set (ss_proxies s)" and "c \<in> set (pi_client_connection_list p)" and "\<not> loitered (te_now env) c"
  shows "\<exists>p' \<in> set proxies. pi_name p' = pi_name p \<and> c \<in> set (pi_client_connection_list p')"
  using assms(1)
proof (rule server_events_obtain)
  fix pfd0 pfd en0 proxies0 en1
  assume acc: "accept_connections (te_arrivals env) pfd (ss_proxies s) (ss_id_pool s) en0 = Inr (proxies0, pool, en1)"
    and sweep: "proxies = map (sweep_connections (te_now env)) proxies0"
  obtain q where "q \<in> set proxies0" "pi_name q = pi_name p" "c \<in> set (pi_client_connection_list q)"
    using accept_connections_keeps [OF acc assms(2)] assms(3) by blast
  with assms(4) show ?thesis
    by (intro bexI [of _ "sweep_connections (te_now env) q"]) (simp_all add: sweep sweep_connections_def)
qed

lemma proxy_inv_typed: "proxy_inv T pool p \<Longrightarrow> proxy_typed T p"
  by (simp add: proxy_inv_def proxy_typed_def conns_ok_def)

lemma instances_keys:
  assumes "instances_ok proxies tunnels pool" and "pool < 2 ^ 64"
  shows "state_keys_ok proxies tunnels"
proof -
  have "ids_distinct (map (srv_id \<circ> any_service_base) (pi_service_list p)) \<and> ids_distinct (map cc_id (pi_client_connection_list p))"
    if "proxy_inv tunnels pool p" for p
    using that assms(2) by (fastforce simp: proxy_inv_def conns_ok_def ids_distinct_def list_all_iff)
  with assms(1) show ?thesis by (auto simp: instances_ok_def state_keys_ok_def list_all_iff)
qed

definition json_memory :: "json_env \<Rightarrow> bool" where
  "json_memory env \<longleftrightarrow> je_malloc env \<and> (\<forall>l n. je_realloc env l n)"

lemma answer_requests_prints:
  assumes ok: "instances_ok proxies tunnels pool" and mem: "json_memory env" and size: "0 < d" "d \<le> INT_MAX"
    and len: "length (json_text (status_json env proxies st tunnels)) + 10 < 2 ^ 30"
  shows "\<exists>d'. answer_requests env d st proxies tunnels =
    Inr (map (answer_json (Some (json_text (status_json env proxies st tunnels)))) proxies, d')"
proof (cases "list_ex (\<lambda>p. list_ex wants_json (pi_client_connection_list p)) proxies")
  case True
  have "list_all (proxy_typed tunnels) proxies"
    using ok by (auto simp: instances_ok_def list_all_iff intro: proxy_inv_typed)
  from build_json_emits [OF _ _ size this len] mem obtain n where
    "build_json env d proxies st tunnels = Inr (Some (json_text (status_json env proxies st tunnels)), n)"
    by (auto simp: json_memory_def)
  with True show ?thesis by (simp add: answer_requests_def)
next
  case False
  have "answer_json j p = p" if "p \<in> set proxies" for j p
  proof -
    have "map (\<lambda>con. if wants_json con then answer_status j con else con) (pi_client_connection_list p) =
        pi_client_connection_list p"
      using False that by (intro map_idI) (auto simp: list_ex_iff)
    then show ?thesis by (simp add: answer_json_def)
  qed
  then have "map (answer_json (Some (json_text (status_json env proxies st tunnels)))) proxies = proxies"
    by (intro map_idI)
  with False show ?thesis by (simp add: answer_requests_def)
qed

text \<open>
  C16: a request for the status document is answered in the turn that sees it. In a well-formed
  state, with memory and logs that can be rotated, a turn that comes as far as the requests
  completes and leaves none open: every connection that asked and is not swept away has the
  document ready, one and the same text for all, which is the document of the instances and
  tunnels at that moment; it is typed by the schema, and it is read back as that document
  exactly when no string in it needs an escape.
\<close>

theorem status_requests_answered:
  assumes "server_ok s" and "server_events cf env s = Inr (Inr (proxies, tunnels, pool, en))"
    and "rotate_logs (te_rename_denied env) (ss_files s) (ss_logs s) = Inr rotated"
    and "json_memory (te_json env)" and "0 < ss_json_size s" and "ss_json_size s \<le> INT_MAX" and "pool < 2 ^ 64"
    and "length (json_text (status_json (te_json env) proxies (sc_start_time cf) tunnels)) + 10 < 2 ^ 30"
  shows "let doc = status_json (te_json env) proxies (sc_start_time cf) tunnels in
    conforms status_schema doc \<and> (read_json (json_text doc) = Some doc \<longleftrightarrow> json_plain doc) \<and>
    (\<exists>s'. server_turn cf env s = Inr (Inr s') \<and>
      (\<forall>p \<in> set (ss_proxies s'). \<forall>c \<in> set (pi_client_connection_list p). \<not> wants_json c) \<and>
      (\<forall>p \<in> set (ss_proxies s). \<forall>c \<in> set (pi_client_connection_list p). wants_json c \<and> \<not> loitered (te_now env) c \<longrightarrow>
         (\<exists>p' \<in> set (ss_proxies s'). pi_name p' = pi_name p \<and>
            answer_status (Some (json_text doc)) c \<in> set (pi_client_connection_list p'))))"
proof -
  let ?doc = "status_json (te_json env) proxies (sc_start_time cf) tunnels"
  have ok: "instances_ok proxies tunnels pool" by (rule server_events_ok [OF assms(1,2)])
  obtain d' where ans: "answer_requests (te_json env) (ss_json_size s) (sc_start_time cf) proxies tunnels =
      Inr (map (answer_json (Some (json_text ?doc))) proxies, d')"
    using answer_requests_prints [OF ok assms(4-6,8)] by blast
  obtain files logs where "rotated = (files, logs)" by fastforce
  with assms(2,3) ans obtain s' where s': "server_turn cf env s = Inr (Inr s')"
    and res: "ss_proxies s' = map (answer_json (Some (json_text ?doc))) proxies"
    by (simp add: server_turn_def)
  have "\<not> wants_json (answer_status j c)" for c j
    by (simp add: wants_json_def answer_status_def)
  then have none: "\<forall>p \<in> set (ss_proxies s'). \<forall>c \<in> set (pi_client_connection_list p). \<not> wants_json c"
    by (auto simp: res answer_json_def)
  have "\<exists>p' \<in> set (ss_proxies s'). pi_name p' = pi_name p \<and>
      answer_status (Some (json_text ?doc)) c \<in> set (pi_client_connection_list p')"
    if c: "p \<in> set (ss_proxies s)" "c \<in> set (pi_client_connection_list p)" "wants_json c" "\<not> loitered (te_now env) c" for p c
  proof -
    obtain q where q: "q \<in> set proxies" "pi_name q = pi_name p" "c \<in> set (pi_client_connection_list q)"
      using server_events_keeps [OF assms(2) c(1,2,4)] by blast
    then have "answer_status (Some (json_text ?doc)) c \<in> set (pi_client_connection_list (answer_json (Some (json_text ?doc)) q))"
      using c(3) by (force simp: answer_json_def)
    with q show ?thesis by (intro bexI [of _ "answer_json (Some (json_text ?doc)) q"]) (simp_all add: res answer_json_def)
  qed
  with none s' status_json_typed [OF instances_keys [OF ok assms(7)]] show ?thesis
    unfolding Let_def read_json_iff by blast
qed

section \<open>Every service is found in the table\<close>

lemma length_tunnel_fds: "length (tunnel_fds ts) = 2 * length ts"
  by (induction ts) (simp_all add: tunnel_fds_def)

lemma service_fds_cong:
  assumes "map pi_service_list ps = map pi_service_list qs"
  shows "service_fds ps = service_fds qs"
proof -
  have "service_fds ps = concat (map (map (srv_fd \<circ> any_service_base)) (map pi_service_list ps))" for ps
    by (simp add: service_fds_def comp_def)
  with assms show ?thesis by (simp only:)
qed

lemma answer_requests_services:
  assumes "answer_requests env d st proxies T = Inr (proxies', d')"
  shows "map pi_service_list proxies' = map pi_service_list proxies"
  using assms
  by (auto simp: answer_requests_def cmap_def answer_json_def split: if_splits elim!: cbind_InrE)

lemma polled_table:
  assumes "fill_pfd ulimit msg_fd proxies tunnels = Inr pfd0" and "server_poll polls en pfd0 = Inr (pfd, en')"
  shows "pfd_fd ` set pfd = set (all_fds msg_fd proxies tunnels)"
proof -
  have "map pfd_fd pfd = map pfd_fd pfd0" by (rule server_poll_fds [OF assms(2)])
  then have "set (map pfd_fd pfd) = set (map pfd_fd pfd0)" by (simp only:)
  then show ?thesis using assms(1) by (auto simp: fill_pfd_eq pfd_entry_def image_image split: if_splits)
qed

lemma accept_loop_defined: "accept_loop es en \<noteq> Inl UB"
  by (induction es en rule: accept_loop.induct) auto

lemma accept_at_service_defined:
  assumes "0 \<le> srv_fd (any_service_base a)" and "srv_fd (any_service_base a) \<in> pfd_fd ` set pfd"
  shows "accept_at_service env pfd a cons pool en \<noteq> Inl UB"
proof -
  obtain ev where ev: "revents_at pfd (find_pfd pfd (srv_fd (any_service_base a))) = Inr ev"
    using find_pfd_found [OF assms] by blast
  have "accept_connection env srv pool en \<noteq> Inl UB" for srv
    using accept_loop_defined
    by (auto simp: accept_connection_def new_client_connection_def Let_def cmap_def cbind_eq_Inl split: option.splits prod.splits)
  moreover have "launch_thread th con en \<noteq> Inl UB" for th con en
    by (simp add: launch_thread_def Let_def split: prod.split)
  ultimately show ?thesis
    by (auto simp: accept_at_service_def ev Let_def cmap_def cbind_eq_Inl split: option.splits if_splits)
qed

lemma accept_at_services_defined:
  "\<forall>a \<in> set services. 0 \<le> srv_fd (any_service_base a) \<and> srv_fd (any_service_base a) \<in> pfd_fd ` set pfd \<Longrightarrow>
     accept_at_services env pfd services cons pool en \<noteq> Inl UB"
  by (induction services arbitrary: cons pool en) (auto simp: cbind_eq_Inl accept_at_service_defined)

lemma accept_connections_defined:
  "\<forall>p \<in> set proxies. \<forall>a \<in> set (pi_service_list p).
     0 \<le> srv_fd (any_service_base a) \<and> srv_fd (any_service_base a) \<in> pfd_fd ` set pfd \<Longrightarrow>
     accept_connections env pfd proxies pool en \<noteq> Inl UB"
  by (induction proxies arbitrary: pool en) (auto simp: cmap_def cbind_eq_Inl accept_at_services_defined)

text \<open>
  C26: the table of descriptors is used within its bounds. A turn with more descriptors than the
  limit of the configuration (one for the messages of the threads, one for each service, two
  for each tunnel) ends the process with code 95 before it waits; otherwise the table holds
  them all, and although the test of the index compares the wrong variable, the accepting
  phase of a well-formed server never reads outside the table.
\<close>

theorem server_table_in_bounds:
  assumes "server_ok s"
  shows "if int (1 + length (service_fds (ss_proxies s)) + 2 * length (ss_tunnels s)) > sc_ulimit cf
         then server_turn cf env s = Inl (Exit 95)
         else \<exists>pfd0. fill_pfd (sc_ulimit cf) (sc_msg_fd cf) (ss_proxies s) (ss_tunnels s) = Inr pfd0 \<and>
           int (length pfd0) \<le> sc_ulimit cf \<and>
           (\<forall>pfd en. server_poll (te_polls env) (ss_errno s) pfd0 = Inr (pfd, en) \<longrightarrow>
              accept_connections (te_arrivals env) pfd (ss_proxies s) (ss_id_pool s) en \<noteq> Inl UB)"
proof -
  let ?fds = "all_fds (sc_msg_fd cf) (ss_proxies s) (ss_tunnels s)"
  have len: "length ?fds = 1 + length (service_fds (ss_proxies s)) + 2 * length (ss_tunnels s)"
    by (simp add: all_fds_def length_tunnel_fds)
  show ?thesis
  proof (cases "int (length ?fds) > sc_ulimit cf")
    case True
    with len show ?thesis by (simp add: server_turn_def server_events_def fill_pfd_eq)
  next
    case False
    have "accept_connections (te_arrivals env) pfd (ss_proxies s) (ss_id_pool s) en \<noteq> Inl UB"
      if "server_poll (te_polls env) (ss_errno s) (map pfd_entry ?fds) = Inr (pfd, en)" for pfd en
    proof (rule accept_connections_defined)
      have "fill_pfd (sc_ulimit cf) (sc_msg_fd cf) (ss_proxies s) (ss_tunnels s) = Inr (map pfd_entry ?fds)"
        using False by (simp add: fill_pfd_eq)
      note table = polled_table [OF this that]
      show "\<forall>p \<in> set (ss_proxies s). \<forall>a \<in> set (pi_service_list p).
          0 \<le> srv_fd (any_service_base a) \<and> srv_fd (any_service_base a) \<in> pfd_fd ` set pfd"
        using assms unfolding table
        by (fastforce simp: server_ok_def list_all_iff proxy_inv_def all_fds_def service_fds_def)
    qed
    with False len show ?thesis by (simp add: fill_pfd_eq)
  qed
qed

section \<open>The thread limit\<close>

fun poll_succeeds :: "poll_answer \<Rightarrow> bool" where
  "poll_succeeds (Poll_ready ev) = True"
| "poll_succeeds (Poll_failed e) = False"

lemma poll_loop_stuck: "list_all poll_succeeds polls \<Longrightarrow> poll_loop polls EAGAIN pfd = Inl Hang"
  by (induction polls EAGAIN pfd rule: poll_loop.induct) (auto simp: Let_def)

text \<open>One service at which a thread cannot be started.\<close>

lemma launch_thread_limit:
  assumes "th_malloc th" and "th_attr_init th = 0" and "th_setdetachstate th = 0" and "th_create th = EAGAIN"
    and "th_destroy th = 0"
  shows "\<exists>con'. launch_thread th con en = Inr (con', EAGAIN)"
  using assms by (simp add: launch_thread_def)

definition arrival_ready :: "fd_events \<Rightarrow> bool" where
  "arrival_ready ev \<longleftrightarrow> pv_rdnorm ev \<and> \<not> pv_err ev \<and> \<not> pv_hup ev \<and> \<not> pv_nval ev"

definition thread_limit :: "arrival_env \<Rightarrow> bool" where
  "thread_limit env \<longleftrightarrow>
     (\<exists>fd addr rest. ar_accept env = Accepted fd addr # rest) \<and> ar_mem env \<noteq> None \<and>
     th_malloc (ar_thread env) \<and> th_attr_init (ar_thread env) = 0 \<and> th_setdetachstate (ar_thread env) = 0 \<and>
     th_create (ar_thread env) = EAGAIN \<and> th_destroy (ar_thread env) = 0"

lemma accept_limit_errno:
  assumes "thread_limit env" and "revents_at pfd (find_pfd pfd (srv_fd (any_service_base a))) = Inr ev"
    and "0 \<le> find_pfd pfd (srv_fd (any_service_base a))" and "arrival_ready ev"
  shows "\<exists>cons' pool'. accept_at_service env pfd a cons pool en = Inr (cons', pool', EAGAIN)"
proof -
  obtain fd addr rest where acc: "ar_accept env = Accepted fd addr # rest" using assms(1) by (auto simp: thread_limit_def)
  obtain con0 pool' where "new_client_connection (ar_mem env) pool (ar_now env) = Inr (con0, pool')"
    using assms(1) by (auto simp: thread_limit_def new_client_connection_def Let_def)
  with acc obtain con where "accept_connection env (any_service_base a) pool en = Inr (Some con, pool', en)"
    by (simp add: accept_connection_def)
  moreover obtain con' where "launch_thread (ar_thread env) con en = Inr (con', EAGAIN)"
    using launch_thread_limit assms(1) by (metis thread_limit_def)
  ultimately show ?thesis using assms(2-4) by (simp add: accept_at_service_def arrival_ready_def)
qed

text \<open>
  A service at which a connection comes in that gets no thread, and one at which the accepting
  phase leaves \<open>errno\<close> alone once it is \<open>EAGAIN\<close>: nobody is there, or \<open>accept\<close> succeeds at the first
  call and the thread starts (or meets the limit as well).
\<close>

definition thread_refused :: "(nat \<Rightarrow> arrival_env) \<Rightarrow> pollfd list \<Rightarrow> any_service \<Rightarrow> bool" where
  "thread_refused env pfd a \<longleftrightarrow>
     (let i = find_pfd pfd (srv_fd (any_service_base a))
      in 0 \<le> i \<and> (case revents_at pfd i of Inl _ \<Rightarrow> False | Inr ev \<Rightarrow> arrival_ready ev) \<and>
         thread_limit (env (srv_id (any_service_base a))))"

definition calm_arrival :: "arrival_env \<Rightarrow> bool" where
  "calm_arrival env \<longleftrightarrow>
     (\<exists>fd addr rest. ar_accept env = Accepted fd addr # rest) \<and> ar_mem env \<noteq> None \<and>
     th_malloc (ar_thread env) \<and> th_attr_init (ar_thread env) = 0 \<and> th_setdetachstate (ar_thread env) = 0 \<and>
     th_create (ar_thread env) \<in> {0, EAGAIN} \<and> th_destroy (ar_thread env) = 0"

definition passed_calmly :: "(nat \<Rightarrow> arrival_env) \<Rightarrow> pollfd list \<Rightarrow> any_service \<Rightarrow> bool" where
  "passed_calmly env pfd a \<longleftrightarrow>
     (case revents_at pfd (find_pfd pfd (srv_fd (any_service_base a))) of
        Inl _ \<Rightarrow> False
      | Inr ev \<Rightarrow> \<not> (pv_pri ev \<or> pv_rdband ev \<or> pv_rdnorm ev) \<or> calm_arrival (env (srv_id (any_service_base a))))"

lemma refused_errno:
  assumes "thread_refused env pfd a"
    and "accept_at_service (env (srv_id (any_service_base a))) pfd a cons pool en = Inr (cons', pool', en')"
  shows "en' = EAGAIN"
  using accept_limit_errno [of "env (srv_id (any_service_base a))" pfd a _ cons pool en] assms
  by (fastforce simp: thread_refused_def Let_def split: sum.splits)

lemma passed_errno:
  assumes "passed_calmly env pfd a"
    and "accept_at_service (env (srv_id (any_service_base a))) pfd a cons pool EAGAIN = Inr (cons', pool', en')"
  shows "en' = EAGAIN"
proof -
  let ?env = "env (srv_id (any_service_base a))"
  obtain ev where ev: "revents_at pfd (find_pfd pfd (srv_fd (any_service_base a))) = Inr ev"
    "\<not> (pv_pri ev \<or> pv_rdband ev \<or> pv_rdnorm ev) \<or> calm_arrival ?env"
    using assms(1) by (auto simp: passed_calmly_def split: sum.splits)
  show ?thesis
  proof (cases "pv_pri ev \<or> pv_rdband ev \<or> pv_rdnorm ev")
    case False
    with assms(2) ev(1) show ?thesis by (auto simp: accept_at_service_def Let_def split: if_splits)
  next
    case True
    with ev(2) obtain fd addr rest where calm: "ar_accept ?env = Accepted fd addr # rest" "calm_arrival ?env"
      by (auto simp: calm_arrival_def)
    obtain con0 pool1 where "new_client_connection (ar_mem ?env) pool (ar_now ?env) = Inr (con0, pool1)"
      using calm(2) by (auto simp: calm_arrival_def new_client_connection_def Let_def)
    with calm(1) obtain con where "accept_connection ?env (any_service_base a) pool EAGAIN = Inr (Some con, pool1, EAGAIN)"
      by (simp add: accept_connection_def)
    with assms(2) ev(1) calm(2) show ?thesis
      by (auto simp: accept_at_service_def Let_def launch_thread_def calm_arrival_def cmap_def split: if_splits elim!: cbind_InrE)
  qed
qed

lemma passed_errnos:
  "list_all (passed_calmly env pfd) services \<Longrightarrow>
     accept_at_services env pfd services cons pool EAGAIN = Inr (cons', pool', en') \<Longrightarrow> en' = EAGAIN"
proof (induction services arbitrary: cons pool)
  case (Cons a services)
  obtain c1 p1 e1 where one: "accept_at_service (env (srv_id (any_service_base a))) pfd a cons pool EAGAIN = Inr (c1, p1, e1)"
    and rest: "accept_at_services env pfd services c1 p1 e1 = Inr (cons', pool', en')"
    using Cons.prems(2) by (auto elim: cbind_InrE)
  have "e1 = EAGAIN" using passed_errno [where env = env, OF _ one] Cons.prems(1) by simp
  with Cons rest show ?case by simp
qed simp

lemma refused_errnos:
  assumes "thread_refused env pfd a" and "list_all (passed_calmly env pfd) services2"
  shows "accept_at_services env pfd (services1 @ a # services2) cons pool en = Inr (cons', pool', en') \<Longrightarrow> en' = EAGAIN"
proof (induction services1 arbitrary: cons pool en)
  case Nil
  then obtain c1 p1 e1 where "accept_at_service (env (srv_id (any_service_base a))) pfd a cons pool en = Inr (c1, p1, e1)"
    "accept_at_services env pfd services2 c1 p1 e1 = Inr (cons', pool', en')" by (auto elim: cbind_InrE)
  with refused_errno [OF assms(1)] passed_errnos [OF assms(2)] show ?case by metis
qed (auto elim: cbind_InrE)

lemma passed_instances:
  "list_all (passed_calmly env pfd) (concat (map pi_service_list proxies)) \<Longrightarrow>
     accept_connections env pfd proxies pool EAGAIN = Inr (proxies', pool', en') \<Longrightarrow> en' = EAGAIN"
proof (induction proxies arbitrary: pool proxies')
  case (Cons p rest)
  obtain c1 p1 e1 rest' where
    one: "accept_at_services env pfd (pi_service_list p) (pi_client_connection_list p) pool EAGAIN = Inr (c1, p1, e1)"
    and rest: "accept_connections env pfd rest p1 e1 = Inr (rest', pool', en')"
    using Cons.prems(2) by (auto simp: cmap_def elim!: cbind_InrE)
  have "e1 = EAGAIN" using passed_errnos [where env = env, OF _ one] Cons.prems(1) by simp
  with Cons rest show ?case by simp
qed simp

lemma refused_instances:
  assumes "pi_service_list p = services1 @ a # services2" and "thread_refused env pfd a"
    and "list_all (passed_calmly env pfd) (services2 @ concat (map pi_service_list after))"
  shows "accept_connections env pfd (before @ p # after) pool en = Inr (proxies', pool', en') \<Longrightarrow> en' = EAGAIN"
proof (induction before arbitrary: pool en proxies')
  case Nil
  then obtain c1 p1 e1 rest' where
    one: "accept_at_services env pfd (services1 @ a # services2) (pi_client_connection_list p) pool en = Inr (c1, p1, e1)"
    and rest: "accept_connections env pfd after p1 e1 = Inr (rest', pool', en')"
    by (auto simp: assms(1) cmap_def elim!: cbind_InrE)
  have "e1 = EAGAIN" using refused_errnos [OF assms(2) _ one] assms(3) by simp
  with rest passed_instances [of env pfd after p1 rest' pool' en'] assms(3) show ?case by simp
qed (auto simp: cmap_def elim!: cbind_InrE)

lemma closes_errno_none: "\<forall>fd. closes fd = None \<Longrightarrow> closes_errno closes cons en = en"
proof -
  assume "\<forall>fd. closes fd = None"
  then have "fold (\<lambda>fd en. case closes fd of None \<Rightarrow> en | Some e \<Rightarrow> e) fds en = en" for fds by (induction fds) simp_all
  then show ?thesis by (simp add: closes_errno_def)
qed

lemma accept_connections_services:
  "accept_connections env pfd proxies pool en = Inr (proxies', pool', en') \<Longrightarrow>
     map pi_service_list proxies' = map pi_service_list proxies"
proof (induction proxies arbitrary: pool en proxies')
  case (Cons p rest)
  then obtain c1 p1 e1 rest' where "accept_connections env pfd rest p1 e1 = Inr (rest', pool', en')"
    "proxies' = p\<lparr>pi_client_connection_list := c1\<rparr> # rest'"
    by (auto simp: cmap_def elim!: cbind_InrE)
  with Cons.IH show ?case by simp
qed simp

lemma turn_keeps_table:
  assumes "server_turn cf env s = Inr (Inr s1)"
  shows "\<exists>pfd. fill_pfd (sc_ulimit cf) (sc_msg_fd cf) (ss_proxies s1) (ss_tunnels s1) = Inr pfd"
proof -
  obtain proxies en where events: "server_events cf env s = Inr (Inr (proxies, ss_tunnels s1, ss_id_pool s1, en))"
    and ans: "answer_requests (te_json env) (ss_json_size s) (sc_start_time cf) proxies (ss_tunnels s1)
       = Inr (ss_proxies s1, ss_json_size s1)"
    using server_turn_obtain [OF assms] by metis
  obtain pfd0 pfd en0 en1 proxies0 where fill: "fill_pfd (sc_ulimit cf) (sc_msg_fd cf) (ss_proxies s) (ss_tunnels s) = Inr pfd0"
    and acc: "accept_connections (te_arrivals env) pfd (ss_proxies s) (ss_id_pool s) en0 = Inr (proxies0, ss_id_pool s1, en1)"
    and sweep: "proxies = map (sweep_connections (te_now env)) proxies0"
    and check: "check_ssh_tunnels (te_policy env) (sc_globals cf) proxies (ss_tunnels s) = Inr (Inr (ss_tunnels s1))"
    using server_events_obtain [OF events] by metis
  have "map pi_service_list proxies = map pi_service_list (ss_proxies s)"
    using accept_connections_services [OF acc] by (simp add: sweep sweep_connections_def o_def)
  then have "service_fds (ss_proxies s1) = service_fds (ss_proxies s)"
    using answer_requests_services [OF ans] by (intro service_fds_cong) simp
  moreover have "length (ss_tunnels s1) = length (ss_tunnels s)"
    using check_ssh_tunnels_keys [OF check] by (metis length_map)
  ultimately show ?thesis using fill by (auto simp: fill_pfd_eq all_fds_def length_tunnel_fds split: if_splits)
qed

text \<open>
  C11: the thread limit stops the server. Suppose a turn completes in which a connection comes in
  at some service of some instance and \<open>pthread_create\<close> answers \<open>EAGAIN\<close> for it, and behind this
  nothing gives \<open>errno\<close> another value: at each later service nobody is there, or \<open>accept\<close> succeeds
  at once and the thread starts or meets the limit too; the sweep closes its descriptors without
  an error; and no tunnel has a process or is needed, nobody asks for the status document and no
  log is full. Then the next turn does not get beyond its first loop, however many of its calls
  of \<open>poll\<close> succeed: \<open>launch_thread\<close> stores the answer in \<open>errno\<close>, the loop around \<open>poll\<close> repeats
  as long as \<open>errno\<close> is \<open>EAGAIN\<close>, and a \<open>poll\<close> that succeeds never changes it.
\<close>

theorem thread_limit_stops_server:
  assumes "ss_proxies s = before @ p # after" and "pi_service_list p = services1 @ a # services2"
    and "fill_pfd (sc_ulimit cf) (sc_msg_fd cf) (ss_proxies s) (ss_tunnels s) = Inr pfd0"
    and "server_poll (te_polls env) (ss_errno s) pfd0 = Inr (pfd, en0)"
    and "thread_refused (te_arrivals env) pfd a"
    and "list_all (passed_calmly (te_arrivals env) pfd) (services2 @ concat (map pi_service_list after))"
    and "\<forall>fd. te_closes env fd = None"
    and "server_events cf env s = Inr (Inr (proxies, tunnels, pool, en))"
    and "\<not> calls_behind (sc_globals cf) proxies (ss_tunnels s) (ss_logs s)"
    and "server_turn cf env s = Inr (Inr s1)"
    and "list_all poll_succeeds (te_polls env2)"
  shows "server_turn cf env2 s1 = Inl Hang"
proof -
  obtain q0 q e0 en1 proxies0 where table: "fill_pfd (sc_ulimit cf) (sc_msg_fd cf) (ss_proxies s) (ss_tunnels s) = Inr q0"
      "server_poll (te_polls env) (ss_errno s) q0 = Inr (q, e0)"
    and run: "accept_connections (te_arrivals env) q (ss_proxies s) (ss_id_pool s) e0 = Inr (proxies0, pool, en1)"
    and en: "en = closes_errno (te_closes env) (filter (loitered (te_now env)) (concat (map pi_client_connection_list proxies0))) en1"
    using server_events_obtain [OF assms(8)] by metis
  have acc: "accept_connections (te_arrivals env) pfd (before @ p # after) (ss_id_pool s) en0 = Inr (proxies0, pool, en1)"
    using run table assms(3,4) by (simp add: assms(1))
  from refused_instances [OF assms(2,5,6) acc] en have "en = EAGAIN" by (simp add: closes_errno_none [OF assms(7)])
  moreover obtain proxies' en' where
    "server_events cf env s = Inr (Inr (proxies', ss_tunnels s1, ss_id_pool s1, en'))"
    "ss_errno s1 = (if calls_behind (sc_globals cf) proxies' (ss_tunnels s) (ss_logs s) then te_errno env en' else en')"
    using server_turn_obtain [OF assms(10)] by blast
  ultimately have "ss_errno s1 = EAGAIN" using assms(8,9) by simp
  moreover obtain pfd1 where "fill_pfd (sc_ulimit cf) (sc_msg_fd cf) (ss_proxies s1) (ss_tunnels s1) = Inr pfd1"
    using turn_keeps_table [OF assms(10)] by blast
  ultimately show ?thesis using poll_loop_stuck [OF assms(11)]
    by (simp add: server_turn_def server_events_def server_poll_def)
qed

section \<open>A server\<close>

text \<open>One instance with one SOCKS service, from its start, and a turn in which a client comes in.\<close>

definition demo_start_env :: start_env where
  "demo_start_env =
     \<lparr>se_signal_ok = True, se_pipe = Some (4, 5),
      se_listen = (\<lambda>_. \<lparr>le_socket = 3, le_reuseaddr = 0, le_reuseport = 0, le_host = (\<lambda>_. Some 16777343), le_bind = 0,
         le_listen = 0\<rparr>), se_time = 7, se_malloc_ok = True\<rparr>"

definition demo_service :: any_service where
  "demo_service = Socks_srv \<lparr>srv_id = 1, srv_type = 1, srv_bind_address = ''127.0.0.1'', srv_port = 1080,
     srv_fd = -1, srv_str = Socks_fn, srv_connection_handler = Socks_fn\<rparr>"

definition demo_main :: "unit server_state" where
  "demo_main =
     \<lparr>ss_proxies = [\<lparr>pi_name = ''p'', pi_log = \<lparr>lc_level = 3, lc_file = None\<rparr>, pi_service_list = [demo_service],
        pi_route_rule_list = [], pi_client_connection_list = []\<rparr>],
      ss_tunnels = [], ss_logs = [], ss_files = (\<lambda>_. None), ss_id_pool = 0, ss_json_size = 1024, ss_errno = 0\<rparr>"

definition demo_config :: server_config where
  "demo_config = \<lparr>sc_ulimit = 4096, sc_msg_fd = 4, sc_globals = \<lparr>ssh_id_pool = 0, ssh_tunnel_direct = 1,
     ssh_tunnel_socks_proxy = 2, ssh_tunnel_null = 3\<rparr>, sc_start_time = 7\<rparr>"

definition demo_listening :: "unit server_state" where
  "demo_listening = demo_main\<lparr>ss_proxies := [(hd (ss_proxies demo_main))\<lparr>pi_service_list :=
     [Socks_srv \<lparr>srv_id = 1, srv_type = 1, srv_bind_address = ''127.0.0.1'', srv_port = 1080,
     srv_fd = 3, srv_str = Socks_fn, srv_connection_handler = Socks_fn\<rparr>]\<rparr>]\<rparr>"

definition demo_turn :: "int \<Rightarrow> turn_env" where
  "demo_turn create =
     \<lparr>te_polls = [Poll_ready (\<lambda>fd. no_events\<lparr>pv_rdnorm := (fd = 3)\<rparr>)], te_child_reads = (\<lambda>_. 0),
      te_arrivals = (\<lambda>_. \<lparr>ar_accept = [Accepted 9 \<lparr>sin_port = 5, sin_addr = 16777343\<rparr>], ar_mem = Some blank_connection,
        ar_now = 8, ar_thread = \<lparr>th_malloc = True, th_attr_init = 0, th_setdetachstate = 0, th_create = create, th_destroy = 0\<rparr>\<rparr>),
      te_now = 8, te_closes = (\<lambda>_. None), te_policy = (\<lambda>_. demo_policy_env 42), te_json = demo_json_env,
      te_rename_denied = (\<lambda>_ _. False), te_errno = (\<lambda>en. en)\<rparr>"

definition one_connection :: "unit server_state \<Rightarrow> bool" where
  "one_connection s = list_all (\<lambda>p. length (pi_client_connection_list p) = 1) (ss_proxies s)"

lemma demo_start:
  "server_start demo_start_env \<lparr>mc_ulimit = 4096, mc_log = \<lparr>lc_level = 3, lc_file = None\<rparr>\<rparr> (sc_globals demo_config) demo_main
     = Inr (demo_config, demo_listening)"
  by (simp add: server_start_def demo_start_env_def demo_main_def listen_all_def listen_any_def listen_socket_def
      demo_service_def demo_config_def demo_listening_def Let_def)

lemma demo_turn_runs:
  "\<exists>s. server_turn demo_config (demo_turn 0) demo_listening = Inr (Inr s) \<and> one_connection s \<and> ss_errno s = 0"
proof -
  have "case server_turn demo_config (demo_turn 0) demo_listening of Inr (Inr s) \<Rightarrow> one_connection s \<and> ss_errno s = 0 | _ \<Rightarrow> False"
    by code_simp
  then show ?thesis by (auto split: sum.splits)
qed

lemma demo_turn_limit:
  "\<exists>s. server_turn demo_config (demo_turn EAGAIN) demo_listening = Inr (Inr s) \<and> ss_errno s = EAGAIN"
proof -
  have "case server_turn demo_config (demo_turn EAGAIN) demo_listening of Inr (Inr s) \<Rightarrow> ss_errno s = EAGAIN | _ \<Rightarrow> False"
    by code_simp
  then show ?thesis by (auto split: sum.splits)
qed

lemma demo_configured: "configured demo_main"
  by (simp add: configured_def demo_main_def demo_service_def log_level_str_def log_levels_def log_level_defs
      service_typed_def service_type_defs ids_distinct_def)

theorem server_stays_well_formed_witness:
  "\<exists>s. server_turn demo_config (demo_turn 0) demo_listening = Inr (Inr s) \<and> one_connection s \<and>
     list_all (\<lambda>p. list_all (connection_typed (pi_service_list p) (ss_tunnels s)) (pi_client_connection_list p)) (ss_proxies s)"
proof -
  obtain s where s: "server_turn demo_config (demo_turn 0) demo_listening = Inr (Inr s)" "one_connection s"
    using demo_turn_runs by blast
  then have "(server_step demo_config)\<^sup>*\<^sup>* demo_listening s" by (blast intro: server_step.turn)
  from server_stays_well_formed [OF demo_start demo_configured this] s show ?thesis by (auto simp: list_all_iff)
qed

theorem server_table_in_bounds_witness:
  "server_turn (demo_config\<lparr>sc_ulimit := 1\<rparr>) (demo_turn 0) demo_listening = Inl (Exit 95) \<and>
   (\<exists>pfd0. fill_pfd 4096 4 (ss_proxies demo_listening) [] = Inr pfd0 \<and> length pfd0 = 2)"
proof -
  have ok: "server_ok demo_listening" by (rule server_start_ok [OF demo_start demo_configured])
  have n: "service_fds (ss_proxies demo_listening) = [3]" "ss_tunnels demo_listening = []"
    by (simp_all add: demo_listening_def demo_main_def service_fds_def)
  have "server_turn (demo_config\<lparr>sc_ulimit := 1\<rparr>) (demo_turn 0) demo_listening = Inl (Exit 95)"
    using server_table_in_bounds [OF ok, of "demo_config\<lparr>sc_ulimit := 1\<rparr>" "demo_turn 0"] by (simp add: n)
  moreover have "\<exists>pfd0. fill_pfd 4096 4 (ss_proxies demo_listening) [] = Inr pfd0 \<and> length pfd0 = 2"
    by (simp add: fill_pfd_eq all_fds_def n tunnel_fds_def)
  ultimately show ?thesis by blast
qed

theorem thread_limit_stops_server_witness:
  "\<exists>s. server_turn demo_config (demo_turn EAGAIN) demo_listening = Inr (Inr s) \<and>
     server_turn demo_config (demo_turn 0) s = Inl Hang"
proof -
  let ?p = "hd (ss_proxies demo_listening)" and ?env = "demo_turn EAGAIN"
  let ?pfd = "[\<lparr>pfd_fd = 4, pfd_revents = no_events\<rparr>, \<lparr>pfd_fd = 3, pfd_revents = no_events\<lparr>pv_rdnorm := True\<rparr>\<rparr>]"
  obtain s where s: "server_turn demo_config ?env demo_listening = Inr (Inr s)"
    using demo_turn_limit by blast
  have "case server_events demo_config ?env demo_listening of
      Inr (Inr (proxies, tunnels, pool, en)) \<Rightarrow>
        \<not> calls_behind (sc_globals demo_config) proxies (ss_tunnels demo_listening) (ss_logs demo_listening)
    | _ \<Rightarrow> False" by code_simp
  then obtain proxies tunnels pool en where events: "server_events demo_config ?env demo_listening = Inr (Inr (proxies, tunnels, pool, en))"
    "\<not> calls_behind (sc_globals demo_config) proxies (ss_tunnels demo_listening) (ss_logs demo_listening)"
    by (auto split: sum.splits)
  have fill: "fill_pfd (sc_ulimit demo_config) (sc_msg_fd demo_config) (ss_proxies demo_listening) (ss_tunnels demo_listening) =
      Inr [pfd_entry 4, pfd_entry 3]"
    by (simp add: fill_pfd_eq all_fds_def service_fds_def tunnel_fds_def demo_listening_def demo_main_def demo_config_def)
  have poll: "server_poll (te_polls ?env) (ss_errno demo_listening) [pfd_entry 4, pfd_entry 3] = Inr (?pfd, 0)"
    by (simp add: server_poll_def demo_turn_def pfd_entry_def no_events_def demo_listening_def demo_main_def)
  have refused: "thread_refused (te_arrivals ?env) ?pfd (hd (pi_service_list ?p))"
    by (simp add: thread_refused_def find_pfd_def revents_at_def demo_listening_def demo_main_def demo_turn_def
        arrival_ready_def no_events_def thread_limit_def)
  have "server_turn demo_config (demo_turn 0) s = Inl Hang"
    by (rule thread_limit_stops_server [where before = "[]" and after = "[]" and ?services1.0 = "[]" and ?services2.0 = "[]" and p = ?p,
          OF _ _ fill poll refused _ _ events s])
      (simp_all add: demo_listening_def demo_main_def demo_turn_def)
  with s show ?thesis by blast
qed

definition demo_asking :: "unit server_state" where
  "demo_asking = demo_listening\<lparr>ss_proxies := [(hd (ss_proxies demo_listening))\<lparr>pi_client_connection_list :=
     [demo_connection\<lparr>cc_JSONStatusRequested := True\<rparr>]\<rparr>], ss_tunnels := [demo_tunnel], ss_id_pool := 7\<rparr>"

lemma demo_asking_ok: "server_ok demo_asking"
proof -
  have "connection_typed [Socks_srv \<lparr>srv_id = 1, srv_type = 1, srv_bind_address = ''127.0.0.1'', srv_port = 1080,
     srv_fd = 3, srv_str = Socks_fn, srv_connection_handler = Socks_fn\<rparr>] [demo_tunnel] (demo_connection\<lparr>cc_JSONStatusRequested := True\<rparr>)"
    by code_simp
  then show ?thesis
    by (simp add: server_ok_def demo_asking_def demo_listening_def demo_main_def proxy_inv_def conns_ok_def
        log_level_str_def log_levels_def log_level_defs service_typed_def service_type_defs ids_distinct_def)
      (simp add: demo_connection_def)
qed

lemma demo_asking_turn:
  "case server_events demo_config (demo_turn 0) demo_asking of
     Inr (Inr (proxies, tunnels, pool, en)) \<Rightarrow>
       pool = 8 \<and> length (json_text (status_json demo_json_env proxies 7 tunnels)) < 1500 \<and>
       json_plain (status_json demo_json_env proxies 7 tunnels) \<and>
       list_ex (\<lambda>p. list_ex wants_json (pi_client_connection_list p)) proxies
   | _ \<Rightarrow> False"
  by code_simp

theorem status_requests_answered_witness:
  "\<exists>s' doc. server_turn demo_config (demo_turn 0) demo_asking = Inr (Inr s') \<and> conforms status_schema doc \<and>
     (\<exists>p' \<in> set (ss_proxies s'). answer_status (Some (json_text doc)) (demo_connection\<lparr>cc_JSONStatusRequested := True\<rparr>)
        \<in> set (pi_client_connection_list p'))"
proof -
  obtain proxies tunnels pool en where ev:
    "server_events demo_config (demo_turn 0) demo_asking = Inr (Inr (proxies, tunnels, pool, en))"
    "pool < 2 ^ 64" "length (json_text (status_json demo_json_env proxies 7 tunnels)) + 10 < 2 ^ 30"
    using demo_asking_turn by (auto split: sum.splits)
  have rotate: "rotate_logs (te_rename_denied (demo_turn 0)) (ss_files demo_asking) (ss_logs demo_asking) = Inr (\<lambda>_. None, [])"
    by (simp add: demo_asking_def demo_listening_def demo_main_def)
  have mem: "json_memory (te_json (demo_turn 0))" by (simp add: json_memory_def demo_turn_def demo_json_env_def)
  have size: "0 < ss_json_size demo_asking" "ss_json_size demo_asking \<le> INT_MAX"
    by (simp_all add: demo_asking_def demo_listening_def demo_main_def INT_MAX_def)
  have "te_json (demo_turn 0) = demo_json_env" "sc_start_time demo_config = 7"
    by (simp_all add: demo_turn_def demo_config_def)
  then have len: "length (json_text (status_json (te_json (demo_turn 0)) proxies (sc_start_time demo_config) tunnels)) + 10 < 2 ^ 30"
    using ev(3) by simp
  define con where "con = demo_connection\<lparr>cc_JSONStatusRequested := True\<rparr>"
  have con: "wants_json con" "\<not> loitered (te_now (demo_turn 0)) con"
    by (simp_all add: con_def wants_json_def loitered_def demo_connection_def blank_connection_def Let_def)
  obtain p where p: "p \<in> set (ss_proxies demo_asking)" "con \<in> set (pi_client_connection_list p)"
    by (auto simp: demo_asking_def con_def)
  show ?thesis
    using status_requests_answered [OF demo_asking_ok ev(1) rotate mem size ev(2) len] p con
    unfolding Let_def con_def by blast
qed

end
