(* ===== verification/Startup.thy ===== *)
theory Startup
  imports Main_Program Server_Inv
begin

text \<open>
  From the command line to the main loop: what reading a configuration keeps about services
  and instances, and with it that every configuration \<open>main\<close> hands to \<open>server\<close> is one the
  server can start on.
\<close>

section \<open>The services of an instance\<close>

text \<open>The structure, the tag and the two function pointers of a service belong together.\<close>

definition service_made :: "any_service \<Rightarrow> bool" where
  "service_made a \<longleftrightarrow>
     service_typed a \<and> srv_str (any_service_base a) = srv_connection_handler (any_service_base a) \<and>
     srv_connection_handler (any_service_base a) =
       (case a of Socks_srv _ \<Rightarrow> Socks_fn | Port_forward_srv _ \<Rightarrow> Port_forward_fn | Http_srv _ \<Rightarrow> Http_fn)"

text \<open>What a service can be listed as: the ids are drawn from the pool, which only grows.\<close>

definition services_ok :: "nat \<Rightarrow> any_service list \<Rightarrow> bool" where
  "services_ok pool services \<longleftrightarrow>
     list_all service_made services \<and> distinct (map (srv_id \<circ> any_service_base) services) \<and>
     list_all (\<lambda>a. srv_id (any_service_base a) \<le> pool) services"

definition instance_ok :: "nat \<Rightarrow> proxy_instance \<Rightarrow> bool" where
  "instance_ok pool p \<longleftrightarrow>
     valid_level (lc_level (pi_log p)) \<and> services_ok pool (pi_service_list p) \<and> pi_client_connection_list p = []"

lemma services_ok_mono: "services_ok pool services \<Longrightarrow> pool \<le> pool' \<Longrightarrow> services_ok pool' services"
  by (auto simp: services_ok_def list_all_iff)

lemma instance_ok_mono: "instance_ok pool p \<Longrightarrow> pool \<le> pool' \<Longrightarrow> instance_ok pool' p"
  by (auto simp: instance_ok_def intro: services_ok_mono)

lemma services_ok_insert:
  assumes "services_ok pool services" and "service_made a" and "pool < srv_id (any_service_base a)"
    and "srv_id (any_service_base a) \<le> pool'"
  shows "services_ok pool' (insert_service services a)"
  using assms by (auto simp: services_ok_def insert_service_def list_all_iff)

section \<open>The parsers make services\<close>

text \<open>What an operation on a service under construction leaves alone.\<close>

definition same_kind :: "'a service_scheme \<Rightarrow> 'a service_scheme \<Rightarrow> bool" where
  "same_kind s s' \<longleftrightarrow>
     srv_id s' = srv_id s \<and> srv_type s' = srv_type s \<and> srv_str s' = srv_str s \<and>
     srv_connection_handler s' = srv_connection_handler s"

lemma spec_parts_same_kind:
  assumes "\<And>i t s s'. part i t s = Inr (Some s') \<Longrightarrow> same_kind s s'"
  shows "spec_parts part i p s = Inr (Some s') \<Longrightarrow> same_kind s s'"
  using assms
proof (induction part i p s rule: spec_parts.induct)
  case (1 part i s)
  then show ?case by (simp add: same_kind_def)
next
  case (2 part i str s)
  obtain token p where sep: "strsep '':'' (Some str) = (Some token, p)" using strsep.simps(2) by blast
  from "2.prems"(1) sep obtain s1 where one: "part (i + 1) token s = Inr (Some s1)"
    and rest: "spec_parts part (i + 1) p s1 = Inr (Some s')"
    by (auto elim!: cbind_InrE split: option.splits simp del: strsep.simps)
  from "2.IH" [OF sep [symmetric] refl one refl rest "2.prems"(2)] "2.prems"(2) [OF one]
  show ?case by (simp add: same_kind_def)
qed

lemma bind_address_same_kind: "spec_bind_address t s = Inr (Some s') \<Longrightarrow> same_kind s s'"
  by (auto simp: spec_bind_address_def same_kind_def cmap_def elim!: cbind_InrE)

lemma port_same_kind: "spec_port t s = Inr (Some s') \<Longrightarrow> same_kind s s'"
  by (auto simp: spec_port_def same_kind_def split: option.splits)

lemma socks_part_same_kind: "socks_part i t s = Inr (Some s') \<Longrightarrow> same_kind s s'"
  by (auto simp: socks_part_def split: if_splits dest: bind_address_same_kind port_same_kind)

lemma port_forward_part_same_kind: "port_forward_part i t s = Inr (Some s') \<Longrightarrow> same_kind s s'"
  by (auto simp: port_forward_part_def cmap_def same_kind_def split: if_splits option.splits elim!: cbind_InrE
      dest: bind_address_same_kind port_same_kind)

lemma http_part_same_kind: "http_part i t s = Inr (Some s') \<Longrightarrow> same_kind s s'"
  by (auto simp: http_part_def cmap_def same_kind_def split: if_splits option.splits elim!: cbind_InrE
      dest: bind_address_same_kind port_same_kind)

lemma socks_spec_same_kind: "spec_parts socks_part i p s = Inr (Some s') \<Longrightarrow> same_kind s s'"
  by (erule spec_parts_same_kind [rotated], erule socks_part_same_kind)

lemma port_forward_spec_same_kind: "spec_parts port_forward_part i p s = Inr (Some s') \<Longrightarrow> same_kind s s'"
  by (erule spec_parts_same_kind [rotated], erule port_forward_part_same_kind)

lemma http_spec_same_kind: "spec_parts http_part i p s = Inr (Some s') \<Longrightarrow> same_kind s s'"
  by (erule spec_parts_same_kind [rotated], erule http_part_same_kind)

text \<open>What the entries of the configuration rely on: a new service with an id from the pool.\<close>

locale service_kind =
  fixes parse :: "string \<Rightarrow> nat \<Rightarrow> ('s option \<times> nat) cres"
    and wrap :: "'s \<Rightarrow> any_service"
  assumes made: "parse s pool = Inr (Some x, pool') \<Longrightarrow>
      service_made (wrap x) \<and> pool < srv_id (any_service_base (wrap x)) \<and> srv_id (any_service_base (wrap x)) \<le> pool'"
begin

lemma entry_makes:
  assumes "config_service_entry line field parse wrap p cf = Inr (Taken (p', cf'))"
    and "instance_ok (cf_service_pool cf) p"
  shows "instance_ok (cf_service_pool cf') p' \<and> cf_service_pool cf \<le> cf_service_pool cf' \<and> pi_name p' = pi_name p \<and>
    cf' = cf\<lparr>cf_service_pool := cf_service_pool cf'\<rparr>"
proof -
  obtain s x pool where run: "parse s (cf_service_pool cf) = Inr (Some x, pool)"
    and res: "p' = p\<lparr>pi_service_list := insert_service (pi_service_list p) (wrap x)\<rparr>" "cf' = cf\<lparr>cf_service_pool := pool\<rparr>"
    using assms(1) by (auto simp: config_service_entry_def elim!: cbind_InrE split: option.splits)
  from made [OF run] assms(2) services_ok_insert [of "cf_service_pool cf" "pi_service_list p" "wrap x" pool]
  show ?thesis by (auto simp: res instance_ok_def)
qed

end

lemma srv_base_fields [simp]:
  "srv_id (service.truncate s) = srv_id s" "srv_str (service.truncate s) = srv_str s"
  "srv_connection_handler (service.truncate s) = srv_connection_handler s"
  by (simp_all add: service.truncate_def)

interpretation socks_kind: service_kind parse_service_socks_spec Socks_srv
proof
  fix s pool x pool'
  assume "parse_service_socks_spec s pool = Inr (Some x, pool')"
  then obtain i s0 where sp: "spec_parts socks_part i (Some s) s0 = Inr (Some x)"
    and "srv_id s0 = pool + 2" "pool' = pool + 2" "srv_type s0 = SERVICE_TYPE_SOCKS" "srv_str s0 = Socks_fn"
    "srv_connection_handler s0 = Socks_fn"
    by (auto simp: parse_service_socks_spec_def new_service_socks_def new_service_def cmap_def Let_def
        split: if_splits elim!: cbind_InrE)
  with socks_spec_same_kind [OF sp]
  show "service_made (Socks_srv x) \<and> pool < srv_id (any_service_base (Socks_srv x)) \<and>
      srv_id (any_service_base (Socks_srv x)) \<le> pool'"
    by (simp add: service_made_def service_typed_def same_kind_def)
qed

interpretation port_forward_kind: service_kind parse_service_port_forward_spec Port_forward_srv
proof
  fix s pool x pool'
  assume "parse_service_port_forward_spec s pool = Inr (Some x, pool')"
  then obtain i s0 where sp: "spec_parts port_forward_part i (Some s) s0 = Inr (Some x)"
    and "srv_id s0 = pool + 1" "pool' = pool + 1" "srv_type s0 = SERVICE_TYPE_PORT_FORWARD" "srv_str s0 = Port_forward_fn"
    "srv_connection_handler s0 = Port_forward_fn"
    by (auto simp: parse_service_port_forward_spec_def new_service_port_forward_def new_service_def cmap_def Let_def
        service.extend_def split: if_splits elim!: cbind_InrE)
  with port_forward_spec_same_kind [OF sp]
  show "service_made (Port_forward_srv x) \<and> pool < srv_id (any_service_base (Port_forward_srv x)) \<and>
      srv_id (any_service_base (Port_forward_srv x)) \<le> pool'"
    by (simp add: service_made_def service_typed_def same_kind_def)
qed

interpretation http_kind: service_kind parse_service_http_spec Http_srv
proof
  fix s pool x pool'
  assume "parse_service_http_spec s pool = Inr (Some x, pool')"
  then obtain i s0 where sp: "spec_parts http_part i (Some s) s0 = Inr (Some x)"
    and "srv_id s0 = pool + 1" "pool' = pool + 1" "srv_type s0 = SERVICE_TYPE_HTTP" "srv_str s0 = Http_fn"
    "srv_connection_handler s0 = Http_fn"
    by (auto simp: parse_service_http_spec_def new_service_http_def new_service_def cmap_def Let_def
        service.extend_def split: if_splits elim!: cbind_InrE)
  with http_spec_same_kind [OF sp]
  show "service_made (Http_srv x) \<and> pool < srv_id (any_service_base (Http_srv x)) \<and>
      srv_id (any_service_base (Http_srv x)) \<le> pool'"
    by (simp add: service_made_def service_typed_def same_kind_def)
qed

section \<open>Reading a configuration keeps the instances well-formed\<close>

definition serving_ok :: "config \<Rightarrow> bool" where
  "serving_ok cf \<longleftrightarrow>
     (\<forall>p \<in> insert (cf_proxy_default cf) (set (cf_proxies cf)). instance_ok (cf_service_pool cf) p)"

text \<open>What has nothing to do with the instances.\<close>

definition same_instances :: "config \<Rightarrow> config \<Rightarrow> bool" where
  "same_instances cf cf' \<longleftrightarrow>
     cf_proxies cf' = cf_proxies cf \<and> cf_proxy_default cf' = cf_proxy_default cf \<and>
     cf_service_pool cf \<le> cf_service_pool cf'"

lemma same_instances_serving: "same_instances cf cf' \<Longrightarrow> serving_ok cf \<Longrightarrow> serving_ok cf'"
  by (auto simp: same_instances_def serving_ok_def intro: instance_ok_mono)

lemma level_of_text: "log_level_from_str s \<noteq> LOG_LEVEL_INVALID \<Longrightarrow> valid_level (log_level_from_str s)"
  using log_level_from_str_range [of s] by blast

lemma config_log_entry_frame:
  assumes "config_log_entry line cf lc = Inr (Taken (lc', cf'))"
  shows "cf_proxies cf' = cf_proxies cf \<and> cf_proxy_default cf' = cf_proxy_default cf \<and>
     cf_service_pool cf' = cf_service_pool cf \<and> (valid_level (lc_level lc) \<longrightarrow> valid_level (lc_level lc'))"
proof -
  obtain nm where nm: "config_set_string line ''logFilename '' STRING_BUF = Inr nm"
    using assms by (auto simp: config_log_entry_def elim: cbind_InrE)
  show ?thesis
  proof (cases nm)
    case (Some s)
    obtain log logs' where "find_or_create_log_file (cf_log_files cf) (Some (cf_log_default cf)) s = (log, logs')"
      by fastforce
    with assms nm Some have "lc' = lc\<lparr>lc_file := Some (lf_file_name log)\<rparr>" "cf' = cf\<lparr>cf_log_files := logs'\<rparr>"
      by (simp_all add: config_log_entry_def)
    then show ?thesis by simp
  next
    case None
    obtain verb where verb: "config_set_string line ''logVerbosity '' STRING_BUF = Inr verb"
      using assms nm None by (auto simp: config_log_entry_def elim: cbind_InrE)
    note run = assms [unfolded config_log_entry_def nm None cbind_Inr option.case verb]
    obtain s where s: "verb = Some s" using run by (cases verb) simp_all
    have "cf' = cf" "lc' = lc\<lparr>lc_level := log_level_from_str (Some s)\<rparr>" "log_level_from_str (Some s) \<noteq> LOG_LEVEL_INVALID"
      using run by (simp_all add: s Let_def split: if_splits)
    then show ?thesis using level_of_text by auto
  qed
qed

text \<open>Every way an entry of an instance can be taken.\<close>

definition takes_ok :: "config \<Rightarrow> proxy_instance \<Rightarrow> (proxy_instance \<times> config) entry cres \<Rightarrow> bool" where
  "takes_ok cf p e \<longleftrightarrow>
     (\<forall>p' cf'. e = Inr (Taken (p', cf')) \<longrightarrow>
        instance_ok (cf_service_pool cf') p' \<and> same_instances cf cf' \<and> pi_name p' = pi_name p)"

lemma takes_ok_none [simp]: "takes_ok cf p (Inl f)" "takes_ok cf p (Inr Rejected)" "takes_ok cf p (Inr Other_entry)"
  by (simp_all add: takes_ok_def)

lemma takes_ok_or:
  assumes "takes_ok cf p e" and "takes_ok cf p f"
  shows "takes_ok cf p (or_entry e f)"
proof (cases e)
  case (Inr r)
  with assms show ?thesis by (cases r) (simp_all add: or_entry_def)
qed (simp add: or_entry_def)

lemma same_instances_pools [simp]:
  "same_instances cf (cf\<lparr>cf_rule_pool := x\<rparr>)"
  "cf_service_pool cf \<le> x \<Longrightarrow> same_instances cf (cf\<lparr>cf_service_pool := x\<rparr>)"
  by (simp_all add: same_instances_def)

lemma instance_ok_fields [simp]:
  "instance_ok pool (p\<lparr>pi_route_rule_list := r\<rparr>) = instance_ok pool p"
  "instance_ok pool (p\<lparr>pi_name := n\<rparr>) = instance_ok pool p"
  by (simp_all add: instance_ok_def)

lemma services_take:
  assumes "instance_ok (cf_service_pool cf) p"
  shows "takes_ok cf p (config_service_entry line f1 parse_service_socks_spec Socks_srv p cf)"
    and "takes_ok cf p (config_service_entry line f2 parse_service_port_forward_spec Port_forward_srv p cf)"
    and "takes_ok cf p (config_service_entry line f3 parse_service_http_spec Http_srv p cf)"
proof -
  have grown: "same_instances cf cf'" if "cf_service_pool cf \<le> cf_service_pool cf'" "cf' = cf\<lparr>cf_service_pool := cf_service_pool cf'\<rparr>"
    for cf'
    using same_instances_pools(2) [OF that(1)] that(2) by metis
  show "takes_ok cf p (config_service_entry line f1 parse_service_socks_spec Socks_srv p cf)"
    using socks_kind.entry_makes [OF _ assms] grown unfolding takes_ok_def by blast
  show "takes_ok cf p (config_service_entry line f2 parse_service_port_forward_spec Port_forward_srv p cf)"
    using port_forward_kind.entry_makes [OF _ assms] grown unfolding takes_ok_def by blast
  show "takes_ok cf p (config_service_entry line f3 parse_service_http_spec Http_srv p cf)"
    using http_kind.entry_makes [OF _ assms] grown unfolding takes_ok_def by blast
qed

lemma log_takes:
  assumes "instance_ok (cf_service_pool cf) p"
  shows "takes_ok cf p (cmap (\<lambda>e. case e of Taken (lc, cf) \<Rightarrow> Taken (p\<lparr>pi_log := lc\<rparr>, cf) | Rejected \<Rightarrow> Rejected
    | Other_entry \<Rightarrow> Other_entry) (config_log_entry line cf (pi_log p)))"
proof (cases "\<exists>lc cf'. config_log_entry line cf (pi_log p) = Inr (Taken (lc, cf'))")
  case True
  then obtain lc cf' where e: "config_log_entry line cf (pi_log p) = Inr (Taken (lc, cf'))" by blast
  from config_log_entry_frame [OF e] assms show ?thesis
    by (simp add: e takes_ok_def same_instances_def instance_ok_def)
next
  case False
  then show ?thesis by (auto simp: takes_ok_def cmap_def split: entry.splits elim!: cbind_InrE)
qed

lemma rules_take: "instance_ok (cf_service_pool cf) p \<Longrightarrow> takes_ok cf p (rules_entry p cf res)"
  by (auto simp: takes_ok_def rules_entry_def cmap_def split: if_splits elim!: cbind_InrE)

lemma takes_ok_bind: "(\<And>x. takes_ok cf p (f x)) \<Longrightarrow> takes_ok cf p (cbind m f)"
  by (cases m) simp_all

lemma routes_take:
  assumes "instance_ok (cf_service_pool cf) p"
  shows "takes_ok cf p (config_route_entry env filename n line p cf)"
proof -
  have one: "takes_ok cf p (Inr (Taken (p\<lparr>pi_route_rule_list := rules\<rparr>, cf\<lparr>cf_rule_pool := pool\<rparr>)))" for rules pool
    using assms by (simp add: takes_ok_def)
  show ?thesis unfolding config_route_entry_def Let_def
    by (intro takes_ok_bind) (auto split: option.splits intro!: takes_ok_bind one rules_take assms)
qed

lemma proxy_entry_serving:
  assumes "config_file_parse_proxy_instance_entry env filename n line p cf = Inr (Some (p', cf'))"
    and "instance_ok (cf_service_pool cf) p"
  shows "instance_ok (cf_service_pool cf') p' \<and> same_instances cf cf' \<and> pi_name p' = pi_name p"
proof -
  have "e = Inr (Taken (p', cf'))" if "cmap entry_result e = Inr (Some (p', cf'))" for e
    using that by (auto simp: cmap_def entry_result_def split: entry.splits elim!: cbind_InrE)
  from this [OF assms(1) [unfolded config_file_parse_proxy_instance_entry_def]]
    takes_ok_or [OF log_takes takes_ok_or [OF services_take(1) takes_ok_or [OF services_take(2)
      takes_ok_or [OF services_take(3) routes_take]]], OF assms(2) assms(2) assms(2) assms(2) assms(2)]
  show ?thesis unfolding takes_ok_def by blast
qed

text \<open>The other entries and the heads of sections leave the instances alone, or add one.\<close>

lemma main_entry_same: "config_file_parse_main_entry line cf = Inr (Some cf') \<Longrightarrow> same_instances cf cf'"
proof -
  assume run: "config_file_parse_main_entry line cf = Inr (Some cf')"
  then obtain e where e: "config_log_entry line cf (mc_log (cf_main cf)) = Inr e"
    by (auto simp: config_file_parse_main_entry_def elim: cbind_InrE)
  show ?thesis
  proof (cases e)
    case (Taken x)
    obtain lc cf1 where x: "x = (lc, cf1)" by (cases x)
    from config_log_entry_frame [OF e [unfolded Taken x]] run show ?thesis
      by (simp add: config_file_parse_main_entry_def e Taken x) (auto simp: same_instances_def)
  qed (use run e in \<open>auto simp: config_file_parse_main_entry_def same_instances_def split: option.splits\<close>)
qed

lemma ssh_entry_same:
  assumes "config_file_parse_ssh_tunnel_entry line t cf = Inr (Some (t', cf'))"
  shows "same_instances cf cf'"
proof (cases "config_set_int line ''socksPort ''")
  case (Some v)
  with assms show ?thesis by (simp add: config_file_parse_ssh_tunnel_entry_def same_instances_def)
next
  case None
  note run = assms [unfolded config_file_parse_ssh_tunnel_entry_def None option.case]
  obtain c where c: "config_set_string line ''command '' 8192 = Inr c" using run by (auto elim: cbind_InrE)
  show ?thesis
  proof (cases c)
    case (Some s)
    with run c show ?thesis by (simp add: same_instances_def)
  next
    case None
    then obtain e where e: "config_log_entry line cf (st_log t) = Inr e"
      and r: "map_option (\<lambda>(lc, cf). (t\<lparr>st_log := lc\<rparr>, cf)) (entry_result e) = Some (t', cf')"
      using run c by (auto simp: cmap_def elim!: cbind_InrE)
    obtain lc where "e = Taken (lc, cf')"
      using r by (auto simp: entry_result_def split: entry.splits)
    then show ?thesis using config_log_entry_frame [of line cf "st_log t" lc cf'] e by (simp add: same_instances_def)
  qed
qed

lemma put_log_same [simp]: "same_instances cf (put_log cf r l)"
  by (simp add: put_log_def same_instances_def split: obj_ref.splits)

lemma put_ssh_same: "same_instances cf cf1 \<Longrightarrow> same_instances cf (put_ssh cf1 r t)"
  by (simp add: put_ssh_def same_instances_def split: obj_ref.splits)

lemma put_proxy_serving:
  assumes "serving_ok cf" and "instance_ok (cf_service_pool cf) p"
  shows "serving_ok (put_proxy cf r p)"
  using assms set_update_first [of "\<lambda>x. _ = pi_name x" p "cf_proxies cf"]
  by (cases r) (auto simp: put_proxy_def serving_ok_def dest!: subsetD [OF set_update_first])

lemma config_entry_line_serving:
  assumes "config_entry_line env filename n line sect cf = Inr cf'" and "serving_ok cf"
  shows "serving_ok cf'"
proof (cases sect)
  case No_section
  with assms(1) show ?thesis by (simp add: config_entry_line_def)
next
  case Main_section
  with assms(1) have "config_file_parse_main_entry line cf = Inr (Some cf')"
    by (auto simp: config_entry_line_def elim!: cbind_InrE split: option.splits)
  with assms(2) show ?thesis by (blast intro: same_instances_serving main_entry_same)
next
  case (Log_section r)
  with assms(1) obtain l' where "cf' = put_log cf r l'"
    by (auto simp: config_entry_line_def split: option.splits)
  with assms(2) show ?thesis by (simp add: same_instances_serving [OF put_log_same])
next
  case (Proxy_section r)
  then obtain p where p: "get_proxy cf r = Some p"
    using assms(1) by (cases "get_proxy cf r") (simp_all add: config_entry_line_def)
  obtain p' cf1 where e: "config_file_parse_proxy_instance_entry env filename n line p cf = Inr (Some (p', cf1))"
    and cf': "cf' = put_proxy cf1 r p'"
    using assms(1) p Proxy_section by (auto simp: config_entry_line_def cmap_def elim!: cbind_InrE split: option.splits)
  have "instance_ok (cf_service_pool cf) p"
    using p assms(2) by (auto simp: get_proxy_def serving_ok_def split: obj_ref.splits dest: proxies.lookup_Some)
  from proxy_entry_serving [OF e this] assms(2) show ?thesis
    unfolding cf' by (blast intro: put_proxy_serving same_instances_serving)
next
  case (Ssh_section r)
  then obtain t where t: "get_ssh cf r = Some t"
    using assms(1) by (cases "get_ssh cf r") (simp_all add: config_entry_line_def)
  obtain t' cf1 where e: "config_file_parse_ssh_tunnel_entry line t cf = Inr (Some (t', cf1))" and cf': "cf' = put_ssh cf1 r t'"
    using assms(1) t Ssh_section by (auto simp: config_entry_line_def cmap_def elim!: cbind_InrE split: option.splits)
  show ?thesis unfolding cf' by (rule same_instances_serving [OF put_ssh_same [OF ssh_entry_same [OF e]] assms(2)])
qed

lemma new_instance_ok: "serving_ok cf \<Longrightarrow> instance_ok (cf_service_pool cf) (new_proxy_instance_from_template mem (Some (cf_proxy_default cf)))"
  by (simp add: serving_ok_def instance_ok_def new_proxy_instance_from_template_def new_proxy_instance_def
      services_ok_def Let_def)

lemma proxy_section_serving:
  assumes "config_file_parse_proxy_instance env line cf = Inr (Some (r, cf'))" and "serving_ok cf"
  shows "serving_ok cf'"
proof -
  let ?new = "(new_proxy_instance_from_template (ce_log_mem env (length (cf_proxies cf))) (Some (cf_proxy_default cf)))
    \<lparr>pi_name := drop 6 line\<rparr>"
  have "cf' = cf \<or> cf' = cf\<lparr>cf_proxies := insert_proxy_instance (cf_proxies cf) ?new\<rparr>"
    using assms(1)
    by (auto simp: config_file_parse_proxy_instance_def Let_def set_proxy_name_def cmap_def
        split: if_splits option.splits elim!: cbind_InrE)
  moreover have "instance_ok (cf_service_pool cf) ?new" using new_instance_ok [OF assms(2)] by simp
  ultimately show ?thesis using assms(2) by (auto simp: serving_ok_def insert_proxy_instance_append)
qed

lemma config_section_line_serving:
  assumes "config_section_line env line cf = Inr (Some (sect, cf'))" and "serving_ok cf"
  shows "serving_ok cf'"
proof (cases "config_file_parse_main line")
  case True
  with assms show ?thesis by (simp add: config_section_line_def)
next
  case False
  note run = assms(1) [unfolded config_section_line_def if_not_P [OF False]]
  obtain l where l: "config_file_parse_log_file line cf = Inr l" using run by (auto elim: cbind_InrE)
  show ?thesis
  proof (cases l)
    case (Some x)
    obtain r cf1 where x: "x = (r, cf1)" by (cases x)
    have "same_instances cf cf1"
      using l Some x
      by (auto simp: config_file_parse_log_file_def same_instances_def Let_def split: if_splits prod.splits)
    moreover have "cf1 = cf'" using run l Some x by simp
    ultimately show ?thesis using assms(2) by (blast intro: same_instances_serving)
  next
    case None
    note run = run [unfolded l None cbind_Inr option.case]
    obtain p where p: "config_file_parse_proxy_instance env line cf = Inr p" using run by (auto elim: cbind_InrE)
    show ?thesis
    proof (cases p)
      case (Some x)
      obtain r cf1 where x: "x = (r, cf1)" by (cases x)
      with run p Some have "cf1 = cf'" by simp
      then show ?thesis using proxy_section_serving [OF _ assms(2)] p Some x by simp
    next
      case None
      with run p obtain r where "config_file_parse_ssh_tunnel env line cf = Inr (Some (r, cf'))"
        by (auto simp: cmap_def elim!: cbind_InrE)
      then have "same_instances cf cf'"
        by (auto simp: config_file_parse_ssh_tunnel_def same_instances_def Let_def set_ssh_name_def cmap_def
            split: if_splits option.splits prod.splits elim!: cbind_InrE)
      then show ?thesis using assms(2) by (rule same_instances_serving)
    qed
  qed
qed

lemma keeps_serving: "keeps_config env serving_ok"
  unfolding keeps_config_def using config_section_line_serving config_entry_line_serving by blast

lemma config_file_parse_serving:
  assumes "config_file_parse env stack f cf = Inr (okay, cf')" and "serving_ok cf"
  shows "serving_ok cf'"
proof (cases "ce_open env f")
  case None
  with assms show ?thesis by (simp add: config_file_parse_def)
next
  case (Some s)
  with assms(1) have "config_lines env (stack @ [f]) f 1 False False s No_section cf = Inr (okay, cf')"
    by (simp add: config_file_parse_def)
  from config_lines_keep [OF keeps_serving assms(2) this] show ?thesis .
qed

section \<open>The options\<close>

lemma main_start_serving:
  assumes "main_start env mem = Inr cf"
  shows "serving_ok cf"
  using assms
  by (auto simp: main_start_def Let_def serving_ok_def instance_ok_def services_ok_def new_proxy_instance_def
      valid_level_cases log_level_defs split: prod.splits elim!: cbind_InrE)

lemma main_option_serving:
  assumes "main_option env opt st = Inr (Inr st')" and "serving_ok (ms_config st)"
  shows "serving_ok (ms_config st')"
proof (cases opt)
  case (Opt_c f)
  with assms(1) obtain okay cf where "config_file_parse env [] f (ms_config st) = Inr (okay, cf)" "ms_config st' = cf"
    by (auto simp: main_option_def split: if_splits elim!: cbind_InrE)
  with config_file_parse_serving assms(2) show ?thesis by blast
next
  case (Opt_V f)
  obtain log logs where "find_or_create_log_file (cf_log_files (ms_config st)) (Some (cf_log_default (ms_config st))) f = (log, logs)"
    by fastforce
  with assms Opt_V show ?thesis by (auto simp: main_option_def Let_def serving_ok_def)
qed (use assms in \<open>auto simp: main_option_def Let_def serving_ok_def\<close>)

lemma main_options_serving:
  "main_options env opts st = Inr (Inr st') \<Longrightarrow> serving_ok (ms_config st) \<Longrightarrow> serving_ok (ms_config st')"
proof (induction opts arbitrary: st)
  case (Cons opt opts)
  obtain r where r: "main_option env opt st = Inr r" using Cons.prems(1) by (auto elim: cbind_InrE)
  with Cons.prems(1) obtain st1 where st1: "r = Inr st1" "main_options env opts st1 = Inr (Inr st')"
    by (cases r) auto
  from Cons.IH [OF st1(2) main_option_serving [OF r [unfolded st1(1)] Cons.prems(2)]] show ?case .
qed simp

lemma main_serving:
  assumes "main env mem daemon_rc setrlimit_rc opts = Inr (Inr cf)"
  shows "serving_ok cf \<and> config_ok cf"
proof -
  obtain cf0 where s: "main_start env mem = Inr cf0"
    using assms by (auto simp: main_def elim: cbind_InrE)
  obtain r where r: "main_options env opts \<lparr>ms_config = cf0, ms_help = False, ms_daemonize = False\<rparr> = Inr r"
    using assms s by (auto simp: main_def elim: cbind_InrE)
  with assms s obtain st where st: "r = Inr st" "ms_config st = cf"
    by (cases r) (auto simp: main_def split: if_splits)
  from main_options_serving [OF r [unfolded st(1)]] main_start_serving [OF s]
    main_options_step [OF r [unfolded st(1)]] main_start_ok [OF s] st(2)
  show ?thesis by (auto simp: config_step_def)
qed

section \<open>The call of the server\<close>

text \<open>\<open>main\<close> hands over its lists; the counters of \<open>server.c\<close> and \<open>build_json.c\<close> have their first values.\<close>

definition called_server :: "config \<Rightarrow> 'c file_map \<Rightarrow> int \<Rightarrow> 'c server_state" where
  "called_server cf fs en =
     \<lparr>ss_proxies = cf_proxies cf, ss_tunnels = cf_tunnels cf, ss_logs = cf_log_files cf, ss_files = fs,
      ss_id_pool = 0, ss_json_size = 1024, ss_errno = en\<rparr>"

lemma services_ok_distinct:
  "services_ok pool services \<Longrightarrow> pool < 2 ^ 64 \<Longrightarrow> ids_distinct (map (srv_id \<circ> any_service_base) services)"
  by (auto simp: services_ok_def ids_distinct_def list_all_iff)

lemma called_configured:
  assumes "serving_ok cf" and "config_ok cf" and "cf_service_pool cf < 2 ^ 64"
  shows "configured (called_server cf fs en)"
proof -
  have "log_level_str (lc_level (pi_log p)) \<noteq> None \<and> list_all service_typed (pi_service_list p) \<and>
      ids_distinct (map (srv_id \<circ> any_service_base) (pi_service_list p)) \<and> pi_client_connection_list p = []"
    if "p \<in> set (cf_proxies cf)" for p
  proof -
    have ok: "instance_ok (cf_service_pool cf) p" using that assms(1) by (simp add: serving_ok_def)
    then have "services_ok (cf_service_pool cf) (pi_service_list p)" by (simp add: instance_ok_def)
    from services_ok_distinct [OF this assms(3)] ok log_level_str_valid [of "lc_level (pi_log p)"] this
    show ?thesis by (auto simp: instance_ok_def services_ok_def service_made_def list_all_iff)
  qed
  then show ?thesis using assms(2) by (simp add: configured_def called_server_def config_ok_def list_all_iff)
qed

section \<open>What no step changes\<close>

text \<open>Everything of an instance but its connections, and which tunnels there are.\<close>

definition fixed_part :: "proxy_instance \<Rightarrow> proxy_instance" where
  "fixed_part p = p\<lparr>pi_client_connection_list := []\<rparr>"

definition same_fixed :: "'c server_state \<Rightarrow> 'c server_state \<Rightarrow> bool" where
  "same_fixed s s' \<longleftrightarrow>
     map fixed_part (ss_proxies s') = map fixed_part (ss_proxies s) \<and>
     map tunnel_key (ss_tunnels s') = map tunnel_key (ss_tunnels s)"

lemma fixed_part_connections [simp]: "fixed_part (p\<lparr>pi_client_connection_list := cons\<rparr>) = fixed_part p"
  by (simp add: fixed_part_def)

lemma fixed_part_operations [simp]:
  "fixed_part (sweep_connections now p) = fixed_part p" "fixed_part (answer_json json p) = fixed_part p"
  "fixed_part (update_connection k f p) = fixed_part p"
  by (simp_all add: sweep_connections_def answer_json_def update_connection_def)

lemma accept_connections_fixed:
  "accept_connections env pfd proxies pool en = Inr (proxies', pool', en') \<Longrightarrow> map fixed_part proxies' = map fixed_part proxies"
proof (induction proxies arbitrary: pool en proxies')
  case (Cons p rest)
  obtain c1 p1 e1 where one: "accept_at_services env pfd (pi_service_list p) (pi_client_connection_list p) pool en = Inr (c1, p1, e1)"
    using Cons.prems by (auto elim: cbind_InrE)
  obtain rest' where "accept_connections env pfd rest p1 e1 = Inr (rest', pool', en')"
    and "proxies' = p\<lparr>pi_client_connection_list := c1\<rparr> # rest'"
    using Cons.prems one by (auto simp: cmap_def elim!: cbind_InrE)
  with Cons.IH show ?case by simp
qed simp

lemma answer_requests_fixed:
  assumes "answer_requests env d st proxies T = Inr (proxies', d')"
  shows "map fixed_part proxies' = map fixed_part proxies"
proof (cases "list_ex (\<lambda>p. list_ex wants_json (pi_client_connection_list p)) proxies")
  case True
  with assms obtain j where "proxies' = map (answer_json j) proxies"
    by (auto simp: answer_requests_def cmap_def elim!: cbind_InrE)
  then show ?thesis by (simp add: o_def)
next
  case False
  with assms show ?thesis by (simp add: answer_requests_def)
qed

lemma server_turn_fixed:
  assumes "server_turn cf env s = Inr (Inr s')"
  shows "same_fixed s s'"
proof -
  obtain proxies en where ev: "server_events cf env s = Inr (Inr (proxies, ss_tunnels s', ss_id_pool s', en))"
    and ans: "answer_requests (te_json env) (ss_json_size s) (sc_start_time cf) proxies (ss_tunnels s')
       = Inr (ss_proxies s', ss_json_size s')"
    using server_turn_obtain [OF assms] by metis
  from ev show ?thesis
  proof (rule server_events_obtain)
    fix pfd0 pfd en0 proxies0 en1
    assume "accept_connections (te_arrivals env) pfd (ss_proxies s) (ss_id_pool s) en0 = Inr (proxies0, ss_id_pool s', en1)"
      and sweep: "proxies = map (sweep_connections (te_now env)) proxies0"
      and check: "check_ssh_tunnels (te_policy env) (sc_globals cf) proxies (ss_tunnels s) = Inr (Inr (ss_tunnels s'))"
    from accept_connections_fixed [OF this(1)] answer_requests_fixed [OF ans] check_ssh_tunnels_keys [OF check]
    show ?thesis by (simp add: same_fixed_def sweep o_def)
  qed
qed

lemma same_fixed_trans: "same_fixed a b \<Longrightarrow> same_fixed b c \<Longrightarrow> same_fixed a c"
  by (simp add: same_fixed_def)

lemma server_step_fixed: "server_step cf s s' \<Longrightarrow> same_fixed s s'"
proof (induction rule: server_step.induct)
  case (turn env s s')
  then show ?case by (rule server_turn_fixed)
next
  case (thread k f s)
  show ?case by (simp add: same_fixed_def o_def)
qed

lemma server_steps_fixed: "(server_step cf)\<^sup>*\<^sup>* s s' \<Longrightarrow> same_fixed s s'"
proof (induction rule: rtranclp_induct)
  case base
  then show ?case by (simp add: same_fixed_def)
next
  case (step y z)
  then show ?case by (blast intro: same_fixed_trans server_step_fixed)
qed

section \<open>The program\<close>

text \<open>The invariant of the server together with what the configuration promised.\<close>

definition promised :: "ssh_tunnel list \<Rightarrow> proxy_instance \<Rightarrow> bool" where
  "promised tunnels p \<longleftrightarrow>
     list_all service_made (pi_service_list p) \<and> rules_ok (st_id ` set tunnels) (pi_route_rule_list p)"

definition program_ok :: "'c server_state \<Rightarrow> bool" where
  "program_ok s \<longleftrightarrow> server_ok s \<and> list_all (promised (ss_tunnels s)) (ss_proxies s)"

lemma promised_fixed: "promised T (fixed_part p) = promised T p"
  by (simp add: promised_def fixed_part_def)

lemma promised_keys: "map tunnel_key T' = map tunnel_key T \<Longrightarrow> promised T' p = promised T p"
  using keys_ids [of T' T] by (simp add: promised_def)

lemma promised_same_fixed:
  assumes "same_fixed s s'" and "list_all (promised (ss_tunnels s)) (ss_proxies s)"
  shows "list_all (promised (ss_tunnels s')) (ss_proxies s')"
proof -
  have "list_all (promised (ss_tunnels s)) (map fixed_part (ss_proxies s))"
    using assms(2) by (simp add: list_all_iff promised_fixed)
  then have "list_all (promised (ss_tunnels s)) (map fixed_part (ss_proxies s'))"
    using assms(1) by (simp add: same_fixed_def)
  moreover have "promised (ss_tunnels s') p = promised (ss_tunnels s) p" for p
    using assms(1) by (intro promised_keys) (simp add: same_fixed_def)
  ultimately show ?thesis by (simp add: list_all_iff promised_fixed)
qed

lemma listen_any_made: "listen_any env a = Inr b \<Longrightarrow> service_made b = service_made a"
  by (cases a)
    (auto simp: listen_any_def cmap_def service_made_def service_typed_def elim!: cbind_InrE)

lemma listen_all_promised:
  assumes "listen_all env proxies = Inr proxies'" and "list_all (promised T) proxies"
  shows "list_all (promised T) proxies'"
proof -
  have "promised T p'"
    if run: "cmap (\<lambda>services. p\<lparr>pi_service_list := services\<rparr>) (map_cres (listen_any env) (pi_service_list p)) = Inr p'"
      and before: "promised T p" for p p'
  proof -
    obtain services where s: "map_cres (listen_any env) (pi_service_list p) = Inr services"
      "p' = p\<lparr>pi_service_list := services\<rparr>"
      using run by (auto simp: cmap_def elim: cbind_InrE)
    from map_cres_all2 [OF s(1)] have "list_all service_made services = list_all service_made (pi_service_list p)"
      by (induction rule: list_all2_induct) (auto dest: listen_any_made)
    with s(2) before show ?thesis by (simp add: promised_def)
  qed
  with map_cres_all2 [OF assms(1) [unfolded listen_all_def]] assms(2) show ?thesis
    by (induction rule: list_all2_induct) auto
qed

lemma program_starts_ok:
  assumes "main env mem daemon_rc setrlimit_rc opts = Inr (Inr conf)" and "cf_service_pool conf < 2 ^ 64"
    and "server_start senv (cf_main conf) (cf_globals conf) (called_server conf fs en) = Inr (cf, s)"
  shows "program_ok s"
proof -
  have conf: "serving_ok conf" "config_ok conf" using main_serving [OF assms(1)] by blast+
  obtain proxies where l: "listen_all (se_listen senv) (cf_proxies conf) = Inr proxies"
    and s: "s = (called_server conf fs en)\<lparr>ss_proxies := proxies\<rparr>"
    using assms(3) by (auto simp: server_start_def called_server_def split: if_splits option.splits prod.splits elim!: cbind_InrE)
  have "list_all (promised (cf_tunnels conf)) (cf_proxies conf)"
    using conf by (auto simp: list_all_iff promised_def serving_ok_def config_ok_def proxy_ok_def instance_ok_def services_ok_def)
  from listen_all_promised [OF l this] server_start_ok [OF assms(3) called_configured [OF conf assms(2)]]
  show ?thesis by (simp add: program_ok_def s called_server_def)
qed

lemma program_steps_ok: "(server_step cf)\<^sup>*\<^sup>* s s' \<Longrightarrow> program_ok s \<Longrightarrow> program_ok s'"
  using server_steps_ok promised_same_fixed [OF server_steps_fixed] unfolding program_ok_def by blast

end
