(* ===== verification/Safe_IO.thy ===== *)
theory Safe_IO
  imports Net
begin

text \<open>
  \<open>src/safe_blocking_readwrite.c\<close>: reads and writes that survive interruptions, and reads
  and writes of an exact number of bytes. Each loop is defined on the script of one socket
  and \<open>errno\<close>, then lifted to the world. The dump of the bytes to the log is left out.
\<close>

section \<open>sb_read\<close>

function sb_read_loop :: "nat \<Rightarrow> rd_event list \<times> int \<Rightarrow> (int \<times> byte list \<times> rd_event list \<times> int) cres" where
  "sb_read_loop n (es, en) =
     cbind (sys_read n (es, en)) (\<lambda>(rc, d, es', en').
       if rc < 0 \<and> en' = EINTR then sb_read_loop n (es', en') else Inr (rc, d, es', en'))"
  by pat_completeness auto
termination
  by (relation "measure (\<lambda>(n, es, en). length es)") (auto dest: sys_read_length)

definition sb_read :: "world \<Rightarrow> int \<Rightarrow> nat \<Rightarrow> (int \<times> byte list \<times> world) cres" where
  "sb_read w fd buflen =
     cmap (\<lambda>(rc, d, es, en). (rc, d, (upd_sock w fd ((w_sock w fd)\<lparr>sk_rx := es\<rparr>))\<lparr>w_errno := en\<rparr>))
       (sb_read_loop buflen (sk_rx (w_sock w fd), w_errno w))"

section \<open>sb_read_len\<close>

text \<open>
  The loop with \<open>remain\<close> bytes still wanted. The bytes stored are those of all the reads,
  also when the last one fails; the return value is then the failing one, not the count.
\<close>

function sb_read_len_loop ::
  "nat \<Rightarrow> rd_event list \<times> int \<Rightarrow> (int \<times> byte list \<times> rd_event list \<times> int) cres" where
  "sb_read_len_loop remain (es, en) =
     cbind (sys_read remain (es, en)) (\<lambda>(rc, d, es', en').
       let remain' = remain - length d in
       if (rc > 0 \<and> remain' > 0) \<or> (rc < 0 \<and> en' = EINTR)
       then cmap (\<lambda>(rc2, d2, s). (rc2, d @ d2, s)) (sb_read_len_loop remain' (es', en'))
       else Inr (rc, d, es', en'))"
  by pat_completeness auto
termination
proof (relation "measure (\<lambda>(n, es, en). n + length es)", goal_cases)
  case (2 remain es en x rc r1 d r2 es' en' remain')
  then have r: "sys_read remain (es, en) = Inr (rc, d, es', en')" by simp
  show ?case using 2(5,6) sys_read_length [OF r] by (cases "length d") auto
qed simp

definition sb_read_len :: "world \<Rightarrow> int \<Rightarrow> nat \<Rightarrow> (int \<times> byte list \<times> world) cres" where
  "sb_read_len w fd buflen =
     cmap (\<lambda>(rc, d, es, en).
             (if rc > 0 then int (length d) else rc, d,
              (upd_sock w fd ((w_sock w fd)\<lparr>sk_rx := es\<rparr>))\<lparr>w_errno := en\<rparr>))
       (sb_read_len_loop buflen (sk_rx (w_sock w fd), w_errno w))"

section \<open>sb_write_len\<close>

text \<open>The bytes taken by the kernel are the second component.\<close>

function sb_write_len_loop ::
  "byte list \<Rightarrow> wr_event list \<times> int \<Rightarrow> (int \<times> byte list \<times> wr_event list \<times> int) cres" where
  "sb_write_len_loop buf (es, en) =
     cbind (sys_write buf (es, en)) (\<lambda>(rc, d, es', en').
       let rest = drop (length d) buf in
       if (rc \<ge> 0 \<and> rest \<noteq> []) \<or> (rc < 0 \<and> en' = EINTR)
       then cmap (\<lambda>(rc2, d2, s). (rc2, d @ d2, s)) (sb_write_len_loop rest (es', en'))
       else Inr (rc, d, es', en'))"
  by pat_completeness auto
termination
proof (relation "measure (\<lambda>(buf, es, en). length es)", goal_cases)
  case (2 buf es en x rc r1 d r2 es' en' rest)
  then have r: "sys_write buf (es, en) = Inr (rc, d, es', en')" by simp
  show ?case using 2(5,6) sys_write_length [OF r] by auto
qed simp

definition sb_write_len :: "world \<Rightarrow> int \<Rightarrow> byte list \<Rightarrow> (int \<times> world) cres" where
  "sb_write_len w fd buf =
     cmap (\<lambda>(rc, d, es, en).
             (if rc > 0 then int (length d) else rc,
              (upd_sock w fd ((w_sock w fd)\<lparr>sk_wr := es, sk_sent := sk_sent (w_sock w fd) @ d\<rparr>))\<lparr>w_errno := en\<rparr>))
       (sb_write_len_loop buf (sk_wr (w_sock w fd), w_errno w))"

declare sb_read_loop.simps [simp del] sb_read_len_loop.simps [simp del] sb_write_len_loop.simps [simp del]

section \<open>Chunking does not matter\<close>

text \<open>
  What a read of \<open>n\<close> bytes gives depends only on the bytes the peer delivers and on how the
  stream ends, not on how they are cut into chunks or on interruptions.
\<close>

definition rx_state_eq :: "rd_event list \<Rightarrow> byte list \<Rightarrow> rx_end \<Rightarrow> bool" where
  "rx_state_eq es bs e \<longleftrightarrow> rx_stream es = bs \<and> rx_end_of es = e"

lemma sb_read_len_loop_enough:
  assumes "0 < n" and "n \<le> length (rx_stream es)"
  shows "\<exists>rc es' en'. sb_read_len_loop n (es, en) = Inr (rc, take n (rx_stream es), es', en') \<and> 0 < rc \<and>
           rx_state_eq es' (drop n (rx_stream es)) (rx_end_of es)"
  using assms
proof (induction n "(es, en)" arbitrary: es en rule: sb_read_len_loop.induct)
  case (1 n es en)
  obtain rc d es1 en1 where r: "sys_read n (es, en) = Inr (rc, d, es1, en1)"
  proof (cases "sys_read n (es, en)")
    case (Inl f)
    with sys_read_blocks [OF "1.prems"(1) Inl] "1.prems" show ?thesis by simp
  next
    case (Inr a)
    with that show ?thesis by (cases a) blast
  qed
  note s = sys_read_stream [OF r "1.prems"(1)] and l = sys_read_length [OF r]
  note ih = "1.hyps" [OF r refl refl refl refl]
  show ?case
  proof (cases "0 < rc")
    case True
    then have d: "rx_stream es = d @ rx_stream es1" "rx_end_of es1 = rx_end_of es" "rc = int (length d)"
      "length d \<le> n" using s l by auto
    show ?thesis
    proof (cases "length d < n")
      case True
      then obtain rc2 es2 en2 where
        "sb_read_len_loop (n - length d) (es1, en1) = Inr (rc2, take (n - length d) (rx_stream es1), es2, en2)"
        "0 < rc2" "rx_state_eq es2 (drop (n - length d) (rx_stream es1)) (rx_end_of es1)"
        using ih \<open>0 < rc\<close> "1.prems" d by force
      then show ?thesis
        using True \<open>0 < rc\<close> d r
        by (subst sb_read_len_loop.simps) (simp add: rx_state_eq_def)
    next
      case False
      then have "n = length d" using d by simp
      then show ?thesis using \<open>0 < rc\<close> d r
        by (subst sb_read_len_loop.simps) (simp add: rx_state_eq_def)
    qed
  next
    case False
    then have neg: "rc < 0" using s "1.prems" by (auto split: if_splits)
    then have "en1 = EINTR" "d = []" "rx_stream es1 = rx_stream es" "rx_end_of es1 = rx_end_of es"
      using s l "1.prems" by (auto split: if_splits)
    moreover from this obtain rc2 es2 en2 where
        "sb_read_len_loop n (es1, en1) = Inr (rc2, take n (rx_stream es1), es2, en2)"
        "0 < rc2" "rx_state_eq es2 (drop n (rx_stream es1)) (rx_end_of es1)"
      using ih neg "1.prems" by force
    ultimately show ?thesis using neg r
      by (subst sb_read_len_loop.simps) (simp add: rx_state_eq_def)
  qed
qed

lemma sb_read_len_loop_short:
  assumes "length (rx_stream es) < n"
  shows "case rx_end_of es of
           End_block \<Rightarrow> sb_read_len_loop n (es, en) = Inl Hang
         | End_eof \<Rightarrow> \<exists>es' en'. sb_read_len_loop n (es, en) = Inr (0, rx_stream es, es', en') \<and>
                       rx_state_eq es' [] End_eof
         | End_fail e \<Rightarrow> \<exists>es'. sb_read_len_loop n (es, en) = Inr (-1, rx_stream es, es', e)"
  using assms
proof (induction n "(es, en)" arbitrary: es en rule: sb_read_len_loop.induct)
  case (1 n es en)
  show ?case
  proof (cases "sys_read n (es, en)")
    case (Inl f)
    then show ?thesis using sys_read_blocks [OF _ Inl] "1.prems"
      by (subst sb_read_len_loop.simps) auto
  next
    case (Inr x)
    then obtain rc d es1 en1 where r: "sys_read n (es, en) = Inr (rc, d, es1, en1)" by (cases x) auto
    note s = sys_read_stream [OF r] and l = sys_read_length [OF r]
    note ih = "1.hyps" [OF r refl refl refl refl]
    consider (more) "0 < rc" | (eof) "rc = 0" | (again) "rc < 0" "en1 = EINTR" | (fail) "rc < 0" "en1 \<noteq> EINTR"
      by linarith
    then show ?thesis
    proof cases
      case more
      then have d: "rx_stream es = d @ rx_stream es1" "rx_end_of es1 = rx_end_of es" "length d < n"
        using s l "1.prems" by auto
      with ih more "1.prems" r show ?thesis
        by (subst sb_read_len_loop.simps, subst (2) sb_read_len_loop.simps, subst (3) sb_read_len_loop.simps)
           (force split: rx_end.splits)
    next
      case eof
      with s l r "1.prems" show ?thesis
        by (subst (2) sb_read_len_loop.simps) (auto simp: rx_state_eq_def)
    next
      case again
      then have "rx_stream es1 = rx_stream es" "rx_end_of es1 = rx_end_of es" "d = []"
        using s l "1.prems" by auto
      with ih again "1.prems" r show ?thesis
        by (subst sb_read_len_loop.simps, subst (2) sb_read_len_loop.simps, subst (3) sb_read_len_loop.simps)
           (force split: rx_end.splits)
    next
      case fail
      with s l r "1.prems" show ?thesis
        by (subst (3) sb_read_len_loop.simps) auto
    qed
  qed
qed

section \<open>Writes\<close>

lemma sb_write_len_loop_room:
  assumes "length buf \<le> wr_room es" and "buf \<noteq> []"
  shows "\<exists>rc es' en'. sb_write_len_loop buf (es, en) = Inr (rc, buf, es', en') \<and> 0 < rc \<and>
           wr_room es' = wr_room es - length buf \<and> wr_end_of es' = wr_end_of es"
  using assms
proof (induction buf "(es, en)" arbitrary: es en rule: sb_write_len_loop.induct)
  case (1 buf es en)
  obtain rc d es1 en1 where r: "sys_write buf (es, en) = Inr (rc, d, es1, en1)"
  proof (cases "sys_write buf (es, en)")
    case (Inl f)
    with sys_write_blocks [OF Inl] "1.prems" show ?thesis by simp
  next
    case (Inr a)
    with that show ?thesis by (cases a) blast
  qed
  note s = sys_write_room [OF r "1.prems"(2)] and l = sys_write_length [OF r]
  note ih = "1.hyps" [OF r refl refl refl refl]
  have d: "d @ drop (length d) buf = buf" using l by (metis append_take_drop_id)
  show ?case
  proof (cases "(rc \<ge> 0 \<and> drop (length d) buf \<noteq> []) \<or> (rc < 0 \<and> en1 = EINTR)")
    case True
    then have room: "length (drop (length d) buf) \<le> wr_room es1" "drop (length d) buf \<noteq> []"
      "wr_room es1 = wr_room es - length d" "wr_end_of es1 = wr_end_of es"
      using s l "1.prems" by (auto split: if_splits)
    obtain rc2 es2 en2 where
      "sb_write_len_loop (drop (length d) buf) (es1, en1) = Inr (rc2, drop (length d) buf, es2, en2)"
      "0 < rc2" "wr_room es2 = wr_room es1 - length (drop (length d) buf)" "wr_end_of es2 = wr_end_of es1"
      using ih [OF True] room by blast
    with r True d room show ?thesis
      by (subst sb_write_len_loop.simps) (auto simp: Let_def)
  next
    case False
    then have rc: "0 \<le> rc" "drop (length d) buf = []" using s "1.prems" by (auto split: if_splits)
    then have db: "d = buf" using d by simp
    then have "0 < rc" using rc l "1.prems" by auto
    with r False db s rc show ?thesis by (subst sb_write_len_loop.simps) auto
  qed
qed

lemma sb_write_len_loop_short:
  assumes "wr_room es < length buf"
  shows "case wr_end_of es of
           End_fail e \<Rightarrow> \<exists>es'. sb_write_len_loop buf (es, en) = Inr (-1, take (wr_room es) buf, es', e)
         | _ \<Rightarrow> sb_write_len_loop buf (es, en) = Inl Hang"
  using assms
proof (induction buf "(es, en)" arbitrary: es en rule: sb_write_len_loop.induct)
  case (1 buf es en)
  have ne: "buf \<noteq> []" using "1.prems" by auto
  show ?case
  proof (cases "sys_write buf (es, en)")
    case (Inl f)
    then have "sb_write_len_loop buf (es, en) = Inl Hang"
      using sys_write_blocks [OF Inl] by (subst sb_write_len_loop.simps) auto
    then show ?thesis using sys_write_blocks [OF Inl] by simp
  next
    case (Inr x)
    then obtain rc d es1 en1 where r: "sys_write buf (es, en) = Inr (rc, d, es1, en1)" by (cases x) auto
    note s = sys_write_room [OF r ne] and l = sys_write_length [OF r]
    note ih = "1.hyps" [OF r refl refl refl refl]
    show ?thesis
    proof (cases "(rc \<ge> 0 \<and> drop (length d) buf \<noteq> []) \<or> (rc < 0 \<and> en1 = EINTR)")
      case True
      have step: "sb_write_len_loop buf (es, en) =
        cmap (\<lambda>(rc2, d2, s). (rc2, d @ d2, s)) (sb_write_len_loop (drop (length d) buf) (es1, en1))"
        using True r by (subst sb_write_len_loop.simps) (simp add: Let_def)
      have room: "wr_room es = length d + wr_room es1" "wr_end_of es1 = wr_end_of es"
        using s l True by (auto split: if_splits)
      have "take (wr_room es) buf = d @ take (wr_room es1) (drop (length d) buf)"
        using l room by (metis add.commute append_take_drop_id take_add take_drop)
      with ih [OF True] room "1.prems" show ?thesis
        unfolding step by (force split: rx_end.splits)
    next
      case False
      then have "rc < 0" "en1 \<noteq> EINTR" using s l "1.prems" by (auto split: if_splits)
      with s l r show ?thesis by (subst sb_write_len_loop.simps) auto
    qed
  qed
qed

section \<open>On the world\<close>

text \<open>A read touches the read script of its socket and \<open>errno\<close>, a write the write side.\<close>

definition only_rx :: "int \<Rightarrow> world \<Rightarrow> world \<Rightarrow> bool" where
  "only_rx fd w w' \<longleftrightarrow>
     (\<exists>es en. w' = (upd_sock w fd ((w_sock w fd)\<lparr>sk_rx := es\<rparr>))\<lparr>w_errno := en\<rparr>)"

definition only_tx :: "int \<Rightarrow> world \<Rightarrow> world \<Rightarrow> byte list \<Rightarrow> bool" where
  "only_tx fd w w' sent \<longleftrightarrow>
     (\<exists>es en. w' = (upd_sock w fd ((w_sock w fd)\<lparr>sk_wr := es, sk_sent := sk_sent (w_sock w fd) @ sent\<rparr>))\<lparr>w_errno := en\<rparr>)"

definition rx_has :: "world \<Rightarrow> int \<Rightarrow> byte list \<Rightarrow> bool" where
  "rx_has w fd bs \<longleftrightarrow> rx_stream (sk_rx (w_sock w fd)) = bs"

definition tx_room :: "world \<Rightarrow> int \<Rightarrow> nat" where
  "tx_room w fd = wr_room (sk_wr (w_sock w fd))"

lemma only_rxI [simp, intro]:
  "only_rx fd w ((upd_sock w fd ((w_sock w fd)\<lparr>sk_rx := es\<rparr>))\<lparr>w_errno := en\<rparr>)"
  by (auto simp: only_rx_def)

lemma only_txI [simp, intro]:
  "only_tx fd w ((upd_sock w fd ((w_sock w fd)\<lparr>sk_wr := es, sk_sent := sk_sent (w_sock w fd) @ bs\<rparr>))\<lparr>w_errno := en\<rparr>) bs"
  by (auto simp: only_tx_def)

lemma only_rx_refl [simp]: "only_rx fd w w"
  unfolding only_rx_def
  by (rule exI [of _ "sk_rx (w_sock w fd)"], rule exI [of _ "w_errno w"]) simp

lemma only_rx_trans: "only_rx fd w w1 \<Longrightarrow> only_rx fd w1 w2 \<Longrightarrow> only_rx fd w w2"
  unfolding only_rx_def by clarsimp blast

lemma only_rx_frame:
  assumes "only_rx fd w w'"
  shows "fd' \<noteq> fd \<Longrightarrow> w_sock w' fd' = w_sock w fd'"
    and "sk_sent (w_sock w' fd') = sk_sent (w_sock w fd')"
    and "sk_wr (w_sock w' fd') = sk_wr (w_sock w fd')"
    and "sk_open (w_sock w' fd') = sk_open (w_sock w fd')"
    and "w_dns w' = w_dns w" and "w_dials w' = w_dials w" and "w_polls w' = w_polls w"
    and "w_dialed w' = w_dialed w" and "w_msgs w' = w_msgs w" and "w_sleeps w' = w_sleeps w"
    and "w_now w' = w_now w" and "w_strerror w' = w_strerror w"
    and "tx_room w' fd' = tx_room w fd'"
  using assms by (auto simp: only_rx_def tx_room_def split: if_splits)

lemma only_tx_frame:
  assumes "only_tx fd w w' bs"
  shows "fd' \<noteq> fd \<Longrightarrow> w_sock w' fd' = w_sock w fd'"
    and "sk_sent (w_sock w' fd) = sk_sent (w_sock w fd) @ bs"
    and "sk_rx (w_sock w' fd') = sk_rx (w_sock w fd')"
    and "sk_open (w_sock w' fd') = sk_open (w_sock w fd')"
    and "w_dns w' = w_dns w" and "w_dials w' = w_dials w" and "w_polls w' = w_polls w"
    and "w_dialed w' = w_dialed w" and "w_msgs w' = w_msgs w" and "w_sleeps w' = w_sleeps w"
    and "w_now w' = w_now w" and "w_strerror w' = w_strerror w"
    and "rx_has w' fd' ds = rx_has w fd' ds"
  using assms by (auto simp: only_tx_def rx_has_def split: if_splits)

lemma sb_read_len_zero: "sb_read_len w fd 0 = Inr (0, [], w)"
  by (simp add: sb_read_len_def sb_read_len_loop.simps sys_read_zero)

lemma sb_read_len_has:
  assumes "rx_has w fd (bs @ rest)" and "length bs = n"
  shows "\<exists>w'. sb_read_len w fd n = Inr (int n, bs, w') \<and> only_rx fd w w' \<and> rx_has w' fd rest \<and>
           rx_end_of (sk_rx (w_sock w' fd)) = rx_end_of (sk_rx (w_sock w fd))"
proof (cases "n = 0")
  case True
  with assms show ?thesis by (auto simp: sb_read_len_zero)
next
  case False
  let ?es = "sk_rx (w_sock w fd)"
  have st: "rx_stream ?es = bs @ rest" using assms(1) by (simp add: rx_has_def)
  obtain rc es' en' where l: "sb_read_len_loop n (?es, w_errno w) = Inr (rc, bs, es', en')" "0 < rc"
    and s: "rx_state_eq es' rest (rx_end_of ?es)"
    using sb_read_len_loop_enough [of n ?es "w_errno w"] False assms(2) st by auto
  then show ?thesis
    using assms(2) by (auto simp: sb_read_len_def rx_has_def rx_state_eq_def)
qed

lemma sb_read_len_closed:
  assumes "rx_has w fd bs" and "length bs < n" and "rx_end_of (sk_rx (w_sock w fd)) = End_eof"
  shows "\<exists>w'. sb_read_len w fd n = Inr (0, bs, w') \<and> only_rx fd w w'"
  using sb_read_len_loop_short [of "sk_rx (w_sock w fd)" n "w_errno w"] assms
  by (auto simp: sb_read_len_def rx_has_def)

lemma sb_read_len_cases:
  assumes "sb_read_len w fd n = Inr (rc, d, w')"
  shows "only_rx fd w w' \<and>
         (rc = int n \<and> length d = n \<and> (\<exists>rest. rx_has w fd (d @ rest) \<and> rx_has w' fd rest) \<or>
          rc \<le> 0 \<and> rx_has w fd d \<and> length d < n)"
proof (cases "n \<le> length (rx_stream (sk_rx (w_sock w fd)))")
  case True
  let ?s = "rx_stream (sk_rx (w_sock w fd))"
  have h: "rx_has w fd (take n ?s @ drop n ?s)" by (simp add: rx_has_def)
  from sb_read_len_has [OF h, of n] assms True show ?thesis by (fastforce simp: rx_has_def)
next
  case False
  then have lt: "length (rx_stream (sk_rx (w_sock w fd))) < n" by simp
  from sb_read_len_loop_short [OF lt, of "w_errno w"] assms lt show ?thesis
    by (auto simp: sb_read_len_def rx_has_def split: rx_end.splits)
qed

lemma sb_write_len_room:
  assumes "length buf \<le> tx_room w fd" and "buf \<noteq> []"
  shows "\<exists>w'. sb_write_len w fd buf = Inr (int (length buf), w') \<and> only_tx fd w w' buf \<and>
           tx_room w' fd = tx_room w fd - length buf"
  using sb_write_len_loop_room [of buf "sk_wr (w_sock w fd)" "w_errno w"] assms
  by (auto simp: sb_write_len_def tx_room_def)

lemma sb_write_len_cases:
  assumes "sb_write_len w fd buf = Inr (rc, w')" and "buf \<noteq> []"
  shows "\<exists>sent. only_tx fd w w' sent \<and>
           (rc = int (length buf) \<and> sent = buf \<or> rc = -1 \<and> length sent < length buf \<and> sent = take (length sent) buf)"
proof (cases "length buf \<le> tx_room w fd")
  case True
  from sb_write_len_room [OF True assms(2)] assms(1) show ?thesis by auto
next
  case False
  then have lt: "wr_room (sk_wr (w_sock w fd)) < length buf" by (simp add: tx_room_def)
  show ?thesis
  proof (cases "wr_end_of (sk_wr (w_sock w fd))")
    case (End_fail e)
    with sb_write_len_loop_short [OF lt, of "w_errno w"] obtain es' where
      l: "sb_write_len_loop buf (sk_wr (w_sock w fd), w_errno w)
            = Inr (-1, take (wr_room (sk_wr (w_sock w fd))) buf, es', e)" by auto
    let ?d = "take (wr_room (sk_wr (w_sock w fd))) buf"
    have "only_tx fd w w' ?d \<and> rc = -1" using assms(1) l by (auto simp: sb_write_len_def)
    moreover have "length ?d < length buf \<and> ?d = take (length ?d) buf" using lt by auto
    ultimately show ?thesis by blast
  qed (use sb_write_len_loop_short [OF lt, of "w_errno w"] assms(1) in \<open>simp_all add: sb_write_len_def\<close>)
qed

section \<open>The contracts\<close>

text \<open>
  \<open>sb_read_len\<close> depends on the bytes the peer delivers and on how its stream ends, not
  on how they are chunked or interrupted: when the stream holds \<open>n\<close> bytes it returns \<open>n\<close> and
  exactly the next \<open>n\<close> bytes, leaving the rest in order; when the stream ends first it
  returns 0, when it fails first -1 with that error number, and when neither happens it
  waits for ever. It touches nothing but the read side of that socket.
\<close>

theorem sb_read_len_contract:
  "let s = rx_stream (sk_rx (w_sock w fd)) in
   if n \<le> length s
   then \<exists>w'. sb_read_len w fd n = Inr (int n, take n s, w') \<and> only_rx fd w w' \<and> rx_has w' fd (drop n s)
   else case rx_end_of (sk_rx (w_sock w fd)) of
          End_block \<Rightarrow> sb_read_len w fd n = Inl Hang
        | End_eof \<Rightarrow> \<exists>w'. sb_read_len w fd n = Inr (0, s, w') \<and> only_rx fd w w' \<and> rx_has w' fd []
        | End_fail e \<Rightarrow> \<exists>w'. sb_read_len w fd n = Inr (-1, s, w') \<and> only_rx fd w w' \<and> w_errno w' = e"
proof (cases "n \<le> length (rx_stream (sk_rx (w_sock w fd)))")
  case True
  let ?s = "rx_stream (sk_rx (w_sock w fd))"
  have h: "rx_has w fd (take n ?s @ drop n ?s)" by (simp add: rx_has_def)
  from sb_read_len_has [OF h, of n] True show ?thesis by (auto simp: Let_def)
next
  case False
  then have lt: "length (rx_stream (sk_rx (w_sock w fd))) < n" by simp
  from sb_read_len_loop_short [OF lt, of "w_errno w"] False show ?thesis
    by (auto simp: Let_def sb_read_len_def rx_has_def rx_state_eq_def split: rx_end.splits)
qed

text \<open>
  \<open>sb_write_len\<close> sends all or reports: when the peer takes that many bytes it returns
  their number and exactly the buffer has been sent, in order and once; when the connection
  fails first it returns -1 with the error number and a proper prefix has been sent; else it
  waits for ever. Short writes and interruptions do not show.
\<close>

theorem sb_write_len_contract:
  assumes "buf \<noteq> []"
  shows "if length buf \<le> tx_room w fd
   then \<exists>w'. sb_write_len w fd buf = Inr (int (length buf), w') \<and> only_tx fd w w' buf
   else case wr_end_of (sk_wr (w_sock w fd)) of
          End_fail e \<Rightarrow> \<exists>w'. sb_write_len w fd buf = Inr (-1, w') \<and> w_errno w' = e \<and>
                                 only_tx fd w w' (take (tx_room w fd) buf)
        | _ \<Rightarrow> sb_write_len w fd buf = Inl Hang"
proof (cases "length buf \<le> tx_room w fd")
  case True
  from sb_write_len_room [OF True assms] True show ?thesis by auto
next
  case False
  then have lt: "wr_room (sk_wr (w_sock w fd)) < length buf" by (simp add: tx_room_def)
  from sb_write_len_loop_short [OF lt, of "w_errno w"] False show ?thesis
    by (auto simp: sb_write_len_def tx_room_def split: rx_end.splits)
qed

theorem sb_write_len_contract_witness:
  "let w = quiet_world\<lparr>w_sock := (\<lambda>_. quiet_sock\<lparr>sk_wr := [Wr_take 1, Wr_fail EINTR, Wr_take 5]\<rparr>)\<rparr>
   in \<exists>w'. sb_write_len w 7 [1, 2, 3] = Inr (3, w') \<and> only_tx 7 w w' [1, 2, 3]"
  using sb_write_len_contract [of "[1, 2, 3]"
      "quiet_world\<lparr>w_sock := (\<lambda>_. quiet_sock\<lparr>sk_wr := [Wr_take 1, Wr_fail EINTR, Wr_take 5]\<rparr>)\<rparr>" 7]
  by (simp add: tx_room_def)

section \<open>Peers that answer\<close>

text \<open>The peer goes on until it has sent enough, closes or fails: a read does not wait for ever.\<close>

definition rx_live :: "world \<Rightarrow> int \<Rightarrow> bool" where
  "rx_live w fd \<longleftrightarrow> rx_end_of (sk_rx (w_sock w fd)) \<noteq> End_block"

lemma sb_read_len_step:
  assumes "rx_live w fd" and "rx_has w fd s"
  obtains (full) w' where "n \<le> length s" "sb_read_len w fd n = Inr (int n, take n s, w')"
      "only_rx fd w w'" "rx_has w' fd (drop n s)" "rx_live w' fd"
    | (short) rc d w' where "length s < n" "sb_read_len w fd n = Inr (rc, d, w')" "rc \<noteq> int n" "only_rx fd w w'"
proof (cases "n \<le> length s")
  case True
  have "rx_has w fd (take n s @ drop n s)" using assms(2) by simp
  from sb_read_len_has [OF this, of n] True assms(1) show ?thesis
    by (auto simp: rx_live_def intro: full)
next
  case False
  then have lt: "length (rx_stream (sk_rx (w_sock w fd))) < n" using assms(2) by (simp add: rx_has_def)
  show ?thesis
  proof (rule short)
    show "length s < n" using False by simp
    show "sb_read_len w fd n = Inr (fst (projr (sb_read_len w fd n)), fst (snd (projr (sb_read_len w fd n))),
             snd (snd (projr (sb_read_len w fd n))))"
      "fst (projr (sb_read_len w fd n)) \<noteq> int n"
      "only_rx fd w (snd (snd (projr (sb_read_len w fd n))))"
      using sb_read_len_loop_short [OF lt, of "w_errno w"] assms(1) lt
      by (auto simp: sb_read_len_def rx_live_def split: rx_end.splits)
  qed
qed

section \<open>One read\<close>

lemma sb_read_loop_cases:
  "sb_read_loop n (es, en) = Inr (rc, d, es', en') \<Longrightarrow> 0 < n \<Longrightarrow>
     (if 0 < rc then rc = int (length d) \<and> length d \<le> n \<and> rx_stream es = d @ rx_stream es'
      else d = [] \<and> rx_stream es = [] \<and> (rc = 0 \<longrightarrow> rx_stream es' = []))"
proof (induction n "(es, en)" arbitrary: es en rule: sb_read_loop.induct)
  case (1 n es en)
  obtain r0 d0 es1 en1 where r: "sys_read n (es, en) = Inr (r0, d0, es1, en1)"
    using "1.prems"(1) by (subst (asm) sb_read_loop.simps) (auto simp: cbind_eq_Inr)
  note s = sys_read_stream [OF r "1.prems"(2)] and l = sys_read_length [OF r]
  show ?case
  proof (cases "r0 < 0 \<and> en1 = EINTR")
    case True
    then have "sb_read_loop n (es1, en1) = Inr (rc, d, es', en')"
      using "1.prems"(1) r by (subst (asm) sb_read_loop.simps) simp
    from "1.hyps" [OF r refl refl refl True this "1.prems"(2)] s True show ?thesis by (auto split: if_splits)
  next
    case False
    then have "rc = r0 \<and> d = d0 \<and> es' = es1 \<and> en' = en1"
      using "1.prems"(1) r by (subst (asm) sb_read_loop.simps) auto
    with s l False show ?thesis by (auto split: if_splits)
  qed
qed

lemma sb_read_cases:
  assumes "sb_read w fd n = Inr (rc, d, w')" and "0 < n"
  shows "only_rx fd w w' \<and>
     (if 0 < rc then rc = int (length d) \<and> length d \<le> n \<and> (\<exists>s. rx_has w fd (d @ s) \<and> rx_has w' fd s)
      else d = [] \<and> rx_has w fd [] \<and> (rc = 0 \<longrightarrow> rx_has w' fd []))"
proof -
  obtain es en where l: "sb_read_loop n (sk_rx (w_sock w fd), w_errno w) = Inr (rc, d, es, en)"
    and w': "w' = (upd_sock w fd ((w_sock w fd)\<lparr>sk_rx := es\<rparr>))\<lparr>w_errno := en\<rparr>"
    using assms(1) by (auto simp: sb_read_def cmap_def cbind_eq_Inr)
  from sb_read_loop_cases [OF l assms(2)] show ?thesis
    unfolding w' by (auto simp: rx_has_def)
qed

end
