(* ===== verification/Rules_Engine.thy ===== *)
theory Rules_Engine
  imports Dns_Util Client_Connection
begin

text \<open>
  \<open>src/route_rules_engine.c\<close>: how the route of a connection is chosen. The rules are tried
  in order; a rule applies when all its conditions hold of the destination as it is then,
  changes_dst the destination, and ends the search when it names a tunnel. The logging calls
  are left out. The resolver is passed to the functions that call it; \<open>decide_applicable_rule\<close>
  passes \<open>resolve_dns_for_host_id\<close>.
\<close>

definition SOCKS5_ADDRTYPE_IPV4 :: int where "SOCKS5_ADDRTYPE_IPV4 = 1"

datatype sa_family = FAM_UNSPEC | FAM_INET | FAM_INET6

text \<open>The local variables \<open>name\<close>, \<open>ipaddr\<close>, \<open>family\<close>, \<open>ipv4_addr\<close> of \<open>decide_applicable_rule\<close>.\<close>

record rre_view =
  rv_name :: "string option"
  rv_ipaddr :: "string option"
  rv_family :: sa_family
  rv_ipv4_addr :: u32

record rre_globals =
  route_rule_id_pool :: nat
  default_direct :: "route_rule option"

section \<open>The view of the destination\<close>

definition rre_get_host_id_name :: "host_id \<Rightarrow> string option" where
  "rre_get_host_id_name dst =
     (if host_id_has_name dst then Some (host_id_get_name dst) else None)"

text \<open>A text that does not fit leaves the stack buffer unwritten, and it is then read.\<close>

definition rre_get_host_id_addr ::
  "host_id \<Rightarrow> nat \<Rightarrow> (string option \<times> sa_family \<times> u32) cres" where
  "rre_get_host_id_addr dst buflen =
     (if host_id_has_addr dst then
        (case host_id_addr_str dst buflen of
           None \<Rightarrow> Inl UB
         | Some s \<Rightarrow>
             (case host_id_get_addr dst of
                AF_INET sa \<Rightarrow> Inr (Some s, FAM_INET, ntohl (sin_addr sa))
              | AF_INET6 sa \<Rightarrow> Inr (Some s, FAM_INET6, 0)
              | AF_UNSPEC \<Rightarrow> Inr (Some s, FAM_UNSPEC, 0)))
      else Inr (None, FAM_UNSPEC, 0))"

definition rre_view_of :: "host_id \<Rightarrow> rre_view cres" where
  "rre_view_of dst =
     cmap (\<lambda>(s, fam, a). \<lparr>rv_name = rre_get_host_id_name dst, rv_ipaddr = s, rv_family = fam, rv_ipv4_addr = a\<rparr>)
       (rre_get_host_id_addr dst MAX_DNS)"

section \<open>Conditions\<close>

definition rre_match_text :: "(string \<Rightarrow> string \<Rightarrow> bool cres) \<Rightarrow> string \<Rightarrow> rre_view \<Rightarrow> bool cres" where
  "rre_match_text test pat v =
     (if pat = [] then Inr True
      else
        cbind (case rv_name v of None \<Rightarrow> Inr False | Some n \<Rightarrow> test n pat) (\<lambda>by_name.
        cbind (case rv_ipaddr v of None \<Rightarrow> Inr False | Some a \<Rightarrow> test a pat) (\<lambda>by_addr.
          Inr (by_name \<or> by_addr))))"

definition rre_match_net :: "bool \<Rightarrow> u32 \<Rightarrow> u32 \<Rightarrow> rre_view \<Rightarrow> bool" where
  "rre_match_net have addr msk v =
     (if have then
        rv_ipaddr v \<noteq> None \<and> rv_family v = FAM_INET \<and>
        (let dst_net = rv_ipv4_addr v AND msk; rule_net = addr AND msk in dst_net = rule_net)
      else True)"

definition rre_conditions :: "int \<Rightarrow> rre_view \<Rightarrow> route_rule \<Rightarrow> bool cres" where
  "rre_conditions port v route =
     cbind (rre_match_text (\<lambda>s p. Inr (s = p)) (rr_match_is route) v) (\<lambda>ok1.
     if \<not> ok1 then Inr False else
     cbind (rre_match_text (\<lambda>s p. Inr (string_starts_with s p)) (rr_match_starts_with route) v) (\<lambda>ok2.
     if \<not> ok2 then Inr False else
     cbind (rre_match_text string_ends_with (rr_match_ends_with route) v) (\<lambda>ok3.
     if \<not> ok3 then Inr False else
     cbind (rre_match_text (\<lambda>s p. Inr (string_contains s p)) (rr_match_contains route) v) (\<lambda>ok4.
     if \<not> ok4 then Inr False else
     if rr_match_port route \<noteq> 0 \<and> rr_match_port route \<noteq> port then Inr False
     else if \<not> rre_match_net (rr_have_match_ipv4 route) (rr_match_ipv4_addr route)
                 (rr_match_ipv4_mask route) v then Inr False
     else Inr (rre_match_net (rr_have_map_ipv4 route) (rr_map_ipv4_addr route)
                 (rr_map_ipv4_mask route) v)))))"

section \<open>Permutations\<close>

definition rre_permute_to ::
  "route_rule \<Rightarrow> client_connection \<times> rre_view \<Rightarrow> (client_connection \<times> rre_view) cres" where
  "rre_permute_to route = (\<lambda>(con, v).
     (if rr_have_to_ipv4 route \<and> rv_ipaddr v \<noteq> None \<and> rv_family v = FAM_INET then
        let mask = rr_to_ipv4_mask route;
            mask_neg = 0xffffffff XOR mask;
            new_ipv4_addr = (rv_ipv4_addr v AND mask_neg) OR (rr_to_ipv4_addr route AND mask);
            sin = \<lparr>sin_port = htons (host_id_get_port (cc_dst_host con)), sin_addr = htonl new_ipv4_addr\<rparr>;
            dst = host_id_set_name (host_id_set_addr_in (cc_dst_host con) sin) []
        in cmap (\<lambda>v'. (con\<lparr>cc_dst_host := dst, cc_socks_address_type := SOCKS5_ADDRTYPE_IPV4\<rparr>, v'))
             (rre_view_of dst)
      else Inr (con, v)))"

definition rre_permute_dns ::
  "(host_id \<Rightarrow> (int \<times> host_id) cres) \<Rightarrow> route_rule \<Rightarrow> client_connection \<times> rre_view
     \<Rightarrow> (client_connection \<times> rre_view) cres" where
  "rre_permute_dns resolve route = (\<lambda>(con, v).
     (if rr_resolve_dns route \<and> host_id_has_name (cc_dst_host con) then
        cbind (resolve (cc_dst_host con)) (\<lambda>(rc, tmp_id).
        cmap (\<lambda>v'. (con\<lparr>cc_dst_host := tmp_id\<rparr>, v')) (rre_view_of tmp_id))
      else Inr (con, v)))"

section \<open>The search\<close>

fun rre_search ::
  "(host_id \<Rightarrow> (int \<times> host_id) cres) \<Rightarrow> int \<Rightarrow> route_rule list \<Rightarrow> client_connection \<times> rre_view
     \<Rightarrow> (route_rule option \<times> client_connection) cres" where
  "rre_search resolve port [] cv = Inr (None, fst cv)"
| "rre_search resolve port (route # rules) cv =
     cbind (rre_conditions port (snd cv) route) (\<lambda>applies.
     if \<not> applies then rre_search resolve port rules cv
     else
       cbind (rre_permute_to route cv) (\<lambda>cv.
       cbind (rre_permute_dns resolve route cv) (\<lambda>cv.
       if rr_tunnel route \<noteq> [] then Inr (Some route, fst cv)
       else rre_search resolve port rules cv)))"

text \<open>The static default route, built on first use.\<close>

definition ensure_default_direct :: "ssh_globals \<Rightarrow> rre_globals \<Rightarrow> rre_globals" where
  "ensure_default_direct sg gl =
     (if default_direct gl = None then
        let (r, pool) = new_route_rule (route_rule_id_pool gl)
        in gl\<lparr>route_rule_id_pool := pool,
              default_direct := Some (r\<lparr>rr_file_name := ''default_direct'',
                                        rr_tunnel := [ssh_tunnel_direct sg]\<rparr>)\<rparr>
      else gl)"

definition decide_applicable_rule ::
  "dns_env \<Rightarrow> ssh_globals \<Rightarrow> rre_globals \<Rightarrow> route_rule list \<Rightarrow> client_connection
     \<Rightarrow> (int \<times> client_connection \<times> rre_globals) cres" where
  "decide_applicable_rule env sg gl route_rule_list con =
     cbind (rre_view_of (cc_dst_host con)) (\<lambda>v.
     cbind (rre_search (resolve_dns_for_host_id env) (host_id_get_port (cc_dst_host con))
              route_rule_list (con, v)) (\<lambda>(applicable, con).
       let gl = ensure_default_direct sg gl
       in case applicable of
            None \<Rightarrow> Inr (0, con\<lparr>cc_route := default_direct gl\<rparr>, gl)
          | Some route \<Rightarrow> Inr (1, con\<lparr>cc_route := Some route\<rparr>, gl)))"

section \<open>The specification of a rule\<close>

text \<open>
  What a rule says of a destination, over the texts it is known by: its name when it has
  one and its address when it has one.
\<close>

definition dst_texts :: "host_id \<Rightarrow> string set" where
  "dst_texts h =
     (if hid_name h = [] then {} else {hid_name h}) \<union>
     (case host_id_addr_str h MAX_DNS of None \<Rightarrow> {} | Some s \<Rightarrow> {s})"

definition in_net :: "host_id \<Rightarrow> u32 \<Rightarrow> u32 \<Rightarrow> bool" where
  "in_net h addr msk =
     (case hid_addr h of AF_INET sa \<Rightarrow> ntohl (sin_addr sa) AND msk = addr AND msk | _ \<Rightarrow> False)"

definition rule_matches :: "int \<Rightarrow> host_id \<Rightarrow> route_rule \<Rightarrow> bool" where
  "rule_matches port h r \<longleftrightarrow>
     (rr_match_is r = [] \<or> rr_match_is r \<in> dst_texts h) \<and>
     (rr_match_starts_with r = [] \<or> (\<exists>t \<in> dst_texts h. prefix (rr_match_starts_with r) t)) \<and>
     (rr_match_ends_with r = [] \<or> (\<exists>t \<in> dst_texts h. suffix (rr_match_ends_with r) (lower_str t))) \<and>
     (rr_match_contains r = [] \<or>
        (\<exists>t \<in> dst_texts h. sublist (lower_str (rr_match_contains r)) (lower_str t))) \<and>
     (rr_match_port r = 0 \<or> rr_match_port r = port) \<and>
     (rr_have_match_ipv4 r \<longrightarrow> in_net h (rr_match_ipv4_addr r) (rr_match_ipv4_mask r)) \<and>
     (rr_have_map_ipv4 r \<longrightarrow> in_net h (rr_map_ipv4_addr r) (rr_map_ipv4_mask r))"

text \<open>
  The destination after \<open>to\<close>: the bits of the mask are the rule's, the others (the host
  part) are the destination's; the name is dropped.
\<close>

definition translated :: "route_rule \<Rightarrow> host_id \<Rightarrow> host_id" where
  "translated r h =
     (case hid_addr h of
        AF_INET sa \<Rightarrow>
          if rr_have_to_ipv4 r then
            \<lparr>hid_name = [],
             hid_addr = AF_INET
               \<lparr>sin_port = htons (hid_port h),
                sin_addr = htonl ((ntohl (sin_addr sa) AND NOT (rr_to_ipv4_mask r))
                                  OR (rr_to_ipv4_addr r AND rr_to_ipv4_mask r))\<rparr>,
             hid_port = hid_port h mod 65536\<rparr>
          else h
      | _ \<Rightarrow> h)"

definition resolved :: "(host_id \<Rightarrow> (int \<times> host_id) cres) \<Rightarrow> route_rule \<Rightarrow> host_id \<Rightarrow> host_id \<Rightarrow> bool" where
  "resolved resolve r h h' =
     (if rr_resolve_dns r \<and> hid_name h \<noteq> [] then \<exists>rc. resolve h = Inr (rc, h') else h' = h)"

text \<open>
  The search as a relation: the rules, the destination before, the rule that decides (if
  one does) and the destination after.
\<close>

inductive routed ::
  "(host_id \<Rightarrow> (int \<times> host_id) cres) \<Rightarrow> int \<Rightarrow> route_rule list \<Rightarrow> host_id \<Rightarrow> route_rule option \<Rightarrow> host_id \<Rightarrow> bool"
  for resolve port where
  routed_end: "routed resolve port [] h None h"
| routed_skip: "\<lbrakk>\<not> rule_matches port h r; routed resolve port rs h out h'\<rbrakk>
     \<Longrightarrow> routed resolve port (r # rs) h out h'"
| routed_pass: "\<lbrakk>rule_matches port h r; resolved resolve r (translated r h) h1; rr_tunnel r = [];
      routed resolve port rs h1 out h'\<rbrakk> \<Longrightarrow> routed resolve port (r # rs) h out h'"
| routed_hit: "\<lbrakk>rule_matches port h r; resolved resolve r (translated r h) h'; rr_tunnel r \<noteq> []\<rbrakk>
     \<Longrightarrow> routed resolve port (r # rs) h (Some r) h'"

inductive_simps routed_Nil [simp]: "routed resolve port [] h out h'"

inductive_simps routed_Cons: "routed resolve port (r # rs) h out h'"

lemma rule_to_SOME_mem: "routed resolve port rs h (Some r) h' \<Longrightarrow> r \<in> set rs \<and> rr_tunnel r \<noteq> []"
  by (induction rs h "Some r" h' rule: routed.induct) auto

section \<open>The view is exact\<close>

lemma rre_view_of_defined:
  assumes "host_id_ok h"
  shows "\<exists>v. rre_view_of h = Inr v"
proof (cases "host_id_has_addr h")
  case True
  from host_id_addr_str_fits [OF assms this, of MAX_DNS] obtain s
    where "host_id_addr_str h MAX_DNS = Some s" by (auto simp: MAX_DNS_def)
  with True show ?thesis
    by (auto simp: rre_view_of_def rre_get_host_id_addr_def split: sockaddr.splits)
qed (simp add: rre_view_of_def rre_get_host_id_addr_def)

lemma host_id_addr_str_unspec: "hid_addr h = AF_UNSPEC \<Longrightarrow> host_id_addr_str h n = None"
  by (simp add: host_id_addr_str_def Let_def)

lemma rre_view_of_Inr:
  assumes "rre_view_of h = Inr v"
  shows "rv_name v = (if hid_name h = [] then None else Some (hid_name h))"
    and "rv_ipaddr v = host_id_addr_str h MAX_DNS"
    and "rv_ipaddr v \<noteq> None \<and> rv_family v = FAM_INET \<longleftrightarrow> (\<exists>sa. hid_addr h = AF_INET sa)"
    and "hid_addr h = AF_INET sa \<Longrightarrow> rv_ipv4_addr v = ntohl (sin_addr sa)"
  using assms
  by (auto simp: rre_view_of_def rre_get_host_id_addr_def rre_get_host_id_name_def host_id_has_name_def
      host_id_get_name_def host_id_has_addr_def host_id_get_addr_def host_id_addr_str_unspec
      split: if_splits option.splits sockaddr.splits)

lemma dst_texts_bound:
  assumes "host_id_ok h" and "t \<in> dst_texts h"
  shows "length t < 1000"
proof -
  have "length s \<le> 46" if s: "host_id_addr_str h MAX_DNS = Some s" for s
  proof -
    have "host_id_has_addr h"
      using s by (auto simp: host_id_has_addr_def host_id_addr_str_unspec)
    from host_id_addr_str_fits [OF assms(1) this, of MAX_DNS] s show ?thesis by (auto simp: MAX_DNS_def)
  qed
  then show ?thesis
    using assms by (fastforce simp: dst_texts_def host_id_ok_def MAX_DNS_def split: if_splits option.splits)
qed

lemma rre_match_text_eq:
  assumes "rre_view_of h = Inr v" and "\<And>t. t \<in> dst_texts h \<Longrightarrow> test t pat = Inr (P t)"
  shows "rre_match_text test pat v = Inr (pat = [] \<or> (\<exists>t \<in> dst_texts h. P t))"
  using assms(2)
  by (auto simp: rre_match_text_def rre_view_of_Inr [OF assms(1)] dst_texts_def split: option.splits)

lemma rre_match_net_eq:
  assumes "rre_view_of h = Inr v"
  shows "rre_match_net have a m v \<longleftrightarrow> (have \<longrightarrow> in_net h a m)"
  using rre_view_of_Inr(3,4) [OF assms]
  by (auto simp: rre_match_net_def in_net_def Let_def split: sockaddr.splits)

lemma rre_conditions_eq:
  assumes "host_id_ok h" and v: "rre_view_of h = Inr v"
  shows "rre_conditions port v r = Inr (rule_matches port h r)"
proof -
  have ends: "string_ends_with t p = Inr (suffix p (lower_str t))" if "t \<in> dst_texts h" for t p
    using dst_texts_bound [OF assms(1) that] by (simp add: string_ends_with_eq)
  have "rre_match_text (\<lambda>s p. Inr (s = p)) (rr_match_is r) v =
          Inr (rr_match_is r = [] \<or> (\<exists>t \<in> dst_texts h. t = rr_match_is r))"
    by (rule rre_match_text_eq [OF v]) simp
  moreover have "rre_match_text (\<lambda>s p. Inr (string_starts_with s p)) (rr_match_starts_with r) v =
          Inr (rr_match_starts_with r = [] \<or> (\<exists>t \<in> dst_texts h. prefix (rr_match_starts_with r) t))"
    by (rule rre_match_text_eq [OF v]) (simp add: string_starts_with_iff)
  moreover have "rre_match_text string_ends_with (rr_match_ends_with r) v =
          Inr (rr_match_ends_with r = [] \<or> (\<exists>t \<in> dst_texts h. suffix (rr_match_ends_with r) (lower_str t)))"
    by (rule rre_match_text_eq [OF v]) (simp add: ends)
  moreover have "rre_match_text (\<lambda>s p. Inr (string_contains s p)) (rr_match_contains r) v =
          Inr (rr_match_contains r = [] \<or>
               (\<exists>t \<in> dst_texts h. sublist (lower_str (rr_match_contains r)) (lower_str t)))"
    by (rule rre_match_text_eq [OF v]) (simp add: string_contains_iff)
  ultimately show ?thesis
    unfolding rre_conditions_def rule_matches_def
    by (auto simp: rre_match_net_eq [OF v])
qed

section \<open>The permutations are exact\<close>

definition same_but_dst :: "client_connection \<Rightarrow> client_connection \<Rightarrow> bool" where
  "same_but_dst con con' \<longleftrightarrow>
     (\<exists>d t. con' = con\<lparr>cc_dst_host := d, cc_socks_address_type := t\<rparr>)"

lemma same_but_dst_refl [simp]: "same_but_dst con con"
  unfolding same_but_dst_def
  by (rule exI [of _ "cc_dst_host con"], rule exI [of _ "cc_socks_address_type con"]) simp

lemma same_but_dst_trans: "same_but_dst a b \<Longrightarrow> same_but_dst b c \<Longrightarrow> same_but_dst a c"
  by (clarsimp simp: same_but_dst_def) blast

lemma xor_ones: "0xffffffff XOR (m :: u32) = NOT m"
proof -
  have "(0xffffffff :: u32) = -1" by simp
  then show ?thesis by (simp only:) (rule bit_word_eqI, simp add: bit_simps)
qed

lemma rre_permute_to_eq:
  assumes "host_id_ok (cc_dst_host con)" and v: "rre_view_of (cc_dst_host con) = Inr v"
  shows "\<exists>con' v'. rre_permute_to r (con, v) = Inr (con', v') \<and> same_but_dst con con' \<and>
           cc_dst_host con' = translated r (cc_dst_host con) \<and> host_id_ok (cc_dst_host con') \<and>
           rre_view_of (cc_dst_host con') = Inr v'"
proof (cases "rr_have_to_ipv4 r \<and> (\<exists>sa. hid_addr (cc_dst_host con) = AF_INET sa)")
  case True
  then obtain sa where sa: "hid_addr (cc_dst_host con) = AF_INET sa" by blast
  let ?d = "translated r (cc_dst_host con)"
  have ok: "host_id_ok ?d"
    using True sa by (simp add: translated_def host_id_ok_def addr_wf_def addr_port_def MAX_DNS_def)
  then obtain v' where v': "rre_view_of ?d = Inr v'" using rre_view_of_defined by blast
  have ip4: "rv_ipv4_addr v = ntohl (sin_addr sa)" by (rule rre_view_of_Inr(4) [OF v sa])
  have d: "host_id_set_name
             (host_id_set_addr_in (cc_dst_host con)
               \<lparr>sin_port = htons (host_id_get_port (cc_dst_host con)),
                sin_addr = htonl ((rv_ipv4_addr v AND (0xffffffff XOR rr_to_ipv4_mask r)) OR
                                  (rr_to_ipv4_addr r AND rr_to_ipv4_mask r))\<rparr>) [] = ?d"
    using True sa
    by (simp add: translated_def ip4 host_id_set_name_def host_id_set_addr_in_def strncpy_term_def
        xor_ones host_id_get_port_def)
  have fam: "rv_ipaddr v \<noteq> None \<and> rv_family v = FAM_INET" using rre_view_of_Inr(3) [OF v] sa by blast
  have "rre_permute_to r (con, v) =
          Inr (con\<lparr>cc_dst_host := ?d, cc_socks_address_type := SOCKS5_ADDRTYPE_IPV4\<rparr>, v')"
    using True fam v' unfolding rre_permute_to_def Let_def by (simp only: prod.case d) simp
  then show ?thesis using ok v' by (auto simp: same_but_dst_def)
next
  case False
  then have "rre_permute_to r (con, v) = Inr (con, v)"
    using rre_view_of_Inr(3) [OF v] by (auto simp: rre_permute_to_def)
  moreover have "translated r (cc_dst_host con) = cc_dst_host con"
    using False by (auto simp: translated_def split: sockaddr.splits)
  ultimately show ?thesis using assms by simp
qed

section \<open>The search refines its specification\<close>

context resolver
begin

lemma rre_permute_dns_eq:
  assumes "env_ok env" and "host_id_ok (cc_dst_host con)" and v: "rre_view_of (cc_dst_host con) = Inr v"
  shows "\<exists>con' v'. rre_permute_dns (resolve env) r (con, v) = Inr (con', v') \<and> same_but_dst con con' \<and>
           resolved (resolve env) r (cc_dst_host con) (cc_dst_host con') \<and>
           host_id_ok (cc_dst_host con') \<and> rre_view_of (cc_dst_host con') = Inr v'"
proof (cases "rr_resolve_dns r \<and> hid_name (cc_dst_host con) \<noteq> []")
  case True
  obtain rc h' where h': "resolve env (cc_dst_host con) = Inr (rc, h')" "host_id_ok h'"
    using resolveE [OF assms(1,2)] by metis
  obtain v' where v': "rre_view_of h' = Inr v'" using rre_view_of_defined [OF h'(2)] by blast
  have "rre_permute_dns (resolve env) r (con, v) = Inr (con\<lparr>cc_dst_host := h'\<rparr>, v')"
    using True h' v' by (simp add: rre_permute_dns_def host_id_has_name_def)
  moreover have "same_but_dst con (con\<lparr>cc_dst_host := h'\<rparr>)"
    unfolding same_but_dst_def
    by (rule exI [of _ h'], rule exI [of _ "cc_socks_address_type con"]) simp
  ultimately show ?thesis using True h' v' by (auto simp: resolved_def)
next
  case False
  then have "rre_permute_dns (resolve env) r (con, v) = Inr (con, v)"
    by (auto simp: rre_permute_dns_def host_id_has_name_def)
  with False assms show ?thesis by (auto simp: resolved_def)
qed

lemma rre_search_routed:
  assumes "env_ok env" and "host_id_ok (cc_dst_host con)" and "rre_view_of (cc_dst_host con) = Inr v"
  shows "\<exists>out con'. rre_search (resolve env) port rules (con, v) = Inr (out, con') \<and>
           same_but_dst con con' \<and> host_id_ok (cc_dst_host con') \<and>
           routed (resolve env) port rules (cc_dst_host con) out (cc_dst_host con')"
  using assms(2,3)
proof (induction rules arbitrary: con v)
  case (Cons r rules)
  show ?case
  proof (cases "rule_matches port (cc_dst_host con) r")
    case False
    with Cons rre_conditions_eq [OF Cons.prems] show ?thesis
      by (fastforce intro: routed_skip)
  next
    case True
    obtain con1 v1 where 1: "rre_permute_to r (con, v) = Inr (con1, v1)" "same_but_dst con con1"
      "cc_dst_host con1 = translated r (cc_dst_host con)" "host_id_ok (cc_dst_host con1)"
      "rre_view_of (cc_dst_host con1) = Inr v1"
      using rre_permute_to_eq [OF Cons.prems] by metis
    obtain con2 v2 where 2: "rre_permute_dns (resolve env) r (con1, v1) = Inr (con2, v2)"
      "same_but_dst con1 con2" "resolved (resolve env) r (cc_dst_host con1) (cc_dst_host con2)"
      "host_id_ok (cc_dst_host con2)" "rre_view_of (cc_dst_host con2) = Inr v2"
      using rre_permute_dns_eq [OF assms(1) 1(4,5)] by metis
    have step: "rre_search (resolve env) port (r # rules) (con, v) =
      (if rr_tunnel r \<noteq> [] then Inr (Some r, con2) else rre_search (resolve env) port rules (con2, v2))"
      using True rre_conditions_eq [OF Cons.prems] 1(1) 2(1) by simp
    show ?thesis
    proof (cases "rr_tunnel r = []")
      case True
      obtain out con' where 3: "rre_search (resolve env) port rules (con2, v2) = Inr (out, con')"
        "same_but_dst con2 con'" "host_id_ok (cc_dst_host con')"
        "routed (resolve env) port rules (cc_dst_host con2) out (cc_dst_host con')"
        using Cons.IH [OF 2(4,5)] by metis
      have "same_but_dst con con'" using 1(2) 2(2) 3(2) same_but_dst_trans by blast
      moreover have "routed (resolve env) port (r # rules) (cc_dst_host con) out (cc_dst_host con')"
        by (rule routed_pass [OF \<open>rule_matches port (cc_dst_host con) r\<close> _ True 3(4)]) (use 1(3) 2(3) in simp)
      ultimately show ?thesis using step 3(1,3) True by auto
    next
      case False
      have "same_but_dst con con2" using 1(2) 2(2) same_but_dst_trans by blast
      moreover have "routed (resolve env) port (r # rules) (cc_dst_host con) (Some r) (cc_dst_host con2)"
        by (rule routed_hit [OF \<open>rule_matches port (cc_dst_host con) r\<close> _ False]) (use 1(3) 2(3) in simp)
      ultimately show ?thesis using step 2(4) False by auto
    qed
  qed
qed simp

end

text \<open>
  The relation is deterministic, so the specification determines the outcome.
\<close>

lemma resolved_fun: "resolved f r h a \<Longrightarrow> resolved f r h b \<Longrightarrow> a = b"
  by (auto simp: resolved_def split: if_splits)

lemma routed_fun:
  "routed f port rs h out h' \<Longrightarrow> routed f port rs h out2 h2 \<Longrightarrow> out2 = out \<and> h2 = h'"
proof (induction arbitrary: out2 h2 rule: routed.induct)
  case (routed_pass h r h1 rs out h')
  then obtain k where k: "resolved f r (translated r h) k" "routed f port rs k out2 h2"
    by (auto simp: routed_Cons)
  have "k = h1" by (rule resolved_fun [OF k(1) routed_pass.hyps(2)])
  with k(2) routed_pass.IH show ?case by simp
next
  case (routed_hit h r h' rs)
  then have "out2 = Some r \<and> resolved f r (translated r h) h2" by (simp add: routed_Cons)
  with resolved_fun [OF _ routed_hit.hyps(2)] show ?case by simp
qed (auto simp: routed_Cons)

lemma routed_skip_prefix:
  assumes "\<forall>r \<in> set pre. \<not> rule_matches port h r"
  shows "routed f port (pre @ rs) h out h' \<longleftrightarrow> routed f port rs h out h'"
  using assms by (induction pre) (auto simp: routed_Cons)

lemma routed_append:
  "routed f port rs h (Some r) h' \<Longrightarrow> routed f port (rs @ post) h (Some r) h'"
  by (induction rs h "Some r" h' rule: routed.induct) (auto intro: routed.intros)

section \<open>The decision\<close>

lemma ensure_default_direct_Some:
  "\<exists>r. default_direct (ensure_default_direct sg gl) = Some r"
  by (cases "default_direct gl") (simp_all add: ensure_default_direct_def split_def Let_def)

lemma decide_routed:
  assumes "resolver_ok env" and "host_id_ok (cc_dst_host con)"
  shows "\<exists>out con'. same_but_dst con con' \<and> host_id_ok (cc_dst_host con') \<and>
           routed (resolve_dns_for_host_id env) (hid_port (cc_dst_host con)) rules
             (cc_dst_host con) out (cc_dst_host con') \<and>
           decide_applicable_rule env sg gl rules con =
             Inr (if out = None then 0 else 1,
                  con'\<lparr>cc_route := (case out of None \<Rightarrow> default_direct (ensure_default_direct sg gl)
                                     | Some r \<Rightarrow> Some r)\<rparr>,
                  ensure_default_direct sg gl)"
proof -
  obtain v where v: "rre_view_of (cc_dst_host con) = Inr v" using rre_view_of_defined [OF assms(2)] by blast
  obtain out con' where s: "rre_search (resolve_dns_for_host_id env) (hid_port (cc_dst_host con)) rules (con, v)
      = Inr (out, con')"
    and c: "same_but_dst con con'" "host_id_ok (cc_dst_host con')"
      "routed (resolve_dns_for_host_id env) (hid_port (cc_dst_host con)) rules
         (cc_dst_host con) out (cc_dst_host con')"
    using dns.rre_search_routed [OF assms v] by metis
  have "decide_applicable_rule env sg gl rules con =
             Inr (if out = None then 0 else 1,
                  con'\<lparr>cc_route := (case out of None \<Rightarrow> default_direct (ensure_default_direct sg gl)
                                     | Some r \<Rightarrow> Some r)\<rparr>,
                  ensure_default_direct sg gl)"
    by (cases out) (simp_all add: decide_applicable_rule_def v s host_id_get_port_def Let_def)
  with c show ?thesis by metis
qed

lemma decide_outcome:
  assumes "resolver_ok env" and "host_id_ok (cc_dst_host con)"
    and "routed (resolve_dns_for_host_id env) (hid_port (cc_dst_host con)) rules (cc_dst_host con) out d"
  shows "\<exists>t. decide_applicable_rule env sg gl rules con =
             Inr (if out = None then 0 else 1,
                  con\<lparr>cc_dst_host := d, cc_socks_address_type := t,
                      cc_route := (case out of None \<Rightarrow> default_direct (ensure_default_direct sg gl)
                                   | Some r \<Rightarrow> Some r)\<rparr>,
                  ensure_default_direct sg gl)"
proof -
  obtain out' con' where c: "same_but_dst con con'"
    "routed (resolve_dns_for_host_id env) (hid_port (cc_dst_host con)) rules
       (cc_dst_host con) out' (cc_dst_host con')"
    "decide_applicable_rule env sg gl rules con =
             Inr (if out' = None then 0 else 1,
                  con'\<lparr>cc_route := (case out' of None \<Rightarrow> default_direct (ensure_default_direct sg gl)
                                     | Some r \<Rightarrow> Some r)\<rparr>,
                  ensure_default_direct sg gl)"
    using decide_routed [OF assms(1,2)] by metis
  have "out' = out" "cc_dst_host con' = d" using routed_fun [OF assms(3) c(2)] by simp_all
  with c(1,3) show ?thesis by (auto simp: same_but_dst_def)
qed

text \<open>
  C3: with a working resolver the choice of a route always returns, and it is the outcome
  of the specification of the rule list: the route is the first rule with tunnels that
  matches the destination as the earlier matching rules left it (or the default route, with
  the return value 0, when there is none); the destination is the one those rules make of
  it, well-formed again, and nothing else of the connection changes but its address type.
\<close>

theorem decide_applicable_rule_refines:
  assumes "resolver_ok env" and "host_id_ok (cc_dst_host con)"
  shows "\<exists>out d t gl'.
           decide_applicable_rule env sg gl rules con =
             Inr (if out = None then 0 else 1,
                  con\<lparr>cc_dst_host := d, cc_socks_address_type := t,
                      cc_route := (case out of None \<Rightarrow> default_direct gl' | Some r \<Rightarrow> Some r)\<rparr>, gl') \<and>
           routed (resolve_dns_for_host_id env) (hid_port (cc_dst_host con)) rules (cc_dst_host con) out d \<and>
           host_id_ok d \<and> (\<exists>r. default_direct gl' = Some r)"
proof -
  obtain out con' where c: "same_but_dst con con'" "host_id_ok (cc_dst_host con')"
    "routed (resolve_dns_for_host_id env) (hid_port (cc_dst_host con)) rules
       (cc_dst_host con) out (cc_dst_host con')"
    "decide_applicable_rule env sg gl rules con =
             Inr (if out = None then 0 else 1,
                  con'\<lparr>cc_route := (case out of None \<Rightarrow> default_direct (ensure_default_direct sg gl)
                                     | Some r \<Rightarrow> Some r)\<rparr>,
                  ensure_default_direct sg gl)"
    using decide_routed [OF assms] by metis
  from c(1) obtain d t where con': "con' = con\<lparr>cc_dst_host := d, cc_socks_address_type := t\<rparr>"
    by (auto simp: same_but_dst_def)
  show ?thesis
    using c(2-4) ensure_default_direct_Some [of sg gl] unfolding con'
    by (intro exI [of _ out] exI [of _ d] exI [of _ t] exI [of _ "ensure_default_direct sg gl"]) simp
qed

text \<open>Concrete data for the witnesses.\<close>

definition con_to :: "string \<Rightarrow> sockaddr \<Rightarrow> int \<Rightarrow> client_connection" where
  "con_to n a p = blank_connection\<lparr>cc_dst_host := \<lparr>hid_name = n, hid_addr = a, hid_port = p\<rparr>\<rparr>"

definition no_dns :: dns_env where
  "no_dns = \<lparr>getaddrinfo = (\<lambda>_. [Gai_error]), stack_sin_addr = 0\<rparr>"

lemma resolver_ok_no_dns [simp]: "resolver_ok no_dns"
  by (simp add: resolver_ok_def answers_ok_def no_dns_def)

lemma con_to_sel [simp]:
  "cc_dst_host (con_to n a p) = \<lparr>hid_name = n, hid_addr = a, hid_port = p\<rparr>"
  by (simp add: con_to_def)

definition plain_rule :: route_rule where
  "plain_rule = fst (new_route_rule 0)"

lemma plain_rule_sel [simp]:
  "rr_match_is plain_rule = []" "rr_match_starts_with plain_rule = []"
  "rr_match_ends_with plain_rule = []" "rr_match_contains plain_rule = []"
  "rr_match_port plain_rule = 0" "\<not> rr_have_match_ipv4 plain_rule" "\<not> rr_have_map_ipv4 plain_rule"
  "\<not> rr_have_to_ipv4 plain_rule" "\<not> rr_resolve_dns plain_rule" "rr_tunnel plain_rule = []"
  by (simp_all add: plain_rule_def new_route_rule_def)

lemma host_id_ok_name: "length n < 260 \<Longrightarrow> host_id_ok \<lparr>hid_name = n, hid_addr = AF_UNSPEC, hid_port = p\<rparr>"
  by (simp add: host_id_ok_def addr_wf_def addr_port_def MAX_DNS_def)

theorem decide_applicable_rule_refines_witness:
  "let con = con_to ''db'' AF_UNSPEC 80 in
   resolver_ok no_dns \<and> host_id_ok (cc_dst_host con) \<and>
   (\<exists>rc con' gl'. decide_applicable_rule no_dns zero_ssh_globals
      \<lparr>route_rule_id_pool = 0, default_direct = None\<rparr> [plain_rule] con = Inr (rc, con', gl') \<and>
      (\<exists>r. default_direct gl' = Some r))"
proof -
  have ok: "host_id_ok (cc_dst_host (con_to ''db'' AF_UNSPEC 80))" by (simp add: host_id_ok_name)
  show ?thesis
    using decide_applicable_rule_refines [OF resolver_ok_no_dns ok, of zero_ssh_globals
        "\<lparr>route_rule_id_pool = 0, default_direct = None\<rparr>" "[plain_rule]"] ok
    unfolding Let_def by auto
qed

section \<open>First match, catch-all, translation, default\<close>

definition changes_dst :: "route_rule \<Rightarrow> bool" where
  "changes_dst r \<longleftrightarrow> rr_have_to_ipv4 r \<or> rr_resolve_dns r"

lemma unrewritten: "\<not> changes_dst r \<Longrightarrow> translated r h = h \<and> resolved f r h h"
  by (auto simp: changes_dst_def translated_def resolved_def split: sockaddr.splits)

text \<open>
  The first match wins: when no earlier rule matches the destination and a rule that
  names tunnels and rewrites nothing matches it, that rule is the route whatever follows
  it, the return value is 1 and the destination is untouched.
\<close>

theorem decide_first_match:
  assumes "resolver_ok env" and "host_id_ok (cc_dst_host con)"
    and "\<forall>r' \<in> set pre. \<not> rule_matches (hid_port (cc_dst_host con)) (cc_dst_host con) r'"
    and "rule_matches (hid_port (cc_dst_host con)) (cc_dst_host con) r"
    and "rr_tunnel r \<noteq> []" and "\<not> changes_dst r"
  shows "\<exists>t gl'. decide_applicable_rule env sg gl (pre @ r # post) con =
           Inr (1, con\<lparr>cc_socks_address_type := t, cc_route := Some r\<rparr>, gl')"
proof -
  let ?h = "cc_dst_host con"
  have "routed (resolve_dns_for_host_id env) (hid_port ?h) (r # post) ?h (Some r) ?h"
    using assms(4,5) unrewritten [OF assms(6)] by (auto simp: routed_Cons)
  then have "routed (resolve_dns_for_host_id env) (hid_port ?h) (pre @ r # post) ?h (Some r) ?h"
    by (simp add: routed_skip_prefix [OF assms(3)])
  from decide_outcome [OF assms(1,2) this, of sg gl] show ?thesis by auto
qed

theorem decide_first_match_witness:
  "let r1 = plain_rule\<lparr>rr_match_ends_with := ''.corp'', rr_tunnel := [7]\<rparr>;
       r2 = plain_rule\<lparr>rr_match_port := 80, rr_tunnel := [8]\<rparr>;
       con = con_to ''db'' AF_UNSPEC 80 in
   \<exists>con' gl'. decide_applicable_rule no_dns zero_ssh_globals
      \<lparr>route_rule_id_pool = 0, default_direct = None\<rparr> [r1, r2, r1] con = Inr (1, con', gl') \<and>
      cc_route con' = Some r2"
proof -
  let ?r1 = "plain_rule\<lparr>rr_match_ends_with := ''.corp'', rr_tunnel := [7]\<rparr>"
  let ?r2 = "plain_rule\<lparr>rr_match_port := 80, rr_tunnel := [8]\<rparr>"
  let ?con = "con_to ''db'' AF_UNSPEC 80"
  have ok: "host_id_ok (cc_dst_host ?con)" by (simp add: host_id_ok_name)
  have texts: "dst_texts (cc_dst_host ?con) = {''db''}"
    by (simp add: dst_texts_def host_id_addr_str_unspec)
  have "\<not> suffix ''.corp'' (lower_str ''db'')" by (auto dest: suffix_length_le)
  then have 1: "\<forall>r' \<in> set [?r1]. \<not> rule_matches (hid_port (cc_dst_host ?con)) (cc_dst_host ?con) r'"
    by (simp add: rule_matches_def texts del: con_to_sel)
  have 2: "rule_matches (hid_port (cc_dst_host ?con)) (cc_dst_host ?con) ?r2"
    by (simp add: rule_matches_def)
  show ?thesis
    using decide_first_match [OF resolver_ok_no_dns ok 1 2, of zero_ssh_globals _ "[?r1]"]
    unfolding Let_def by (force simp: changes_dst_def)
qed

text \<open>
  A \<open>to\<close> rule translates the destination network: of the new IPv4 address, exactly the
  bits of the mask are the rule's and every host bit is the old one; the port is kept (the
  16 bits a socket address holds), the name is dropped and the address type of the request
  becomes IPv4.
\<close>

theorem decide_to_keeps_host_bits:
  assumes "resolver_ok env" and "host_id_ok (cc_dst_host con)"
    and "hid_addr (cc_dst_host con) = AF_INET sa"
    and "rule_matches (hid_port (cc_dst_host con)) (cc_dst_host con) r"
    and "rr_have_to_ipv4 r" and "\<not> rr_resolve_dns r" and "rr_tunnel r \<noteq> []"
  shows "\<exists>con' gl' sa'. decide_applicable_rule env sg gl (r # rules) con = Inr (1, con', gl') \<and>
           hid_addr (cc_dst_host con') = AF_INET sa' \<and>
           (\<forall>n < 32. bit (ntohl (sin_addr sa')) n =
              (if bit (rr_to_ipv4_mask r) n then bit (rr_to_ipv4_addr r) n
               else bit (ntohl (sin_addr sa)) n)) \<and>
           hid_name (cc_dst_host con') = [] \<and>
           hid_port (cc_dst_host con') = hid_port (cc_dst_host con) mod 65536"
proof -
  let ?h = "cc_dst_host con"
  have "routed (resolve_dns_for_host_id env) (hid_port ?h) (r # rules) ?h (Some r) (translated r ?h)"
    using assms(4,6,7) by (auto simp: routed_Cons resolved_def)
  from decide_outcome [OF assms(1,2) this, of sg gl] obtain t where
    "decide_applicable_rule env sg gl (r # rules) con =
       Inr (1, con\<lparr>cc_dst_host := translated r ?h, cc_socks_address_type := t, cc_route := Some r\<rparr>,
            ensure_default_direct sg gl)" by auto
  then show ?thesis
    using assms(3,5) by (auto simp: translated_def bit_simps)
qed

lemma host_id_ok_v4:
  "host_id_ok \<lparr>hid_name = [], hid_addr = AF_INET \<lparr>sin_port = htons p, sin_addr = a\<rparr>, hid_port = p\<rparr>"
  by (simp add: host_id_ok_def addr_wf_def addr_port_def MAX_DNS_def)

theorem decide_to_keeps_host_bits_witness:
  "let r = plain_rule\<lparr>rr_have_to_ipv4 := True, rr_to_ipv4_addr := 0x0a000000,
             rr_to_ipv4_mask := 0xff000000, rr_tunnel := [7]\<rparr>;
       con = con_to [] (AF_INET \<lparr>sin_port = htons 80, sin_addr = htonl 0xc0a80102\<rparr>) 80 in
   \<exists>con' gl' sa'. decide_applicable_rule no_dns zero_ssh_globals
      \<lparr>route_rule_id_pool = 0, default_direct = None\<rparr> [r] con = Inr (1, con', gl') \<and>
      hid_addr (cc_dst_host con') = AF_INET sa' \<and>
      bit (ntohl (sin_addr sa')) 1 \<and> bit (ntohl (sin_addr sa')) 25 \<and> \<not> bit (ntohl (sin_addr sa')) 31"
proof -
  let ?r = "plain_rule\<lparr>rr_have_to_ipv4 := True, rr_to_ipv4_addr := 0x0a000000,
             rr_to_ipv4_mask := 0xff000000, rr_tunnel := [7]\<rparr>"
  let ?sa = "\<lparr>sin_port = htons 80, sin_addr = htonl 0xc0a80102\<rparr>"
  let ?con = "con_to [] (AF_INET ?sa) 80"
  have ok: "host_id_ok (cc_dst_host ?con)" using host_id_ok_v4 [of 80] by simp
  have m: "rule_matches (hid_port (cc_dst_host ?con)) (cc_dst_host ?con) ?r"
    by (simp add: rule_matches_def)
  have a: "hid_addr (cc_dst_host ?con) = AF_INET ?sa" by simp
  obtain con' gl' sa' where
    d: "decide_applicable_rule no_dns zero_ssh_globals \<lparr>route_rule_id_pool = 0, default_direct = None\<rparr>
          [?r] ?con = Inr (1, con', gl')" "hid_addr (cc_dst_host con') = AF_INET sa'"
    and b: "\<forall>n < 32. bit (ntohl (sin_addr sa')) n =
              (if bit (rr_to_ipv4_mask ?r) n then bit (rr_to_ipv4_addr ?r) n
               else bit (ntohl (sin_addr ?sa)) n)"
    using decide_to_keeps_host_bits [OF resolver_ok_no_dns ok a m, of zero_ssh_globals
        "\<lparr>route_rule_id_pool = 0, default_direct = None\<rparr>" "[]"] by auto
  have "bit (ntohl (sin_addr sa')) 1" "bit (ntohl (sin_addr sa')) 25" "\<not> bit (ntohl (sin_addr sa')) 31"
    using b [rule_format, of 1] b [rule_format, of 25] b [rule_format, of 31]
    by (simp_all add: bit_numeral_rec)
  with d show ?thesis unfolding Let_def by blast
qed

text \<open>
  When no rule matches, the function returns 0 and the route it stores is the default
  one, which goes direct; the destination is untouched. (The callers take the 0 for a
  failure, so this route is never used.)
\<close>

theorem decide_no_match:
  assumes "resolver_ok env" and "host_id_ok (cc_dst_host con)" and "default_direct gl = None"
    and "\<forall>r \<in> set rules. \<not> rule_matches (hid_port (cc_dst_host con)) (cc_dst_host con) r"
  shows "\<exists>t r gl'. decide_applicable_rule env sg gl rules con =
           Inr (0, con\<lparr>cc_socks_address_type := t, cc_route := Some r\<rparr>, gl') \<and>
           rr_tunnel r = [ssh_tunnel_direct sg] \<and> default_direct gl' = Some r"
proof -
  let ?h = "cc_dst_host con"
  have "routed (resolve_dns_for_host_id env) (hid_port ?h) rules ?h None ?h"
    using routed_skip_prefix [OF assms(4), of _ "[]"] by simp
  from decide_outcome [OF assms(1,2) this, of sg gl] obtain t where
    "decide_applicable_rule env sg gl rules con =
       Inr (0, con\<lparr>cc_socks_address_type := t, cc_route := default_direct (ensure_default_direct sg gl)\<rparr>,
            ensure_default_direct sg gl)" by auto
  moreover obtain r where "default_direct (ensure_default_direct sg gl) = Some r"
    "rr_tunnel r = [ssh_tunnel_direct sg]"
    using assms(3) by (auto simp: ensure_default_direct_def split_def Let_def)
  ultimately show ?thesis by auto
qed

theorem decide_no_match_witness:
  "let r = plain_rule\<lparr>rr_match_port := 443, rr_tunnel := [7]\<rparr>; con = con_to ''db'' AF_UNSPEC 80 in
   \<exists>con' gl'. decide_applicable_rule no_dns (zero_ssh_globals\<lparr>ssh_tunnel_direct := 3\<rparr>)
      \<lparr>route_rule_id_pool = 0, default_direct = None\<rparr> [r] con = Inr (0, con', gl') \<and>
      map_option rr_tunnel (cc_route con') = Some [3]"
proof -
  let ?r = "plain_rule\<lparr>rr_match_port := 443, rr_tunnel := [7]\<rparr>"
  let ?con = "con_to ''db'' AF_UNSPEC 80"
  have ok: "host_id_ok (cc_dst_host ?con)" by (simp add: host_id_ok_name)
  have m: "\<forall>r \<in> set [?r]. \<not> rule_matches (hid_port (cc_dst_host ?con)) (cc_dst_host ?con) r"
    by (simp add: rule_matches_def)
  have n: "default_direct \<lparr>route_rule_id_pool = 0, default_direct = None\<rparr> = None" by simp
  show ?thesis
    using decide_no_match [OF resolver_ok_no_dns ok n m, of "zero_ssh_globals\<lparr>ssh_tunnel_direct := 3\<rparr>"]
    unfolding Let_def by fastforce
qed

end
