(* ===== verification/Socks_Server.thy ===== *)
theory Socks_Server
  imports Safe_IO Rules_Engine
begin

text \<open>
  The SOCKS protocol towards the client: \<open>src/socks4.h\<close>, \<open>src/socks5.h\<close> and the protocol
  functions of \<open>src/service_socks.c\<close>. Each takes the connection and the world and returns
  its C result with what it changed. The specification is a parser on the bytes the client
  sends.
\<close>

section \<open>Constants\<close>

definition SOCKS_VERSION_ERROR :: int where "SOCKS_VERSION_ERROR = -1"
definition SOCKS_AUTH_ERROR :: int where "SOCKS_AUTH_ERROR = -1"
definition SOCKS5_AUTH_NONE_REQUIRED :: int where "SOCKS5_AUTH_NONE_REQUIRED = 0"
definition SOCKS5_AUTH_GSSAPI :: int where "SOCKS5_AUTH_GSSAPI = 1"
definition SOCKS5_AUTH_USERNAME_PASSWORD :: int where "SOCKS5_AUTH_USERNAME_PASSWORD = 2"
definition SOCKS5_AUTH_NO_ACCEPTABLE_METHODS :: int where "SOCKS5_AUTH_NO_ACCEPTABLE_METHODS = 0xFF"
definition SOCKS5_CMD_ERROR :: int where "SOCKS5_CMD_ERROR = 0"
definition SOCKS5_CMD_CONNECT :: int where "SOCKS5_CMD_CONNECT = 1"
definition SOCKS5_CMD_BIND :: int where "SOCKS5_CMD_BIND = 2"
definition SOCKS5_CMD_UDP_ASSOCIATE :: int where "SOCKS5_CMD_UDP_ASSOCIATE = 3"
definition SOCKS5_ADDRTYPE_DOMAIN :: int where "SOCKS5_ADDRTYPE_DOMAIN = 3"
definition SOCKS5_ADDRTYPE_IPV6 :: int where "SOCKS5_ADDRTYPE_IPV6 = 4"
definition SOCKS5_REPLY_SUCCEED :: int where "SOCKS5_REPLY_SUCCEED = 0"
definition SOCKS5_REPLY_SERVER_FAILURE :: int where "SOCKS5_REPLY_SERVER_FAILURE = 1"
definition SOCKS5_REPLY_CONNECTION_REFUSED :: int where "SOCKS5_REPLY_CONNECTION_REFUSED = 5"
definition SOCKS5_REPLY_ADDRESS_TYPE_NOT_SUPPORTED :: int where
  "SOCKS5_REPLY_ADDRESS_TYPE_NOT_SUPPORTED = 8"
definition SOCKS4_CMD_CONNECT :: int where "SOCKS4_CMD_CONNECT = SOCKS5_CMD_CONNECT"
definition SOCKS4_CD_REQUEST_GRANTED :: int where "SOCKS4_CD_REQUEST_GRANTED = 90"
definition SOCKS4_CD_REQUEST_REJECTED_OR_FAILED :: int where
  "SOCKS4_CD_REQUEST_REJECTED_OR_FAILED = 91"

lemmas socks_consts =
  SOCKS_VERSION_ERROR_def SOCKS_AUTH_ERROR_def SOCKS5_AUTH_NONE_REQUIRED_def SOCKS5_AUTH_GSSAPI_def
  SOCKS5_AUTH_USERNAME_PASSWORD_def SOCKS5_AUTH_NO_ACCEPTABLE_METHODS_def SOCKS5_CMD_ERROR_def
  SOCKS5_CMD_CONNECT_def SOCKS5_CMD_BIND_def SOCKS5_CMD_UDP_ASSOCIATE_def SOCKS5_ADDRTYPE_IPV4_def
  SOCKS5_ADDRTYPE_DOMAIN_def SOCKS5_ADDRTYPE_IPV6_def SOCKS5_REPLY_SUCCEED_def
  SOCKS5_REPLY_SERVER_FAILURE_def SOCKS5_REPLY_CONNECTION_REFUSED_def
  SOCKS5_REPLY_ADDRESS_TYPE_NOT_SUPPORTED_def SOCKS4_CMD_CONNECT_def SOCKS4_CD_REQUEST_GRANTED_def
  SOCKS4_CD_REQUEST_REJECTED_OR_FAILED_def

abbreviation byte_of :: "int \<Rightarrow> byte" where
  "byte_of i \<equiv> word_of_int i"

text \<open>A port in network order, high byte first.\<close>

definition port_of :: "byte \<Rightarrow> byte \<Rightarrow> int" where
  "port_of hi lo = uint (push_bit 8 (ucast hi :: u32) OR ucast lo)"

definition port_bytes :: "int \<Rightarrow> byte list" where
  "port_bytes p = [byte_of (p div 256 mod 256), byte_of (p mod 256)]"

text \<open>The C string at the start of a byte array.\<close>

definition cstr_of_bytes :: "byte list \<Rightarrow> string" where
  "cstr_of_bytes bs = map (\<lambda>b. char_of (unat b)) (takeWhile (\<lambda>b. b \<noteq> 0) bs)"

section \<open>The version and the methods\<close>

definition socks_get_client_version :: "client_connection \<Rightarrow> world \<Rightarrow> (int \<times> world) cres" where
  "socks_get_client_version con w =
     cbind (sb_read_len w (cc_fd_in con) 1) (\<lambda>(rc, buf, w).
     if rc \<noteq> 1 then Inr (SOCKS_VERSION_ERROR, w)
     else
       let socks_version = uint (buf ! 0)
       in if socks_version \<noteq> 4 \<and> socks_version \<noteq> 5 then
            cbind (sb_write_len w (cc_fd_in con) [0x05, byte_of SOCKS5_AUTH_NO_ACCEPTABLE_METHODS]) (\<lambda>(rc, w).
              Inr (SOCKS_VERSION_ERROR, w))
          else Inr (socks_version, w))"

definition socks5_negotiate_auth :: "client_connection \<Rightarrow> world \<Rightarrow> (int \<times> world) cres" where
  "socks5_negotiate_auth con w =
     cbind (sb_read_len w (cc_fd_in con) 1) (\<lambda>(rc, buf, w).
     if rc \<noteq> 1 then Inr (SOCKS_AUTH_ERROR, w)
     else
       let count = unat (buf ! 0) in
       cbind (sb_read_len w (cc_fd_in con) count) (\<lambda>(rc, methods, w).
       if rc \<noteq> int count then Inr (SOCKS_AUTH_ERROR, w)
       else
         cbind (sb_write_len w (cc_fd_in con) [0x05, byte_of SOCKS5_AUTH_NONE_REQUIRED]) (\<lambda>(rc, w).
         if rc \<noteq> 2 then Inr (SOCKS_AUTH_ERROR, w) else Inr (SOCKS5_AUTH_NONE_REQUIRED, w))))"

section \<open>SOCKS4 requests\<close>

text \<open>
  The loop over the user id: \<open>None\<close> when a read fails, else the value of \<open>max\<close> behind the loop.
\<close>

fun socks4_userid :: "nat \<Rightarrow> client_connection \<Rightarrow> world \<Rightarrow> (nat option \<times> world) cres" where
  "socks4_userid 0 con w = Inr (Some 0, w)"
| "socks4_userid (Suc m) con w =
     cbind (sb_read_len w (cc_fd_in con) 1) (\<lambda>(rc, buf, w).
     if rc \<noteq> 1 then Inr (None, w)
     else if buf ! 0 \<noteq> 0 then (if m > 0 then socks4_userid m con w else Inr (Some m, w))
     else Inr (Some (Suc m), w))"

definition socks4_get_command :: "client_connection \<Rightarrow> world \<Rightarrow> (int \<times> client_connection \<times> world) cres" where
  "socks4_get_command con w =
     cbind (sb_read_len w (cc_fd_in con) 1) (\<lambda>(rc, buf, w).
     if rc \<noteq> 1 then Inr (SOCKS5_CMD_ERROR, con, w)
     else
       let command = uint (buf ! 0) in
       if command \<noteq> SOCKS4_CMD_CONNECT then Inr (SOCKS5_CMD_ERROR, con, w)
       else
         cbind (sb_read_len w (cc_fd_in con) 2) (\<lambda>(rc, buf, w).
         if rc \<noteq> 2 then Inr (SOCKS5_CMD_ERROR, con, w)
         else
           let port = port_of (buf ! 0) (buf ! 1) in
           cbind (sb_read_len w (cc_fd_in con) 4) (\<lambda>(rc, ipv4, w).
           if rc \<noteq> 4 then Inr (SOCKS5_CMD_ERROR, con, w)
           else
             cbind (host_id_set_addr_in_from_byte_array (cc_dst_host con) ipv4 port) (\<lambda>dst.
             let con = con\<lparr>cc_socks_version := 4,
                           cc_socks_command := command, cc_socks_command_original := command,
                           cc_socks_address_type := SOCKS5_ADDRTYPE_IPV4,
                           cc_socks_address_type_original := SOCKS5_ADDRTYPE_IPV4,
                           cc_dst_host := dst, cc_dst_host_original := dst\<rparr>
             in cbind (socks4_userid 1000 con w) (\<lambda>(mx, w).
                  case mx of
                    None \<Rightarrow> Inr (SOCKS5_CMD_ERROR, con, w)
                  | Some m \<Rightarrow> if m = 0 then Inr (SOCKS5_CMD_ERROR, con, w)
                              else Inr (SOCKS4_CMD_CONNECT, con, w))))))"

section \<open>SOCKS5 requests\<close>

text \<open>
  The address of a request: its bytes, or \<open>None\<close> on the error returns. The IPv6 branch reads
  the address and gives up.
\<close>

definition socks5_read_address ::
  "client_connection \<Rightarrow> world \<Rightarrow> int \<Rightarrow> (byte list option \<times> world) cres" where
  "socks5_read_address con w address_type =
     (if address_type = SOCKS5_ADDRTYPE_IPV4 then
        cbind (sb_read_len w (cc_fd_in con) 4) (\<lambda>(rc, addr, w).
        if rc \<noteq> 4 then Inr (None, w) else Inr (Some addr, w))
      else if address_type = SOCKS5_ADDRTYPE_IPV6 then
        cbind (sb_read_len w (cc_fd_in con) 16) (\<lambda>(rc, addr, w). Inr (None, w))
      else if address_type = SOCKS5_ADDRTYPE_DOMAIN then
        cbind (sb_read_len w (cc_fd_in con) 1) (\<lambda>(rc, buf, w).
        if rc \<noteq> 1 then Inr (None, w)
        else
          let length = unat (buf ! 0) in
          cbind (sb_read_len w (cc_fd_in con) length) (\<lambda>(rc, addr, w).
          if rc \<noteq> int length then Inr (None, w) else Inr (Some (addr @ [0]), w)))
      else Inr (None, w))"

text \<open>The rest of the function, from the port on.\<close>

definition socks5_store_request ::
  "client_connection \<Rightarrow> world \<Rightarrow> int \<Rightarrow> int \<Rightarrow> int \<Rightarrow> byte list \<Rightarrow> (int \<times> client_connection \<times> world) cres" where
  "socks5_store_request con w version command address_type addr =
     cbind (sb_read_len w (cc_fd_in con) 2) (\<lambda>(rc, buf, w).
     if rc \<noteq> 2 then Inr (SOCKS5_CMD_ERROR, con, w)
     else
       let port = port_of (buf ! 0) (buf ! 1) in
       cbind (if address_type = SOCKS5_ADDRTYPE_IPV4
                then host_id_set_addr_in_from_byte_array (cc_dst_host con) addr port
              else if address_type = SOCKS5_ADDRTYPE_IPV6
                then host_id_set_addr_in6_from_byte_array (cc_dst_host con) addr port
              else if address_type = SOCKS5_ADDRTYPE_DOMAIN
                then Inr (host_id_set_port (host_id_set_name (cc_dst_host con) (cstr_of_bytes addr)) port)
              else Inr (cc_dst_host con)) (\<lambda>dst.
       let con = con\<lparr>cc_socks_version := version,
                     cc_socks_command := command, cc_socks_command_original := command,
                     cc_socks_address_type := address_type,
                     cc_socks_address_type_original := address_type,
                     cc_dst_host := dst, cc_dst_host_original := dst\<rparr>
       in if cc_socks_command con = SOCKS5_CMD_CONNECT then Inr (SOCKS5_CMD_CONNECT, con, w)
          else if cc_socks_command con = SOCKS5_CMD_BIND then Inr (SOCKS5_CMD_BIND, con, w)
          else if cc_socks_command con = SOCKS5_CMD_UDP_ASSOCIATE
            then Inr (SOCKS5_CMD_UDP_ASSOCIATE, con, w)
          else Inr (SOCKS5_CMD_ERROR, con, w)))"

definition socks5_get_command :: "client_connection \<Rightarrow> world \<Rightarrow> (int \<times> client_connection \<times> world) cres" where
  "socks5_get_command con w =
     cbind (sb_read_len w (cc_fd_in con) 4) (\<lambda>(rc, buf, w).
     if rc \<noteq> 4 then Inr (SOCKS5_CMD_ERROR, con, w)
     else
       let version = uint (buf ! 0); command = uint (buf ! 1); rsv = uint (buf ! 2);
           address_type = uint (buf ! 3)
       in if version \<noteq> 5 then Inr (SOCKS5_CMD_ERROR, con, w)
          else if rsv \<noteq> 0 then Inr (SOCKS5_CMD_ERROR, con, w)
          else
            cbind (socks5_read_address con w address_type) (\<lambda>(addr, w).
            case addr of
              None \<Rightarrow> Inr (SOCKS5_CMD_ERROR, con, w)
            | Some addr \<Rightarrow> socks5_store_request con w version command address_type addr))"

section \<open>Replies\<close>

definition socks4_respond :: "client_connection \<Rightarrow> int \<Rightarrow> world \<Rightarrow> (int \<times> world) cres" where
  "socks4_respond con failure_type w =
     (let buf = [0,
                 if failure_type = SOCKS5_REPLY_SUCCEED then byte_of SOCKS4_CD_REQUEST_GRANTED
                 else byte_of SOCKS4_CD_REQUEST_REJECTED_OR_FAILED,
                 0, 0, 0, 0, 0, 0]
      in cbind (sb_write_len w (cc_fd_in con) buf) (\<lambda>(rc, w).
           if rc \<noteq> 8 then Inr (0, w) else Inr (1, w)))"

definition socks5_respond :: "client_connection \<Rightarrow> int \<Rightarrow> world \<Rightarrow> (int \<times> world) cres" where
  "socks5_respond con failure_type w =
     (let buf = [0x05, byte_of failure_type, 0, byte_of SOCKS5_ADDRTYPE_IPV4, 0, 0, 0, 0, 0, 0]
      in cbind (sb_write_len w (cc_fd_in con) buf) (\<lambda>(rc, w).
           if rc \<noteq> 10 then Inr (0, w) else Inr (1, w)))"

text \<open>
  The reply that names the destination (no caller uses it). The IPv4 branch writes the
  address but does not advance the index, so the port overwrites it; bytes that the address
  did not fill are indeterminate.
\<close>

definition socks5_respond2 :: "client_connection \<Rightarrow> int \<Rightarrow> world \<Rightarrow> (int \<times> world) cres" where
  "socks5_respond2 con failure_type w =
     (let hdr = [0x05, byte_of failure_type, 0];
          nm = host_id_get_name (cc_dst_host con);
          a6 = host_id_get_addr_as_byte_array (cc_dst_host con) 16;
          port = port_bytes (host_id_get_port (cc_dst_host con));
          body = (if cc_socks_address_type con = SOCKS5_ADDRTYPE_IPV4
                    then Inr (hdr @ [byte_of SOCKS5_ADDRTYPE_IPV4])
                  else if cc_socks_address_type con = SOCKS5_ADDRTYPE_DOMAIN
                    then Inr (hdr @ [byte_of SOCKS5_ADDRTYPE_DOMAIN, byte_of (int (length nm))]
                              @ map (\<lambda>c. word_of_nat (of_char c)) nm)
                  else if cc_socks_address_type con = SOCKS5_ADDRTYPE_IPV6
                    then (if length a6 = 16 then Inr (hdr @ [byte_of SOCKS5_ADDRTYPE_IPV6] @ a6) else Inl UB)
                  else Inr (hdr @ [byte_of SOCKS5_ADDRTYPE_IPV4, 0, 0, 0, 0]))
      in cbind body (\<lambda>b.
         cbind (sb_write_len w (cc_fd_in con) (b @ port)) (\<lambda>(rc, w).
           if rc \<noteq> int (length (b @ port)) then Inr (0, w) else Inr (1, w))))"

definition socks_respond :: "client_connection \<Rightarrow> int \<Rightarrow> world \<Rightarrow> (int \<times> world) cres" where
  "socks_respond con failure_type w =
     (if cc_socks_version con = 4 then socks4_respond con failure_type w
      else socks5_respond con failure_type w)"

section \<open>The specification: a parser of requests\<close>

datatype socks_dst = Dst_ipv4 "byte list" | Dst_name string

fun dst_type :: "socks_dst \<Rightarrow> int" where
  "dst_type (Dst_ipv4 bs) = 1"
| "dst_type (Dst_name n) = 3"

fun dst_host_of :: "socks_dst \<Rightarrow> int \<Rightarrow> host_id \<Rightarrow> host_id" where
  "dst_host_of (Dst_ipv4 bs) p h =
     h\<lparr>hid_port := p, hid_addr := AF_INET \<lparr>sin_port = htons p,
        sin_addr = htonl (of_octets (bs ! 0) (bs ! 1) (bs ! 2) (bs ! 3))\<rparr>\<rparr>"
| "dst_host_of (Dst_name n) p h = host_id_set_port (host_id_set_name h n) p"

definition con_requesting ::
  "int \<Rightarrow> int \<Rightarrow> socks_dst \<Rightarrow> int \<Rightarrow> client_connection \<Rightarrow> client_connection" where
  "con_requesting v cmd dst port con =
     (let h = dst_host_of dst port (cc_dst_host con)
      in con\<lparr>cc_socks_version := v, cc_socks_command := cmd, cc_socks_command_original := cmd,
             cc_socks_address_type := dst_type dst, cc_socks_address_type_original := dst_type dst,
             cc_dst_host := h, cc_dst_host_original := h\<rparr>)"

text \<open>The command, the destination, the port and the bytes behind the request.\<close>

definition socks5_request :: "byte list \<Rightarrow> (int \<times> socks_dst \<times> int \<times> byte list) option" where
  "socks5_request s =
     (if length s < 4 \<or> s ! 0 \<noteq> 5 \<or> s ! 2 \<noteq> 0 then None
      else
        let cmd = uint (s ! 1); r = drop 4 s in
        if s ! 3 = 1 then
          (if length r < 6 then None
           else Some (cmd, Dst_ipv4 (take 4 r), port_of (r ! 4) (r ! 5), drop 6 r))
        else if s ! 3 = 3 then
          (if r = [] then None
           else
             let l = unat (r ! 0); q = drop 1 r in
             if length q < l + 2 then None
             else Some (cmd, Dst_name (cstr_of_bytes (take l q @ [0])), port_of (q ! l) (q ! (l + 1)), drop (l + 2) q))
        else None)"

definition socks4_request :: "byte list \<Rightarrow> (int \<times> socks_dst \<times> int \<times> byte list) option" where
  "socks4_request s =
     (if length s < 7 \<or> s ! 0 \<noteq> 1 then None
      else
        let uid = takeWhile (\<lambda>b. b \<noteq> 0) (drop 7 s); r = drop (length uid) (drop 7 s) in
        if length uid < 1000 \<and> r \<noteq> []
        then Some (1, Dst_ipv4 (take 4 (drop 3 s)), port_of (s ! 1) (s ! 2), drop 1 r)
        else None)"

lemma uint_eq_numeral [simp]: "uint (b :: byte) = 5 \<longleftrightarrow> b = 5" "uint b = 4 \<longleftrightarrow> b = 4"
  "uint b = 3 \<longleftrightarrow> b = 3" "uint b = 1 \<longleftrightarrow> b = 1"
  by (auto simp: word_uint_eq_iff)

lemma set_addr_in_bytes4:
  assumes "length bs = 4"
  shows "host_id_set_addr_in_from_byte_array h bs p = Inr (dst_host_of (Dst_ipv4 bs) p h)"
proof -
  obtain a b c d where bs: "bs = [a, b, c, d]"
    using assms by (auto simp: numeral_eq_Suc length_Suc_conv)
  show ?thesis by (simp add: bs host_id_set_addr_in_from_bytes_eq)
qed

lemma host_id_ok_dst_host_of:
  assumes "host_id_ok h" and "case dst of Dst_ipv4 bs \<Rightarrow> length bs = 4 | _ \<Rightarrow> True"
  shows "host_id_ok (dst_host_of dst p h)"
proof (cases dst)
  case (Dst_ipv4 bs)
  with assms show ?thesis
    using host_id_ok_set_addr_in_bytes [OF assms(1), of bs p] by (simp add: set_addr_in_bytes4)
next
  case (Dst_name n)
  with assms(1) show ?thesis by (auto intro: host_id_ok_set_port host_id_ok_set_name)
qed

lemma only_rx_rx_has: "only_rx fd w w' \<Longrightarrow> fd' \<noteq> fd \<Longrightarrow> rx_has w' fd' s = rx_has w fd' s"
  by (auto simp: only_rx_def rx_has_def)

lemma socks5_read_address_spec:
  assumes "rx_live w (cc_fd_in con)" and "rx_has w (cc_fd_in con) r"
  shows "\<exists>w'. only_rx (cc_fd_in con) w w' \<and>
    (if a = 1 \<and> 4 \<le> length r then
       socks5_read_address con w a = Inr (Some (take 4 r), w') \<and>
       rx_has w' (cc_fd_in con) (drop 4 r) \<and> rx_live w' (cc_fd_in con)
     else if a = 3 \<and> r \<noteq> [] \<and> unat (r ! 0) \<le> length r - 1 then
       socks5_read_address con w a = Inr (Some (take (unat (r ! 0)) (drop 1 r) @ [0]), w') \<and>
       rx_has w' (cc_fd_in con) (drop (unat (r ! 0)) (drop 1 r)) \<and> rx_live w' (cc_fd_in con)
     else socks5_read_address con w a = Inr (None, w'))"
proof -
  consider (v4) "a = 1" | (v6) "a = 4" | (dn) "a = 3" | (other) "a \<noteq> 1" "a \<noteq> 3" "a \<noteq> 4" by blast
  then show ?thesis
  proof cases
    case v4
    from assms show ?thesis
      by (cases rule: sb_read_len_step [of _ _ _ 4]) (auto simp: v4 socks5_read_address_def socks_consts)
  next
    case v6
    from assms show ?thesis
      by (cases rule: sb_read_len_step [of _ _ _ 16]) (auto simp: v6 socks5_read_address_def socks_consts)
  next
    case dn
    from assms show ?thesis
    proof (cases rule: sb_read_len_step [of _ _ _ 1])
      case (full w1)
      then obtain l q where r: "r = l # q" by (cases r) auto
      have "rx_has w1 (cc_fd_in con) q" using full r by simp
      from full(5) this show ?thesis
      proof (cases rule: sb_read_len_step [of _ _ _ "unat l"])
        case full2: (full w2)
        with full r dn show ?thesis
          by (auto simp: socks5_read_address_def socks_consts intro: only_rx_trans)
      next
        case (short rc d w2)
        with full r dn show ?thesis
          by (auto simp: socks5_read_address_def socks_consts intro: only_rx_trans)
      qed
    next
      case (short rc d w1)
      then show ?thesis using dn by (auto simp: socks5_read_address_def socks_consts)
    qed
  next
    case other
    then have "socks5_read_address con w a = Inr (None, w)"
      by (simp add: socks5_read_address_def socks_consts)
    with other show ?thesis by (auto intro: exI [of _ w])
  qed
qed

section \<open>Requests are parsed exactly\<close>

lemma take4_nth: "4 \<le> length s \<Longrightarrow> take 4 s = [s ! 0, s ! 1, s ! 2, s ! 3]"
  by (rule nth_equalityI) (auto simp: less_Suc_eq numeral_eq_Suc)

lemma take2_nth: "2 \<le> length s \<Longrightarrow> take 2 s = [s ! 0, s ! 1]"
  by (rule nth_equalityI) (auto simp: less_Suc_eq numeral_eq_Suc)

text \<open>The values \<open>socks5_get_command\<close> returns for a complete request.\<close>

definition known_command :: "int \<Rightarrow> int" where
  "known_command cmd = (if cmd = 1 \<or> cmd = 2 \<or> cmd = 3 then cmd else 0)"

text \<open>An address as read and the destination it stands for.\<close>

definition addr_stands_for :: "int \<Rightarrow> byte list \<Rightarrow> socks_dst \<Rightarrow> bool" where
  "addr_stands_for a addr dst \<longleftrightarrow>
     a = 1 \<and> length addr = 4 \<and> dst = Dst_ipv4 addr \<or> a = 3 \<and> dst = Dst_name (cstr_of_bytes addr)"

lemma socks5_store_request_spec:
  assumes "rx_live w (cc_fd_in con)" and "rx_has w (cc_fd_in con) q" and "addr_stands_for a addr dst"
  shows "\<exists>w'. only_rx (cc_fd_in con) w w' \<and>
    (if 2 \<le> length q then
       socks5_store_request con w 5 c a addr =
         Inr (known_command c, con_requesting 5 c dst (port_of (q ! 0) (q ! 1)) con, w') \<and>
       rx_has w' (cc_fd_in con) (drop 2 q)
     else socks5_store_request con w 5 c a addr = Inr (SOCKS5_CMD_ERROR, con, w'))"
  using assms(1,2)
proof (cases rule: sb_read_len_step [of _ _ _ 2])
  case (full w')
  have "socks5_store_request con w 5 c a addr =
         Inr (known_command c, con_requesting 5 c dst (port_of (q ! 0) (q ! 1)) con, w')"
    using assms(3) unfolding addr_stands_for_def
  proof (elim disjE conjE)
    assume "a = 1" "length addr = 4" "dst = Dst_ipv4 addr"
    then show ?thesis
      using full(1,2)
      by (simp add: socks5_store_request_def take2_nth socks_consts set_addr_in_bytes4
          con_requesting_def known_command_def Let_def del: dst_host_of.simps(1))
  next
    assume "a = 3" "dst = Dst_name (cstr_of_bytes addr)"
    then show ?thesis
      using full(1,2)
      by (simp add: socks5_store_request_def take2_nth socks_consts con_requesting_def
          known_command_def Let_def)
  qed
  with full show ?thesis by auto
next
  case (short rc d w')
  then show ?thesis by (auto simp: socks5_store_request_def)
qed

lemma socks5_get_command_header:
  assumes "sb_read_len w (cc_fd_in con) 4 = Inr (4, [v, c, r, a], w1)"
  shows "socks5_get_command con w =
    (if v \<noteq> 5 \<or> r \<noteq> 0 then Inr (SOCKS5_CMD_ERROR, con, w1)
     else cbind (socks5_read_address con w1 (uint a)) (\<lambda>(addr, w).
            case addr of
              None \<Rightarrow> Inr (SOCKS5_CMD_ERROR, con, w)
            | Some addr \<Rightarrow> socks5_store_request con w 5 (uint c) (uint a) addr))"
proof (cases "v \<noteq> 5 \<or> r \<noteq> 0")
  case True
  then show ?thesis using assms by (auto simp: socks5_get_command_def uint_0_iff Let_def)
next
  case False
  then show ?thesis using assms by (simp add: socks5_get_command_def uint_0_iff Let_def cong: option.case_cong)
qed

text \<open>The address part of a request: its bytes, the destination and what is behind it.\<close>

definition socks5_addr :: "int \<Rightarrow> byte list \<Rightarrow> (byte list \<times> socks_dst \<times> byte list) option" where
  "socks5_addr a r =
     (if a = 1 \<and> 4 \<le> length r then Some (take 4 r, Dst_ipv4 (take 4 r), drop 4 r)
      else if a = 3 \<and> r \<noteq> [] \<and> unat (r ! 0) \<le> length r - 1 then
        (let addr = take (unat (r ! 0)) (drop 1 r) @ [0]
         in Some (addr, Dst_name (cstr_of_bytes addr), drop (unat (r ! 0)) (drop 1 r)))
      else None)"

lemma socks5_read_address_addr:
  assumes "rx_live w (cc_fd_in con)" and "rx_has w (cc_fd_in con) r"
  shows "\<exists>w'. only_rx (cc_fd_in con) w w' \<and>
    (case socks5_addr a r of
       None \<Rightarrow> socks5_read_address con w a = Inr (None, w')
     | Some (addr, dst, q) \<Rightarrow>
         socks5_read_address con w a = Inr (Some addr, w') \<and> rx_has w' (cc_fd_in con) q \<and>
         rx_live w' (cc_fd_in con) \<and> addr_stands_for a addr dst)"
  using socks5_read_address_spec [OF assms, of a]
  by (auto simp: socks5_addr_def addr_stands_for_def Let_def split: if_splits)

lemma socks5_request_addr:
  assumes "4 \<le> length s" and "s ! 0 = 5" and "s ! 2 = 0"
  shows "socks5_request s =
    (case socks5_addr (uint (s ! 3)) (drop 4 s) of
       None \<Rightarrow> None
     | Some (addr, dst, q) \<Rightarrow>
         if 2 \<le> length q then Some (uint (s ! 1), dst, port_of (q ! 0) (q ! 1), drop 2 q) else None)"
  using assms by (auto simp: socks5_request_def socks5_addr_def Let_def add.commute)

lemma socks5_get_command_spec:
  assumes "rx_live w (cc_fd_in con)" and "rx_has w (cc_fd_in con) s"
  shows "case socks5_request s of
           None \<Rightarrow> \<exists>w'. socks5_get_command con w = Inr (SOCKS5_CMD_ERROR, con, w') \<and> only_rx (cc_fd_in con) w w'
         | Some (cmd, dst, port, rest) \<Rightarrow>
             \<exists>w'. socks5_get_command con w =
                    Inr (known_command cmd, con_requesting 5 cmd dst port con, w') \<and>
                  only_rx (cc_fd_in con) w w' \<and> rx_has w' (cc_fd_in con) rest"
  using assms
proof (cases rule: sb_read_len_step [of _ _ _ 4])
  case (short rc d w1)
  then show ?thesis by (auto simp: socks5_get_command_def socks5_request_def)
next
  case (full w1)
  let ?r = "drop 4 s" and ?a = "uint (s ! 3)" and ?c = "uint (s ! 1)"
  have r4: "sb_read_len w (cc_fd_in con) 4 = Inr (4, [s ! 0, s ! 1, s ! 2, s ! 3], w1)"
    using full(1,2) by (simp add: take4_nth)
  note hdr = socks5_get_command_header [OF r4]
  show ?thesis
  proof (cases "s ! 0 = 5 \<and> s ! 2 = 0")
    case False
    with full hdr show ?thesis by (auto simp: socks5_request_def)
  next
    case True
    then have req: "socks5_request s = (case socks5_addr ?a ?r of None \<Rightarrow> None
      | Some (addr, dst, q) \<Rightarrow> if 2 \<le> length q then Some (?c, dst, port_of (q ! 0) (q ! 1), drop 2 q) else None)"
      using socks5_request_addr full(1) by blast
    obtain w2 where w2: "only_rx (cc_fd_in con) w w2" and addr: "case socks5_addr ?a ?r of
        None \<Rightarrow> socks5_read_address con w1 ?a = Inr (None, w2)
      | Some (addr, dst, q) \<Rightarrow> socks5_read_address con w1 ?a = Inr (Some addr, w2) \<and> rx_has w2 (cc_fd_in con) q \<and>
          rx_live w2 (cc_fd_in con) \<and> addr_stands_for ?a addr dst"
      using socks5_read_address_addr [OF full(5,4), of ?a] only_rx_trans [OF full(3)] by blast
    show ?thesis
    proof (cases "socks5_addr ?a ?r")
      case None
      with addr hdr True req w2 show ?thesis by auto
    next
      case (Some x)
      then obtain addr dst q where x: "socks5_addr ?a ?r = Some (addr, dst, q)" by (cases x) auto
      with socks5_store_request_spec [of w2 con q ?a "addr" dst ?c] addr obtain w3 where
        w3: "only_rx (cc_fd_in con) w2 w3" and st: "if 2 \<le> length q then
           socks5_store_request con w2 5 ?c ?a addr =
             Inr (known_command ?c, con_requesting 5 ?c dst (port_of (q ! 0) (q ! 1)) con, w3) \<and>
           rx_has w3 (cc_fd_in con) (drop 2 q)
         else socks5_store_request con w2 5 ?c ?a addr = Inr (SOCKS5_CMD_ERROR, con, w3)" by auto
      have "only_rx (cc_fd_in con) w w3" using w2 w3 by (rule only_rx_trans)
      moreover have "socks5_get_command con w = socks5_store_request con w2 5 ?c ?a addr"
        using hdr True addr x by simp
      ultimately show ?thesis using st unfolding req x by (cases "2 \<le> length q") auto
    qed
  qed
qed

text \<open>
  C9: \<open>socks5_get_command\<close> is the request parser. Whatever the client sends, as long as it
  goes on, closes or fails: when the bytes start with a SOCKS5 request for an IPv4 address or
  a domain name, the connection gets exactly its command, address type, destination and
  port (also as the original ones), the command is returned (0 when it is none of the three
  known ones) and the bytes behind the request stay unread; in all other cases (wrong
  version, non-zero reserved byte, IPv6 or unknown address type, a request cut short)
  the error value is returned and the connection is untouched.
\<close>

theorem socks5_get_command_correct:
  assumes "rx_live w (cc_fd_in con)" and "rx_has w (cc_fd_in con) s"
  shows "case socks5_request s of
           None \<Rightarrow> \<exists>w'. socks5_get_command con w = Inr (SOCKS5_CMD_ERROR, con, w') \<and> only_rx (cc_fd_in con) w w'
         | Some (cmd, dst, port, rest) \<Rightarrow>
             \<exists>w'. socks5_get_command con w =
                    Inr (known_command cmd, con_requesting 5 cmd dst port con, w') \<and>
                  only_rx (cc_fd_in con) w w' \<and> rx_has w' (cc_fd_in con) rest"
  by (rule socks5_get_command_spec [OF assms])

section \<open>SOCKS4 requests are parsed exactly\<close>

lemma socks4_userid_spec:
  assumes "rx_live w (cc_fd_in con)" and "rx_has w (cc_fd_in con) s" and "0 < n"
  shows "let uid = takeWhile (\<lambda>b. b \<noteq> 0) s in
    if length uid < n \<and> drop (length uid) s \<noteq> []
    then \<exists>w'. socks4_userid n con w = Inr (Some (n - length uid), w') \<and> only_rx (cc_fd_in con) w w' \<and>
           rx_has w' (cc_fd_in con) (drop (Suc (length uid)) s)
    else \<exists>r w'. socks4_userid n con w = Inr (r, w') \<and> (r = None \<or> r = Some 0) \<and> only_rx (cc_fd_in con) w w'"
  using assms
proof (induction n con w arbitrary: s rule: socks4_userid.induct)
  case (2 m con w)
  from 2(2,3) show ?case
  proof (cases rule: sb_read_len_step [of _ _ _ 1])
    case (full w1)
    then obtain b t where s: "s = b # t" by (cases s) auto
    have r1: "sb_read_len w (cc_fd_in con) 1 = Inr (1, [b], w1)" using full s by simp
    have t: "rx_has w1 (cc_fd_in con) t" using full s by simp
    show ?thesis
    proof (cases "b = 0 \<or> m = 0")
      case True
      with r1 full(3) t s show ?thesis by (auto simp: Let_def)
    next
      case False
      then have step: "socks4_userid (Suc m) con w = socks4_userid m con w1" using r1 by simp
      have ih: "let uid = takeWhile (\<lambda>b. b \<noteq> 0) t in
        if length uid < m \<and> drop (length uid) t \<noteq> []
        then \<exists>w'. socks4_userid m con w1 = Inr (Some (m - length uid), w') \<and> only_rx (cc_fd_in con) w1 w' \<and>
               rx_has w' (cc_fd_in con) (drop (Suc (length uid)) t)
        else \<exists>r w'. socks4_userid m con w1 = Inr (r, w') \<and> (r = None \<or> r = Some 0) \<and>
               only_rx (cc_fd_in con) w1 w'"
        using "2.IH" [of "(1, [b], w1)" 1 "([b], w1)" "[b]" w1 t] r1 False full(5) t by simp
      show ?thesis
        using ih only_rx_trans [OF full(3)] False unfolding step Let_def s by (auto split: if_splits)
    qed
  next
    case (short rc d w1)
    then show ?thesis by (auto simp: Let_def)
  qed
qed simp

text \<open>The function behind the three reads of the header, and the parser on such a header.\<close>

lemma socks4_get_command_header:
  assumes "sb_read_len w (cc_fd_in con) 1 = Inr (1, [1], w1)"
    and "sb_read_len w1 (cc_fd_in con) 2 = Inr (2, [ph, pl], w2)"
    and "sb_read_len w2 (cc_fd_in con) 4 = Inr (4, a, w3)" and "length a = 4"
  shows "socks4_get_command con w =
    (let con = con_requesting 4 1 (Dst_ipv4 a) (port_of ph pl) con
     in cbind (socks4_userid 1000 con w3) (\<lambda>(mx, w).
          case mx of
            None \<Rightarrow> Inr (SOCKS5_CMD_ERROR, con, w)
          | Some m \<Rightarrow> if m = 0 then Inr (SOCKS5_CMD_ERROR, con, w) else Inr (SOCKS4_CMD_CONNECT, con, w)))"
proof -
  have "host_id_set_addr_in_from_byte_array (cc_dst_host con) a (port_of ph pl) =
          Inr (dst_host_of (Dst_ipv4 a) (port_of ph pl) (cc_dst_host con))"
    using assms(4) by (rule set_addr_in_bytes4)
  then show ?thesis
    using assms(1-3)
    by (simp add: socks4_get_command_def socks_consts con_requesting_def Let_def del: dst_host_of.simps(1))
qed

lemma socks4_request_header:
  assumes "2 \<le> length s" and "4 \<le> length (drop 2 s)"
  shows "socks4_request (1 # s) =
    (let u = drop 4 (drop 2 s); uid = takeWhile (\<lambda>b. b \<noteq> 0) u in
     if length uid < 1000 \<and> drop (length uid) u \<noteq> []
     then Some (1, Dst_ipv4 (take 4 (drop 2 s)), port_of (s ! 0) (s ! 1), drop (Suc (length uid)) u) else None)"
  using assms by (auto simp: socks4_request_def Let_def numeral_eq_Suc)

lemma socks4_get_command_spec:
  assumes "rx_live w (cc_fd_in con)" and "rx_has w (cc_fd_in con) s"
  shows "case socks4_request s of
           None \<Rightarrow> \<exists>con' w'. socks4_get_command con w = Inr (SOCKS5_CMD_ERROR, con', w') \<and> only_rx (cc_fd_in con) w w'
         | Some (cmd, dst, port, rest) \<Rightarrow>
             \<exists>w'. socks4_get_command con w = Inr (SOCKS4_CMD_CONNECT, con_requesting 4 cmd dst port con, w') \<and>
                  only_rx (cc_fd_in con) w w' \<and> rx_has w' (cc_fd_in con) rest"
  using assms
proof (cases rule: sb_read_len_step [of _ _ _ 1])
  case (short rc d w1)
  then show ?thesis by (auto simp: socks4_get_command_def socks4_request_def)
next
  case (full w1)
  then obtain c t where s: "s = c # t" by (cases s) auto
  have r1: "sb_read_len w (cc_fd_in con) 1 = Inr (1, [c], w1)" and h1: "rx_has w1 (cc_fd_in con) t"
    using full s by simp_all
  show ?thesis
  proof (cases "c = 1")
    case False
    with r1 full(3) s show ?thesis by (auto simp: socks4_get_command_def socks4_request_def socks_consts)
  next
    case c: True
    from full(5) h1 show ?thesis
    proof (cases rule: sb_read_len_step [of _ _ _ 2])
      case (short rc d w2)
      then show ?thesis using r1 c s only_rx_trans [OF full(3)]
        by (auto simp: socks4_get_command_def socks4_request_def socks_consts)
    next
      case full2: (full w2)
      have r2: "sb_read_len w1 (cc_fd_in con) 2 = Inr (2, [t ! 0, t ! 1], w2)"
        using full2(1,2) by (simp add: take2_nth)
      have w2: "only_rx (cc_fd_in con) w w2" using full(3) full2(3) by (rule only_rx_trans)
      from full2(5,4) show ?thesis
      proof (cases rule: sb_read_len_step [of _ _ _ 4])
        case (short rc d w3)
        then show ?thesis using r1 r2 c s only_rx_trans [OF w2]
          by (auto simp: socks4_get_command_def socks4_request_def socks_consts)
      next
        case full3: (full w3)
        let ?con = "con_requesting 4 1 (Dst_ipv4 (take 4 (drop 2 t))) (port_of (t ! 0) (t ! 1)) con"
        have w3: "only_rx (cc_fd_in con) w w3" using w2 full3(3) by (rule only_rx_trans)
        have fd: "cc_fd_in ?con = cc_fd_in con" by (simp add: con_requesting_def Let_def)
        note uid = socks4_userid_spec [of w3 ?con "drop 4 (drop 2 t)" 1000, unfolded fd, OF full3(5,4)]
        have "length (take 4 (drop 2 t)) = 4" "sb_read_len w2 (cc_fd_in con) 4 = Inr (4, take 4 (drop 2 t), w3)"
          using full3(1,2) by simp_all
        from socks4_get_command_header [OF _ r2 this(2,1)] uid only_rx_trans [OF w3] r1
          socks4_request_header [OF full2(1) full3(1)]
        show ?thesis unfolding s c Let_def by (force split: if_splits)
      qed
    qed
  qed
qed

text \<open>
  C30: \<open>socks4_get_command\<close> is the SOCKS4 request parser: for a CONNECT request with a user
  id of fewer than 1000 bytes it returns the command, stores version 4, destination and
  port, and leaves the bytes behind the terminating zero unread; anything else (another
  command, a longer user id, a request cut short) gives the error value.
\<close>

theorem socks4_get_command_correct:
  assumes "rx_live w (cc_fd_in con)" and "rx_has w (cc_fd_in con) s"
  shows "case socks4_request s of
           None \<Rightarrow> \<exists>con' w'. socks4_get_command con w = Inr (SOCKS5_CMD_ERROR, con', w') \<and> only_rx (cc_fd_in con) w w'
         | Some (cmd, dst, port, rest) \<Rightarrow>
             \<exists>w'. socks4_get_command con w = Inr (SOCKS4_CMD_CONNECT, con_requesting 4 cmd dst port con, w') \<and>
                  only_rx (cc_fd_in con) w w' \<and> rx_has w' (cc_fd_in con) rest"
  by (rule socks4_get_command_spec [OF assms])

text \<open>Concrete requests, cut at awkward places.\<close>

definition client_world :: "rd_event list \<Rightarrow> wr_event list \<Rightarrow> world" where
  "client_world rx wr = quiet_world\<lparr>w_sock := (\<lambda>_. quiet_sock\<lparr>sk_rx := rx, sk_wr := wr\<rparr>)\<rparr>"

lemma client_world_sel [simp]:
  "sk_rx (w_sock (client_world rx wr) fd) = rx" "sk_wr (w_sock (client_world rx wr) fd) = wr"
  "sk_sent (w_sock (client_world rx wr) fd) = []"
  by (simp_all add: client_world_def quiet_sock_def)

theorem socks5_get_command_correct_witness:
  "let w = client_world [Rd_data [5, 1, 0], Rd_fail EINTR, Rd_data [3, 2, 100], Rd_data [98, 0, 80, 71], Rd_eof] []
   in \<exists>w'. socks5_get_command blank_connection w =
        Inr (1, con_requesting 5 1 (Dst_name ''db'') 80 blank_connection, w') \<and>
      rx_has w' (cc_fd_in blank_connection) [71]"
proof -
  let ?w = "client_world [Rd_data [5, 1, 0], Rd_fail EINTR, Rd_data [3, 2, 100], Rd_data [98, 0, 80, 71], Rd_eof] []"
  have l: "rx_live ?w (cc_fd_in blank_connection)" by (simp add: rx_live_def)
  have h: "rx_has ?w (cc_fd_in blank_connection) [5, 1, 0, 3, 2, 100, 98, 0, 80, 71]" by (simp add: rx_has_def)
  have "socks5_request [5, 1, 0, 3, 2, 100, 98, 0, 80, 71] = Some (1, Dst_name ''db'', 80, [71])"
    by code_simp
  with socks5_get_command_correct [OF l h] show ?thesis
    unfolding Let_def by (auto simp: known_command_def)
qed

theorem socks4_get_command_correct_witness:
  "let w = client_world [Rd_data [1, 0, 80, 10], Rd_data [0, 0, 7, 117, 0], Rd_eof] []
   in \<exists>w'. socks4_get_command blank_connection w =
        Inr (1, con_requesting 4 1 (Dst_ipv4 [10, 0, 0, 7]) 80 blank_connection, w')"
proof -
  let ?w = "client_world [Rd_data [1, 0, 80, 10], Rd_data [0, 0, 7, 117, 0], Rd_eof] []"
  have l: "rx_live ?w (cc_fd_in blank_connection)" by (simp add: rx_live_def)
  have h: "rx_has ?w (cc_fd_in blank_connection) [1, 0, 80, 10, 0, 0, 7, 117, 0]" by (simp add: rx_has_def)
  have "socks4_request [1, 0, 80, 10, 0, 0, 7, 117, 0] = Some (1, Dst_ipv4 [10, 0, 0, 7], 80, [])"
    by code_simp
  with socks4_get_command_correct [OF l h] show ?thesis
    unfolding Let_def by (auto simp: socks_consts)
qed

section \<open>Version, methods, replies\<close>

lemma socks_get_client_version_known:
  assumes "rx_live w (cc_fd_in con)" and "rx_has w (cc_fd_in con) (v # s)" and "v = 4 \<or> v = 5"
  shows "\<exists>w'. socks_get_client_version con w = Inr (uint v, w') \<and> only_rx (cc_fd_in con) w w' \<and>
           rx_has w' (cc_fd_in con) s \<and> rx_live w' (cc_fd_in con)"
  using assms(1,2)
proof (cases rule: sb_read_len_step [of _ _ _ 1])
  case (full w')
  with assms(3) show ?thesis by (auto simp: socks_get_client_version_def)
qed simp

lemma socks_get_client_version_other:
  assumes "rx_live w (cc_fd_in con)" and "rx_has w (cc_fd_in con) (v # s)" and "v \<noteq> 4" "v \<noteq> 5"
    and "2 \<le> tx_room w (cc_fd_in con)"
  shows "\<exists>w'. socks_get_client_version con w = Inr (SOCKS_VERSION_ERROR, w') \<and>
           sk_sent (w_sock w' (cc_fd_in con)) = sk_sent (w_sock w (cc_fd_in con)) @ [5, 0xFF]"
  using assms(1,2)
proof (cases rule: sb_read_len_step [of _ _ _ 1])
  case (full w1)
  have room: "length [5, 0xFF :: byte] \<le> tx_room w1 (cc_fd_in con)"
    using assms(5) only_rx_frame(13) [OF full(3)] by simp
  obtain w2 where w2: "sb_write_len w1 (cc_fd_in con) [5, 0xFF] = Inr (2, w2)"
    "only_tx (cc_fd_in con) w1 w2 [5, 0xFF]"
    using sb_write_len_room [OF room] by auto
  have "socks_get_client_version con w = Inr (SOCKS_VERSION_ERROR, w2)"
    using full assms(3,4) w2(1) by (simp add: socks_get_client_version_def socks_consts)
  then show ?thesis using only_tx_frame(2) [OF w2(2)] only_rx_frame(2) [OF full(3)] by simp
qed simp

lemma socks5_negotiate_auth_ok:
  assumes "rx_live w (cc_fd_in con)" and "rx_has w (cc_fd_in con) (n # ms @ s)" and "length ms = unat n"
    and "2 \<le> tx_room w (cc_fd_in con)"
  shows "\<exists>w1 w'. socks5_negotiate_auth con w = Inr (SOCKS5_AUTH_NONE_REQUIRED, w') \<and>
           only_rx (cc_fd_in con) w w1 \<and> only_tx (cc_fd_in con) w1 w' [5, 0] \<and>
           rx_has w' (cc_fd_in con) s \<and> rx_live w' (cc_fd_in con) \<and>
           tx_room w' (cc_fd_in con) = tx_room w (cc_fd_in con) - 2"
  using assms(1,2)
proof (cases rule: sb_read_len_step [of _ _ _ 1])
  case (full w1)
  then have "rx_has w1 (cc_fd_in con) (ms @ s)" by simp
  from full(5) this show ?thesis
  proof (cases rule: sb_read_len_step [of _ _ _ "unat n"])
    case full2: (full w2)
    have rx: "only_rx (cc_fd_in con) w w2" using full(3) full2(3) by (rule only_rx_trans)
    have room: "length [5, 0 :: byte] \<le> tx_room w2 (cc_fd_in con)"
      using assms(4) only_rx_frame(13) [OF rx] by simp
    obtain w3 where w3: "sb_write_len w2 (cc_fd_in con) [5, 0] = Inr (2, w3)"
      "only_tx (cc_fd_in con) w2 w3 [5, 0]" "tx_room w3 (cc_fd_in con) = tx_room w2 (cc_fd_in con) - 2"
      using sb_write_len_room [OF room] by auto
    have h: "rx_has w3 (cc_fd_in con) s" "rx_live w3 (cc_fd_in con)"
      using full2 assms(3) only_tx_frame(13) [OF w3(2)] only_tx_frame(3) [OF w3(2)] by (auto simp: rx_live_def)
    have "socks5_negotiate_auth con w = Inr (SOCKS5_AUTH_NONE_REQUIRED, w3)"
      using full full2(2) w3(1) by (simp add: socks5_negotiate_auth_def socks_consts)
    then show ?thesis using rx w3(2,3) h only_rx_frame(13) [OF rx] by metis
  next
    case (short rc d w2)
    then show ?thesis using assms(3) by simp
  qed
qed simp

definition socks_reply :: "int \<Rightarrow> int \<Rightarrow> byte list" where
  "socks_reply version failure_type =
     (if version = 4 then [0, if failure_type = 0 then 90 else 91, 0, 0, 0, 0, 0, 0]
      else [5, byte_of failure_type, 0, 1, 0, 0, 0, 0, 0, 0])"

lemma socks_respond_eq:
  "socks_respond con ft w =
     (let buf = socks_reply (cc_socks_version con) ft
      in cbind (sb_write_len w (cc_fd_in con) buf) (\<lambda>(rc, w).
           if rc \<noteq> int (length buf) then Inr (0, w) else Inr (1, w)))"
  by (auto simp: socks_respond_def socks4_respond_def socks5_respond_def socks_reply_def socks_consts Let_def
      split: if_splits)

lemma socks_reply_nonempty [simp]: "socks_reply v ft \<noteq> []"
  by (simp add: socks_reply_def)

text \<open>
  The reply to the client is all or nothing: \<open>socks_respond\<close> returns 1 exactly when the
  whole reply for the connection's SOCKS version has been sent, 8 bytes with 90 or 91 for
  version 4, 10 bytes with the reply code and a zero IPv4 address for version 5; if it
  returns at all otherwise, it returns 0 and a proper prefix has been sent.
\<close>

theorem socks_respond_correct:
  assumes "socks_respond con ft w = Inr (rc, w')"
  shows "\<exists>sent. only_tx (cc_fd_in con) w w' sent \<and>
           (rc = 1 \<and> sent = socks_reply (cc_socks_version con) ft \<or>
            rc = 0 \<and> strict_prefix sent (socks_reply (cc_socks_version con) ft))"
proof -
  let ?b = "socks_reply (cc_socks_version con) ft"
  obtain n w1 where w1: "sb_write_len w (cc_fd_in con) ?b = Inr (n, w1)" "w' = w1"
    and rc: "rc = (if n \<noteq> int (length ?b) then 0 else 1)"
    using assms unfolding socks_respond_eq Let_def by (auto simp: cbind_eq_Inr split: if_splits)
  obtain sent where s: "only_tx (cc_fd_in con) w w1 sent"
    and c: "n = int (length ?b) \<and> sent = ?b \<or>
            n = -1 \<and> length sent < length ?b \<and> sent = take (length sent) ?b"
    using sb_write_len_cases [OF w1(1)] by auto
  have "strict_prefix sent ?b" if "length sent < length ?b" "sent = take (length sent) ?b"
    using that by (metis nat_less_le strict_prefixI take_is_prefix)
  with s c rc w1(2) show ?thesis by auto
qed

theorem socks_respond_correct_witness:
  "let w = client_world [] [Wr_take 4, Wr_take 9] in
   \<exists>w'. socks_respond blank_connection 0 w = Inr (1, w') \<and>
        only_tx (cc_fd_in blank_connection) w w' [5, 0, 0, 1, 0, 0, 0, 0, 0, 0]"
proof -
  let ?w = "client_world [] [Wr_take 4, Wr_take 9]"
  have r: "socks_reply (cc_socks_version blank_connection) 0 = [5, 0, 0, 1, 0, 0, 0, 0, 0, 0]"
    by (simp add: socks_reply_def blank_connection_def Let_def)
  have "length [5, 0, 0, 1, 0, 0, 0, 0, 0, 0 :: byte] \<le> tx_room ?w (cc_fd_in blank_connection)"
    by (simp add: tx_room_def)
  from sb_write_len_room [OF this] obtain w' where
    e: "socks_respond blank_connection 0 ?w = Inr (1, w')"
    unfolding socks_respond_eq r Let_def by auto
  from socks_respond_correct [OF e] e show ?thesis by (auto simp: r Let_def)
qed

end
