(* ===== verification/Socks_Connection.thy ===== *)
theory Socks_Connection
  imports Socks_Server
begin

text \<open>
  The outgoing side of a connection: \<open>src/socks5_client.c\<close>, the SOCKS5 client that talks to
  the proxy at the end of an ssh tunnel, and \<open>src/socks_connection.c\<close>, the direct and the null
  connectors and the loop over the tunnels of a route. The variable \<open>failure_type\<close> of the
  callers is not initialised, so it is an option: \<open>None\<close> until something writes it.
\<close>

section \<open>Opening a socket\<close>

text \<open>\<open>socket\<close> and \<open>connect\<close>; when the connection fails the socket is closed again, as both callers do.\<close>

datatype dial_result = Dial_no_socket int | Dial_failed int | Dial_ok int

definition dial_out :: "world \<Rightarrow> sockaddr_in \<Rightarrow> (dial_result \<times> world) cres" where
  "dial_out w sa =
     (case w_dials w of
        [] \<Rightarrow> Inl Hang
      | No_socket e # ds \<Rightarrow> Inr (Dial_no_socket e, w\<lparr>w_dials := ds, w_errno := e\<rparr>)
      | New_socket fd cs # ds \<Rightarrow>
          let w = w\<lparr>w_dials := ds, w_dialed := w_dialed w @ [(fd, sa)]\<rparr>
          in cbind (sys_connect cs) (\<lambda>r.
               case r of
                 Inl e \<Rightarrow> Inr (Dial_failed e, (sys_close w fd)\<lparr>w_errno := e\<rparr>)
               | Inr s \<Rightarrow> Inr (Dial_ok fd, upd_sock w fd s)))"

section \<open>The SOCKS5 client\<close>

definition sock5_client_negotiate_auth :: "client_connection \<Rightarrow> world \<Rightarrow> (bool \<times> world) cres" where
  "sock5_client_negotiate_auth con w =
     (let buf = [0x05, 0x01, byte_of SOCKS5_AUTH_NONE_REQUIRED]
      in cbind (sb_write_len w (cc_fd_out con) buf) (\<lambda>(rc, w).
         if rc < 0 then Inr (False, w)
         else
           cbind (sb_read_len w (cc_fd_out con) 2) (\<lambda>(rc, d, w).
           if rc < 0 then Inr (False, w)
           else
             let buf = d @ drop (length d) buf
             in if buf ! 0 \<noteq> 0x05 \<or> buf ! 1 \<noteq> byte_of SOCKS5_AUTH_NONE_REQUIRED then Inr (False, w)
                else Inr (True, w))))"

text \<open>
  The command: \<open>None\<close> for an unknown address type; an address that does not fill its bytes of
  the buffer would send indeterminate ones.
\<close>

definition socks5_command_bytes :: "client_connection \<Rightarrow> byte list option cres" where
  "socks5_command_bytes con =
     (let hdr = [0x05, byte_of (cc_socks_command con), 0x00, byte_of (cc_socks_address_type con)];
          port = host_id_get_port (cc_dst_host con);
          tail = [byte_of (port div 256 mod 256), byte_of (port mod 256)];
          a4 = host_id_get_addr_as_byte_array (cc_dst_host con) 4;
          a6 = host_id_get_addr_as_byte_array (cc_dst_host con) 16;
          nm = host_id_get_name (cc_dst_host con)
      in if cc_socks_address_type con = SOCKS5_ADDRTYPE_IPV4 then
           (if length a4 = 4 then Inr (Some (hdr @ a4 @ tail)) else Inl UB)
         else if cc_socks_address_type con = SOCKS5_ADDRTYPE_IPV6 then
           (if length a6 = 16 then Inr (Some (hdr @ a6 @ tail)) else Inl UB)
         else if cc_socks_address_type con = SOCKS5_ADDRTYPE_DOMAIN then
           Inr (Some (hdr @ [byte_of (int (length nm))] @ map (\<lambda>c. word_of_nat (of_char c)) nm @ tail))
         else Inr None)"

definition socks5_client_send_command :: "client_connection \<Rightarrow> world \<Rightarrow> (bool \<times> world) cres" where
  "socks5_client_send_command con w =
     cbind (socks5_command_bytes con) (\<lambda>msg.
     case msg of
       None \<Rightarrow> Inr (False, w)
     | Some buf \<Rightarrow>
         cbind (sb_write_len w (cc_fd_out con) buf) (\<lambda>(rc, w).
         if rc < 0 then Inr (False, w) else Inr (True, w)))"

text \<open>
  The reply. The third test of the address type repeats the first one, so a reply that names
  a domain is an unknown type.
\<close>

definition socks5_client_get_command_response ::
  "client_connection \<Rightarrow> int option \<Rightarrow> world \<Rightarrow> (bool \<times> client_connection \<times> int option \<times> world) cres" where
  "socks5_client_get_command_response con ft w =
     cbind (sb_read_len w (cc_fd_out con) 4) (\<lambda>(rc, buf, w).
     if rc \<noteq> 4 then
       Inr (False, con, if rc = 0 then Some SOCKS5_REPLY_CONNECTION_REFUSED else ft, w)
     else if buf ! 0 \<noteq> 0x05 then
       Inr (False,
            set_client_connection_status con CCSTATUS_ERR_INTERNAL (Some ''Unexpected Error'')
              (Some (''SSH SOCKS5 server replied with unsupported version '' @ show_int (uint (buf ! 0)))),
            ft, w)
     else
       let ft = Some (uint (buf ! 1)); addr_type = uint (buf ! 3);
           finish = (\<lambda>w.
             cbind (sb_read_len w (cc_fd_out con) 2) (\<lambda>(rc, d, w).
             if rc < 0 then Inr (False, con, ft, w)
             else if uint (buf ! 1) \<noteq> SOCKS5_REPLY_SUCCEED then Inr (False, con, ft, w)
             else Inr (True, con, ft, w)))
       in if addr_type = SOCKS5_ADDRTYPE_IPV4 then
            cbind (sb_read_len w (cc_fd_out con) 4) (\<lambda>(rc, d, w).
            if rc < 0 then Inr (False, con, ft, w) else finish w)
          else if addr_type = SOCKS5_ADDRTYPE_IPV6 then
            cbind (sb_read_len w (cc_fd_out con) 16) (\<lambda>(rc, d, w).
            if rc < 0 then Inr (False, con, ft, w) else finish w)
          else Inr (False, con, ft, w))"

definition connect_to_ssh_socks5_proxy ::
  "client_connection \<Rightarrow> ssh_tunnel \<Rightarrow> world \<Rightarrow> (bool \<times> client_connection \<times> world) cres" where
  "connect_to_ssh_socks5_proxy con tun w =
     cbind (dial_out w \<lparr>sin_port = htons (st_socks_port tun), sin_addr = htonl 0x7F000001\<rparr>) (\<lambda>(r, w).
     case r of
       Dial_no_socket e \<Rightarrow>
         Inr (False, set_client_connection_status (con\<lparr>cc_fd_out := -1\<rparr>) e (Some ''Error'')
                       (Some (w_strerror w e)), w)
     | Dial_failed e \<Rightarrow>
         Inr (False,
              if e = ECONNREFUSED
              then set_client_connection_status (con\<lparr>cc_fd_out := -1\<rparr>) CCSTATUS_OKAY (Some ''Waiting'')
                     (Some ''SSH SOCKS5 proxy connection refused.'')
              else set_client_connection_status (con\<lparr>cc_fd_out := -1\<rparr>) CCSTATUS_ERROR None
                     (Some (w_strerror w e)), w)
     | Dial_ok fd \<Rightarrow> Inr (True, con\<lparr>cc_fd_out := fd\<rparr>, w))"

definition connect_via_ssh_socks5 ::
  "client_connection \<Rightarrow> ssh_tunnel \<Rightarrow> world \<Rightarrow> (bool \<times> client_connection \<times> int option \<times> world) cres" where
  "connect_via_ssh_socks5 con tun w =
     (let ft = Some SOCKS5_REPLY_SERVER_FAILURE;
          con = set_client_connection_status con CCSTATUS_OKAY (Some ''Connecting'')
                  (Some ''Connecting to SSH SOCKS5 server'')
      in cbind (connect_to_ssh_socks5_proxy con tun w) (\<lambda>(ok, con, w).
         if \<not> ok then Inr (False, con, ft, w)
         else
           let con = set_client_connection_status con CCSTATUS_OKAY (Some ''Negotiating'')
                       (Some ''Negotiating connection with SSH SOCKS5 server'')
           in cbind (sock5_client_negotiate_auth con w) (\<lambda>(ok, w).
              if \<not> ok then Inr (False, con, ft, w)
              else
                cbind (socks5_client_send_command con w) (\<lambda>(ok, w).
                if \<not> ok then Inr (False, con, ft, w)
                else
                  cbind (socks5_client_get_command_response con ft w) (\<lambda>(ok, con, ft, w).
                  if \<not> ok then Inr (False, con, ft, w)
                  else Inr (True, set_client_connection_status con CCSTATUS_OKAY None None, ft, w))))))"

section \<open>The null and the direct connector\<close>

definition connect_null ::
  "client_connection \<Rightarrow> int option \<Rightarrow> world \<Rightarrow> (bool \<times> client_connection \<times> int option \<times> world) cres" where
  "connect_null con ft w = Inr (True, con, ft, w)"

text \<open>The name is turned into an address when the destination has none yet.\<close>

definition direct_destination :: "dns_env \<Rightarrow> host_id \<Rightarrow> host_id cres" where
  "direct_destination env h =
     (if host_id_has_name h \<and> \<not> host_id_has_addr h then
        (case inet_pton4 (host_id_get_name h) of
           Some a \<Rightarrow> Inr (host_id_set_addr_in h \<lparr>sin_port = htons (host_id_get_port h), sin_addr = a\<rparr>)
         | None \<Rightarrow> cmap snd (resolve_dns_for_host_id env h))
      else Inr h)"

definition connect_direct ::
  "client_connection \<Rightarrow> world \<Rightarrow> (bool \<times> client_connection \<times> int option \<times> world) cres" where
  "connect_direct con w =
     cbind (direct_destination (w_dns w) (cc_dst_host con)) (\<lambda>dst.
     let ft = Some SOCKS5_REPLY_SERVER_FAILURE; con = con\<lparr>cc_dst_host := dst\<rparr>
     in case host_id_get_addr dst of
          AF_INET saddr_in \<Rightarrow>
            cbind (dial_out w saddr_in) (\<lambda>(r, w).
            case r of
              Dial_no_socket e \<Rightarrow> Inr (False, con\<lparr>cc_fd_out := -1\<rparr>, ft, w)
            | Dial_failed e \<Rightarrow>
                Inr (False, con\<lparr>cc_fd_out := -1\<rparr>,
                     if e = ECONNREFUSED \<or> e = ECONNRESET then Some SOCKS5_REPLY_CONNECTION_REFUSED else ft, w)
            | Dial_ok fd \<Rightarrow> Inr (True, con\<lparr>cc_fd_out := fd\<rparr>, Some SOCKS5_REPLY_SUCCEED, w))
        | _ \<Rightarrow> Inr (False, con, Some SOCKS5_REPLY_ADDRESS_TYPE_NOT_SUPPORTED, w))"

section \<open>The loop over the tunnels\<close>

text \<open>One attempt via one tunnel. A tunnel that is not special is followed to its data.\<close>

definition connect_tunnel ::
  "ssh_globals \<times> ssh_tunnel list \<Rightarrow> tun_ref \<Rightarrow> client_connection \<Rightarrow> int option \<Rightarrow> world
     \<Rightarrow> (bool \<times> client_connection \<times> int option \<times> world) cres" where
  "connect_tunnel env tun con ft w =
     (if tun = ssh_tunnel_direct (fst env) then connect_direct con w
      else if tun = ssh_tunnel_null (fst env) then connect_null con ft w
      else (case deref_ssh (snd env) tun of
              None \<Rightarrow> Inl UB
            | Some t \<Rightarrow> connect_via_ssh_socks5 con t w))"

definition close_fd_out :: "client_connection \<Rightarrow> world \<Rightarrow> client_connection \<times> world" where
  "close_fd_out con w =
     (if cc_fd_out con > 0 then (con\<lparr>cc_fd_out := -1\<rparr>, sys_close w (cc_fd_out con)) else (con, w))"

text \<open>
  The loop: \<open>connect\<close> is the attempt, \<open>tunnels\<close> the array of the route. The result is
  \<open>ok\<close>, the connection, \<open>failure_type\<close> and the world. \<open>attempt\<close> is \<open>connect_attempt\<close>; the loop
  gives up at 100, so the recursion is bounded.
\<close>

function socks_connect_loop ::
  "(tun_ref \<Rightarrow> client_connection \<Rightarrow> int option \<Rightarrow> world \<Rightarrow> (bool \<times> client_connection \<times> int option \<times> world) cres)
     \<Rightarrow> tun_ref list \<Rightarrow> nat \<Rightarrow> client_connection \<Rightarrow> int option \<Rightarrow> world
     \<Rightarrow> (bool \<times> client_connection \<times> int option \<times> world) cres" where
  "socks_connect_loop connect tunnels attempt con ft w =
     (let tun = tunnels ! (attempt mod length tunnels); con = con\<lparr>cc_tunnel := Some tun\<rparr>
      in cbind (connect tun con ft w) (\<lambda>(created, con, ft, w).
         if created then Inr (True, con, ft, w)
         else case ft of
           None \<Rightarrow> Inl UB
         | Some f \<Rightarrow>
             let refused = (f = SOCKS5_REPLY_CONNECTION_REFUSED);
                 con = (if refused
                        then set_client_connection_status con CCSTATUS_ERR_NETWORK (Some ''Connection Refused'')
                               (Some ''Connection to remote host was refused.'')
                        else con);
                 (con, w) = close_fd_out (con\<lparr>cc_tunnel := None\<rparr>) w
             in if attempt \<ge> 100 \<or> refused then Inr (False, con, ft, w)
                else socks_connect_loop connect tunnels (attempt + 1) con ft (w\<lparr>w_sleeps := w_sleeps w + 1\<rparr>)))"
  by pat_completeness auto
termination
  by (relation "measure (\<lambda>(c, ts, attempt, r). 101 - attempt)") auto

declare socks_connect_loop.simps [simp del]

text \<open>Whether some tunnel of the route needs an ssh child, so that the main thread is woken.\<close>

fun have_ssh_tunnel :: "ssh_globals \<times> ssh_tunnel list \<Rightarrow> tun_ref list \<Rightarrow> bool cres" where
  "have_ssh_tunnel env [] = Inr False"
| "have_ssh_tunnel env (tun # tuns) =
     (if tun \<noteq> ssh_tunnel_direct (fst env) \<and> tun \<noteq> ssh_tunnel_null (fst env) then
        (case deref_ssh (snd env) tun of
           None \<Rightarrow> Inl UB
         | Some t \<Rightarrow>
             cmap (\<lambda>b. (st_command t \<noteq> []) \<or> b) (have_ssh_tunnel env tuns))
      else have_ssh_tunnel env tuns)"

definition socks_connect ::
  "ssh_globals \<times> ssh_tunnel list \<Rightarrow> client_connection \<Rightarrow> int option \<Rightarrow> world
     \<Rightarrow> (bool \<times> client_connection \<times> int option \<times> world) cres" where
  "socks_connect env con ft w =
     (case cc_route con of
        None \<Rightarrow> Inl UB
      | Some route \<Rightarrow>
          cbind (have_ssh_tunnel env (rr_tunnel route)) (\<lambda>have.
          if rr_tunnel route = [] then Inr (False, con, ft, w)
          else
            let w = (if have then w\<lparr>w_msgs := w_msgs w + 1\<rparr> else w)
            in socks_connect_loop (connect_tunnel env) (rr_tunnel route) 0 con ft w))"

section \<open>What a connector leaves alone\<close>

definition con_rest where
  "con_rest con =
     (cc_route con, cc_fd_in con, cc_id con, cc_src_host con, cc_dst_host_original con,
      (cc_socks_version con, cc_socks_command con, cc_socks_address_type con),
      (cc_bytes_tx con, cc_bytes_rx con), (cc_thread_has_exited con, cc_end_time con))"

definition w_rest where
  "w_rest w = (w_polls w, w_dns w, w_now w, w_strerror w, w_msgs w)"

definition fresh_fd :: "int \<Rightarrow> world \<Rightarrow> bool" where
  "fresh_fd fd w \<longleftrightarrow>
     list_all (\<lambda>d. case d of New_socket fd' _ \<Rightarrow> fd' \<noteq> fd | No_socket _ \<Rightarrow> True) (w_dials w)"

lemma con_rest_updates [simp]:
  "con_rest (con\<lparr>cc_tunnel := t\<rparr>) = con_rest con"
  "con_rest (con\<lparr>cc_fd_out := fd\<rparr>) = con_rest con"
  "con_rest (con\<lparr>cc_dst_host := h\<rparr>) = con_rest con"
  "con_rest (set_client_connection_status con s n d) = con_rest con"
  by (simp_all add: con_rest_def set_client_connection_status_def)

lemma w_rest_updates [simp]:
  "w_rest (upd_sock w fd s) = w_rest w"
  "w_rest (w\<lparr>w_errno := e\<rparr>) = w_rest w"
  "w_rest (w\<lparr>w_dials := ds\<rparr>) = w_rest w"
  "w_rest (w\<lparr>w_dialed := da\<rparr>) = w_rest w"
  "w_rest (w\<lparr>w_sleeps := n\<rparr>) = w_rest w"
  "w_rest (sys_close w fd) = w_rest w"
  by (simp_all add: w_rest_def sys_close_def)

lemma set_status_more [simp]:
  "cc_fd_out (set_client_connection_status con s n d) = cc_fd_out con"
  "cc_tunnel (set_client_connection_status con s n d) = cc_tunnel con"
  "cc_dst_host (set_client_connection_status con s n d) = cc_dst_host con"
  by (simp_all add: set_client_connection_status_def)

text \<open>What a step on the outgoing side may do to the world, seen from another socket.\<close>

definition out_step :: "int \<Rightarrow> world \<Rightarrow> world \<Rightarrow> bool" where
  "out_step n w w' \<longleftrightarrow>
     w_rest w' = w_rest w \<and> w_sleeps w' = w_sleeps w \<and>
     int (length (w_dialed w')) \<le> int (length (w_dialed w)) + n"

definition away_from :: "int \<Rightarrow> world \<Rightarrow> world \<Rightarrow> bool" where
  "away_from fd w w' \<longleftrightarrow> (fresh_fd fd w \<longrightarrow> fresh_fd fd w') \<and> w_sock w' fd = w_sock w fd"

lemma out_step_trans: "out_step a w w1 \<Longrightarrow> out_step b w1 w2 \<Longrightarrow> out_step (a + b) w w2"
  by (simp add: out_step_def)

lemma away_from_trans: "away_from fd w w1 \<Longrightarrow> away_from fd w1 w2 \<Longrightarrow> away_from fd w w2"
  by (simp add: away_from_def)

text \<open>
  Tidy but for \<open>x\<close>: of the positive descriptors other than \<open>x\<close>, one that is open behind the step was
  open before it, and the kernel did not hand it out in between. So every socket that was made
  is closed again.
\<close>

definition handed_out :: "int \<Rightarrow> dial list \<Rightarrow> bool" where
  "handed_out fd ds \<longleftrightarrow> list_ex (\<lambda>d. case d of New_socket fd' _ \<Rightarrow> fd' = fd | No_socket _ \<Rightarrow> False) ds"

definition tidy :: "int \<Rightarrow> world \<Rightarrow> world \<Rightarrow> bool" where
  "tidy x w w' \<longleftrightarrow>
     (\<exists>ds. w_dials w = ds @ w_dials w' \<and>
        (\<forall>fd. 0 < fd \<and> fd \<noteq> x \<and> sk_open (w_sock w' fd) \<longrightarrow> sk_open (w_sock w fd) \<and> \<not> handed_out fd ds))"

text \<open>A step on sockets that are open: it neither makes nor closes one.\<close>

definition same_opens :: "world \<Rightarrow> world \<Rightarrow> bool" where
  "same_opens w w' \<longleftrightarrow> w_dials w' = w_dials w \<and> (\<forall>fd. sk_open (w_sock w' fd) = sk_open (w_sock w fd))"

lemma same_opens_refl [simp]: "same_opens w w" "same_opens w (w'\<lparr>w_sleeps := n\<rparr>) = same_opens w w'"
  "same_opens w (w'\<lparr>w_msgs := n\<rparr>) = same_opens w w'"
  by (simp_all add: same_opens_def)

lemma same_opens_trans: "same_opens w w1 \<Longrightarrow> same_opens w1 w2 \<Longrightarrow> same_opens w w2"
  by (simp add: same_opens_def)

lemma tidy_same: "tidy x w w1 \<Longrightarrow> same_opens w1 w2 \<Longrightarrow> tidy x w w2"
  by (auto simp: tidy_def same_opens_def)

lemma tidy_refl [simp]: "tidy x w w"
  by (simp add: tidy_def handed_out_def)

lemma tidy_trans: "tidy (-1) w w1 \<Longrightarrow> tidy x w1 w2 \<Longrightarrow> tidy x w w2"
proof -
  assume "tidy (-1) w w1" "tidy x w1 w2"
  then obtain ds1 ds2 where "w_dials w = ds1 @ w_dials w1" "w_dials w1 = ds2 @ w_dials w2"
    and "\<forall>fd. 0 < fd \<and> sk_open (w_sock w1 fd) \<longrightarrow> sk_open (w_sock w fd) \<and> \<not> handed_out fd ds1"
    and "\<forall>fd. 0 < fd \<and> fd \<noteq> x \<and> sk_open (w_sock w2 fd) \<longrightarrow> sk_open (w_sock w1 fd) \<and> \<not> handed_out fd ds2"
    by (auto simp: tidy_def)
  then show ?thesis unfolding tidy_def by (intro exI [of _ "ds1 @ ds2"]) (simp add: handed_out_def)
qed

lemma tidy_sockets:
  assumes "tidy (if ok then x else -1) w w'"
  shows "\<exists>ds. w_dials w = ds @ w_dials w' \<and>
    (\<forall>fd. 0 < fd \<and> sk_open (w_sock w' fd) \<and> \<not> (ok \<and> fd = x) \<longrightarrow>
       sk_open (w_sock w fd) \<and> (\<forall>cs. New_socket fd cs \<notin> set ds))"
proof -
  have "New_socket fd cs \<notin> set ds" if "\<not> handed_out fd ds" for fd cs ds
    using that by (auto simp: handed_out_def list_ex_iff split: dial.splits)
  with assms show ?thesis unfolding tidy_def by (metis (mono_tags, lifting) order_less_irrefl zero_less_one neg_0_less_iff_less less_trans)
qed

lemma tidy_close: "tidy (cc_fd_out con) w w1 \<Longrightarrow> close_fd_out con w1 = (con', w2) \<Longrightarrow> tidy (-1) w w2"
  by (auto simp: close_fd_out_def tidy_def sys_close_def split: if_splits)

lemma only_rx_out:
  "only_rx fd w w' \<Longrightarrow> out_step 0 w w' \<and> same_opens w w' \<and> (fd' \<noteq> fd \<longrightarrow> away_from fd' w w')"
  by (auto simp: only_rx_def out_step_def same_opens_def away_from_def fresh_fd_def w_rest_def split: if_splits)

lemma only_tx_out:
  "only_tx fd w w' bs \<Longrightarrow> out_step 0 w w' \<and> same_opens w w' \<and> (fd' \<noteq> fd \<longrightarrow> away_from fd' w w')"
  by (auto simp: only_tx_def out_step_def same_opens_def away_from_def fresh_fd_def w_rest_def split: if_splits)

lemma dial_out_frame:
  assumes "dial_out w sa = Inr (r, w')"
  shows "out_step 1 w w' \<and> tidy (case r of Dial_ok g \<Rightarrow> g | _ \<Rightarrow> -1) w w' \<and>
    (fresh_fd fd w \<longrightarrow> away_from fd w w' \<and> (\<forall>g. r = Dial_ok g \<longrightarrow> g \<noteq> fd))"
proof (cases "w_dials w")
  case Nil
  with assms show ?thesis by (simp add: dial_out_def)
next
  case (Cons d ds)
  show ?thesis
  proof (cases d)
    case (No_socket e)
    with Cons assms show ?thesis
      by (auto simp: dial_out_def out_step_def away_from_def fresh_fd_def w_rest_def tidy_def handed_out_def)
  next
    case (New_socket g cs)
    with Cons assms obtain res where "sys_connect cs = Inr res" by (auto simp: dial_out_def Let_def cbind_eq_Inr)
    with Cons New_socket assms show ?thesis
      by (cases res)
         (auto simp: dial_out_def out_step_def away_from_def fresh_fd_def sys_close_def w_rest_def tidy_def
            handed_out_def Let_def split: if_splits)
  qed
qed

lemma negotiate_frame:
  assumes "sock5_client_negotiate_auth con w = Inr (ok, w')"
  shows "out_step 0 w w' \<and> same_opens w w' \<and> (cc_fd_out con \<noteq> fd \<longrightarrow> away_from fd w w')"
proof -
  obtain rc w1 where 1: "sb_write_len w (cc_fd_out con) [5, 1, 0] = Inr (rc, w1)"
    and rest: "w' = w1 \<or> (\<exists>rc d. sb_read_len w1 (cc_fd_out con) 2 = Inr (rc, d, w'))"
    using assms by (auto simp: sock5_client_negotiate_auth_def socks_consts Let_def cbind_eq_Inr split: if_splits)
  obtain sent where "only_tx (cc_fd_out con) w w1 sent" using sb_write_len_cases [OF 1] by auto
  note f1 = only_tx_out [OF this, of fd]
  show ?thesis using rest
  proof
    assume "\<exists>rc d. sb_read_len w1 (cc_fd_out con) 2 = Inr (rc, d, w')"
    then have "only_rx (cc_fd_out con) w1 w'" using sb_read_len_cases by blast
    from only_rx_out [OF this, of fd] f1 show ?thesis
      using out_step_trans [of 0 w w1 0 w'] away_from_trans [of fd w w1 w'] same_opens_trans [of w w1 w'] by auto
  qed (use f1 in auto)
qed

lemma send_command_frame:
  assumes "socks5_client_send_command con w = Inr (ok, w')"
  shows "out_step 0 w w' \<and> same_opens w w' \<and> (cc_fd_out con \<noteq> fd \<longrightarrow> away_from fd w w')"
proof -
  consider "w' = w" | buf rc where "sb_write_len w (cc_fd_out con) buf = Inr (rc, w')" "buf \<noteq> []"
    using assms
    by (auto simp: socks5_client_send_command_def socks5_command_bytes_def Let_def cbind_eq_Inr
        split: option.splits if_splits)
  then show ?thesis
  proof cases
    case 1
    then show ?thesis by (simp add: out_step_def away_from_def)
  next
    case (2 buf rc)
    from sb_write_len_cases [OF 2] obtain sent where "only_tx (cc_fd_out con) w w' sent" by blast
    from only_tx_out [OF this, of fd] show ?thesis by blast
  qed
qed

lemma sb_read_len_only_rx: "sb_read_len w fd n = Inr (rc, d, w') \<Longrightarrow> only_rx fd w w'"
  using sb_read_len_cases by blast

lemma response_tail_frame:
  assumes "cbind (sb_read_len w fd n) (\<lambda>(rc, d, w). if rc < 0 then Inr (False, con, ft, w) else k w) = Inr (ok, con', ft', w')"
    and "\<And>w1. k w1 = Inr (ok, con', ft', w') \<Longrightarrow> only_rx fd w1 w' \<and> con' = con \<and> ft' = ft"
  shows "only_rx fd w w' \<and> con' = con \<and> ft' = ft"
proof -
  obtain rc d w1 where r: "sb_read_len w fd n = Inr (rc, d, w1)"
    and e: "(if rc < 0 then Inr (False, con, ft, w1) else k w1) = Inr (ok, con', ft', w')"
    using assms(1) by (auto simp: cbind_eq_Inr)
  note rx = sb_read_len_only_rx [OF r]
  show ?thesis
  proof (cases "rc < 0")
    case True
    with e rx show ?thesis by auto
  next
    case False
    with e assms(2) [of w1] rx show ?thesis by (auto intro: only_rx_trans)
  qed
qed

lemma response_frame:
  assumes "socks5_client_get_command_response con ft w = Inr (ok, con', ft', w')"
  shows "only_rx (cc_fd_out con) w w' \<and> con_rest con' = con_rest con \<and> cc_fd_out con' = cc_fd_out con \<and>
         cc_tunnel con' = cc_tunnel con \<and> cc_dst_host con' = cc_dst_host con \<and> (ft \<noteq> None \<longrightarrow> ft' \<noteq> None)"
proof -
  let ?fd = "cc_fd_out con"
  obtain rc buf w1 where r: "sb_read_len w ?fd 4 = Inr (rc, buf, w1)"
    using assms by (auto simp: socks5_client_get_command_response_def cbind_eq_Inr)
  note rx = sb_read_len_only_rx [OF r]
  define ft1 where "ft1 = Some (uint (buf ! 1))"
  define fin where "fin = (\<lambda>w. cbind (sb_read_len w ?fd 2) (\<lambda>(rc, d, w).
     if rc < 0 then Inr (False, con, ft1, w)
     else if uint (buf ! 1) \<noteq> SOCKS5_REPLY_SUCCEED then Inr (False, con, ft1, w)
     else (Inr (True, con, ft1, w) :: (bool \<times> client_connection \<times> int option \<times> world) cres)))"
  have fin: "only_rx ?fd v w' \<and> con' = con \<and> ft' = ft1" if "fin v = Inr (ok, con', ft', w')" for v
    using that sb_read_len_only_rx [of v ?fd 2]
    by (auto simp: fin_def cbind_eq_Inr split: if_splits)
  consider (short) "rc \<noteq> 4" | (ver) "rc = 4" "buf ! 0 \<noteq> 5"
    | (a4) "rc = 4" "buf ! 0 = 5" "cbind (sb_read_len w1 ?fd 4) (\<lambda>(rc, d, w).
             if rc < 0 then Inr (False, con, ft1, w) else fin w) = Inr (ok, con', ft', w')"
    | (a6) "rc = 4" "buf ! 0 = 5" "cbind (sb_read_len w1 ?fd 16) (\<lambda>(rc, d, w).
             if rc < 0 then Inr (False, con, ft1, w) else fin w) = Inr (ok, con', ft', w')"
    | (other) "ok = False \<and> con' = con \<and> ft' = ft1 \<and> w' = w1"
    using assms r
    unfolding socks5_client_get_command_response_def fin_def ft1_def Let_def
    by (auto split: if_splits)
  then show ?thesis
  proof cases
    case short
    with assms r rx show ?thesis by (auto simp: socks5_client_get_command_response_def)
  next
    case ver
    with assms r rx show ?thesis by (auto simp: socks5_client_get_command_response_def)
  next
    case a4
    from response_tail_frame [OF a4(3) fin] rx show ?thesis by (auto simp: ft1_def intro: only_rx_trans)
  next
    case a6
    from response_tail_frame [OF a6(3) fin] rx show ?thesis by (auto simp: ft1_def intro: only_rx_trans)
  next
    case other
    with rx show ?thesis by (auto simp: ft1_def)
  qed
qed

section \<open>Connectors as an interface\<close>

text \<open>
  What the loop relies on: an attempt leaves the rest of the connection and of the world
  alone, makes at most one outgoing connection, leaves no socket open but the one it puts into
  the connection, says why it failed, and does not touch a socket whose descriptor the kernel
  does not hand out again.
\<close>

locale connector =
  fixes connect :: "'e \<Rightarrow> tun_ref \<Rightarrow> client_connection \<Rightarrow> int option \<Rightarrow> world
     \<Rightarrow> (bool \<times> client_connection \<times> int option \<times> world) cres"
  assumes connect_rest: "connect e t con ft w = Inr (ok, con', ft', w') \<Longrightarrow>
      con_rest con' = con_rest con \<and> cc_tunnel con' = cc_tunnel con \<and> out_step 1 w w'"
    and connect_tidy: "connect e t con ft w = Inr (ok, con', ft', w') \<Longrightarrow> tidy (cc_fd_out con') w w'"
    and connect_says_why: "connect e t con ft w = Inr (False, con', ft', w') \<Longrightarrow> ft' \<noteq> None"
    and connect_away: "connect e t con ft w = Inr (ok, con', ft', w') \<Longrightarrow>
      fresh_fd fd w \<Longrightarrow> cc_fd_out con \<noteq> fd \<Longrightarrow> fd \<noteq> -1 \<Longrightarrow> away_from fd w w' \<and> cc_fd_out con' \<noteq> fd"
begin

lemma socks_connect_loop_bounds:
  assumes "socks_connect_loop (connect e) ts attempt con ft w = Inr (ok, con', ft', w')"
    and "ts \<noteq> []" and "attempt \<le> 100"
  shows "con_rest con' = con_rest con \<and> w_rest w' = w_rest w \<and>
         length (w_dialed w') \<le> length (w_dialed w) + (101 - attempt) \<and>
         w_sleeps w' \<le> w_sleeps w + (100 - attempt) \<and>
         (if ok then \<exists>t \<in> set ts. cc_tunnel con' = Some t
          else cc_tunnel con' = None \<and> cc_fd_out con' \<le> 0 \<and> ft' \<noteq> None)"
  using assms(1,3)
proof (induction "101 - attempt" arbitrary: attempt con ft w rule: less_induct)
  case less
  let ?tun = "ts ! (attempt mod length ts)"
  let ?con = "con\<lparr>cc_tunnel := Some ?tun\<rparr>"
  have mem: "?tun \<in> set ts" using assms(2) by (meson length_greater_0_conv mod_less_divisor nth_mem)
  obtain cr con1 ft1 w1 where c: "connect e ?tun ?con ft w = Inr (cr, con1, ft1, w1)"
    using less.prems(1) by (subst (asm) socks_connect_loop.simps) (auto simp: Let_def cbind_eq_Inr)
  note rest = connect_rest [OF c]
  show ?case
  proof (cases cr)
    case True
    then have "ok \<and> con' = con1 \<and> ft' = ft1 \<and> w' = w1"
      using less.prems(1) c by (subst (asm) socks_connect_loop.simps) (simp add: Let_def)
    then show ?thesis using True rest mem less.prems(2) by (auto simp: out_step_def)
  next
    case False
    then have "ft1 \<noteq> None" using connect_says_why c by simp
    then obtain f where f: "ft1 = Some f" by blast
    define refused where "refused = (f = SOCKS5_REPLY_CONNECTION_REFUSED)"
    define con2 where "con2 = (if refused
        then set_client_connection_status con1 CCSTATUS_ERR_NETWORK (Some ''Connection Refused'')
               (Some ''Connection to remote host was refused.'') else con1)\<lparr>cc_tunnel := None\<rparr>"
    obtain con3 w3 where cl: "close_fd_out con2 w1 = (con3, w3)" by fastforce
    have k: "con_rest con3 = con_rest con" "cc_tunnel con3 = None" "cc_fd_out con3 \<le> 0"
      "w_rest w3 = w_rest w" "w_sleeps w3 = w_sleeps w" "length (w_dialed w3) \<le> length (w_dialed w) + 1"
      using cl rest unfolding close_fd_out_def con2_def out_step_def
      by (auto simp: sys_close_def split: if_splits)
    have step: "socks_connect_loop (connect e) ts attempt con ft w =
      (if attempt \<ge> 100 \<or> refused then Inr (False, con3, ft1, w3)
       else socks_connect_loop (connect e) ts (attempt + 1) con3 ft1 (w3\<lparr>w_sleeps := w_sleeps w3 + 1\<rparr>))"
      using c False f cl unfolding con2_def refused_def
      by (subst socks_connect_loop.simps) (simp add: Let_def)
    show ?thesis
    proof (cases "attempt \<ge> 100 \<or> refused")
      case True
      with step less.prems(1) have "\<not> ok \<and> con' = con3 \<and> ft' = ft1 \<and> w' = w3" by simp
      then show ?thesis using k f less.prems(2) by auto
    next
      case rec: False
      let ?w = "w3\<lparr>w_sleeps := w_sleeps w3 + 1\<rparr>"
      have "socks_connect_loop (connect e) ts (attempt + 1) con3 ft1 ?w = Inr (ok, con', ft', w')"
        using step less.prems(1) rec by simp
      moreover have "101 - (attempt + 1) < 101 - attempt" "attempt + 1 \<le> 100" using rec by auto
      ultimately
      have "con_rest con' = con_rest con3 \<and> w_rest w' = w_rest ?w \<and>
         length (w_dialed w') \<le> length (w_dialed ?w) + (101 - (attempt + 1)) \<and>
         w_sleeps w' \<le> w_sleeps ?w + (100 - (attempt + 1)) \<and>
         (if ok then \<exists>t \<in> set ts. cc_tunnel con' = Some t
          else cc_tunnel con' = None \<and> cc_fd_out con' \<le> 0 \<and> ft' \<noteq> None)"
        using less.hyps by blast
      then show ?thesis using k rec by auto
    qed
  qed
qed

lemma socks_connect_loop_away:
  assumes "socks_connect_loop (connect e) ts attempt con ft w = Inr (ok, con', ft', w')"
    and "fresh_fd fd w" and "cc_fd_out con \<noteq> fd" and "fd \<noteq> -1"
  shows "away_from fd w w' \<and> cc_fd_out con' \<noteq> fd"
  using assms(1-3)
proof (induction "101 - attempt" arbitrary: attempt con ft w rule: less_induct)
  case less
  let ?tun = "ts ! (attempt mod length ts)"
  let ?con = "con\<lparr>cc_tunnel := Some ?tun\<rparr>"
  obtain cr con1 ft1 w1 where c: "connect e ?tun ?con ft w = Inr (cr, con1, ft1, w1)"
    using less.prems(1) by (subst (asm) socks_connect_loop.simps) (auto simp: Let_def cbind_eq_Inr)
  have aw: "away_from fd w w1" "cc_fd_out con1 \<noteq> fd" "fresh_fd fd w1"
    using connect_away [OF c less.prems(2)] less.prems(2,3) assms(4) by (auto simp: away_from_def)
  show ?case
  proof (cases cr)
    case True
    then have "con' = con1 \<and> w' = w1"
      using less.prems(1) c by (subst (asm) socks_connect_loop.simps) (simp add: Let_def)
    then show ?thesis using aw by simp
  next
    case False
    then have "ft1 \<noteq> None" using connect_says_why c by simp
    then obtain f where f: "ft1 = Some f" by blast
    define refused where "refused = (f = SOCKS5_REPLY_CONNECTION_REFUSED)"
    define con2 where "con2 = (if refused
        then set_client_connection_status con1 CCSTATUS_ERR_NETWORK (Some ''Connection Refused'')
               (Some ''Connection to remote host was refused.'') else con1)\<lparr>cc_tunnel := None\<rparr>"
    obtain con3 w3 where cl: "close_fd_out con2 w1 = (con3, w3)" by fastforce
    have k: "cc_fd_out con3 \<noteq> fd" "away_from fd w1 w3"
      using cl aw assms(4) unfolding close_fd_out_def con2_def
      by (auto simp: sys_close_def away_from_def fresh_fd_def split: if_splits)
    let ?w = "w3\<lparr>w_sleeps := w_sleeps w3 + 1\<rparr>"
    have fr: "fresh_fd fd ?w" using k aw(3) by (simp add: away_from_def fresh_fd_def)
    have step: "socks_connect_loop (connect e) ts attempt con ft w =
      (if attempt \<ge> 100 \<or> refused then Inr (False, con3, ft1, w3)
       else socks_connect_loop (connect e) ts (attempt + 1) con3 ft1 ?w)"
      using c False f cl unfolding con2_def refused_def
      by (subst socks_connect_loop.simps) (simp add: Let_def)
    have w3: "away_from fd w w3" using aw(1) k(2) by (rule away_from_trans)
    show ?thesis
    proof (cases "attempt \<ge> 100 \<or> refused")
      case True
      with step less.prems(1) k(1) w3 show ?thesis by auto
    next
      case rec: False
      have "socks_connect_loop (connect e) ts (attempt + 1) con3 ft1 ?w = Inr (ok, con', ft', w')"
        using step less.prems(1) rec by simp
      moreover have "101 - (attempt + 1) < 101 - attempt" using rec by auto
      ultimately have "away_from fd ?w w' \<and> cc_fd_out con' \<noteq> fd" using less.hyps fr k(1) by blast
      with w3 fr show ?thesis by (auto simp: away_from_def)
    qed
  qed
qed

lemma socks_connect_loop_tidy:
  assumes "socks_connect_loop (connect e) ts attempt con ft w = Inr (ok, con', ft', w')"
  shows "tidy (if ok then cc_fd_out con' else -1) w w'"
  using assms
proof (induction "101 - attempt" arbitrary: attempt con ft w rule: less_induct)
  case less
  let ?tun = "ts ! (attempt mod length ts)"
  let ?con = "con\<lparr>cc_tunnel := Some ?tun\<rparr>"
  obtain cr con1 ft1 w1 where c: "connect e ?tun ?con ft w = Inr (cr, con1, ft1, w1)"
    using less.prems by (subst (asm) socks_connect_loop.simps) (auto simp: Let_def cbind_eq_Inr)
  note tidy1 = connect_tidy [OF c]
  show ?case
  proof (cases cr)
    case True
    then have "ok \<and> con' = con1 \<and> w' = w1"
      using less.prems c by (subst (asm) socks_connect_loop.simps) (simp add: Let_def)
    then show ?thesis using tidy1 by simp
  next
    case False
    then have "ft1 \<noteq> None" using connect_says_why c by simp
    then obtain f where f: "ft1 = Some f" by blast
    define refused where "refused = (f = SOCKS5_REPLY_CONNECTION_REFUSED)"
    define con2 where "con2 = (if refused
        then set_client_connection_status con1 CCSTATUS_ERR_NETWORK (Some ''Connection Refused'')
               (Some ''Connection to remote host was refused.'') else con1)\<lparr>cc_tunnel := None\<rparr>"
    obtain con3 w3 where cl: "close_fd_out con2 w1 = (con3, w3)" by fastforce
    have "tidy (cc_fd_out con2) w w1" using tidy1 by (simp add: con2_def)
    then have tidy3: "tidy (-1) w w3" using cl by (rule tidy_close)
    let ?w = "w3\<lparr>w_sleeps := w_sleeps w3 + 1\<rparr>"
    have step: "socks_connect_loop (connect e) ts attempt con ft w =
      (if attempt \<ge> 100 \<or> refused then Inr (False, con3, ft1, w3)
       else socks_connect_loop (connect e) ts (attempt + 1) con3 ft1 ?w)"
      using c False f cl unfolding con2_def refused_def
      by (subst socks_connect_loop.simps) (simp add: Let_def)
    show ?thesis
    proof (cases "attempt \<ge> 100 \<or> refused")
      case True
      with step less.prems tidy3 show ?thesis by simp
    next
      case rec: False
      have "socks_connect_loop (connect e) ts (attempt + 1) con3 ft1 ?w = Inr (ok, con', ft', w')"
        using step less.prems rec by simp
      moreover have "101 - (attempt + 1) < 101 - attempt" using rec by auto
      ultimately have "tidy (if ok then cc_fd_out con' else -1) ?w w'" using less.hyps by blast
      moreover have "tidy (-1) w ?w" using tidy3 by (rule tidy_same) simp
      ultimately show ?thesis by (blast intro: tidy_trans)
    qed
  qed
qed

end

lemma connect_to_proxy_frame:
  assumes "connect_to_ssh_socks5_proxy con tun w = Inr (ok, con', w')"
  shows "con_rest con' = con_rest con \<and> cc_tunnel con' = cc_tunnel con \<and> cc_dst_host con' = cc_dst_host con \<and>
         out_step 1 w w' \<and> tidy (cc_fd_out con') w w' \<and>
         (fresh_fd fd w \<longrightarrow> fd \<noteq> -1 \<longrightarrow> away_from fd w w' \<and> cc_fd_out con' \<noteq> fd)"
proof -
  obtain r w1 where d: "dial_out w \<lparr>sin_port = htons (st_socks_port tun), sin_addr = htonl 0x7F000001\<rparr> = Inr (r, w1)"
    using assms by (auto simp: connect_to_ssh_socks5_proxy_def cbind_eq_Inr)
  show ?thesis
    using assms d dial_out_frame [OF d, of fd]
    by (cases r) (auto simp: connect_to_ssh_socks5_proxy_def split: if_splits)
qed

lemma connect_via_ssh_frame:
  assumes "connect_via_ssh_socks5 con tun w = Inr (ok, con', ft', w')"
  shows "con_rest con' = con_rest con \<and> cc_tunnel con' = cc_tunnel con \<and> cc_dst_host con' = cc_dst_host con \<and>
         out_step 1 w w' \<and> tidy (cc_fd_out con') w w' \<and> ft' \<noteq> None \<and>
         (fresh_fd fd w \<longrightarrow> fd \<noteq> -1 \<longrightarrow> away_from fd w w' \<and> cc_fd_out con' \<noteq> fd)"
proof -
  let ?c0 = "set_client_connection_status con CCSTATUS_OKAY (Some ''Connecting'')
                  (Some ''Connecting to SSH SOCKS5 server'')"
  let ?st = "\<lambda>c. set_client_connection_status c CCSTATUS_OKAY (Some ''Negotiating'')
                       (Some ''Negotiating connection with SSH SOCKS5 server'')"
  obtain ok1 c1 w1 where 1: "connect_to_ssh_socks5_proxy ?c0 tun w = Inr (ok1, c1, w1)"
    using assms by (auto simp: connect_via_ssh_socks5_def Let_def cbind_eq_Inr)
  note f1 = connect_to_proxy_frame [OF 1, of fd]
  show ?thesis
  proof (cases ok1)
    case False
    with assms 1 f1 show ?thesis by (auto simp: connect_via_ssh_socks5_def Let_def)
  next
    case t1: True
    obtain ok2 w2 where 2: "sock5_client_negotiate_auth (?st c1) w1 = Inr (ok2, w2)"
      using assms 1 t1 by (auto simp: connect_via_ssh_socks5_def Let_def cbind_eq_Inr)
    note f2 = negotiate_frame [OF 2, of fd]
    have c2: "tidy (cc_fd_out c1) w w2" using f1 f2 by (blast intro: tidy_same)
    have o2: "out_step 1 w w2" using f1 f2 out_step_trans [of 1 w w1 0 w2] by simp
    show ?thesis
    proof (cases ok2)
      case False
      then have "con' = ?st c1 \<and> w' = w2 \<and> ft' = Some SOCKS5_REPLY_SERVER_FAILURE"
        using assms 1 2 t1 by (simp add: connect_via_ssh_socks5_def Let_def)
      with f1 f2 o2 c2 show ?thesis by (auto intro: away_from_trans)
    next
      case t2: True
      obtain ok3 w3 where 3: "socks5_client_send_command (?st c1) w2 = Inr (ok3, w3)"
        using assms 1 2 t1 t2 by (auto simp: connect_via_ssh_socks5_def Let_def cbind_eq_Inr)
      note f3 = send_command_frame [OF 3, of fd]
      have c3: "tidy (cc_fd_out c1) w w3" using c2 f3 by (blast intro: tidy_same)
      have o3: "out_step 1 w w3" using o2 f3 out_step_trans [of 1 w w2 0 w3] by simp
      show ?thesis
      proof (cases ok3)
        case False
        then have "con' = ?st c1 \<and> w' = w3 \<and> ft' = Some SOCKS5_REPLY_SERVER_FAILURE"
          using assms 1 2 3 t1 t2 by (simp add: connect_via_ssh_socks5_def Let_def)
        with f1 f2 f3 o3 c3 show ?thesis
          by (auto intro: away_from_trans)
      next
        case t3: True
        obtain ok4 c4 ft4 w4 where 4: "socks5_client_get_command_response (?st c1)
            (Some SOCKS5_REPLY_SERVER_FAILURE) w3 = Inr (ok4, c4, ft4, w4)"
          using assms 1 2 3 t1 t2 t3 by (auto simp: connect_via_ssh_socks5_def Let_def cbind_eq_Inr)
        note f4 = response_frame [OF 4]
        have rx: "out_step 0 w3 w4 \<and> same_opens w3 w4 \<and> (cc_fd_out c1 \<noteq> fd \<longrightarrow> away_from fd w3 w4)"
          using f4 only_rx_out [of "cc_fd_out c1" w3 w4 fd] by auto
        have c4: "tidy (cc_fd_out c1) w w4" using c3 rx by (blast intro: tidy_same)
        have o4: "out_step 1 w w4" using o3 rx out_step_trans [of 1 w w3 0 w4] by simp
        have aw: "away_from fd w w4 \<and> cc_fd_out c1 \<noteq> fd" if "fresh_fd fd w" "fd \<noteq> -1"
        proof -
          have a1: "away_from fd w w1" "cc_fd_out c1 \<noteq> fd" using f1 that by auto
          then have "away_from fd w w3" using f2 f3 by (auto intro: away_from_trans)
          with a1 rx show ?thesis by (auto intro: away_from_trans)
        qed
        have res: "ft' = ft4 \<and> w' = w4 \<and> (con' = c4 \<or> con' = set_client_connection_status c4 CCSTATUS_OKAY None None)"
          using assms 1 2 3 4 t1 t2 t3
          by (auto simp: connect_via_ssh_socks5_def Let_def split: if_splits)
        with f1 f4 o4 c4 aw show ?thesis by auto
      qed
    qed
  qed
qed

lemma connect_direct_frame:
  assumes "connect_direct con w = Inr (ok, con', ft', w')"
  shows "con_rest con' = con_rest con \<and> cc_tunnel con' = cc_tunnel con \<and> out_step 1 w w' \<and>
         tidy (cc_fd_out con') w w' \<and> ft' \<noteq> None \<and>
         (fresh_fd fd w \<longrightarrow> fd \<noteq> -1 \<longrightarrow> cc_fd_out con \<noteq> fd \<longrightarrow> away_from fd w w' \<and> cc_fd_out con' \<noteq> fd)"
proof -
  obtain dst where dst: "direct_destination (w_dns w) (cc_dst_host con) = Inr dst"
    using assms by (auto simp: connect_direct_def cbind_eq_Inr)
  show ?thesis
  proof (cases "hid_addr dst")
    case (AF_INET sa)
    then obtain r w1 where d: "dial_out w sa = Inr (r, w1)"
      using assms dst by (auto simp: connect_direct_def host_id_get_addr_def Let_def cbind_eq_Inr)
    show ?thesis
      using assms dst AF_INET d dial_out_frame [OF d, of fd]
      by (cases r) (auto simp: connect_direct_def host_id_get_addr_def Let_def)
  qed (use assms dst in \<open>auto simp: connect_direct_def host_id_get_addr_def Let_def out_step_def away_from_def\<close>)
qed

interpretation tun: connector connect_tunnel
proof
  fix e t con ft w ok con' ft' w' fd
  show "con_rest con' = con_rest con \<and> cc_tunnel con' = cc_tunnel con \<and> out_step 1 w w'"
    if "connect_tunnel e t con ft w = Inr (ok, con', ft', w')"
    using that connect_direct_frame [of con w ok con' ft' w'] connect_via_ssh_frame [of con _ w ok con' ft' w']
    by (auto simp: connect_tunnel_def connect_null_def out_step_def split: if_splits option.splits)
  show "tidy (cc_fd_out con') w w'" if "connect_tunnel e t con ft w = Inr (ok, con', ft', w')"
    using that connect_direct_frame [of con w ok con' ft' w'] connect_via_ssh_frame [of con _ w ok con' ft' w']
    by (auto simp: connect_tunnel_def connect_null_def split: if_splits option.splits)
  show "ft' \<noteq> None" if "connect_tunnel e t con ft w = Inr (False, con', ft', w')"
    using that connect_direct_frame [of con w False con' ft' w'] connect_via_ssh_frame [of con _ w False con' ft' w']
    by (auto simp: connect_tunnel_def connect_null_def split: if_splits option.splits)
  show "away_from fd w w' \<and> cc_fd_out con' \<noteq> fd"
    if "connect_tunnel e t con ft w = Inr (ok, con', ft', w')" "fresh_fd fd w" "cc_fd_out con \<noteq> fd" "fd \<noteq> -1"
    using that connect_direct_frame [of con w ok con' ft' w' fd]
      connect_via_ssh_frame [of con _ w ok con' ft' w' fd]
    by (auto simp: connect_tunnel_def connect_null_def away_from_def split: if_splits option.splits)
qed

section \<open>The attempts of a connection\<close>

lemma socks_connect_loop_of:
  assumes "socks_connect env con ft w = Inr (ok, con', ft', w')" and "cc_route con = Some r"
    and "rr_tunnel r \<noteq> []"
  obtains w0 where "socks_connect_loop (connect_tunnel env) (rr_tunnel r) 0 con ft w0 = Inr (ok, con', ft', w')"
    "w0 = w \<or> w0 = w\<lparr>w_msgs := w_msgs w + 1\<rparr>"
  using assms by (auto simp: socks_connect_def cbind_eq_Inr Let_def split: if_splits)

text \<open>
  C23: a connection is tried at most 101 times with at most 100 pauses; when it succeeds, the
  tunnel recorded is one of the route's, and when it fails, no tunnel is recorded, the outgoing
  descriptor is not positive and the failure has a type. Every socket with a positive descriptor
  that was made on the way is closed again, but the one of the connection that succeeded: of
  the other positive descriptors, one that is open at the end was open before and was not
  handed out by any of the calls of \<open>socket\<close>. (The test before the closing is \<open>fd_out > 0\<close>, so
  descriptor 0 is left open and is not covered.) The request and the client side of the
  connection are not touched by any attempt, and neither is the client's socket.
\<close>

theorem socks_connect_bounded:
  assumes "socks_connect env con ft w = Inr (ok, con', ft', w')" and "cc_route con = Some r"
    and "rr_tunnel r \<noteq> []"
    and "fresh_fd (cc_fd_in con) w" and "cc_fd_out con \<noteq> cc_fd_in con" and "0 \<le> cc_fd_in con"
  shows "length (w_dialed w') \<le> length (w_dialed w) + 101 \<and> w_sleeps w' \<le> w_sleeps w + 100 \<and>
         con_rest con' = con_rest con \<and> w_sock w' (cc_fd_in con) = w_sock w (cc_fd_in con) \<and>
         cc_fd_out con' \<noteq> cc_fd_in con \<and>
         (if ok then \<exists>t \<in> set (rr_tunnel r). cc_tunnel con' = Some t
          else cc_tunnel con' = None \<and> cc_fd_out con' \<le> 0 \<and> ft' \<noteq> None) \<and>
         (\<exists>ds. w_dials w = ds @ w_dials w' \<and>
            (\<forall>fd. 0 < fd \<and> sk_open (w_sock w' fd) \<and> \<not> (ok \<and> fd = cc_fd_out con') \<longrightarrow>
               sk_open (w_sock w fd) \<and> (\<forall>cs. New_socket fd cs \<notin> set ds)))"
proof -
  obtain w0 where l: "socks_connect_loop (connect_tunnel env) (rr_tunnel r) 0 con ft w0 = Inr (ok, con', ft', w')"
    and w0: "w0 = w \<or> w0 = w\<lparr>w_msgs := w_msgs w + 1\<rparr>"
    using socks_connect_loop_of [OF assms(1-3)] by blast
  have fr: "fresh_fd (cc_fd_in con) w0" using assms(4) w0 by (auto simp: fresh_fd_def)
  have "away_from (cc_fd_in con) w0 w' \<and> cc_fd_out con' \<noteq> cc_fd_in con"
    by (rule tun.socks_connect_loop_away [OF l fr assms(5)]) (use assms(6) in simp)
  moreover have "con_rest con' = con_rest con \<and> w_rest w' = w_rest w0 \<and>
         length (w_dialed w') \<le> length (w_dialed w0) + (101 - 0) \<and>
         w_sleeps w' \<le> w_sleeps w0 + (100 - 0) \<and>
         (if ok then \<exists>t \<in> set (rr_tunnel r). cc_tunnel con' = Some t
          else cc_tunnel con' = None \<and> cc_fd_out con' \<le> 0 \<and> ft' \<noteq> None)"
    by (rule tun.socks_connect_loop_bounds [OF l assms(3)]) simp
  moreover have "\<exists>ds. w_dials w = ds @ w_dials w' \<and>
      (\<forall>fd. 0 < fd \<and> sk_open (w_sock w' fd) \<and> \<not> (ok \<and> fd = cc_fd_out con') \<longrightarrow>
         sk_open (w_sock w fd) \<and> (\<forall>cs. New_socket fd cs \<notin> set ds))"
    using tidy_sockets [OF tun.socks_connect_loop_tidy [OF l]] w0 by auto
  ultimately show ?thesis using w0 by (auto simp: away_from_def)
qed

definition con_routed :: "tun_ref list \<Rightarrow> client_connection \<Rightarrow> client_connection" where
  "con_routed ts con = con\<lparr>cc_route := Some (plain_rule\<lparr>rr_tunnel := ts\<rparr>)\<rparr>"

definition three_tunnels :: ssh_globals where
  "three_tunnels =
     \<lparr>ssh_id_pool = 3, ssh_tunnel_direct = 1, ssh_tunnel_socks_proxy = 2, ssh_tunnel_null = 3\<rparr>"

theorem socks_connect_bounded_witness:
  "let con = con_routed [1] (con_to [] (AF_INET \<lparr>sin_port = htons 80, sin_addr = htonl 0x0a000001\<rparr>) 80);
       w = quiet_world\<lparr>w_dials := [No_socket 24, New_socket 9 [Conn_fail ECONNREFUSED]]\<rparr>
   in \<exists>con' ft' w'. socks_connect (three_tunnels, []) con None w = Inr (False, con', ft', w') \<and>
        length (w_dialed w') \<le> 101 \<and> cc_tunnel con' = None \<and> ft' \<noteq> None"
proof -
  let ?con = "con_routed [1] (con_to [] (AF_INET \<lparr>sin_port = htons 80, sin_addr = htonl 0x0a000001\<rparr>) 80)"
  let ?w = "quiet_world\<lparr>w_dials := [No_socket 24, New_socket 9 [Conn_fail ECONNREFUSED]]\<rparr>"
  let ?r = "plain_rule\<lparr>rr_tunnel := [1]\<rparr>"
  have fd: "cc_fd_in ?con = 5" "cc_fd_out ?con = -1"
    by (simp_all add: con_routed_def con_to_def blank_connection_def Let_def)
  obtain con' ft' w' where run: "socks_connect (three_tunnels, []) ?con None ?w = Inr (False, con', ft', w')"
    by (simp add: socks_connect_def con_routed_def three_tunnels_def socks_connect_loop.simps
        connect_tunnel_def connect_direct_def direct_destination_def host_id_has_name_def
        host_id_get_addr_def dial_out_def socks_consts close_fd_out_def Let_def)
  have fr: "fresh_fd (cc_fd_in ?con) ?w" unfolding fd by (simp add: fresh_fd_def)
  have route: "cc_route ?con = Some ?r" by (simp add: con_routed_def)
  have ne: "cc_fd_out ?con \<noteq> cc_fd_in ?con" "0 \<le> cc_fd_in ?con" "rr_tunnel ?r \<noteq> []"
    unfolding fd by simp_all
  from socks_connect_bounded [OF run route ne(3) fr ne(1,2)] run show ?thesis
    unfolding Let_def by (auto simp: quiet_world_def)
qed

end
