(* ===== verification/Shuttle.thy ===== *)
theory Shuttle
  imports Socks_Connection
begin

text \<open>
  \<open>src/shuttle.c\<close>: the relay between the client and the destination, and the sink for null
  connections. The answers of \<open>poll\<close> are a script; each iteration of the relay takes at
  least one, so the relay recurses on it.
\<close>

definition shuttle_buf :: nat where
  "shuttle_buf = 10000"

text \<open>
  One transfer. A full buffer is terminated one byte behind its end, which is undefined.
\<close>

definition shuttle :: "client_connection \<Rightarrow> int \<Rightarrow> int \<Rightarrow> world \<Rightarrow> (int \<times> client_connection \<times> world) cres" where
  "shuttle con fd_read fd_write w =
     cbind (sb_read w fd_read shuttle_buf) (\<lambda>(read_rc, buf, w).
     if read_rc = 0 then Inr (read_rc, con, w)
     else if read_rc < 0 then
       Inr (read_rc,
            set_client_connection_status con (w_errno w) (Some ''Error'') (Some (w_strerror w (w_errno w))), w)
     else if fd_write < 0 then Inr (read_rc, con, w)
     else if length buf \<ge> shuttle_buf then Inl UB
     else cbind (sb_write_len w fd_write buf) (\<lambda>(write_rc, w). Inr (write_rc, con, w)))"

text \<open>
  The two halves of an iteration: from the client to the destination, and back. The first
  component is the error return, the second what happens to \<open>continue_loop\<close>.
\<close>

definition shuttle_in_out ::
  "bool \<Rightarrow> bool \<Rightarrow> client_connection \<Rightarrow> world \<Rightarrow> (bool \<times> bool \<times> client_connection \<times> world) cres" where
  "shuttle_in_out ready out_can_write con w =
     (if ready then
        cbind (shuttle con (cc_fd_in con) (if out_can_write then cc_fd_out con else -1) w) (\<lambda>(rc, con, w).
        if rc < 0 then Inr (True, False, con, w)
        else if rc = 0 then Inr (False, False, con\<lparr>cc_fd_in := -1\<rparr>, sys_close w (cc_fd_in con))
        else Inr (False, True, con\<lparr>cc_bytes_tx := cc_bytes_tx con + word_of_int rc\<rparr>, w))
      else Inr (False, True, con, w))"

definition shuttle_out_in ::
  "bool \<Rightarrow> bool \<Rightarrow> client_connection \<Rightarrow> world \<Rightarrow> (bool \<times> bool \<times> client_connection \<times> world) cres" where
  "shuttle_out_in ready in_can_write con w =
     (if ready then
        cbind (shuttle con (cc_fd_out con) (if in_can_write then cc_fd_in con else -1) w) (\<lambda>(rc, con, w).
        if rc < 0 then Inr (True, False, con, w)
        else if rc = 0 then Inr (False, False, con\<lparr>cc_fd_out := -1\<rparr>, sys_close w (cc_fd_out con))
        else Inr (False, True, con\<lparr>cc_bytes_rx := cc_bytes_rx con + word_of_int rc\<rparr>, w))
      else Inr (False, True, con, w))"

fun shuttle_loop ::
  "poll_event list \<Rightarrow> bool \<Rightarrow> bool \<Rightarrow> client_connection \<Rightarrow> world \<Rightarrow> (int \<times> client_connection \<times> world) cres" where
  "shuttle_loop [] in_can_write out_can_write con w = Inl Hang"
| "shuttle_loop (Poll_fail e # ps) in_can_write out_can_write con w =
     (if e = EINTR then shuttle_loop ps in_can_write out_can_write con w
      else Inr (0, con, w\<lparr>w_polls := ps, w_errno := e\<rparr>))"
| "shuttle_loop (Poll_ok ev0 ev1 # ps) in_can_write out_can_write con w =
     (let in_can_write = (in_can_write \<and> \<not> ev_hup ev0);
          out_can_write = (out_can_write \<and> \<not> ev_hup ev1)
      in if ev_bad ev0 \<or> ev_bad ev1 then Inr (0, con, w\<lparr>w_polls := ps\<rparr>)
         else
           cbind (shuttle_in_out (ev_rdnorm ev0) out_can_write con w) (\<lambda>(err, go1, con, w).
           if err then Inr (0, con, w\<lparr>w_polls := ps\<rparr>)
           else
             cbind (shuttle_out_in (ev_rdnorm ev1) in_can_write con w) (\<lambda>(err, go2, con, w).
             if err then Inr (0, con, w\<lparr>w_polls := ps\<rparr>)
             else if go1 \<and> go2 \<and> (in_can_write \<or> ev_rdnorm ev0) \<and> (out_can_write \<or> ev_rdnorm ev1)
             then shuttle_loop ps in_can_write out_can_write con w
             else Inr (1, con, w\<lparr>w_polls := ps\<rparr>))))"

definition shuttle_data_back_and_forth ::
  "client_connection \<Rightarrow> world \<Rightarrow> (int \<times> client_connection \<times> world) cres" where
  "shuttle_data_back_and_forth con w = shuttle_loop (w_polls w) True True con w"

text \<open>The bytes of a null connection are counted as received ones, although the client sent them.\<close>

function shuttle_null_connection ::
  "client_connection \<Rightarrow> world \<Rightarrow> (int \<times> client_connection \<times> world) cres" where
  "shuttle_null_connection con w =
     cbind (sb_read_len w (cc_fd_in con) 1) (\<lambda>(rc, buf, w).
     if rc = 1 then shuttle_null_connection (con\<lparr>cc_bytes_rx := cc_bytes_rx con + 1\<rparr>) w
     else
       let con = set_client_connection_status con (w_errno w) (Some ''Error'') (Some (w_strerror w (w_errno w)))
       in Inr (if rc = 0 then 1 else 0, con, w))"
  by pat_completeness auto
termination
proof (relation "measure (\<lambda>(con, w). length (rx_stream (sk_rx (w_sock w (cc_fd_in con)))))", goal_cases)
  case (2 con w x rc r1 d w')
  then have "sb_read_len w (cc_fd_in con) 1 = Inr (1, d, w')" by simp
  from sb_read_len_cases [OF this] show ?case by (auto simp: rx_has_def)
qed simp

declare shuttle_null_connection.simps [simp del]

text \<open>\<open>socks_connect_shuttle\<close> (src/socks_connection.c).\<close>

definition socks_connect_shuttle ::
  "ssh_globals \<Rightarrow> client_connection \<Rightarrow> world \<Rightarrow> (int \<times> client_connection \<times> world) cres" where
  "socks_connect_shuttle sg con w =
     (if cc_tunnel con = Some (ssh_tunnel_null sg) then shuttle_null_connection con w
      else shuttle_data_back_and_forth con w)"

section \<open>What a transfer does\<close>

text \<open>
  From \<open>w\<close> to \<open>w'\<close>, of the bytes of \<open>fr\<close> the first ones, \<open>D\<close>, have been sent to \<open>fw\<close> and the
  next ones, \<open>X\<close>, have been dropped; when \<open>ok\<close>, the rest is still there to be read.
\<close>

definition delivers :: "world \<Rightarrow> world \<Rightarrow> int \<Rightarrow> int \<Rightarrow> byte list \<Rightarrow> byte list \<Rightarrow> bool \<Rightarrow> bool" where
  "delivers w w' fr fw D X ok \<longleftrightarrow>
     (\<exists>R. rx_has w fr (D @ X @ R) \<and> (ok \<longrightarrow> rx_has w' fr R)) \<and>
     sk_sent (w_sock w' fw) = sk_sent (w_sock w fw) @ D"

lemma delivers_trans:
  assumes "delivers w w1 fr fw D1 X1 True" and "delivers w1 w2 fr fw D2 X2 ok" and "X1 = [] \<or> D2 = []"
  shows "delivers w w2 fr fw (D1 @ D2) (X1 @ X2) ok"
proof -
  obtain R1 where 1: "rx_has w fr (D1 @ X1 @ R1)" "rx_has w1 fr R1"
    "sk_sent (w_sock w1 fw) = sk_sent (w_sock w fw) @ D1"
    using assms(1) by (auto simp: delivers_def)
  obtain R2 where 2: "rx_has w1 fr (D2 @ X2 @ R2)" "ok \<longrightarrow> rx_has w2 fr R2"
    "sk_sent (w_sock w2 fw) = sk_sent (w_sock w1 fw) @ D2"
    using assms(2) by (auto simp: delivers_def)
  have "R1 = D2 @ X2 @ R2" using 1(2) 2(1) by (simp add: rx_has_def)
  then have "rx_has w fr ((D1 @ D2) @ (X1 @ X2) @ R2)" using 1(1) assms(3) by auto
  with 1(3) 2(2,3) show ?thesis by (auto simp: delivers_def)
qed

lemma delivers_nothing: "w_sock w' = w_sock w \<Longrightarrow> delivers w w' fr fw [] [] ok"
  by (simp add: delivers_def rx_has_def)

lemma delivers_polls [simp]:
  "delivers w (w'\<lparr>w_polls := ps\<rparr>) fr fw D X ok = delivers w w' fr fw D X ok"
  "delivers w (w'\<lparr>w_errno := e\<rparr>) fr fw D X ok = delivers w w' fr fw D X ok"
  by (simp_all add: delivers_def rx_has_def)

lemma delivers_close [simp]: "delivers w (sys_close w' fd) fr fw D X ok = delivers w w' fr fw D X ok"
  by (simp add: delivers_def rx_has_def sys_close_def)

text \<open>The fields of a connection the relay works on.\<close>

definition relay_fields where
  "relay_fields con = (cc_fd_in con, cc_fd_out con, cc_bytes_tx con, cc_bytes_rx con, cc_tunnel con)"

lemma relay_fields_status [simp]: "relay_fields (set_client_connection_status con s n d) = relay_fields con"
  by (simp add: relay_fields_def)

lemma delivers_prefix:
  assumes "s = take (length s) d" and "rx_has w fr (d @ t)" and "sk_sent (w_sock w' fw) = sk_sent (w_sock w fw) @ s"
  shows "\<exists>X. delivers w w' fr fw s X False"
proof -
  obtain X where "d = s @ X" using assms(1) by (metis append_take_drop_id)
  with assms(2,3) show ?thesis by (auto simp: delivers_def)
qed

lemma shuttle_delivers:
  assumes "shuttle con fr fw w = Inr (rc, con', w')" and "fr \<noteq> fw"
  shows "relay_fields con' = relay_fields con \<and>
    (if 0 \<le> rc then
       (\<exists>d. rc = int (length d) \<and> delivers w w' fr fw (if fw < 0 then [] else d) (if fw < 0 then d else []) True)
     else \<exists>s X. delivers w w' fr fw s X False \<and> (fw < 0 \<longrightarrow> s = [])) \<and>
    delivers w w' fw fr [] [] True \<and> (fw < 0 \<longrightarrow> only_rx fr w w')"
proof -
  obtain n d w1 where r: "sb_read w fr shuttle_buf = Inr (n, d, w1)"
    using assms(1) by (auto simp: shuttle_def cbind_eq_Inr)
  have rd: "only_rx fr w w1" "if 0 < n then n = int (length d) \<and> (\<exists>s. rx_has w fr (d @ s) \<and> rx_has w1 fr s)
     else d = [] \<and> rx_has w fr [] \<and> (n = 0 \<longrightarrow> rx_has w1 fr [])"
    using sb_read_cases [OF r] by (auto simp: shuttle_buf_def split: if_splits)
  have fr1: "sk_sent (w_sock w1 fd) = sk_sent (w_sock w fd)" for fd using only_rx_frame(2) [OF rd(1)] .
  have fw1: "rx_has w1 fw s = rx_has w fw s" for s using only_rx_rx_has [OF rd(1)] assms(2) by simp
  have bwd: "delivers w w1 fw fr [] [] True" using fr1 fw1 by (simp add: delivers_def rx_has_def)
  show ?thesis
  proof (cases "n \<le> 0 \<or> fw < 0")
    case True
    then have res: "rc = n \<and> w' = w1 \<and> relay_fields con' = relay_fields con"
      using assms(1) r by (auto simp: shuttle_def split: if_splits)
    show ?thesis
    proof (cases "0 < n")
      case True
      then have "delivers w w1 fr fw [] d True" using rd(2) fr1 by (auto simp: delivers_def)
      with res True \<open>n \<le> 0 \<or> fw < 0\<close> bwd rd show ?thesis by auto
    next
      case False
      then have "delivers w w1 fr fw [] [] (n = 0)" using rd(2) fr1 by (auto simp: delivers_def)
      moreover from this have "delivers w w1 fr fw [] [] False" by (auto simp: delivers_def)
      ultimately show ?thesis using res False bwd rd(1) by auto
    qed
  next
    case False
    then have n: "0 < n" "0 \<le> fw" by auto
    have d: "n = int (length d)" "d \<noteq> []" using rd(2) n by auto
    have len: "length d < shuttle_buf" using assms(1) r n d by (auto simp: shuttle_def split: if_splits)
    obtain w2 where wr: "sb_write_len w1 fw d = Inr (rc, w2)" "w' = w2" "con' = con"
      using assms(1) r n len by (auto simp: shuttle_def cbind_eq_Inr split: if_splits)
    obtain s where s: "only_tx fw w1 w2 s"
      "rc = int (length d) \<and> s = d \<or> rc = -1 \<and> length s < length d \<and> s = take (length s) d"
      using sb_write_len_cases [OF wr(1) d(2)] by blast
    have sent: "sk_sent (w_sock w2 fw) = sk_sent (w_sock w fw) @ s"
      using only_tx_frame(2) [OF s(1)] fr1 by simp
    have rx2: "rx_has w2 fd t = rx_has w1 fd t" for fd t using only_tx_frame(13) [OF s(1)] .
    have sent_fr: "sk_sent (w_sock w2 fr) = sk_sent (w_sock w fr)"
      using only_tx_frame(1) [OF s(1)] assms(2) fr1 by simp
    have bwd2: "delivers w w2 fw fr [] [] True" using sent_fr rx2 fw1 by (simp add: delivers_def rx_has_def)
    obtain t where t: "rx_has w fr (d @ t)" "rx_has w1 fr t" using rd(2) n by auto
    show ?thesis
    proof (cases "s = d")
      case True
      then have "delivers w w2 fr fw d [] True" using t sent rx2 by (auto simp: delivers_def)
      with s(2) True wr n bwd2 show ?thesis by auto
    next
      case False
      then have "rc = -1" "s = take (length s) d" using s(2) by blast+
      with delivers_prefix [OF _ t(1) sent] wr bwd2 n show ?thesis by auto
    qed
  qed
qed

text \<open>The same for the transfer to \<open>fd\<close> that is switched off when \<open>fd\<close> cannot be written to.\<close>

lemma shuttle_to_delivers:
  assumes "shuttle con fr (if can then fd else -1) w = Inr (rc, con', w')" and "fr \<noteq> fd" and "0 \<le> fd" and "0 \<le> fr"
  shows "relay_fields con' = relay_fields con \<and> delivers w w' fd fr [] [] True \<and>
    (if 0 \<le> rc then
       (\<exists>d. rc = int (length d) \<and> delivers w w' fr fd (if can then d else []) (if can then [] else d) True)
     else \<exists>s X. delivers w w' fr fd s X False \<and> (\<not> can \<longrightarrow> s = []))"
proof (cases can)
  case True
  with shuttle_delivers [of con fr fd w rc con' w'] assms show ?thesis by auto
next
  case False
  then have "shuttle con fr (-1) w = Inr (rc, con', w')" using assms(1) by simp
  note s = shuttle_delivers [OF this]
  have rx: "only_rx fr w w'" using s assms(4) by auto
  have to_fd: "delivers w w' fr fd [] d ok" if "delivers w w' fr (-1) [] d ok" for d ok
    using that only_rx_frame(2) [OF rx] by (simp add: delivers_def)
  have "delivers w w' fd fr [] [] True"
    using only_rx_frame(2) [OF rx] only_rx_rx_has [OF rx] assms(2) by (simp add: delivers_def rx_has_def)
  then show ?thesis using s to_fd False assms(4) by (auto split: if_splits)
qed

text \<open>
  One direction of one iteration: \<open>D\<close> relayed from \<open>fr\<close> to \<open>fd\<close>, \<open>X\<close> dropped, nothing the other
  way; nothing is dropped while \<open>fd\<close> can be written to and there is no error.
\<close>

definition half_step :: "int \<Rightarrow> int \<Rightarrow> bool \<Rightarrow> bool \<Rightarrow> world \<Rightarrow> world \<Rightarrow> byte list \<Rightarrow> byte list \<Rightarrow> bool" where
  "half_step fr fd can err w w' D X \<longleftrightarrow>
     delivers w w' fr fd D X (\<not> err) \<and> delivers w w' fd fr [] [] True \<and>
     (\<not> can \<longrightarrow> D = []) \<and> (can \<longrightarrow> \<not> err \<longrightarrow> X = [])"

lemma half_step_refl [simp]: "half_step fr fd can False w w [] []"
  by (simp add: half_step_def delivers_nothing)

lemma half_step_close [simp]: "half_step fr fd can err w (sys_close w' x) D X = half_step fr fd can err w w' D X"
  by (simp add: half_step_def)

lemma shuttle_half:
  assumes "shuttle con fr (if can then fd else -1) w = Inr (rc, con', w')" and "fr \<noteq> fd" and "0 \<le> fd" and "0 \<le> fr"
  shows "relay_fields con' = relay_fields con \<and>
    (\<exists>D X. half_step fr fd can (rc < 0) w w' D X \<and> (0 \<le> rc \<longrightarrow> rc = int (length (D @ X))))"
proof -
  note s = shuttle_to_delivers [OF assms]
  show ?thesis
  proof (cases "0 \<le> rc")
    case True
    then obtain d where "rc = int (length d)" "delivers w w' fr fd (if can then d else []) (if can then [] else d) True"
      using s by auto
    then have "half_step fr fd can (rc < 0) w w' (if can then d else []) (if can then [] else d)"
      "rc = int (length ((if can then d else []) @ (if can then [] else d)))"
      using s True by (auto simp: half_step_def)
    with s show ?thesis by blast
  next
    case False
    then obtain D X where "delivers w w' fr fd D X False" "\<not> can \<longrightarrow> D = []" using s by auto
    then have "half_step fr fd can (rc < 0) w w' D X" using s False by (auto simp: half_step_def)
    with s False show ?thesis by auto
  qed
qed

lemma shuttle_in_out_half:
  assumes "shuttle_in_out ready ocw con w = Inr (err, go, con', w')" and "cc_fd_out con = fo"
    and "cc_fd_in con = fi" and "fi \<noteq> fo" and "0 \<le> fi" and "0 \<le> fo"
  shows "\<exists>D X. half_step fi fo ocw err w w' D X \<and> cc_fd_out con' = fo \<and>
    cc_fd_in con' = (if go \<or> err then fi else -1) \<and>
    (\<not> err \<longrightarrow> cc_bytes_tx con' = cc_bytes_tx con + word_of_nat (length (D @ X)) \<and> cc_bytes_rx con' = cc_bytes_rx con)"
proof (cases ready)
  case False
  have "half_step fi fo ocw False w w [] []" by simp
  with False assms show ?thesis by (auto simp: shuttle_in_out_def intro!: exI [of _ "[]"])
next
  case True
  then obtain rc c1 w1 where s: "shuttle con fi (if ocw then fo else -1) w = Inr (rc, c1, w1)"
    using assms(1-3) by (auto simp: shuttle_in_out_def cbind_eq_Inr)
  from shuttle_half [OF this assms(4,6,5)] obtain D X where
    h: "half_step fi fo ocw (rc < 0) w w1 D X" "0 \<le> rc \<longrightarrow> rc = int (length (D @ X))"
      "relay_fields c1 = relay_fields con" by blast
  have r: "err = (rc < 0) \<and> half_step fi fo ocw err w w' D X \<and> cc_fd_out con' = fo \<and>
    cc_fd_in con' = (if go \<or> err then fi else -1)"
    using assms(1-3) s True h by (auto simp: shuttle_in_out_def relay_fields_def split: if_splits)
  moreover have "\<not> err \<longrightarrow> cc_bytes_tx con' = cc_bytes_tx con + word_of_int rc \<and> cc_bytes_rx con' = cc_bytes_rx con"
    using assms(1-3) s True h(3) by (auto simp: shuttle_in_out_def relay_fields_def split: if_splits)
  ultimately show ?thesis using h(2) by (metis not_le of_int_of_nat_eq)
qed

lemma shuttle_out_in_half:
  assumes "shuttle_out_in ready icw con w = Inr (err, go, con', w')" and "cc_fd_out con = fo"
    and "cc_fd_in con = (if live then fi else -1)" and "fi \<noteq> fo" and "0 \<le> fi" and "0 \<le> fo"
  shows "\<exists>D X. half_step fo fi (icw \<and> live) err w w' D X \<and> cc_fd_in con' = cc_fd_in con \<and>
    cc_fd_out con' = (if go \<or> err then fo else -1) \<and>
    (\<not> err \<longrightarrow> cc_bytes_rx con' = cc_bytes_rx con + word_of_nat (length (D @ X)) \<and> cc_bytes_tx con' = cc_bytes_tx con)"
proof (cases ready)
  case False
  have "half_step fo fi (icw \<and> live) False w w [] []" by simp
  with False assms show ?thesis by (auto simp: shuttle_out_in_def intro!: exI [of _ "[]"])
next
  case True
  have "(if icw then cc_fd_in con else -1) = (if icw \<and> live then fi else -1)" using assms(3) by simp
  with True obtain rc c1 w1 where s: "shuttle con fo (if icw \<and> live then fi else -1) w = Inr (rc, c1, w1)"
    and run: "if rc < 0 then err \<and> \<not> go \<and> con' = c1 \<and> w' = w1
      else if rc = 0 then \<not> err \<and> \<not> go \<and> con' = c1\<lparr>cc_fd_out := -1\<rparr> \<and> w' = sys_close w1 (cc_fd_out c1)
      else \<not> err \<and> go \<and> con' = c1\<lparr>cc_bytes_rx := cc_bytes_rx c1 + word_of_int rc\<rparr> \<and> w' = w1"
    using assms(1,2) by (auto simp: shuttle_out_in_def cbind_eq_Inr split: if_splits)
  from shuttle_half [OF s _ assms(5,6)] assms(4) obtain D X where
    h: "half_step fo fi (icw \<and> live) (rc < 0) w w1 D X" "0 \<le> rc \<longrightarrow> rc = int (length (D @ X))"
      "relay_fields c1 = relay_fields con" by metis
  have r: "half_step fo fi (icw \<and> live) err w w' D X \<and> err = (rc < 0) \<and> cc_fd_in con' = cc_fd_in con \<and>
    cc_fd_out con' = (if go \<or> err then fo else -1)"
    using run h assms(2) by (auto simp: relay_fields_def split: if_splits)
  moreover have "\<not> err \<longrightarrow> cc_bytes_rx con' = cc_bytes_rx con + word_of_int rc \<and> cc_bytes_tx con' = cc_bytes_tx con"
    using run h(3) by (auto simp: relay_fields_def split: if_splits)
  ultimately show ?thesis using h(2) by (metis not_le of_int_of_nat_eq)
qed

section \<open>The relay\<close>

text \<open>
  From \<open>w\<close> to \<open>w'\<close>, \<open>D1\<close> has gone from the client to the destination and \<open>D2\<close> back, and the
  bytes \<open>X1\<close> and \<open>X2\<close> behind them have been dropped.
\<close>

definition relayed ::
  "int \<Rightarrow> int \<Rightarrow> bool \<Rightarrow> bool \<Rightarrow> world \<Rightarrow> world \<Rightarrow> byte list \<Rightarrow> byte list \<Rightarrow> byte list \<Rightarrow> byte list \<Rightarrow> bool \<Rightarrow> bool" where
  "relayed fi fo icw ocw w w' D1 X1 D2 X2 ok \<longleftrightarrow>
     delivers w w' fi fo D1 X1 ok \<and> delivers w w' fo fi D2 X2 ok \<and> (\<not> ocw \<longrightarrow> D1 = []) \<and> (\<not> icw \<longrightarrow> D2 = [])"

lemma relayed_nothing: "w_sock w' = w_sock w \<Longrightarrow> relayed fi fo icw ocw w w' [] [] [] [] ok"
  by (simp add: relayed_def delivers_nothing)

lemma relayed_polls [simp]:
  "relayed fi fo icw ocw w (w'\<lparr>w_polls := ps\<rparr>) D1 X1 D2 X2 ok = relayed fi fo icw ocw w w' D1 X1 D2 X2 ok"
  by (simp add: relayed_def)

lemma relayed_trans:
  assumes "relayed fi fo icw ocw w w1 D1 X1 D2 X2 True" and "relayed fi fo icw' ocw' w1 w2 D3 X3 D4 X4 ok"
    and "ocw' \<longrightarrow> ocw \<and> X1 = []" and "icw' \<longrightarrow> icw \<and> X2 = []"
  shows "relayed fi fo icw ocw w w2 (D1 @ D3) (X1 @ X3) (D2 @ D4) (X2 @ X4) ok"
  using assms delivers_trans [of w w1 fi fo D1 X1 w2 D3 X3 ok] delivers_trans [of w w1 fo fi D2 X2 w2 D4 X4 ok]
  by (auto simp: relayed_def)

lemma half_step_relayed:
  "half_step fi fo can err w w' D X \<Longrightarrow> can \<longrightarrow> ocw \<Longrightarrow> relayed fi fo icw ocw w w' D X [] [] (\<not> err)"
  "half_step fo fi can err w w' D X \<Longrightarrow> can \<longrightarrow> icw \<Longrightarrow> relayed fi fo icw ocw w w' [] [] D X (\<not> err)"
  by (auto simp: half_step_def relayed_def delivers_def)

text \<open>One iteration that does not fail.\<close>

definition iterated where
  "iterated fi fo icw ocw w w' con con' go1 go2 D1 X1 D2 X2 \<longleftrightarrow>
     relayed fi fo icw ocw w w' D1 X1 D2 X2 True \<and> (ocw \<longrightarrow> X1 = []) \<and> (icw \<and> go1 \<longrightarrow> X2 = []) \<and>
     cc_bytes_tx con' = cc_bytes_tx con + word_of_nat (length (D1 @ X1)) \<and>
     cc_bytes_rx con' = cc_bytes_rx con + word_of_nat (length (D2 @ X2)) \<and>
     cc_fd_in con' = (if go1 then fi else -1) \<and> cc_fd_out con' = (if go2 then fo else -1)"

text \<open>Both directions of one iteration.\<close>

lemma shuttle_iteration:
  assumes 1: "shuttle_in_out r0 ocw con w = Inr (err1, go1, con1, w1)"
    and 2: "\<not> err1 \<Longrightarrow> shuttle_out_in r1 icw con1 w1 = Inr (err2, go2, con2, w2)"
    and fds: "cc_fd_in con = fi" "cc_fd_out con = fo" "fi \<noteq> fo" "0 \<le> fi" "0 \<le> fo"
  shows "if err1 then \<exists>D X. relayed fi fo icw ocw w w1 D X [] [] False
    else \<exists>D1 X1 D2 X2. relayed fi fo icw ocw w w2 D1 X1 D2 X2 (\<not> err2) \<and>
      (\<not> err2 \<longrightarrow> iterated fi fo icw ocw w w2 con con2 go1 go2 D1 X1 D2 X2)"
proof -
  obtain D1 X1 where a: "half_step fi fo ocw err1 w w1 D1 X1" "cc_fd_out con1 = fo"
      "cc_fd_in con1 = (if go1 \<or> err1 then fi else -1)"
      "\<not> err1 \<longrightarrow> cc_bytes_tx con1 = cc_bytes_tx con + word_of_nat (length (D1 @ X1)) \<and> cc_bytes_rx con1 = cc_bytes_rx con"
    using shuttle_in_out_half [OF 1 fds(2,1,3-5)] by blast
  show ?thesis
  proof (cases err1)
    case True
    with half_step_relayed(1) [OF a(1)] show ?thesis by auto
  next
    case False
    then have fdi: "cc_fd_in con1 = (if go1 then fi else -1)" using a(3) by simp
    obtain D2 X2 where b: "half_step fo fi (icw \<and> go1) err2 w1 w2 D2 X2" "cc_fd_in con2 = cc_fd_in con1"
      "cc_fd_out con2 = (if go2 \<or> err2 then fo else -1)"
      "\<not> err2 \<longrightarrow> cc_bytes_rx con2 = cc_bytes_rx con1 + word_of_nat (length (D2 @ X2)) \<and> cc_bytes_tx con2 = cc_bytes_tx con1"
      using shuttle_out_in_half [OF 2 [OF False] a(2) fdi fds(3-5)] by blast
    have r1: "relayed fi fo icw ocw w w1 D1 X1 [] [] True" using half_step_relayed(1) [OF a(1)] False by auto
    have r2: "relayed fi fo icw False w1 w2 [] [] D2 X2 (\<not> err2)" using half_step_relayed(2) [OF b(1)] by auto
    have "relayed fi fo icw ocw w w2 D1 X1 D2 X2 (\<not> err2)" using relayed_trans [OF r1 r2] by simp
    moreover have "ocw \<longrightarrow> X1 = []" "\<not> err2 \<longrightarrow> icw \<and> go1 \<longrightarrow> X2 = []"
      using a(1) b(1) False by (auto simp: half_step_def)
    ultimately have "relayed fi fo icw ocw w w2 D1 X1 D2 X2 (\<not> err2) \<and>
      (\<not> err2 \<longrightarrow> iterated fi fo icw ocw w w2 con con2 go1 go2 D1 X1 D2 X2)"
      using a(4) b fdi False by (auto simp: iterated_def)
    with False show ?thesis by auto
  qed
qed

definition no_hup_in :: "poll_event list \<Rightarrow> bool" where
  "no_hup_in ps = list_all (\<lambda>p. case p of Poll_ok ev0 ev1 \<Rightarrow> \<not> ev_hup ev0 | Poll_fail e \<Rightarrow> True) ps"

definition no_hup_out :: "poll_event list \<Rightarrow> bool" where
  "no_hup_out ps = list_all (\<lambda>p. case p of Poll_ok ev0 ev1 \<Rightarrow> \<not> ev_hup ev1 | Poll_fail e \<Rightarrow> True) ps"

lemma no_hup_Cons [simp]:
  "no_hup_in (Poll_ok ev0 ev1 # ps) = (\<not> ev_hup ev0 \<and> no_hup_in ps)"
  "no_hup_out (Poll_ok ev0 ev1 # ps) = (\<not> ev_hup ev1 \<and> no_hup_out ps)"
  "no_hup_in (Poll_fail e # ps) = no_hup_in ps" "no_hup_out (Poll_fail e # ps) = no_hup_out ps"
  by (simp_all add: no_hup_in_def no_hup_out_def)

text \<open>
  What a run of the relay over the answers \<open>ps\<close> has done, when it returns \<open>rc\<close>.
\<close>

definition relay_run ::
  "int \<Rightarrow> int \<Rightarrow> bool \<Rightarrow> bool \<Rightarrow> poll_event list \<Rightarrow> client_connection \<Rightarrow> world \<Rightarrow> int \<Rightarrow> client_connection \<Rightarrow> world \<Rightarrow> bool" where
  "relay_run fi fo icw ocw ps con w rc con' w' \<longleftrightarrow>
     (\<exists>D1 X1 D2 X2. relayed fi fo icw ocw w w' D1 X1 D2 X2 (rc = 1) \<and>
       (rc = 1 \<longrightarrow> cc_bytes_tx con' = cc_bytes_tx con + word_of_nat (length (D1 @ X1)) \<and>
          cc_bytes_rx con' = cc_bytes_rx con + word_of_nat (length (D2 @ X2)) \<and>
          (ocw \<and> no_hup_out ps \<longrightarrow> X1 = []) \<and> (icw \<and> no_hup_in ps \<longrightarrow> X2 = [] \<or> cc_fd_in con' = -1))) \<and>
     (rc = 1 \<or> rc = 0)"

lemma relay_run_stop: "w_sock w' = w_sock w \<Longrightarrow> relay_run fi fo icw ocw ps con w 0 con' w'"
  unfolding relay_run_def using relayed_nothing [of w' w] by fastforce

lemma relay_run_fail:
  "relayed fi fo (icw \<and> a) (ocw \<and> b) w w' D1 X1 D2 X2 False \<Longrightarrow> relay_run fi fo icw ocw ps con w 0 con' w'"
  unfolding relay_run_def relayed_def by fastforce

lemma relay_run_last:
  assumes "iterated fi fo (icw \<and> \<not> ev_hup ev0) (ocw \<and> \<not> ev_hup ev1) w w' con con' go1 go2 D1 X1 D2 X2"
  shows "relay_run fi fo icw ocw (Poll_ok ev0 ev1 # ps) con w 1 con' w'"
proof -
  have "relayed fi fo icw ocw w w' D1 X1 D2 X2 True" using assms by (auto simp: iterated_def relayed_def)
  then have "relayed fi fo icw ocw w w' D1 X1 D2 X2 (1 = (1::int))" by simp
  moreover have "ocw \<and> no_hup_out (Poll_ok ev0 ev1 # ps) \<longrightarrow> X1 = []"
    "icw \<and> no_hup_in (Poll_ok ev0 ev1 # ps) \<longrightarrow> X2 = [] \<or> cc_fd_in con' = -1"
    using assms by (auto simp: iterated_def)
  moreover have "cc_bytes_tx con' = cc_bytes_tx con + word_of_nat (length (D1 @ X1))"
    "cc_bytes_rx con' = cc_bytes_rx con + word_of_nat (length (D2 @ X2))"
    using assms by (auto simp: iterated_def)
  ultimately show ?thesis unfolding relay_run_def by blast
qed

lemma relay_run_step:
  assumes it: "iterated fi fo (icw \<and> \<not> ev_hup ev0) (ocw \<and> \<not> ev_hup ev1) w w1 con con1 True go2 D1 X1 D2 X2"
    and run: "relay_run fi fo (icw \<and> \<not> ev_hup ev0) (ocw \<and> \<not> ev_hup ev1) ps con1 w1 rc con' w'"
  shows "relay_run fi fo icw ocw (Poll_ok ev0 ev1 # ps) con w rc con' w'"
proof -
  let ?i = "icw \<and> \<not> ev_hup ev0" and ?o = "ocw \<and> \<not> ev_hup ev1"
  obtain D3 X3 D4 X4 where rest: "relayed fi fo ?i ?o w1 w' D3 X3 D4 X4 (rc = 1)" "rc = 1 \<or> rc = 0"
    "rc = 1 \<longrightarrow> cc_bytes_tx con' = cc_bytes_tx con1 + word_of_nat (length (D3 @ X3)) \<and>
       cc_bytes_rx con' = cc_bytes_rx con1 + word_of_nat (length (D4 @ X4)) \<and>
       (?o \<and> no_hup_out ps \<longrightarrow> X3 = []) \<and> (?i \<and> no_hup_in ps \<longrightarrow> X4 = [] \<or> cc_fd_in con' = -1)"
    using run unfolding relay_run_def by blast
  have first: "relayed fi fo icw ocw w w1 D1 X1 D2 X2 True" using it by (auto simp: iterated_def relayed_def)
  have all: "relayed fi fo icw ocw w w' (D1 @ D3) (X1 @ X3) (D2 @ D4) (X2 @ X4) (rc = 1)"
    by (rule relayed_trans [OF first rest(1)]) (use it in \<open>auto simp: iterated_def\<close>)
  have cnt: "rc = 1 \<longrightarrow> cc_bytes_tx con' = cc_bytes_tx con + word_of_nat (length ((D1 @ D3) @ (X1 @ X3))) \<and>
     cc_bytes_rx con' = cc_bytes_rx con + word_of_nat (length ((D2 @ D4) @ (X2 @ X4)))"
    using rest(3) it by (simp add: iterated_def)
  have "rc = 1 \<longrightarrow> (ocw \<and> no_hup_out (Poll_ok ev0 ev1 # ps) \<longrightarrow> X1 @ X3 = []) \<and>
    (icw \<and> no_hup_in (Poll_ok ev0 ev1 # ps) \<longrightarrow> X2 @ X4 = [] \<or> cc_fd_in con' = -1)"
    using rest(3) it by (auto simp: iterated_def)
  with all cnt rest(2) show ?thesis unfolding relay_run_def by blast
qed

lemma shuttle_loop_iteration:
  assumes run: "shuttle_loop (Poll_ok ev0 ev1 # ps) icw ocw con w = Inr (rc, con', w')"
    and fds: "cc_fd_in con = fi" "cc_fd_out con = fo" "fi \<noteq> fo" "0 \<le> fi" "0 \<le> fo"
  obtains (over) "relay_run fi fo icw ocw (Poll_ok ev0 ev1 # ps) con w rc con' w'"
  | (next_one) con1 w1 D1 X1 D2 X2 where
      "iterated fi fo (icw \<and> \<not> ev_hup ev0) (ocw \<and> \<not> ev_hup ev1) w w1 con con1 True True D1 X1 D2 X2"
      "shuttle_loop ps (icw \<and> \<not> ev_hup ev0) (ocw \<and> \<not> ev_hup ev1) con1 w1 = Inr (rc, con', w')"
proof -
  define i where "i = (icw \<and> \<not> ev_hup ev0)"
  define o' where "o' = (ocw \<and> \<not> ev_hup ev1)"
  note io = i_def [symmetric] o'_def [symmetric]
  show ?thesis
  proof (cases "ev_bad ev0 \<or> ev_bad ev1")
    case True
    with run have "rc = 0" "w_sock w' = w_sock w" by (auto simp: Let_def)
    with relay_run_stop over show ?thesis by blast
  next
    case ok: False
    obtain err1 go1 con1 w1 where 1: "shuttle_in_out (ev_rdnorm ev0) o' con w = Inr (err1, go1, con1, w1)"
      using run ok by (auto simp: io Let_def cbind_eq_Inr)
    show ?thesis
    proof (cases err1)
      case True
      then have r: "rc = 0" "w' = w1\<lparr>w_polls := ps\<rparr>" using run ok 1 by (auto simp: io Let_def)
      obtain D X where "relayed fi fo i o' w w1 D X [] [] False"
        using shuttle_iteration [OF 1 _ fds, of False i] True by auto
      then have "relay_run fi fo icw ocw (Poll_ok ev0 ev1 # ps) con w 0 con' w1"
        unfolding i_def o'_def by (rule relay_run_fail)
      with r over show ?thesis by (simp add: relay_run_def)
    next
      case e1: False
      obtain err2 go2 con2 w2 where 2: "shuttle_out_in (ev_rdnorm ev1) i con1 w1 = Inr (err2, go2, con2, w2)"
        using run ok 1 e1 by (auto simp: io Let_def cbind_eq_Inr)
      obtain D1 X1 D2 X2 where it: "relayed fi fo i o' w w2 D1 X1 D2 X2 (\<not> err2)"
        "\<not> err2 \<longrightarrow> iterated fi fo i o' w w2 con con2 go1 go2 D1 X1 D2 X2"
        using shuttle_iteration [OF 1 2 fds] e1 by auto
      let ?c = "go1 \<and> go2 \<and> (i \<or> ev_rdnorm ev0) \<and> (o' \<or> ev_rdnorm ev1)"
      have res: "if err2 then rc = 0 \<and> w' = w2\<lparr>w_polls := ps\<rparr>
        else if ?c then shuttle_loop ps i o' con2 w2 = Inr (rc, con', w')
        else rc = 1 \<and> con' = con2 \<and> w' = w2\<lparr>w_polls := ps\<rparr>"
        using run ok 1 2 e1 by (auto simp: io Let_def)
      consider "err2" | "\<not> err2" "?c" | "\<not> err2" "\<not> ?c" by blast
      then show ?thesis
      proof cases
        case 1
        with it(1) have "relay_run fi fo icw ocw (Poll_ok ev0 ev1 # ps) con w 0 con' w2"
          by (auto simp: i_def o'_def intro: relay_run_fail)
        with 1 res over show ?thesis by (simp add: relay_run_def)
      next
        case 2
        with it(2) res next_one show ?thesis unfolding i_def o'_def by auto
      next
        case 3
        with it(2) have "relay_run fi fo icw ocw (Poll_ok ev0 ev1 # ps) con w 1 con2 w2"
          unfolding i_def o'_def by (auto intro: relay_run_last)
        with 3 res over show ?thesis by (simp add: relay_run_def)
      qed
    qed
  qed
qed

lemma shuttle_loop_relays:
  assumes "shuttle_loop ps icw ocw con w = Inr (rc, con', w')"
    and "cc_fd_in con = fi" and "cc_fd_out con = fo" and "fi \<noteq> fo" and "0 \<le> fi" and "0 \<le> fo"
  shows "relay_run fi fo icw ocw ps con w rc con' w'"
  using assms(1-3)
proof (induction ps arbitrary: icw ocw con w)
  case (Cons p ps)
  show ?case
  proof (cases p)
    case (Poll_fail e)
    show ?thesis
    proof (cases "e = EINTR")
      case True
      with Cons.prems Poll_fail have "shuttle_loop ps icw ocw con w = Inr (rc, con', w')" by simp
      from Cons.IH [OF this Cons.prems(2,3)] show ?thesis by (simp add: Poll_fail relay_run_def)
    next
      case False
      with Cons.prems Poll_fail have "rc = 0" "w_sock w' = w_sock w" by auto
      with relay_run_stop show ?thesis by blast
    qed
  next
    case (Poll_ok ev0 ev1)
    from Cons.prems(1) show ?thesis unfolding Poll_ok
    proof (cases rule: shuttle_loop_iteration [OF _ Cons.prems(2,3) assms(4-6), consumes 1, case_names over next_one])
      case (next_one con1 w1 D1 X1 D2 X2)
      then have "cc_fd_in con1 = fi" "cc_fd_out con1 = fo" by (simp_all add: iterated_def)
      from relay_run_step [OF next_one(1) Cons.IH [OF next_one(2) this]]
      show "relay_run fi fo icw ocw (Poll_ok ev0 ev1 # ps) con w rc con' w'" .
    qed
  qed
qed simp

section \<open>What the relay leaves alone\<close>

definition same_history :: "world \<Rightarrow> world \<Rightarrow> bool" where
  "same_history w w' \<longleftrightarrow> w_dialed w' = w_dialed w \<and> w_now w' = w_now w \<and> w_msgs w' = w_msgs w \<and> w_dns w' = w_dns w"

lemma same_history_simps [simp]:
  "same_history w w" "same_history w (sys_close w' fd) = same_history w w'"
  "same_history w (w'\<lparr>w_polls := ps\<rparr>) = same_history w w'" "same_history w (w'\<lparr>w_errno := e\<rparr>) = same_history w w'"
  by (auto simp: same_history_def sys_close_def)

lemma same_history_trans: "same_history w w1 \<Longrightarrow> same_history w1 w2 \<Longrightarrow> same_history w w2"
  by (simp add: same_history_def)

lemma same_history_io: "only_rx fd w w' \<Longrightarrow> same_history w w'" "only_tx fd w w' bs \<Longrightarrow> same_history w w'"
  by (auto simp: only_rx_def only_tx_def same_history_def)

lemma shuttle_history:
  assumes "shuttle con fr fw w = Inr (rc, con', w')"
  shows "same_history w w'"
proof -
  obtain n d w1 where r: "sb_read w fr shuttle_buf = Inr (n, d, w1)"
    using assms by (auto simp: shuttle_def cbind_eq_Inr)
  have rd: "only_rx fr w w1" "0 < n \<longrightarrow> n = int (length d)"
    using sb_read_cases [OF r] by (auto simp: shuttle_buf_def split: if_splits)
  show ?thesis
  proof (cases "n \<le> 0 \<or> fw < 0")
    case True
    with assms r have "w' = w1" by (auto simp: shuttle_def split: if_splits)
    with same_history_io(1) [OF rd(1)] show ?thesis by simp
  next
    case False
    then have "d \<noteq> []" using rd(2) by auto
    moreover obtain m where "sb_write_len w1 fw d = Inr (m, w')"
      using assms r False by (auto simp: shuttle_def cbind_eq_Inr split: if_splits)
    ultimately obtain x where "only_tx fw w1 w' x" using sb_write_len_cases by blast
    with rd(1) show ?thesis by (blast intro: same_history_trans same_history_io)
  qed
qed

lemma shuttle_halves_history:
  "shuttle_in_out ready ocw con w = Inr (err, go, con', w') \<Longrightarrow> same_history w w'"
  "shuttle_out_in ready icw con w = Inr (err, go, con', w') \<Longrightarrow> same_history w w'"
  using shuttle_history
  by (fastforce simp: shuttle_in_out_def shuttle_out_in_def cbind_eq_Inr split: if_splits)+

lemma shuttle_loop_history:
  "shuttle_loop ps icw ocw con w = Inr (rc, con', w') \<Longrightarrow> same_history w w'"
proof (induction ps arbitrary: icw ocw con w)
  case (Cons p ps)
  show ?case
  proof (cases p)
    case (Poll_fail e)
    with Cons show ?thesis by (auto split: if_splits)
  next
    case (Poll_ok ev0 ev1)
    define i where "i = (icw \<and> \<not> ev_hup ev0)"
    define b where "b = (ocw \<and> \<not> ev_hup ev1)"
    note io = Poll_ok i_def [symmetric] b_def [symmetric]
    show ?thesis
    proof (cases "ev_bad ev0 \<or> ev_bad ev1")
      case True
      with Cons.prems show ?thesis by (auto simp: io Let_def)
    next
      case ok: False
      obtain err1 go1 con1 w1 where 1: "shuttle_in_out (ev_rdnorm ev0) b con w = Inr (err1, go1, con1, w1)"
        using Cons.prems ok by (auto simp: io Let_def cbind_eq_Inr)
      note h1 = shuttle_halves_history(1) [OF 1]
      show ?thesis
      proof (cases err1)
        case True
        with Cons.prems ok 1 h1 show ?thesis by (auto simp: io Let_def)
      next
        case False
        then obtain err2 go2 con2 w2 where 2: "shuttle_out_in (ev_rdnorm ev1) i con1 w1 = Inr (err2, go2, con2, w2)"
          using Cons.prems ok 1 by (auto simp: io Let_def cbind_eq_Inr)
        note h2 = same_history_trans [OF h1 shuttle_halves_history(2) [OF 2]]
        from Cons.prems ok 1 2 False h2 show ?thesis
          by (auto simp: io Let_def split: if_splits dest!: Cons.IH intro: same_history_trans)
      qed
    qed
  qed
qed simp

section \<open>Properties of the relay\<close>

text \<open>
  C2: the relay is faithful. However the polls, the chunks, the interruptions and the
  failures fall, what the destination has been sent is a prefix of what the client
  delivered, and the other way round: nothing is reordered, duplicated, altered or sent to
  the wrong side. When the relay returns 1, what is behind what was taken is still there to
  be read, the two counters have grown by the bytes taken, bytes of the client are dropped
  only after the destination has hung up, and bytes of the destination only after the client
  has hung up or closed.
\<close>

theorem relay_faithful:
  assumes "shuttle_data_back_and_forth con w = Inr (rc, con', w')"
    and "0 \<le> cc_fd_in con" and "0 \<le> cc_fd_out con" and "cc_fd_in con \<noteq> cc_fd_out con"
  shows "\<exists>D1 X1 R1 D2 X2 R2.
     rx_has w (cc_fd_in con) (D1 @ X1 @ R1) \<and>
     sk_sent (w_sock w' (cc_fd_out con)) = sk_sent (w_sock w (cc_fd_out con)) @ D1 \<and>
     rx_has w (cc_fd_out con) (D2 @ X2 @ R2) \<and>
     sk_sent (w_sock w' (cc_fd_in con)) = sk_sent (w_sock w (cc_fd_in con)) @ D2 \<and>
     (rc = 1 \<longrightarrow>
        rx_has w' (cc_fd_in con) R1 \<and> rx_has w' (cc_fd_out con) R2 \<and>
        cc_bytes_tx con' = cc_bytes_tx con + word_of_nat (length (D1 @ X1)) \<and>
        cc_bytes_rx con' = cc_bytes_rx con + word_of_nat (length (D2 @ X2)) \<and>
        (no_hup_out (w_polls w) \<longrightarrow> X1 = []) \<and>
        (no_hup_in (w_polls w) \<longrightarrow> X2 = [] \<or> cc_fd_in con' = -1)) \<and>
     (rc = 1 \<or> rc = 0)"
proof -
  have "relay_run (cc_fd_in con) (cc_fd_out con) True True (w_polls w) con w rc con' w'"
    using shuttle_loop_relays [of "w_polls w" True True con w rc con' w', OF _ refl refl assms(4,2,3)] assms(1)
    by (simp add: shuttle_data_back_and_forth_def)
  then obtain D1 X1 D2 X2 where
    r: "relayed (cc_fd_in con) (cc_fd_out con) True True w w' D1 X1 D2 X2 (rc = 1)" "rc = 1 \<or> rc = 0"
    "rc = 1 \<longrightarrow> cc_bytes_tx con' = cc_bytes_tx con + word_of_nat (length (D1 @ X1)) \<and>
       cc_bytes_rx con' = cc_bytes_rx con + word_of_nat (length (D2 @ X2)) \<and>
       (no_hup_out (w_polls w) \<longrightarrow> X1 = []) \<and> (no_hup_in (w_polls w) \<longrightarrow> X2 = [] \<or> cc_fd_in con' = -1)"
    unfolding relay_run_def by blast
  obtain R1 R2 where "rx_has w (cc_fd_in con) (D1 @ X1 @ R1)" "rx_has w (cc_fd_out con) (D2 @ X2 @ R2)"
    "rc = 1 \<longrightarrow> rx_has w' (cc_fd_in con) R1 \<and> rx_has w' (cc_fd_out con) R2"
    "sk_sent (w_sock w' (cc_fd_out con)) = sk_sent (w_sock w (cc_fd_out con)) @ D1"
    "sk_sent (w_sock w' (cc_fd_in con)) = sk_sent (w_sock w (cc_fd_in con)) @ D2"
    using r(1) unfolding relayed_def delivers_def by blast
  with r(2,3) show ?thesis by blast
qed

definition poll_in :: poll_event where
  "poll_in = Poll_ok \<lparr>ev_rdnorm = True, ev_hup = False, ev_bad = False\<rparr>
                     \<lparr>ev_rdnorm = False, ev_hup = False, ev_bad = False\<rparr>"

definition two_socks :: "rd_event list \<Rightarrow> wr_event list \<Rightarrow> int \<Rightarrow> sock" where
  "two_socks rx wr = (\<lambda>_. quiet_sock)(5 := quiet_sock\<lparr>sk_rx := rx\<rparr>, 7 := quiet_sock\<lparr>sk_wr := wr\<rparr>)"

definition con_linked :: client_connection where
  "con_linked = (con_to [] AF_UNSPEC 80)\<lparr>cc_fd_out := 7\<rparr>"

lemma con_linked_fds: "cc_fd_in con_linked = 5" "cc_fd_out con_linked = 7"
  by (simp_all add: con_linked_def con_to_def blank_connection_def Let_def)

theorem relay_faithful_witness:
  "let w = quiet_world\<lparr>w_sock := two_socks [Rd_data [1, 2], Rd_eof] [Wr_take 9], w_polls := [poll_in, Poll_fail 4, poll_in]\<rparr>
   in \<exists>con' w' D1 R1. shuttle_data_back_and_forth con_linked w = Inr (1, con', w') \<and>
        rx_has w 5 (D1 @ R1) \<and> sk_sent (w_sock w' 7) = D1"
proof -
  let ?w = "quiet_world\<lparr>w_sock := two_socks [Rd_data [1, 2], Rd_eof] [Wr_take 9], w_polls := [poll_in, Poll_fail 4, poll_in]\<rparr>"
  obtain con' w' where run: "shuttle_data_back_and_forth con_linked ?w = Inr (1, con', w')"
    by (simp add: shuttle_data_back_and_forth_def poll_in_def shuttle_in_out_def shuttle_out_in_def shuttle_def
        sb_read_def sb_read_loop.simps sb_write_len_def sb_write_len_loop.simps two_socks_def con_linked_fds
        shuttle_buf_def Let_def quiet_sock_def)
  have "no_hup_out (w_polls ?w)" by (simp add: poll_in_def no_hup_out_def)
  with relay_faithful [OF run] show ?thesis
    unfolding Let_def using run by (auto simp: con_linked_fds two_socks_def quiet_sock_def)
qed

lemma sb_read_chunk:
  assumes "sk_rx (w_sock w fd) = Rd_data c # es" and "c \<noteq> []" and "length c \<le> n"
  shows "sb_read w fd n = Inr (int (length c), c, upd_sock w fd ((w_sock w fd)\<lparr>sk_rx := es\<rparr>))"
  using assms by (cases c) (auto simp: sb_read_def sb_read_loop.simps)

lemma sb_read_eof:
  assumes "sk_rx (w_sock w fd) = Rd_eof # es"
  shows "sb_read w fd n = Inr (0, [], w)"
  using assms by (simp add: sb_read_def sb_read_loop.simps fun_upd_idem)

lemma shuttle_loop_chunks:
  assumes "cc_fd_in con = fi" and "cc_fd_out con = fo" and "fi \<noteq> fo" and "0 \<le> fi" and "0 \<le> fo"
    and "sk_rx (w_sock w fi) = map Rd_data cs @ [Rd_eof]"
    and "\<forall>c \<in> set cs. c \<noteq> [] \<and> length c < shuttle_buf" and "length (concat cs) \<le> tx_room w fo"
  shows "\<exists>con' w'. shuttle_loop (replicate (Suc (length cs)) poll_in) True True con w = Inr (1, con', w') \<and>
    sk_sent (w_sock w' fo) = sk_sent (w_sock w fo) @ concat cs \<and>
    cc_bytes_tx con' = cc_bytes_tx con + word_of_nat (length (concat cs)) \<and>
    cc_fd_in con' = -1 \<and> cc_fd_out con' = fo \<and> \<not> sk_open (w_sock w' fi)"
  using assms(1,2,6-8)
proof (induction cs arbitrary: con w)
  case Nil
  then have "sb_read w fi shuttle_buf = Inr (0, [], w)" by (intro sb_read_eof) simp
  with Nil.prems assms(3) show ?case
    by (simp add: poll_in_def shuttle_in_out_def shuttle_out_in_def shuttle_def Let_def sys_close_def)
next
  case (Cons c cs)
  let ?w1 = "upd_sock w fi ((w_sock w fi)\<lparr>sk_rx := map Rd_data cs @ [Rd_eof]\<rparr>)"
  have c: "c \<noteq> []" "length c < shuttle_buf" using Cons.prems(4) by auto
  have rd: "sb_read w fi shuttle_buf = Inr (int (length c), c, ?w1)"
    using Cons.prems(3) c by (intro sb_read_chunk) auto
  have "length c \<le> tx_room ?w1 fo" "tx_room ?w1 fo = tx_room w fo"
    using Cons.prems(5) assms(3) by (auto simp: tx_room_def)
  with sb_write_len_room [of c ?w1 fo] c obtain w2 where
    wr: "sb_write_len ?w1 fo c = Inr (int (length c), w2)" "only_tx fo ?w1 w2 c"
      "tx_room w2 fo = tx_room w fo - length c" by auto
  have sh: "shuttle con fi fo w = Inr (int (length c), con, w2)"
    using rd wr(1) c assms(5) by (simp add: shuttle_def)
  let ?con = "con\<lparr>cc_bytes_tx := cc_bytes_tx con + word_of_nat (length c)\<rparr>"
  have step: "shuttle_loop (replicate (Suc (length (c # cs))) poll_in) True True con w
      = shuttle_loop (replicate (Suc (length cs)) poll_in) True True ?con w2"
    using sh c Cons.prems(1,2)
    by (simp add: poll_in_def [of ] shuttle_in_out_def shuttle_out_in_def Let_def del: replicate_Suc)
      (simp add: poll_in_def shuttle_in_out_def shuttle_out_in_def)
  have fr: "sk_rx (w_sock w2 fi) = map Rd_data cs @ [Rd_eof]" "sk_sent (w_sock w2 fo) = sk_sent (w_sock w fo) @ c"
    using only_tx_frame(1,2) [OF wr(2)] assms(3) by auto
  have "length (concat cs) \<le> tx_room w2 fo" using Cons.prems(5) wr(3) by simp
  from Cons.IH [of ?con, OF _ _ fr(1) _ this] Cons.prems step fr(2) show ?case by (simp add: add.assoc)
qed

text \<open>
  C10: when the client sends chunks that leave the 10000-byte buffer a spare byte and then
  closes, and the destination takes them, the relay returns 1 after one poll per chunk and
  one for the end: everything has been sent to the destination in order, the counter has
  grown by the total, and the client's descriptor is closed and forgotten.
\<close>

theorem relay_delivers_all:
  assumes "0 \<le> cc_fd_in con" and "0 \<le> cc_fd_out con" and "cc_fd_in con \<noteq> cc_fd_out con"
    and "sk_rx (w_sock w (cc_fd_in con)) = map Rd_data cs @ [Rd_eof]"
    and "\<forall>c \<in> set cs. c \<noteq> [] \<and> length c < 10000"
    and "length (concat cs) \<le> tx_room w (cc_fd_out con)"
    and "w_polls w = replicate (length cs + 1) poll_in"
  shows "\<exists>con' w'. shuttle_data_back_and_forth con w = Inr (1, con', w') \<and>
    sk_sent (w_sock w' (cc_fd_out con)) = sk_sent (w_sock w (cc_fd_out con)) @ concat cs \<and>
    cc_bytes_tx con' = cc_bytes_tx con + word_of_nat (length (concat cs)) \<and>
    cc_fd_in con' = -1 \<and> \<not> sk_open (w_sock w' (cc_fd_in con))"
proof -
  have "\<forall>c \<in> set cs. c \<noteq> [] \<and> length c < shuttle_buf" using assms(5) by (simp add: shuttle_buf_def)
  from shuttle_loop_chunks [OF refl refl assms(3,1,2,4) this assms(6)]
  show ?thesis by (auto simp: shuttle_data_back_and_forth_def assms(7))
qed

theorem relay_delivers_all_witness:
  "let w = quiet_world\<lparr>w_sock := two_socks [Rd_data [1, 2], Rd_data [3], Rd_eof] [Wr_take 2, Wr_fail 4, Wr_take 5],
                        w_polls := [poll_in, poll_in, poll_in]\<rparr>
   in \<exists>con' w'. shuttle_data_back_and_forth con_linked w = Inr (1, con', w') \<and> sk_sent (w_sock w' 7) = [1, 2, 3]"
proof -
  let ?w = "quiet_world\<lparr>w_sock := two_socks [Rd_data [1, 2], Rd_data [3], Rd_eof] [Wr_take 2, Wr_fail 4, Wr_take 5],
                        w_polls := [poll_in, poll_in, poll_in]\<rparr>"
  from relay_delivers_all [of con_linked ?w "[[1, 2], [3]]"] show ?thesis
    by (auto simp: con_linked_fds two_socks_def quiet_sock_def tx_room_def numeral_eq_Suc)
qed

text \<open>
  A transfer that fills the buffer is undefined behaviour: when at least 10000 bytes have
  arrived and the other side can be written to, the terminating 0 is stored behind the end
  of the buffer.
\<close>

theorem shuttle_full_buffer:
  assumes "sk_rx (w_sock w fr) = Rd_data c # es" and "10000 \<le> length c" and "0 \<le> fw"
  shows "shuttle con fr fw w = Inl UB"
proof -
  have "c \<noteq> []" using assms(2) by auto
  then show ?thesis using assms by (simp add: shuttle_def sb_read_def sb_read_loop.simps shuttle_buf_def cmap_def)
qed

theorem shuttle_full_buffer_witness:
  "shuttle con_linked 5 7 (quiet_world\<lparr>w_sock := two_socks [Rd_data (replicate 12000 65)] [Wr_take 20000]\<rparr>) = Inl UB"
  by (rule shuttle_full_buffer [of _ _ "replicate 12000 65" "[]"]) (simp_all add: two_socks_def quiet_sock_def)

section \<open>The null connection\<close>

lemma null_reads:
  assumes "rx_has w fd (b # bs)"
  obtains w' where "sb_read_len w fd 1 = Inr (1, [b], w')" "only_rx fd w w'" "rx_has w' fd bs"
    "rx_end_of (sk_rx (w_sock w' fd)) = rx_end_of (sk_rx (w_sock w fd))"
  using sb_read_len_has [of w fd "[b]" bs 1] assms by auto

text \<open>
  A null connection swallows what the client sends and sends nothing to anyone: it
  counts every byte as a received one, returns 1 when the client closes, 0 when the client's
  connection fails, and waits for ever while the client stays silent.
\<close>

theorem null_connection_swallows:
  "let s = rx_stream (sk_rx (w_sock w (cc_fd_in con))) in
   case rx_end_of (sk_rx (w_sock w (cc_fd_in con))) of
     End_block \<Rightarrow> shuttle_null_connection con w = Inl Hang
   | e \<Rightarrow> \<exists>con' w'. shuttle_null_connection con w = Inr (if e = End_eof then 1 else 0, con', w') \<and>
            only_rx (cc_fd_in con) w w' \<and> cc_bytes_rx con' = cc_bytes_rx con + word_of_nat (length s) \<and>
            cc_bytes_tx con' = cc_bytes_tx con"
proof (induction "rx_stream (sk_rx (w_sock w (cc_fd_in con)))" arbitrary: con w)
  case Nil
  then have lt: "length (rx_stream (sk_rx (w_sock w (cc_fd_in con)))) < 1" by simp
  from sb_read_len_loop_short [OF lt, of "w_errno w"] Nil show ?case
    by (subst (1 2 3) shuttle_null_connection.simps)
      (auto simp: sb_read_len_def Let_def set_client_connection_status_def split: rx_end.splits)
next
  case (Cons b bs)
  let ?con = "con\<lparr>cc_bytes_rx := cc_bytes_rx con + 1\<rparr>"
  have "rx_has w (cc_fd_in con) (b # bs)" using Cons.hyps(2) by (simp add: rx_has_def)
  then obtain w1 where r: "sb_read_len w (cc_fd_in con) 1 = Inr (1, [b], w1)" "only_rx (cc_fd_in con) w w1"
    "rx_has w1 (cc_fd_in con) bs"
    "rx_end_of (sk_rx (w_sock w1 (cc_fd_in con))) = rx_end_of (sk_rx (w_sock w (cc_fd_in con)))"
    by (rule null_reads)
  have step: "shuttle_null_connection con w = shuttle_null_connection ?con w1"
    using r(1) by (subst shuttle_null_connection.simps) simp
  have "bs = rx_stream (sk_rx (w_sock w1 (cc_fd_in ?con)))" using r(3) by (simp add: rx_has_def)
  note ih = Cons.hyps(1) [OF this, unfolded Let_def]
  have len: "word_of_nat (length (rx_stream (sk_rx (w_sock w (cc_fd_in con)))))
      = 1 + (word_of_nat (length (rx_stream (sk_rx (w_sock w1 (cc_fd_in con))))) :: u64)"
    using Cons.hyps(2) [symmetric] r(3) by (simp add: rx_has_def)
  have tr: "only_rx (cc_fd_in con) w w'" if "only_rx (cc_fd_in con) w1 w'" for w'
    using only_rx_trans [OF r(2) that] .
  show ?case
    using ih r(4) tr unfolding step Let_def len
    by (cases "rx_end_of (sk_rx (w_sock w (cc_fd_in con)))") (fastforce simp: add.assoc)+
qed

end
