(* ===== verification/Handlers.thy ===== *)
theory Handlers
  imports Shuttle Service
begin

text \<open>
  What the thread of a connection runs: \<open>src/safe_close.c\<close>, \<open>src/service_thread.c\<close>, the
  default handler of \<open>src/service.c\<close> and the handlers of \<open>src/service_socks.c\<close> and
  \<open>src/service_port_forward.c\<close>. The thread-local pointers only serve the log and are left out.
\<close>

section \<open>safe\_close\<close>

definition rx_size :: "rd_event list \<Rightarrow> nat" where
  "rx_size es = sum_list (map (\<lambda>e. case e of Rd_data bs \<Rightarrow> Suc (length bs) | _ \<Rightarrow> 1) es)"

lemma rx_size_simps [simp]:
  "rx_size [] = 0" "rx_size (Rd_data bs # es) = Suc (length bs) + rx_size es"
  "rx_size (Rd_eof # es) = Suc (rx_size es)" "rx_size (Rd_fail e # es) = Suc (rx_size es)"
  by (simp_all add: rx_size_def)

lemma sys_read_size:
  "sys_read n (es, en) = Inr (rc, d, es', en') \<Longrightarrow> 0 < n \<Longrightarrow> rc \<noteq> 0 \<Longrightarrow> rx_size es' < rx_size es"
  by (induction n "(es, en)" arbitrary: es rule: sys_read.induct) (auto split: if_splits)

text \<open>The loop that drains what has arrived, 100 bytes at a time.\<close>

function drain_loop :: "rd_event list \<times> int \<Rightarrow> (rd_event list \<times> int) cres" where
  "drain_loop (es, en) =
     cbind (sys_read 100 (es, en)) (\<lambda>(rc, d, es', en').
       if rc > 0 \<or> (rc < 0 \<and> en' = EINTR) then drain_loop (es', en') else Inr (es', en'))"
  by pat_completeness auto
termination
  by (relation "measure (\<lambda>(es, en). rx_size es)") (auto dest: sys_read_size)

declare drain_loop.simps [simp del]

definition safe_close :: "world \<Rightarrow> int \<Rightarrow> world cres" where
  "safe_close w fd =
     (if fd \<ge> 0 then
        let w = sys_shutdown w fd
        in cmap (\<lambda>(es, en).
             sys_close ((upd_sock w fd ((w_sock w fd)\<lparr>sk_rx := es\<rparr>))\<lparr>w_errno := en\<rparr>) fd)
           (drain_loop (sk_rx (w_sock w fd), w_errno w))
      else Inr w)"

section \<open>The end of a connection thread\<close>

definition service_thread_shutdown :: "client_connection \<Rightarrow> bool \<Rightarrow> world \<Rightarrow> (client_connection \<times> world) cres" where
  "service_thread_shutdown con ok w =
     (let con = (if \<not> ok \<and> cc_status con = CCSTATUS_OKAY
                 then set_client_connection_status con CCSTATUS_ERROR (Some ''Error'')
                        (Some ''Unknown error; closing connction.'')
                 else con)
      in cbind (safe_close w (cc_fd_in con)) (\<lambda>w.
         let con = con\<lparr>cc_fd_in := -1\<rparr>
         in cbind (safe_close w (cc_fd_out con)) (\<lambda>w.
            Inr (con\<lparr>cc_fd_out := -1, cc_end_time := w_now w, cc_thread_has_exited := True\<rparr>, w))))"

definition service_default_connection_handler ::
  "client_connection \<Rightarrow> world \<Rightarrow> (client_connection \<times> world) cres" where
  "service_default_connection_handler con w =
     cbind (safe_close w (cc_fd_in con)) (\<lambda>w.
     let con = con\<lparr>cc_fd_in := -1\<rparr>
     in cbind (safe_close w (cc_fd_out con)) (\<lambda>w.
        Inr (con\<lparr>cc_fd_out := -1, cc_thread_has_exited := True\<rparr>, w)))"

section \<open>The SOCKS handler\<close>

text \<open>Version, methods and request; the first component is \<open>ok\<close>.\<close>

definition socks_handshake :: "client_connection \<Rightarrow> world \<Rightarrow> (bool \<times> client_connection \<times> world) cres" where
  "socks_handshake con w =
     cbind (socks_get_client_version con w) (\<lambda>(socks_version, w).
     let con = con\<lparr>cc_socks_version := socks_version\<rparr>
     in if socks_version = SOCKS_VERSION_ERROR then Inr (False, con, w)
        else
          cbind (if socks_version = 5
                 then cmap (\<lambda>(auth_type, w). (auth_type = SOCKS5_AUTH_NONE_REQUIRED, w)) (socks5_negotiate_auth con w)
                 else Inr (True, w)) (\<lambda>(ok, w).
          if \<not> ok then Inr (False, con, w)
          else
            cmap (\<lambda>(command_type, con, w). (command_type \<noteq> SOCKS5_CMD_ERROR, con, w))
              (if socks_version = 4 then socks4_get_command con w else socks5_get_command con w)))"

text \<open>
  The rest of the chain of \<open>if (ok)\<close>. \<open>reply\<close> says whether the client is answered once the
  connection is there: the SOCKS handler does, the port forwarder does not. The local variable
  \<open>failure_type\<close> has no initial value; reading it while it has none is undefined.
\<close>

definition route_and_relay ::
  "bool \<Rightarrow> ssh_globals \<times> ssh_tunnel list \<Rightarrow> rre_globals \<Rightarrow> route_rule list \<Rightarrow> client_connection \<Rightarrow> world
     \<Rightarrow> (bool \<times> client_connection \<times> rre_globals \<times> world) cres" where
  "route_and_relay reply env gl rules con w =
     cbind (decide_applicable_rule (w_dns w) (fst env) gl rules con) (\<lambda>(rc, con, gl).
     if rc = 0 then Inr (False, con, gl, w)
     else
       cbind (socks_connect env con None w) (\<lambda>(ok, con, failure_type, w).
       if \<not> ok then Inr (False, con, gl, w)
       else
         cbind (if reply
                then (case failure_type of
                        None \<Rightarrow> Inl UB
                      | Some f \<Rightarrow> cmap (\<lambda>(rc, w). (rc = 1, w)) (socks_respond con f w))
                else Inr (True, w)) (\<lambda>(ok, w).
         if \<not> ok then Inr (False, con, gl, w)
         else cmap (\<lambda>(rc, con, w). (rc \<noteq> 0, con, gl, w)) (socks_connect_shuttle (fst env) con w))))"

definition service_socks_connection_handler ::
  "ssh_globals \<times> ssh_tunnel list \<Rightarrow> rre_globals \<Rightarrow> route_rule list \<Rightarrow> client_connection \<Rightarrow> world
     \<Rightarrow> (client_connection \<times> rre_globals \<times> world) cres" where
  "service_socks_connection_handler env gl rules con w =
     (let con = con\<lparr>cc_socks_version := SOCKS_VERSION_ERROR,
                    cc_socks_command := SOCKS5_CMD_ERROR, cc_socks_command_original := SOCKS5_CMD_ERROR,
                    cc_dst_host := host_id_set_port (cc_dst_host con) 0\<rparr>
      in cbind (socks_handshake con w) (\<lambda>(ok, con, w).
         cbind (if ok then route_and_relay True env gl rules con w else Inr (False, con, gl, w)) (\<lambda>(ok, con, gl, w).
         cmap (\<lambda>(con, w). (con, gl, w)) (service_thread_shutdown con ok w))))"

section \<open>The port forwarding handler\<close>

definition service_port_forward_connection_handler ::
  "service_port_forward \<Rightarrow> ssh_globals \<times> ssh_tunnel list \<Rightarrow> rre_globals \<Rightarrow> route_rule list \<Rightarrow> client_connection \<Rightarrow> world
     \<Rightarrow> (client_connection \<times> rre_globals \<times> world) cres" where
  "service_port_forward_connection_handler fwd env gl rules con w =
     (let dst = host_id_set_port (host_id_set_name (cc_dst_host con) (pf_remote_host fwd)) (pf_remote_port fwd);
          con = con\<lparr>cc_socks_version := 5,
                    cc_socks_command := SOCKS5_CMD_CONNECT, cc_socks_command_original := SOCKS5_CMD_CONNECT,
                    cc_socks_address_type := SOCKS5_ADDRTYPE_DOMAIN,
                    cc_socks_address_type_original := SOCKS5_ADDRTYPE_DOMAIN,
                    cc_dst_host := dst, cc_dst_host_original := dst\<rparr>
      in cbind (route_and_relay False env gl rules con w) (\<lambda>(ok, con, gl, w).
         cmap (\<lambda>(con, w). (con, gl, w)) (service_thread_shutdown con ok w)))"

section \<open>Closing always ends\<close>

lemma sys_read_has_eof:
  "Rd_eof \<in> set es \<Longrightarrow> 0 < n \<Longrightarrow> \<exists>rc d es' en'. sys_read n (es, en) = Inr (rc, d, es', en') \<and> Rd_eof \<in> set es'"
proof (induction n "(es, en)" arbitrary: es rule: sys_read.induct)
  case (2 n bs es)
  then show ?case by (cases "bs = []") auto
qed auto

lemma drain_loop_returns: "Rd_eof \<in> set es \<Longrightarrow> \<exists>x. drain_loop (es, en) = Inr x"
proof (induction "(es, en)" arbitrary: es en rule: drain_loop.induct)
  case (1 es en)
  obtain rc d es' en' where r: "sys_read 100 (es, en) = Inr (rc, d, es', en')" "Rd_eof \<in> set es'"
    using sys_read_has_eof [OF "1.prems", of 100 en] by auto
  show ?case
  proof (cases "rc > 0 \<or> (rc < 0 \<and> en' = EINTR)")
    case True
    from "1.hyps" [OF r(1) refl refl refl True r(2)] r True show ?thesis
      by (subst drain_loop.simps) auto
  next
    case False
    with r show ?thesis by (subst drain_loop.simps) auto
  qed
qed

text \<open>What closing touches: the read side and the state of the one socket, and \<open>errno\<close>.\<close>

definition closed_only :: "int \<Rightarrow> world \<Rightarrow> world \<Rightarrow> bool" where
  "closed_only fd w w' \<longleftrightarrow>
     (0 \<le> fd \<longrightarrow> \<not> sk_open (w_sock w' fd)) \<and> (\<forall>fd'. fd' \<noteq> fd \<longrightarrow> w_sock w' fd' = w_sock w fd') \<and>
     (\<forall>fd'. sk_sent (w_sock w' fd') = sk_sent (w_sock w fd') \<and>
            (\<not> sk_open (w_sock w fd') \<longrightarrow> \<not> sk_open (w_sock w' fd'))) \<and>
     w_now w' = w_now w \<and> w_dialed w' = w_dialed w \<and> w_msgs w' = w_msgs w"

lemma safe_close_returns: "\<exists>w'. safe_close w fd = Inr w' \<and> closed_only fd w w'"
proof (cases "0 \<le> fd")
  case True
  have "Rd_eof \<in> set (sk_rx (w_sock (sys_shutdown w fd) fd))" by (simp add: sys_shutdown_def)
  from drain_loop_returns [OF this, of "w_errno (sys_shutdown w fd)"] True show ?thesis
    by (auto simp: safe_close_def Let_def closed_only_def sys_close_def sys_shutdown_def)
qed (simp add: safe_close_def closed_only_def)

lemma shutdown_returns:
  "\<exists>con' w1 w'. service_thread_shutdown con ok w = Inr (con', w') \<and>
     closed_only (cc_fd_in con) w w1 \<and> closed_only (cc_fd_out con) w1 w' \<and>
     cc_fd_in con' = -1 \<and> cc_fd_out con' = -1 \<and> cc_thread_has_exited con' \<and> cc_end_time con' = w_now w \<and>
     (\<not> ok \<longrightarrow> cc_status con' \<noteq> CCSTATUS_OKAY)"
proof -
  obtain w1 where 1: "safe_close w (cc_fd_in con) = Inr w1" "closed_only (cc_fd_in con) w w1"
    using safe_close_returns by blast
  obtain w2 where 2: "safe_close w1 (cc_fd_out con) = Inr w2" "closed_only (cc_fd_out con) w1 w2"
    using safe_close_returns by blast
  have "w_now w2 = w_now w" using 1(2) 2(2) by (simp add: closed_only_def)
  with 1 2 show ?thesis
    by (auto simp: service_thread_shutdown_def Let_def ccstatus_defs)
qed

text \<open>
  C19: the end of a connection thread always comes: \<open>service_thread_shutdown\<close> returns whatever
  the peers do, even if one never stops sending. Behind it both sockets are closed and
  forgotten, nothing more has been sent to anyone and no other socket is touched, the end
  time is set, a failed connection has an error status, and the thread has exited.
\<close>

theorem shutdown_always_ends:
  "\<exists>con' w'. service_thread_shutdown con ok w = Inr (con', w') \<and>
     cc_fd_in con' = -1 \<and> cc_fd_out con' = -1 \<and> cc_thread_has_exited con' \<and> cc_end_time con' = w_now w \<and>
     (ok \<or> cc_status con' \<noteq> CCSTATUS_OKAY) \<and>
     (cc_fd_in con < 0 \<or> \<not> sk_open (w_sock w' (cc_fd_in con))) \<and>
     (cc_fd_out con < 0 \<or> \<not> sk_open (w_sock w' (cc_fd_out con))) \<and>
     (\<forall>fd. sk_sent (w_sock w' fd) = sk_sent (w_sock w fd) \<and>
           (fd = cc_fd_in con \<or> fd = cc_fd_out con \<or> w_sock w' fd = w_sock w fd))"
proof -
  obtain con' w1 w' where s: "service_thread_shutdown con ok w = Inr (con', w')"
    "closed_only (cc_fd_in con) w w1" "closed_only (cc_fd_out con) w1 w'"
    "cc_fd_in con' = -1" "cc_fd_out con' = -1" "cc_thread_has_exited con'" "cc_end_time con' = w_now w"
    "\<not> ok \<longrightarrow> cc_status con' \<noteq> CCSTATUS_OKAY"
    using shutdown_returns [of con ok w] by blast
  have "cc_fd_in con < 0 \<or> \<not> sk_open (w_sock w' (cc_fd_in con))"
    "cc_fd_out con < 0 \<or> \<not> sk_open (w_sock w' (cc_fd_out con))"
    "sk_sent (w_sock w' fd) = sk_sent (w_sock w fd)"
    "fd = cc_fd_in con \<or> fd = cc_fd_out con \<or> w_sock w' fd = w_sock w fd" for fd
    using s(2,3) unfolding closed_only_def by (auto simp: not_less)
  with s show ?thesis by blast
qed

theorem shutdown_always_ends_witness:
  "let w = quiet_world\<lparr>w_sock := two_socks (replicate 3 (Rd_data (replicate 200 0))) []\<rparr> in
   \<exists>con' w'. service_thread_shutdown con_linked False w = Inr (con', w') \<and> \<not> sk_open (w_sock w' 5) \<and>
     \<not> sk_open (w_sock w' 7) \<and> cc_status con' \<noteq> CCSTATUS_OKAY"
proof -
  let ?w = "quiet_world\<lparr>w_sock := two_socks (replicate 3 (Rd_data (replicate 200 0))) []\<rparr>"
  obtain con' w' where e: "service_thread_shutdown con_linked False ?w = Inr (con', w')"
    "False \<or> cc_status con' \<noteq> CCSTATUS_OKAY" "cc_fd_in con_linked < 0 \<or> \<not> sk_open (w_sock w' (cc_fd_in con_linked))"
    "cc_fd_out con_linked < 0 \<or> \<not> sk_open (w_sock w' (cc_fd_out con_linked))"
    using shutdown_always_ends [of con_linked False ?w] by blast
  then have "\<not> sk_open (w_sock w' 5)" "\<not> sk_open (w_sock w' 7)" by (simp_all add: con_linked_fds)
  with e(1,2) show ?thesis unfolding Let_def by blast
qed

end
