(* ===== verification/Outgoing.thy ===== *)
theory Outgoing
  imports Socks_Connection
begin

text \<open>
  What the outgoing side guarantees: the SOCKS5 client speaks the language the SOCKS5 server
  of this program parses, the direct connector goes to the destination, a negotiation with a
  proxy sends exactly the protocol's bytes, and connecting always comes to an end.
\<close>

section \<open>The command a client sends is the command a server parses\<close>

lemma port_of_eq: "port_of hi lo = uint hi * 256 + uint lo"
proof -
  have d: "push_bit 8 (ucast hi :: u32) AND ucast lo = 0"
    by (rule bit_word_eqI) (auto simp: bit_simps not_less dest: bit_imp_le_length)
  have "uint hi < 256" "uint lo < 256" using uint_lt2p [of hi] uint_lt2p [of lo] by simp_all
  moreover have "0 \<le> uint hi" "0 \<le> uint lo" by simp_all
  moreover have "push_bit 8 (ucast hi :: u32) OR ucast lo = push_bit 8 (ucast hi) + ucast lo"
    using disjunctive_add_eq_or [OF d] by simp
  ultimately show ?thesis
    by (simp add: port_of_def uint_word_arith_bintrs push_bit_eq_mult uint_up_ucast is_up
        unsigned_ucast_eq take_bit_eq_mod unsigned_push_bit_eq)
qed

lemma port_of_port_bytes:
  assumes "0 \<le> p" and "p < 65536"
  shows "port_of (byte_of (p div 256 mod 256)) (byte_of (p mod 256)) = p"
proof -
  have "p div 256 < 256" using assms by (simp add: div_less_iff_less_mult)
  then have "uint (byte_of (p div 256 mod 256)) = p div 256"
    using assms(1) by (simp add: uint_word_of_int pos_imp_zdiv_nonneg_iff)
  moreover have "uint (byte_of (p mod 256)) = p mod 256" by (simp add: uint_word_of_int)
  ultimately show ?thesis by (simp add: port_of_eq)
qed

abbreviation byte_of_char :: "char \<Rightarrow> byte" where
  "byte_of_char c \<equiv> word_of_nat (of_char c)"

lemma unat_byte_of_char [simp]: "unat (byte_of_char c) = of_char c"
proof -
  have "(of_char c :: nat) < 256" using of_char_mod_256 [of c] by (metis mod_less_divisor zero_less_numeral)
  then show ?thesis by (simp add: unat_of_nat)
qed

lemma byte_of_char_zero: "byte_of_char c = 0 \<longleftrightarrow> c = CHR 0x00"
proof -
  have "byte_of_char c = 0 \<longleftrightarrow> unat (byte_of_char c) = 0" by (metis unat_eq_zero unsigned_0)
  also have "\<dots> \<longleftrightarrow> of_char c = (of_char (CHR 0x00) :: nat)" by simp
  also have "\<dots> \<longleftrightarrow> c = CHR 0x00" by (simp only: of_char_eq_iff)
  finally show ?thesis .
qed

lemma cstr_of_name:
  assumes "CHR 0x00 \<notin> set nm"
  shows "cstr_of_bytes (map byte_of_char nm @ [0]) = nm"
proof -
  have "takeWhile (\<lambda>b. b \<noteq> 0) (map byte_of_char nm @ [0]) = map byte_of_char nm"
    using assms by (induction nm) (auto simp: byte_of_char_zero)
  then show ?thesis by (simp add: cstr_of_bytes_def o_def)
qed

text \<open>A destination a SOCKS5 client can name: an IPv4 address, or a name of at most 255 characters.\<close>

definition sendable :: "client_connection \<Rightarrow> bool" where
  "sendable con \<longleftrightarrow>
     (cc_socks_address_type con = 1 \<and> (\<exists>sa. hid_addr (cc_dst_host con) = AF_INET sa)) \<or>
     (cc_socks_address_type con = 3 \<and> length (hid_name (cc_dst_host con)) \<le> 255 \<and>
      CHR 0x00 \<notin> set (hid_name (cc_dst_host con)))"

definition dst_of_con :: "client_connection \<Rightarrow> socks_dst" where
  "dst_of_con con =
     (if cc_socks_address_type con = 1
      then Dst_ipv4 (host_id_get_addr_as_byte_array (cc_dst_host con) 4)
      else Dst_name (hid_name (cc_dst_host con)))"

lemma get_addr_bytes_octets:
  "hid_addr h = AF_INET sa \<Longrightarrow>
     host_id_get_addr_as_byte_array h 4 =
       [octet 3 (ntohl (sin_addr sa)), octet 2 (ntohl (sin_addr sa)),
        octet 1 (ntohl (sin_addr sa)), octet 0 (ntohl (sin_addr sa))]"
  by (simp add: host_id_get_addr_as_byte_array_def Let_def)

lemma byte_round: "0 \<le> i \<Longrightarrow> i < 256 \<Longrightarrow> uint (byte_of i) = i"
  by (simp add: uint_word_of_int)

lemma unat_byte_of_nat: "n < 256 \<Longrightarrow> unat (byte_of (int n)) = n"
  by (simp add: unat_of_nat)

text \<open>The bytes of a request for an IPv4 address and for a name, and their parse.\<close>

lemma socks5_command_ipv4:
  assumes "sendable con" and "cc_socks_address_type con = 1"
    and "0 \<le> hid_port (cc_dst_host con)" and "hid_port (cc_dst_host con) < 65536"
    and "0 \<le> cc_socks_command con" and "cc_socks_command con < 256"
  shows "\<exists>bs. socks5_command_bytes con = Inr (Some bs) \<and>
      socks5_request (bs @ rest) = Some (cc_socks_command con, dst_of_con con, hid_port (cc_dst_host con), rest)"
    and "host_id_get_addr_as_byte_array (dst_host_of (dst_of_con con) (hid_port (cc_dst_host con)) h0) 4 =
      host_id_get_addr_as_byte_array (cc_dst_host con) 4"
proof -
  obtain sa where sa: "hid_addr (cc_dst_host con) = AF_INET sa" using assms(1,2) by (auto simp: sendable_def)
  let ?p = "hid_port (cc_dst_host con)" and ?a = "ntohl (sin_addr sa)"
  let ?bs = "[5, byte_of (cc_socks_command con), 0, 1] @ [octet 3 ?a, octet 2 ?a, octet 1 ?a, octet 0 ?a] @
    [byte_of (?p div 256 mod 256), byte_of (?p mod 256)]"
  have "socks5_command_bytes con = Inr (Some ?bs)"
    using assms(2) sa
    by (simp add: socks5_command_bytes_def socks_consts get_addr_bytes_octets host_id_get_port_def Let_def)
  moreover have "socks5_request (?bs @ rest) = Some (cc_socks_command con, dst_of_con con, ?p, rest)"
    using assms(2) sa port_of_port_bytes [OF assms(3,4)] byte_round [OF assms(5,6)]
    by (simp add: socks5_request_def dst_of_con_def get_addr_bytes_octets numeral_eq_Suc Let_def)
  ultimately show "\<exists>bs. socks5_command_bytes con = Inr (Some bs) \<and>
      socks5_request (bs @ rest) = Some (cc_socks_command con, dst_of_con con, ?p, rest)" by blast
  show "host_id_get_addr_as_byte_array (dst_host_of (dst_of_con con) ?p h0) 4 =
      host_id_get_addr_as_byte_array (cc_dst_host con) 4"
    using assms(2) sa by (simp add: dst_of_con_def get_addr_bytes_octets)
qed

lemma socks5_command_name:
  assumes "sendable con" and "cc_socks_address_type con \<noteq> 1"
    and "0 \<le> hid_port (cc_dst_host con)" and "hid_port (cc_dst_host con) < 65536"
    and "0 \<le> cc_socks_command con" and "cc_socks_command con < 256"
  shows "\<exists>bs. socks5_command_bytes con = Inr (Some bs) \<and>
      socks5_request (bs @ rest) = Some (cc_socks_command con, dst_of_con con, hid_port (cc_dst_host con), rest)"
    and "hid_name (dst_host_of (dst_of_con con) (hid_port (cc_dst_host con)) h0) = hid_name (cc_dst_host con)"
proof -
  let ?p = "hid_port (cc_dst_host con)" and ?nm = "hid_name (cc_dst_host con)"
  let ?ds = "map byte_of_char ?nm" and ?tail = "[byte_of (?p div 256 mod 256), byte_of (?p mod 256)]"
  have t: "cc_socks_address_type con = 3" and len: "length ?nm \<le> 255" and z: "CHR 0x00 \<notin> set ?nm"
    using assms(1,2) by (auto simp: sendable_def)
  let ?bs = "[5, byte_of (cc_socks_command con), 0, 3] @ [byte_of (int (length ?nm))] @ ?ds @ ?tail"
  have "socks5_command_bytes con = Inr (Some ?bs)"
    using t by (simp add: socks5_command_bytes_def socks_consts host_id_get_name_def host_id_get_port_def Let_def)
  moreover have l: "unat (byte_of (int (length ?nm))) = length ?nm" using len by (intro unat_byte_of_nat) simp
  have q: "drop 1 (drop 4 (?bs @ rest)) = ?ds @ ?tail @ rest" "drop 4 (?bs @ rest) ! 0 = byte_of (int (length ?nm))"
    "drop 4 (?bs @ rest) \<noteq> []"
    by (simp_all add: numeral_eq_Suc)
  have hd: "(?bs @ rest) ! 0 = 5" "(?bs @ rest) ! 1 = byte_of (cc_socks_command con)"
    "(?bs @ rest) ! 2 = 0" "(?bs @ rest) ! 3 = 3" "\<not> length (?bs @ rest) < 4"
    by (simp_all add: numeral_eq_Suc)
  have "socks5_request (?bs @ rest) = Some (cc_socks_command con, dst_of_con con, ?p, rest)"
    unfolding socks5_request_def Let_def hd q l
    using assms(2) port_of_port_bytes [OF assms(3,4)] byte_round [OF assms(5,6)] cstr_of_name [OF z]
    by (simp add: nth_append dst_of_con_def)
  ultimately show "\<exists>bs. socks5_command_bytes con = Inr (Some bs) \<and>
      socks5_request (bs @ rest) = Some (cc_socks_command con, dst_of_con con, ?p, rest)" by blast
  show "hid_name (dst_host_of (dst_of_con con) ?p h0) = ?nm"
    using assms(2) len by (simp add: dst_of_con_def strncpy_term_short MAX_DNS_def)
qed

text \<open>The other requests: a name that is too long for its length byte, and the other address types.\<close>

lemma socks5_command_long_name:
  assumes "cc_socks_address_type con = 3" and "length (hid_name (cc_dst_host con)) = 256 + l" and "l < 4"
    and "CHR 0x00 \<notin> set (hid_name (cc_dst_host con))"
    and "0 \<le> cc_socks_command con" and "cc_socks_command con < 256"
  shows "\<exists>bs. socks5_command_bytes con = Inr (Some bs) \<and>
      socks5_request (bs @ rest) =
        Some (cc_socks_command con, Dst_name (take l (hid_name (cc_dst_host con))),
              port_of (byte_of_char (hid_name (cc_dst_host con) ! l)) (byte_of_char (hid_name (cc_dst_host con) ! (l + 1))),
              map byte_of_char (drop (l + 2) (hid_name (cc_dst_host con))) @ port_bytes (hid_port (cc_dst_host con)) @ rest)"
proof -
  let ?p = "hid_port (cc_dst_host con)" and ?nm = "hid_name (cc_dst_host con)"
  let ?ds = "map byte_of_char ?nm"
  let ?bs = "[5, byte_of (cc_socks_command con), 0, 3] @ [byte_of (int (length ?nm))] @ ?ds @ port_bytes ?p"
  have "socks5_command_bytes con = Inr (Some ?bs)"
    using assms(1)
    by (simp add: socks5_command_bytes_def port_bytes_def socks_consts host_id_get_name_def host_id_get_port_def Let_def)
  moreover have l: "unat (byte_of (int (length ?nm))) = l"
    using assms(3) by (simp only: assms(2) of_int_of_nat_eq unat_of_nat) simp
  have q: "drop 1 (drop 4 (?bs @ rest)) = ?ds @ port_bytes ?p @ rest" "drop 4 (?bs @ rest) ! 0 = byte_of (int (length ?nm))"
    "drop 4 (?bs @ rest) \<noteq> []"
    by (simp_all add: numeral_eq_Suc)
  have hd: "(?bs @ rest) ! 0 = 5" "(?bs @ rest) ! 1 = byte_of (cc_socks_command con)"
    "(?bs @ rest) ! 2 = 0" "(?bs @ rest) ! 3 = 3" "\<not> length (?bs @ rest) < 4"
    by (simp_all add: numeral_eq_Suc)
  have z: "cstr_of_bytes (map byte_of_char (take l ?nm) @ [0]) = take l ?nm"
    by (rule cstr_of_name) (use assms(4) in \<open>auto dest: in_set_takeD\<close>)
  have "take l (?ds @ port_bytes ?p @ rest) = map byte_of_char (take l ?nm)"
    using assms(2) by (simp add: take_map)
  moreover have "drop (l + 2) (?ds @ port_bytes ?p @ rest) = map byte_of_char (drop (l + 2) ?nm) @ port_bytes ?p @ rest"
    using assms(2,3) by (simp add: drop_map)
  moreover have "(?ds @ port_bytes ?p @ rest) ! l = byte_of_char (?nm ! l)"
    "(?ds @ port_bytes ?p @ rest) ! (l + 1) = byte_of_char (?nm ! (l + 1))"
    using assms(2,3) by (simp_all add: nth_append)
  moreover have "\<not> length (?ds @ port_bytes ?p @ rest) < l + 2" using assms(2,3) by simp
  ultimately have "socks5_request (?bs @ rest) =
      Some (cc_socks_command con, Dst_name (take l ?nm), port_of (byte_of_char (?nm ! l)) (byte_of_char (?nm ! (l + 1))),
        map byte_of_char (drop (l + 2) ?nm) @ port_bytes ?p @ rest)"
    unfolding socks5_request_def Let_def hd q l
    using byte_round [OF assms(5,6)] by (simp only: z) simp
  with \<open>socks5_command_bytes con = Inr (Some ?bs)\<close> show ?thesis by blast
qed

lemma socks5_command_ipv6:
  assumes "cc_socks_address_type con = 4" and "host_id_ok (cc_dst_host con)" and "hid_addr (cc_dst_host con) = AF_INET6 sa"
  shows "\<exists>bs. socks5_command_bytes con = Inr (Some bs) \<and> length bs = 22 \<and> socks5_request (bs @ rest) = None"
proof -
  let ?bs = "[5, byte_of (cc_socks_command con), 0, 4] @ take 16 (sin6_addr sa) @
    [byte_of (hid_port (cc_dst_host con) div 256 mod 256), byte_of (hid_port (cc_dst_host con) mod 256)]"
  have len: "length (sin6_addr sa) = 16" using assms(2,3) by (simp add: host_id_ok_def addr_wf_def)
  then have "socks5_command_bytes con = Inr (Some ?bs)"
    using assms(1,3)
    by (simp add: socks5_command_bytes_def socks_consts host_id_get_addr_as_byte_array_def host_id_get_port_def Let_def)
  moreover have "(?bs @ rest) ! 3 = 4" by (simp add: numeral_eq_Suc)
  then have "socks5_request (?bs @ rest) = None" by (simp only: socks5_request_def Let_def) simp
  ultimately show ?thesis using len by (intro exI [of _ ?bs]) simp
qed

lemma socks5_command_undefined:
  assumes "cc_socks_address_type con = 1 \<and> (\<forall>sa. hid_addr (cc_dst_host con) \<noteq> AF_INET sa) \<or>
    cc_socks_address_type con = 4 \<and> (\<forall>sa. hid_addr (cc_dst_host con) \<noteq> AF_INET6 sa)"
  shows "socks5_command_bytes con = Inl UB"
  using assms
  by (cases "hid_addr (cc_dst_host con)")
    (auto simp: socks5_command_bytes_def socks_consts host_id_get_addr_as_byte_array_def Let_def)

text \<open>
  C21: what the client side of the program says and what its server side would understand, for
  every connection with a well-formed destination, a port and a command in range and a name
  without a null character. They agree for an IPv4 address and for a name of at most 255
  characters: the command \<open>socks5_client_send_command\<close> builds parses, with the parser that
  \<open>socks5_get_command\<close> implements, to exactly that command, destination and port, the parser
  stops exactly at its last byte, and a host identity set from the parsed destination has the
  same address (or name). They disagree otherwise. The length byte of a name of 256 to 259
  characters, which its buffer holds, is truncated: the parser takes a name of 0 to 3
  characters, the next two as the port and the rest as what follows the request. A request for
  an IPv6 address is sent but not understood. An address of another family than the request
  names would send indeterminate bytes, and nothing is sent for an unknown type.
\<close>

theorem socks5_command_roundtrip:
  assumes "host_id_ok (cc_dst_host con)" and "0 \<le> hid_port (cc_dst_host con)" and "hid_port (cc_dst_host con) < 65536"
    and "0 \<le> cc_socks_command con" and "cc_socks_command con < 256" and "CHR 0x00 \<notin> set (hid_name (cc_dst_host con))"
  shows "let type = cc_socks_address_type con; h = cc_dst_host con; name = hid_name h; l = length name - 256;
             msg = socks5_command_bytes con
    in (type = 1 \<longrightarrow>
          (case hid_addr h of
             AF_INET sa \<Rightarrow>
               \<exists>bs. msg = Inr (Some bs) \<and>
                 socks5_request (bs @ rest) =
                   Some (cc_socks_command con, Dst_ipv4 (host_id_get_addr_as_byte_array h 4), hid_port h, rest) \<and>
                 host_id_get_addr_as_byte_array
                   (dst_host_of (Dst_ipv4 (host_id_get_addr_as_byte_array h 4)) (hid_port h) h0) 4 =
                   host_id_get_addr_as_byte_array h 4
           | _ \<Rightarrow> msg = Inl UB)) \<and>
       (type = 3 \<longrightarrow>
          (\<exists>bs. msg = Inr (Some bs) \<and>
             (if length name \<le> 255
              then socks5_request (bs @ rest) = Some (cc_socks_command con, Dst_name name, hid_port h, rest) \<and>
                hid_name (dst_host_of (Dst_name name) (hid_port h) h0) = name
              else socks5_request (bs @ rest) =
                Some (cc_socks_command con, Dst_name (take l name),
                      port_of (byte_of_char (name ! l)) (byte_of_char (name ! (l + 1))),
                      map byte_of_char (drop (l + 2) name) @ port_bytes (hid_port h) @ rest)))) \<and>
       (type = 4 \<longrightarrow>
          (case hid_addr h of
             AF_INET6 sa \<Rightarrow> \<exists>bs. msg = Inr (Some bs) \<and> length bs = 22 \<and> socks5_request (bs @ rest) = None
           | _ \<Rightarrow> msg = Inl UB)) \<and>
       (type \<notin> {1, 3, 4} \<longrightarrow> msg = Inr None)"
proof -
  let ?h = "cc_dst_host con" and ?nm = "hid_name (cc_dst_host con)"
  have one: "case hid_addr ?h of
      AF_INET sa \<Rightarrow> \<exists>bs. socks5_command_bytes con = Inr (Some bs) \<and>
        socks5_request (bs @ rest) =
          Some (cc_socks_command con, Dst_ipv4 (host_id_get_addr_as_byte_array ?h 4), hid_port ?h, rest) \<and>
        host_id_get_addr_as_byte_array (dst_host_of (Dst_ipv4 (host_id_get_addr_as_byte_array ?h 4)) (hid_port ?h) h0) 4 =
          host_id_get_addr_as_byte_array ?h 4
    | _ \<Rightarrow> socks5_command_bytes con = Inl UB" if t: "cc_socks_address_type con = 1"
  proof (cases "hid_addr ?h")
    case (AF_INET sa)
    with t have s: "sendable con" by (simp add: sendable_def)
    from socks5_command_ipv4 [OF s t assms(2-5)] AF_INET t show ?thesis by (simp add: dst_of_con_def)
  qed (use t in \<open>simp_all add: socks5_command_undefined\<close>)
  have three: "\<exists>bs. socks5_command_bytes con = Inr (Some bs) \<and>
      (if length ?nm \<le> 255
       then socks5_request (bs @ rest) = Some (cc_socks_command con, Dst_name ?nm, hid_port ?h, rest) \<and>
         hid_name (dst_host_of (Dst_name ?nm) (hid_port ?h) h0) = ?nm
       else socks5_request (bs @ rest) =
         Some (cc_socks_command con, Dst_name (take (length ?nm - 256) ?nm),
               port_of (byte_of_char (?nm ! (length ?nm - 256))) (byte_of_char (?nm ! (length ?nm - 256 + 1))),
               map byte_of_char (drop (length ?nm - 256 + 2) ?nm) @ port_bytes (hid_port ?h) @ rest))"
    if t: "cc_socks_address_type con = 3"
  proof (cases "length ?nm \<le> 255")
    case True
    with t assms(6) have s: "sendable con" "cc_socks_address_type con \<noteq> 1" by (simp_all add: sendable_def)
    from socks5_command_name [OF s assms(2-5)] True t show ?thesis by (simp add: dst_of_con_def)
  next
    case False
    then have l: "length ?nm = 256 + (length ?nm - 256)" "length ?nm - 256 < 4"
      using assms(1) by (simp_all add: host_id_ok_def MAX_DNS_def) linarith
    show ?thesis using socks5_command_long_name [OF t l assms(6,4,5), of rest] False by (simp only: if_False simp_thms)
  qed
  have four: "case hid_addr ?h of
      AF_INET6 sa \<Rightarrow> \<exists>bs. socks5_command_bytes con = Inr (Some bs) \<and> length bs = 22 \<and> socks5_request (bs @ rest) = None
    | _ \<Rightarrow> socks5_command_bytes con = Inl UB" if t: "cc_socks_address_type con = 4"
    using socks5_command_ipv6 [OF t assms(1)] socks5_command_undefined [of con] t by (cases "hid_addr ?h") simp_all
  have "socks5_command_bytes con = Inr None" if "cc_socks_address_type con \<notin> {1, 3, 4}"
    using that by (simp add: socks5_command_bytes_def socks_consts Let_def)
  with one three four show ?thesis unfolding Let_def by (intro conjI impI)
qed

theorem socks5_command_roundtrip_witness:
  "let con = (con_to ''db.corp'' AF_UNSPEC 5432)\<lparr>cc_socks_address_type := 3\<rparr>;
       long = (con_to (replicate 257 CHR ''a'') AF_UNSPEC 5432)\<lparr>cc_socks_address_type := 3\<rparr> in
   (\<exists>bs. socks5_command_bytes con = Inr (Some bs) \<and>
      socks5_request (bs @ [1, 2]) = Some (1, Dst_name ''db.corp'', 5432, [1, 2])) \<and>
   (\<exists>bs r. socks5_command_bytes long = Inr (Some bs) \<and> socks5_request bs = Some (1, Dst_name ''a'', 24929, r))"
proof -
  let ?con = "(con_to ''db.corp'' AF_UNSPEC 5432)\<lparr>cc_socks_address_type := 3\<rparr>"
  let ?long = "(con_to (replicate 257 CHR ''a'') AF_UNSPEC 5432)\<lparr>cc_socks_address_type := 3\<rparr>"
  have ok: "host_id_ok (cc_dst_host ?con)" "host_id_ok (cc_dst_host ?long)"
    by (simp_all add: host_id_ok_def addr_wf_def addr_port_def MAX_DNS_def)
  have c: "cc_socks_command ?con = 1" "cc_socks_command ?long = 1"
    by (simp_all add: con_to_def blank_connection_def Let_def)
  have "\<exists>bs. socks5_command_bytes ?con = Inr (Some bs) \<and>
      socks5_request (bs @ [1, 2]) = Some (1, Dst_name ''db.corp'', 5432, [1, 2])"
    using socks5_command_roundtrip [OF ok(1), of "[1, 2]"] unfolding Let_def c by auto
  moreover have "\<exists>bs r. socks5_command_bytes ?long = Inr (Some bs) \<and> socks5_request bs = Some (1, Dst_name ''a'', 24929, r)"
    using socks5_command_roundtrip [OF ok(2), of "[]"] unfolding Let_def c by (auto simp: port_of_eq)
  ultimately show ?thesis unfolding Let_def by blast
qed

section \<open>Negotiating with a proxy\<close>

lemma socks5_command_bytes_fields:
  "cc_socks_command c' = cc_socks_command c \<Longrightarrow> cc_socks_address_type c' = cc_socks_address_type c \<Longrightarrow>
     cc_dst_host c' = cc_dst_host c \<Longrightarrow> socks5_command_bytes c' = socks5_command_bytes c"
  by (simp only: socks5_command_bytes_def)

lemma sb_write_len_room_live:
  assumes "length buf \<le> tx_room w fd" and "buf \<noteq> []" and "rx_has w fd s"
  obtains w' where "sb_write_len w fd buf = Inr (int (length buf), w')" "only_tx fd w w' buf"
    "tx_room w' fd = tx_room w fd - length buf"
    "rx_has w' fd s" "sk_sent (w_sock w' fd) = sk_sent (w_sock w fd) @ buf"
    "w_dialed w' = w_dialed w"
  using sb_write_len_room [OF assms(1,2)] only_tx_frame(2,8,13) assms(3) by metis

lemma negotiate_ok:
  assumes "rx_has w (cc_fd_out con) ([5, 0] @ s)" and "3 \<le> tx_room w (cc_fd_out con)"
  shows "\<exists>w'. sock5_client_negotiate_auth con w = Inr (True, w') \<and> rx_has w' (cc_fd_out con) s \<and>
           tx_room w' (cc_fd_out con) = tx_room w (cc_fd_out con) - 3 \<and>
           sk_sent (w_sock w' (cc_fd_out con)) = sk_sent (w_sock w (cc_fd_out con)) @ [5, 1, 0] \<and>
           w_dialed w' = w_dialed w"
proof -
  let ?fd = "cc_fd_out con"
  have "length [5, 1, 0 :: byte] \<le> tx_room w ?fd" using assms(2) by simp
  from sb_write_len_room_live [OF this list.distinct(2) assms(1)] obtain w1 where
    w1: "sb_write_len w ?fd [5, 1, 0] = Inr (int (length [5, 1, 0 :: byte]), w1)" "only_tx ?fd w w1 [5, 1, 0]"
    "tx_room w1 ?fd = tx_room w ?fd - length [5, 1, 0 :: byte]" "rx_has w1 ?fd ([5, 0] @ s)"
    "sk_sent (w_sock w1 ?fd) = sk_sent (w_sock w ?fd) @ [5, 1, 0]" "w_dialed w1 = w_dialed w" .
  have 1: "sb_write_len w ?fd [5, 1, 0] = Inr (3, w1)" "tx_room w1 ?fd = tx_room w ?fd - 3"
    "rx_has w1 ?fd ([5, 0] @ s)" using w1 by simp_all
  note 1 = this w1(5,6)
  obtain w2 where 2: "sb_read_len w1 ?fd 2 = Inr (2, [5, 0], w2)" "only_rx ?fd w1 w2" "rx_has w2 ?fd s"
    using sb_read_len_has [OF 1(3), of 2] by auto
  have "sock5_client_negotiate_auth con w = Inr (True, w2)"
    using 1(1) 2(1) by (simp add: sock5_client_negotiate_auth_def socks_consts Let_def)
  then show ?thesis using 1 2 only_rx_frame(2,8,13) [OF 2(2)] by auto
qed

lemma send_command_ok:
  assumes "socks5_command_bytes con = Inr (Some bs)" and "bs \<noteq> []" and "length bs \<le> tx_room w (cc_fd_out con)"
    and "rx_has w (cc_fd_out con) s"
  shows "\<exists>w'. socks5_client_send_command con w = Inr (True, w') \<and> rx_has w' (cc_fd_out con) s \<and>
           sk_sent (w_sock w' (cc_fd_out con)) = sk_sent (w_sock w (cc_fd_out con)) @ bs \<and>
           w_dialed w' = w_dialed w"
proof -
  obtain w1 where "sb_write_len w (cc_fd_out con) bs = Inr (int (length bs), w1)"
    "rx_has w1 (cc_fd_out con) s" "sk_sent (w_sock w1 (cc_fd_out con)) = sk_sent (w_sock w (cc_fd_out con)) @ bs"
    "w_dialed w1 = w_dialed w"
    using sb_write_len_room_live [OF assms(3,2,4)] by metis
  then show ?thesis using assms(1) by (simp add: socks5_client_send_command_def)
qed

lemma response_ok:
  assumes "rx_has w (cc_fd_out con) ([5, rep, 0, 1] @ a @ p @ s)" and "length a = 4" and "length p = 2"
  shows "\<exists>w'. socks5_client_get_command_response con ft w = Inr (rep = 0, con, Some (uint rep), w') \<and>
           only_rx (cc_fd_out con) w w' \<and> rx_has w' (cc_fd_out con) s"
proof -
  let ?fd = "cc_fd_out con"
  obtain w1 where 1: "sb_read_len w ?fd 4 = Inr (4, [5, rep, 0, 1], w1)" "only_rx ?fd w w1" "rx_has w1 ?fd (a @ p @ s)"
    using sb_read_len_has [OF assms(1), of 4] by auto
  obtain w2 where 2: "sb_read_len w1 ?fd 4 = Inr (4, a, w2)" "only_rx ?fd w1 w2" "rx_has w2 ?fd (p @ s)"
    using sb_read_len_has [OF 1(3), of 4] assms(2) by auto
  obtain w3 where 3: "sb_read_len w2 ?fd 2 = Inr (2, p, w3)" "only_rx ?fd w2 w3" "rx_has w3 ?fd s"
    using sb_read_len_has [OF 2(3), of 2] assms(3) by auto
  have "socks5_client_get_command_response con ft w = Inr (rep = 0, con, Some (uint rep), w3)"
    using 1(1) 2(1) 3(1)
    by (cases "rep = 0")
       (simp_all add: socks5_client_get_command_response_def socks_consts Let_def uint_0_iff)
  moreover have "only_rx ?fd w w3" using 1(2) 2(2) 3(2) by (blast intro: only_rx_trans)
  ultimately show ?thesis using 3(3) by blast
qed

lemma connect_via_ssh_run:
  assumes "connect_to_ssh_socks5_proxy (set_client_connection_status con CCSTATUS_OKAY (Some ''Connecting'')
                  (Some ''Connecting to SSH SOCKS5 server'')) t w = Inr (True, c1, w1)"
    and "c = set_client_connection_status c1 CCSTATUS_OKAY (Some ''Negotiating'')
                       (Some ''Negotiating connection with SSH SOCKS5 server'')"
    and "sock5_client_negotiate_auth c w1 = Inr (True, w2)"
    and "socks5_client_send_command c w2 = Inr (True, w3)"
    and "socks5_client_get_command_response c (Some SOCKS5_REPLY_SERVER_FAILURE) w3 = Inr (ok, c4, ft, w4)"
  shows "connect_via_ssh_socks5 con t w =
           Inr (ok, if ok then set_client_connection_status c4 CCSTATUS_OKAY None None else c4, ft, w4)"
  using assms(3-5) unfolding assms(2)
  by (simp add: connect_via_ssh_socks5_def Let_def assms(1))

text \<open>
  C29: with a proxy that accepts the method and answers the command with an IPv4 reply, the
  program has sent it exactly the greeting \<open>5 1 0\<close> and the command, and nothing else; it
  reports success exactly for reply code 0 and hands the reply code on; the bytes behind the
  reply, the first ones of the destination, stay unread for the relay.
\<close>

theorem connect_via_ssh_socks5_transcript:
  assumes "w_dials w = New_socket fd [Conn_ok s] # ds"
    and "rx_stream (sk_rx s) = [5, 0] @ [5, rep, 0, 1] @ a @ p @ rest" and "length a = 4" and "length p = 2"
    and "socks5_command_bytes con = Inr (Some bs)" and "bs \<noteq> []" and "3 + length bs \<le> wr_room (sk_wr s)"
  shows "\<exists>con' w'. connect_via_ssh_socks5 con t w = Inr (rep = 0, con', Some (uint rep), w') \<and>
           cc_fd_out con' = fd \<and>
           w_dialed w' = w_dialed w @ [(fd, \<lparr>sin_port = htons (st_socks_port t), sin_addr = htonl 0x7F000001\<rparr>)] \<and>
           sk_sent (w_sock w' fd) = sk_sent s @ [5, 1, 0] @ bs \<and> rx_has w' fd rest"
proof -
  let ?sa = "\<lparr>sin_port = htons (st_socks_port t), sin_addr = htonl 0x7F000001\<rparr>"
  let ?w1 = "upd_sock (w\<lparr>w_dials := ds, w_dialed := w_dialed w @ [(fd, ?sa)]\<rparr>) fd s"
  let ?start = "set_client_connection_status con CCSTATUS_OKAY (Some ''Connecting'')
                  (Some ''Connecting to SSH SOCKS5 server'')"
  let ?c = "set_client_connection_status (?start\<lparr>cc_fd_out := fd\<rparr>) CCSTATUS_OKAY (Some ''Negotiating'')
                       (Some ''Negotiating connection with SSH SOCKS5 server'')"
  have d: "connect_to_ssh_socks5_proxy ?start t w = Inr (True, ?start\<lparr>cc_fd_out := fd\<rparr>, ?w1)"
    using assms(1) by (simp add: connect_to_ssh_socks5_proxy_def dial_out_def Let_def)
  have fd: "cc_fd_out ?c = fd" by simp
  have h: "rx_has ?w1 fd ([5, 0] @ [5, rep, 0, 1] @ a @ p @ rest)" "tx_room ?w1 fd = wr_room (sk_wr s)"
    "sk_sent (w_sock ?w1 fd) = sk_sent s"
    using assms(2) by (simp_all add: rx_has_def tx_room_def)
  have r3: "3 \<le> tx_room ?w1 (cc_fd_out ?c)" using h(2) assms(7) unfolding fd by simp
  have "rx_has ?w1 (cc_fd_out ?c) ([5, 0] @ [5, rep, 0, 1] @ a @ p @ rest)" using h(1) unfolding fd .
  from negotiate_ok [OF this r3, unfolded fd] obtain w2 where
    2: "sock5_client_negotiate_auth ?c ?w1 = Inr (True, w2)" "rx_has w2 fd ([5, rep, 0, 1] @ a @ p @ rest)"
    "tx_room w2 fd = wr_room (sk_wr s) - 3" "sk_sent (w_sock w2 fd) = sk_sent s @ [5, 1, 0]"
    "w_dialed w2 = w_dialed w @ [(fd, ?sa)]"
    using h by auto
  have b: "socks5_command_bytes ?c = Inr (Some bs)"
    unfolding assms(5) [symmetric]
    by (rule socks5_command_bytes_fields) (simp_all add: set_client_connection_status_def)
  have "length bs \<le> tx_room w2 (cc_fd_out ?c)" using 2(3) assms(7) unfolding fd by simp
  from send_command_ok [OF b assms(6) this] 2(2) fd obtain w3 where
    3: "socks5_client_send_command ?c w2 = Inr (True, w3)" "rx_has w3 fd ([5, rep, 0, 1] @ a @ p @ rest)"
    "sk_sent (w_sock w3 fd) = sk_sent s @ [5, 1, 0] @ bs" "w_dialed w3 = w_dialed w2"
    using 2(4) by fastforce
  have "rx_has w3 (cc_fd_out ?c) ([5, rep, 0, 1] @ a @ p @ rest)" using 3(2) unfolding fd .
  from response_ok [OF this assms(3,4), of "Some SOCKS5_REPLY_SERVER_FAILURE", unfolded fd] obtain w4 where
    4: "socks5_client_get_command_response ?c (Some SOCKS5_REPLY_SERVER_FAILURE) w3 =
          Inr (rep = 0, ?c, Some (uint rep), w4)" "only_rx fd w3 w4" "rx_has w4 fd rest" by blast
  have dialed: "w_dialed w4 = w_dialed w @ [(fd, ?sa)]"
    using 2(5) 3(4) only_rx_frame(8) [OF 4(2)] by simp
  note run = connect_via_ssh_run [OF d refl 2(1) 3(1) 4(1)]
  have "sk_sent (w_sock w4 fd) = sk_sent s @ [5, 1, 0] @ bs"
    using 3(3) only_rx_frame(2) [OF 4(2)] by simp
  then show ?thesis using run 4(3) dialed by auto
qed

theorem connect_via_ssh_socks5_transcript_witness:
  "let s = quiet_sock\<lparr>sk_rx := [Rd_data [5, 0, 5], Rd_data [0, 0, 1, 10, 0, 0, 1, 0, 80, 72, 73]],
                       sk_wr := [Wr_take 2, Wr_take 100]\<rparr>;
       w = quiet_world\<lparr>w_dials := [New_socket 9 [Conn_ok s]]\<rparr>;
       con = (con_to ''db'' AF_UNSPEC 80)\<lparr>cc_socks_address_type := 3\<rparr>
   in \<exists>con' w'. connect_via_ssh_socks5 con zero_tunnel w = Inr (True, con', Some 0, w') \<and>
        sk_sent (w_sock w' 9) = [5, 1, 0, 5, 1, 0, 3, 2, 100, 98, 0, 80] \<and> rx_has w' 9 [72, 73]"
proof -
  let ?s = "quiet_sock\<lparr>sk_rx := [Rd_data [5, 0, 5], Rd_data [0, 0, 1, 10, 0, 0, 1, 0, 80, 72, 73]],
                       sk_wr := [Wr_take 2, Wr_take 100]\<rparr>"
  let ?w = "quiet_world\<lparr>w_dials := [New_socket 9 [Conn_ok ?s]]\<rparr>"
  let ?con = "(con_to ''db'' AF_UNSPEC 80)\<lparr>cc_socks_address_type := 3\<rparr>"
  have b: "socks5_command_bytes ?con = Inr (Some [5, 1, 0, 3, 2, 100, 98, 0, 80])" by code_simp
  have "rx_stream (sk_rx ?s) = [5, 0] @ [5, 0, 0, 1] @ [10, 0, 0, 1] @ [0, 80] @ [72, 73]" by simp
  from connect_via_ssh_socks5_transcript [OF _ this _ _ b, of ?w 9 "[]"] show ?thesis
    unfolding Let_def by (simp add: quiet_sock_def) blast
qed

text \<open>
  A proxy that accepts the command but names its bound address by a domain is taken for
  a failure, with the failure type 0 of success: the code tests for an IPv4 address twice and
  never for a domain. The reply is left in the middle.
\<close>

theorem domain_reply_is_refused:
  assumes "rx_has w (cc_fd_out con) ([5, 0, 0, 3] @ s)"
  shows "\<exists>w'. socks5_client_get_command_response con ft w = Inr (False, con, Some SOCKS5_REPLY_SUCCEED, w') \<and>
           rx_has w' (cc_fd_out con) s"
proof -
  obtain w1 where 1: "sb_read_len w (cc_fd_out con) 4 = Inr (4, [5, 0, 0, 3], w1)" "rx_has w1 (cc_fd_out con) s"
    using sb_read_len_has [OF assms, of 4] by auto
  then show ?thesis by (simp add: socks5_client_get_command_response_def socks_consts Let_def)
qed

theorem domain_reply_is_refused_witness:
  "let w = client_world [Rd_data [5, 0, 0, 3, 2, 100, 98, 0, 80]] [] in
   \<exists>w'. socks5_client_get_command_response blank_connection None w = Inr (False, blank_connection, Some 0, w')"
proof -
  have "rx_has (client_world [Rd_data [5, 0, 0, 3, 2, 100, 98, 0, 80]] []) (cc_fd_out blank_connection)
          ([5, 0, 0, 3] @ [2, 100, 98, 0, 80])" by (simp add: rx_has_def)
  from domain_reply_is_refused [OF this, of None] show ?thesis
    unfolding Let_def socks_consts by blast
qed

section \<open>The direct connector goes to the destination\<close>

text \<open>
  The address a destination stands for: its own, the one its name spells, or the first one
  the resolver answers in the end.
\<close>

definition direct_target :: "dns_env \<Rightarrow> host_id \<Rightarrow> sockaddr_in \<Rightarrow> bool" where
  "direct_target env h sa \<longleftrightarrow>
     hid_addr h = AF_INET sa \<or>
     hid_addr h = AF_UNSPEC \<and> hid_name h \<noteq> [] \<and> sin_port sa = htons (hid_port h) \<and>
       (case inet_pton4 (hid_name h) of
          Some a \<Rightarrow> sin_addr sa = a
        | None \<Rightarrow> \<exists>ts. gai_retry (getaddrinfo env (hid_name h)) = Inr (Gai_addrs (inet_ntop4 (sin_addr sa) # ts)))"

lemma direct_destination_target:
  assumes "direct_target env h sa"
  shows "\<exists>h'. direct_destination env h = Inr h' \<and> hid_addr h' = AF_INET sa \<and> hid_name h' = hid_name h"
proof (cases "hid_addr h = AF_INET sa")
  case True
  then show ?thesis by (simp add: direct_destination_def host_id_has_addr_def)
next
  case False
  then have u: "hid_addr h = AF_UNSPEC" "hid_name h \<noteq> []" "sin_port sa = htons (hid_port h)"
    using assms by (auto simp: direct_target_def)
  show ?thesis
  proof (cases "inet_pton4 (hid_name h)")
    case None
    then obtain ts where "gai_retry (getaddrinfo env (hid_name h)) = Inr (Gai_addrs (inet_ntop4 (sin_addr sa) # ts))"
      using assms False by (auto simp: direct_target_def)
    from resolve_dns_first [OF u(2) this] None u show ?thesis
      by (simp add: direct_destination_def host_id_has_addr_def host_id_has_name_def host_id_get_name_def)
  next
    case (Some a)
    then have "sin_addr sa = a" using assms False by (auto simp: direct_target_def)
    with Some u show ?thesis
      by (simp add: direct_destination_def host_id_has_addr_def host_id_has_name_def host_id_get_name_def
          host_id_get_port_def)
  qed
qed

text \<open>
  The direct connector connects to the address and port the destination stands for (its
  own address, the one its name spells, or the resolver's first answer), once. It succeeds
  exactly when that connection does, with reply type 0; otherwise the socket is closed again,
  no descriptor is kept, and the type is 5 for a refused or reset connection and 1 for any
  other failure.
\<close>

theorem connect_direct_correct:
  assumes "direct_target (w_dns w) (cc_dst_host con) sa"
    and "w_dials w = New_socket fd cs # ds" and "sys_connect cs = Inr r"
  shows "\<exists>con' ft w'. connect_direct con w = Inr (\<not> isl r, con', Some ft, w') \<and>
           w_dialed w' = w_dialed w @ [(fd, sa)] \<and>
           hid_addr (cc_dst_host con') = AF_INET sa \<and>
           (case r of
              Inr s \<Rightarrow> cc_fd_out con' = fd \<and> w_sock w' fd = s \<and> ft = SOCKS5_REPLY_SUCCEED
            | Inl e \<Rightarrow> cc_fd_out con' = -1 \<and> \<not> sk_open (w_sock w' fd) \<and>
                ft = (if e = ECONNREFUSED \<or> e = ECONNRESET then SOCKS5_REPLY_CONNECTION_REFUSED
                      else SOCKS5_REPLY_SERVER_FAILURE))"
proof -
  obtain h where h: "direct_destination (w_dns w) (cc_dst_host con) = Inr h" "hid_addr h = AF_INET sa"
    using direct_destination_target [OF assms(1)] by blast
  show ?thesis
    using h assms(2,3)
    by (cases r) (auto simp: connect_direct_def host_id_get_addr_def dial_out_def sys_close_def Let_def)
qed

theorem connect_direct_correct_witness:
  "let con = con_to ''10.0.0.7'' AF_UNSPEC 80;
       w = quiet_world\<lparr>w_dials := [New_socket 9 [Conn_fail EINTR, Conn_ok quiet_sock]]\<rparr> in
   \<exists>con' w'. connect_direct con w = Inr (True, con', Some 0, w') \<and> cc_fd_out con' = 9 \<and>
     w_dialed w' = [(9, \<lparr>sin_port = htons 80, sin_addr = htonl 0x0a000007\<rparr>)]"
proof -
  let ?con = "con_to ''10.0.0.7'' AF_UNSPEC 80"
  let ?w = "quiet_world\<lparr>w_dials := [New_socket 9 [Conn_fail EINTR, Conn_ok quiet_sock]]\<rparr>"
  have p: "inet_pton4 ''10.0.0.7'' = Some (htonl 0x0a000007)" by code_simp
  have t: "direct_target (w_dns ?w) (cc_dst_host ?con) \<lparr>sin_port = htons 80, sin_addr = htonl 0x0a000007\<rparr>"
    using p by (simp add: direct_target_def)
  have d: "w_dials ?w = New_socket 9 [Conn_fail EINTR, Conn_ok quiet_sock] # []" by simp
  have c: "sys_connect [Conn_fail EINTR, Conn_ok quiet_sock] = Inr (Inr quiet_sock)" by simp
  show ?thesis
    using connect_direct_correct [OF t d c] unfolding Let_def socks_consts
    by (auto simp: quiet_world_def)
qed

section \<open>Connecting comes to an end\<close>

definition peer_live :: "world \<Rightarrow> int \<Rightarrow> bool" where
  "peer_live w fd \<longleftrightarrow> rx_live w fd \<and> wr_end_of (sk_wr (w_sock w fd)) \<noteq> End_block"

fun dial_live :: "dial \<Rightarrow> bool" where
  "dial_live (No_socket e) = True"
| "dial_live (New_socket fd cs) =
     (case sys_connect cs of
        Inl _ \<Rightarrow> False
      | Inr (Inl e) \<Rightarrow> True
      | Inr (Inr s) \<Rightarrow> rx_end_of (sk_rx s) \<noteq> End_block \<and> wr_end_of (sk_wr s) \<noteq> End_block)"

text \<open>
  The world answers at least \<open>n\<close> more attempts to connect: each socket call is answered, each
  connection is made or fails, and whoever is connected to answers, closes or fails; the
  resolver answers too.
\<close>

definition answers :: "nat \<Rightarrow> world \<Rightarrow> bool" where
  "answers n w \<longleftrightarrow> n \<le> length (w_dials w) \<and> list_all dial_live (w_dials w) \<and> resolver_ok (w_dns w)"

text \<open>The address type of the request agrees with the address.\<close>

definition req_ok :: "client_connection \<Rightarrow> bool" where
  "req_ok con \<longleftrightarrow>
     (cc_socks_address_type con = 1 \<longrightarrow> (\<exists>sa. hid_addr (cc_dst_host con) = AF_INET sa)) \<and>
     (cc_socks_address_type con = 4 \<longrightarrow>
        (\<exists>sa. hid_addr (cc_dst_host con) = AF_INET6 sa \<and> 16 \<le> length (sin6_addr sa)))"

lemma answers_only_rx: "only_rx fd w w' \<Longrightarrow> answers n w' = answers n w"
  using only_rx_frame(5,6) by (simp add: answers_def)

lemma answers_only_tx: "only_tx fd w w' bs \<Longrightarrow> answers n w' = answers n w"
  using only_tx_frame(5,6) by (simp add: answers_def)

lemma answers_updates [simp]:
  "answers n (upd_sock w fd s) = answers n w"
  "answers n (w\<lparr>w_errno := e\<rparr>) = answers n w"
  "answers n (w\<lparr>w_dialed := x\<rparr>) = answers n w"
  "answers n (w\<lparr>w_sleeps := k\<rparr>) = answers n w"
  "answers n (w\<lparr>w_msgs := k\<rparr>) = answers n w"
  "answers n (sys_close w fd) = answers n w"
  by (simp_all add: answers_def sys_close_def)

lemma sb_read_len_live:
  assumes "peer_live w fd"
  shows "\<exists>rc d w'. sb_read_len w fd n = Inr (rc, d, w') \<and> only_rx fd w w' \<and> (0 \<le> rc \<longrightarrow> peer_live w' fd)"
proof (cases "n \<le> length (rx_stream (sk_rx (w_sock w fd)))")
  case True
  let ?s = "rx_stream (sk_rx (w_sock w fd))"
  have h: "rx_has w fd (take n ?s @ drop n ?s)" by (simp add: rx_has_def)
  from sb_read_len_has [OF h, of n] True assms only_rx_frame(3) show ?thesis
    by (fastforce simp: peer_live_def rx_live_def)
next
  case False
  then have lt: "length (rx_stream (sk_rx (w_sock w fd))) < n" by simp
  from sb_read_len_loop_short [OF lt, of "w_errno w"] assms show ?thesis
    by (auto simp: sb_read_len_def peer_live_def rx_live_def rx_state_eq_def split: rx_end.splits)
qed

lemma wr_end_of_not_eof [simp]: "wr_end_of es \<noteq> End_eof"
  by (induction es rule: wr_end_of.induct) auto

lemma sb_write_len_live:
  assumes "peer_live w fd" and "buf \<noteq> []"
  shows "\<exists>rc w'. sb_write_len w fd buf = Inr (rc, w') \<and> (\<forall>k. answers k w' = answers k w) \<and> (0 \<le> rc \<longrightarrow> peer_live w' fd)"
proof (cases "length buf \<le> wr_room (sk_wr (w_sock w fd))")
  case True
  from sb_write_len_loop_room [OF True assms(2), of "w_errno w"] assms(1) show ?thesis
    by (auto simp: sb_write_len_def peer_live_def rx_live_def)
next
  case False
  then have lt: "wr_room (sk_wr (w_sock w fd)) < length buf" by simp
  from sb_write_len_loop_short [OF lt, of "w_errno w"] assms(1) show ?thesis
    by (auto simp: sb_write_len_def peer_live_def split: rx_end.splits)
qed

lemma dial_out_live:
  assumes "answers (Suc n) w"
  shows "\<exists>r w'. dial_out w sa = Inr (r, w') \<and> answers n w' \<and> (\<forall>fd. r = Dial_ok fd \<longrightarrow> peer_live w' fd)"
proof -
  obtain d ds where ds: "w_dials w = d # ds" using assms by (cases "w_dials w") (auto simp: answers_def)
  have a: "answers n (w\<lparr>w_dials := ds\<rparr>)" using assms ds by (simp add: answers_def)
  show ?thesis
  proof (cases d)
    case (No_socket e)
    with a ds show ?thesis by (simp add: dial_out_def)
  next
    case (New_socket fd cs)
    then obtain r where r: "sys_connect cs = Inr r" and
      live: "\<And>s. r = Inr s \<Longrightarrow> rx_end_of (sk_rx s) \<noteq> End_block \<and> wr_end_of (sk_wr s) \<noteq> End_block"
      using assms ds by (auto simp: answers_def split: sum.splits)
    with a ds New_socket show ?thesis
      by (cases r) (auto simp: dial_out_def Let_def peer_live_def rx_live_def answers_def sys_close_def)
  qed
qed

lemma negotiate_live:
  assumes "peer_live w (cc_fd_out con)"
  shows "\<exists>ok w'. sock5_client_negotiate_auth con w = Inr (ok, w') \<and> answers n w' = answers n w \<and>
           (ok \<longrightarrow> peer_live w' (cc_fd_out con))"
proof -
  let ?fd = "cc_fd_out con"
  obtain rc w1 where 1: "sb_write_len w ?fd [5, 1, 0] = Inr (rc, w1)" "answers n w1 = answers n w"
    "0 \<le> rc \<longrightarrow> peer_live w1 ?fd"
    using sb_write_len_live [OF assms, of "[5, 1, 0]"] by auto
  show ?thesis
  proof (cases "rc < 0")
    case True
    with 1 show ?thesis by (simp add: sock5_client_negotiate_auth_def socks_consts Let_def ex_bool_eq)
  next
    case False
    then obtain rc2 d w2 where "sb_read_len w1 ?fd 2 = Inr (rc2, d, w2)" "only_rx ?fd w1 w2"
      "0 \<le> rc2 \<longrightarrow> peer_live w2 ?fd"
      using sb_read_len_live [of w1 ?fd 2] 1(3) by auto
    with 1 False answers_only_rx [of ?fd w1 w2 n] show ?thesis
      by (auto simp: sock5_client_negotiate_auth_def socks_consts Let_def)
  qed
qed

lemma command_bytes_ok:
  assumes "req_ok con"
  shows "\<exists>m. socks5_command_bytes con = Inr m \<and> (\<forall>bs. m = Some bs \<longrightarrow> bs \<noteq> [])"
  using assms
  by (auto simp: req_ok_def socks5_command_bytes_def socks_consts host_id_get_addr_as_byte_array_def Let_def
      split: sockaddr.splits)

lemma send_command_live:
  assumes "peer_live w (cc_fd_out con)" and "req_ok con"
  shows "\<exists>ok w'. socks5_client_send_command con w = Inr (ok, w') \<and> answers n w' = answers n w \<and>
           (ok \<longrightarrow> peer_live w' (cc_fd_out con))"
proof -
  obtain m where m: "socks5_command_bytes con = Inr m" "\<forall>bs. m = Some bs \<longrightarrow> bs \<noteq> []"
    using command_bytes_ok [OF assms(2)] by blast
  show ?thesis
  proof (cases m)
    case None
    with m show ?thesis by (simp add: socks5_client_send_command_def ex_bool_eq)
  next
    case (Some bs)
    with sb_write_len_live [OF assms(1), of bs] m show ?thesis
      by (fastforce simp: socks5_client_send_command_def)
  qed
qed

lemma response_live:
  assumes "peer_live w (cc_fd_out con)"
  shows "\<exists>ok con' ft' w'. socks5_client_get_command_response con ft w = Inr (ok, con', ft', w') \<and>
           answers n w' = answers n w"
proof -
  let ?fd = "cc_fd_out con"
  obtain rc buf w1 where r: "sb_read_len w ?fd 4 = Inr (rc, buf, w1)" "only_rx ?fd w w1" "0 \<le> rc \<longrightarrow> peer_live w1 ?fd"
    using sb_read_len_live [OF assms, of 4] by blast
  have a: "answers n w1 = answers n w" by (rule answers_only_rx [OF r(2)])
  define ft1 where "ft1 = Some (uint (buf ! 1))"
  define fin where "fin = (\<lambda>w. cbind (sb_read_len w ?fd 2) (\<lambda>(rc, d, w).
     if rc < 0 then Inr (False, con, ft1, w)
     else if uint (buf ! 1) \<noteq> SOCKS5_REPLY_SUCCEED then Inr (False, con, ft1, w)
     else (Inr (True, con, ft1, w) :: (bool \<times> client_connection \<times> int option \<times> world) cres)))"
  have fin: "\<exists>ok con' ft' w'. fin v = Inr (ok, con', ft', w') \<and> answers n w' = answers n w"
    if lv: "peer_live v ?fd" and av: "answers n v = answers n w" for v
  proof -
    obtain rc d w' where "sb_read_len v ?fd 2 = Inr (rc, d, w')" "only_rx ?fd v w'"
      using sb_read_len_live [OF lv, of 2] by blast
    with answers_only_rx [of ?fd v w' n] av show ?thesis by (simp add: fin_def ex_bool_eq)
  qed
  have part: "\<exists>ok con' ft' w'. cbind (sb_read_len w1 ?fd m) (\<lambda>(rc, d, w).
      if rc < 0 then Inr (False, con, ft1, w) else fin w) = Inr (ok, con', ft', w') \<and> answers n w' = answers n w"
    if lv: "peer_live w1 ?fd" for m
  proof -
    obtain rc d w2 where r2: "sb_read_len w1 ?fd m = Inr (rc, d, w2)" "only_rx ?fd w1 w2" "0 \<le> rc \<longrightarrow> peer_live w2 ?fd"
      using sb_read_len_live [OF lv, of m] by blast
    have a2: "answers n w2 = answers n w" using answers_only_rx [OF r2(2)] a by simp
    show ?thesis
    proof (cases "rc < 0")
      case True
      with r2 a2 show ?thesis by (simp add: ex_bool_eq)
    next
      case False
      with r2 fin [OF _ a2] show ?thesis by simp
    qed
  qed
  show ?thesis
  proof (cases "rc = 4 \<and> buf ! 0 = 5")
    case False
    with r a show ?thesis by (auto simp: socks5_client_get_command_response_def)
  next
    case True
    then have "peer_live w1 ?fd" using r(3) by simp
    with part [of 4] part [of 16] True r(1) a show ?thesis
      unfolding socks5_client_get_command_response_def fin_def ft1_def Let_def
      by (auto simp: ex_bool_eq split: if_splits)
  qed
qed

text \<open>
  A connector that answers: with at least one more attempt answered, the attempt returns and
  uses up at most one answer.
\<close>

locale live_connector = connector connect for connect :: "'e \<Rightarrow> tun_ref \<Rightarrow> client_connection \<Rightarrow> int option \<Rightarrow> world
     \<Rightarrow> (bool \<times> client_connection \<times> int option \<times> world) cres" +
  fixes known :: "'e \<Rightarrow> tun_ref \<Rightarrow> bool"
  assumes connect_returns: "known e t \<Longrightarrow> req_ok con \<Longrightarrow> answers (Suc n) w \<Longrightarrow>
      \<exists>ok con' ft' w'. connect e t con ft w = Inr (ok, con', ft', w') \<and> req_ok con' \<and> answers n w'"
begin

lemma socks_connect_loop_returns:
  assumes "\<forall>t \<in> set ts. known e t" and "ts \<noteq> []" and "req_ok con" and "attempt \<le> 100"
    and "answers (101 - attempt) w"
  shows "\<exists>x. socks_connect_loop (connect e) ts attempt con ft w = Inr x"
  using assms(3-)
proof (induction "101 - attempt" arbitrary: attempt con ft w rule: less_induct)
  case less
  let ?tun = "ts ! (attempt mod length ts)"
  let ?con = "con\<lparr>cc_tunnel := Some ?tun\<rparr>"
  have "?tun \<in> set ts" using assms(2) by (meson length_greater_0_conv mod_less_divisor nth_mem)
  then have "known e ?tun" using assms(1) by blast
  moreover have "req_ok ?con" using less.prems(1) by (simp add: req_ok_def)
  moreover have "Suc (100 - attempt) = 101 - attempt" using less.prems(2) by simp
  then have "answers (Suc (100 - attempt)) w" using less.prems(3) by metis
  ultimately obtain cr con1 ft1 w1 where c: "connect e ?tun ?con ft w = Inr (cr, con1, ft1, w1)"
    "req_ok con1" "answers (100 - attempt) w1"
    using connect_returns by blast
  show ?case
  proof (cases cr)
    case True
    with c show ?thesis by (subst socks_connect_loop.simps) (simp add: Let_def ex_bool_eq)
  next
    case False
    then have "ft1 \<noteq> None" using connect_says_why c by simp
    then obtain f where f: "ft1 = Some f" by blast
    define refused where "refused = (f = SOCKS5_REPLY_CONNECTION_REFUSED)"
    define con2 where "con2 = (if refused
        then set_client_connection_status con1 CCSTATUS_ERR_NETWORK (Some ''Connection Refused'')
               (Some ''Connection to remote host was refused.'') else con1)\<lparr>cc_tunnel := None\<rparr>"
    obtain con3 w3 where cl: "close_fd_out con2 w1 = (con3, w3)" by fastforce
    have k: "req_ok con3" "answers (100 - attempt) (w3\<lparr>w_sleeps := w_sleeps w3 + 1\<rparr>)"
      using cl c unfolding close_fd_out_def con2_def
      by (auto simp: req_ok_def split: if_splits)
    have step: "socks_connect_loop (connect e) ts attempt con ft w =
      (if attempt \<ge> 100 \<or> refused then Inr (False, con3, ft1, w3)
       else socks_connect_loop (connect e) ts (attempt + 1) con3 ft1 (w3\<lparr>w_sleeps := w_sleeps w3 + 1\<rparr>))"
      using c False f cl unfolding con2_def refused_def
      by (subst socks_connect_loop.simps) (simp add: Let_def)
    show ?thesis
    proof (cases "attempt \<ge> 100 \<or> refused")
      case True
      with step show ?thesis by (simp add: ex_bool_eq)
    next
      case rec: False
      then have "101 - (attempt + 1) < 101 - attempt" "attempt + 1 \<le> 100"
        "answers (101 - (attempt + 1)) (w3\<lparr>w_sleeps := w_sleeps w3 + 1\<rparr>)" using k(2) by auto
      then have "\<exists>x. socks_connect_loop (connect e) ts (attempt + 1) con3 ft1
                     (w3\<lparr>w_sleeps := w_sleeps w3 + 1\<rparr>) = Inr x"
        using less.hyps k(1) by blast
      with step rec show ?thesis by simp
    qed
  qed
qed

end

definition known_tunnel :: "ssh_globals \<times> ssh_tunnel list \<Rightarrow> tun_ref \<Rightarrow> bool" where
  "known_tunnel env t \<longleftrightarrow>
     t = ssh_tunnel_direct (fst env) \<or> t = ssh_tunnel_null (fst env) \<or> deref_ssh (snd env) t \<noteq> None"

lemma answers_Suc: "answers (Suc n) w \<Longrightarrow> answers n w"
  by (simp add: answers_def)

lemma connect_direct_returns:
  assumes "req_ok con" and "answers (Suc n) w"
  shows "\<exists>ok con' ft' w'. connect_direct con w = Inr (ok, con', ft', w') \<and> req_ok con' \<and> answers n w'"
proof -
  have dns: "resolver_ok (w_dns w)" using assms(2) by (simp add: answers_def)
  obtain dst where dst: "direct_destination (w_dns w) (cc_dst_host con) = Inr dst"
    and keep: "host_id_has_addr (cc_dst_host con) \<longrightarrow> dst = cc_dst_host con"
  proof (cases "host_id_has_name (cc_dst_host con) \<and> \<not> host_id_has_addr (cc_dst_host con)")
    case True
    obtain rc h where "resolve_dns_for_host_id (w_dns w) (cc_dst_host con) = Inr (rc, h)"
      using dns.resolve_defined [OF dns] by metis
    with True show ?thesis
      by (cases "inet_pton4 (host_id_get_name (cc_dst_host con))")
         (auto simp: direct_destination_def intro: that)
  next
    case False
    then show ?thesis by (auto simp: direct_destination_def intro: that)
  qed
  have ok: "req_ok (con\<lparr>cc_dst_host := dst\<rparr>)"
    using assms(1) keep by (auto simp: req_ok_def host_id_has_addr_def)
  show ?thesis
  proof (cases "hid_addr dst")
    case (AF_INET sa)
    from dial_out_live [OF assms(2), of sa] obtain r w1 where "dial_out w sa = Inr (r, w1)" "answers n w1" by blast
    with AF_INET dst ok show ?thesis
      by (cases r) (auto simp: connect_direct_def host_id_get_addr_def Let_def req_ok_def)
  qed (use dst ok answers_Suc [OF assms(2)] in \<open>auto simp: connect_direct_def host_id_get_addr_def Let_def\<close>)
qed

text \<open>Behind the dial: the negotiation on a peer that goes on.\<close>

lemma negotiation_returns:
  assumes c: "c = set_client_connection_status c0 CCSTATUS_OKAY (Some ''Negotiating'')
                       (Some ''Negotiating connection with SSH SOCKS5 server'')"
    and dialled: "connect_to_ssh_socks5_proxy (set_client_connection_status con CCSTATUS_OKAY (Some ''Connecting'')
                  (Some ''Connecting to SSH SOCKS5 server'')) t w = Inr (True, c0, w1)"
    and "answers n w1" and "peer_live w1 (cc_fd_out c)" and rq: "req_ok c"
    and req: "\<And>c'. con_rest c' = con_rest c \<Longrightarrow> cc_dst_host c' = cc_dst_host c \<Longrightarrow> req_ok c'"
  shows "\<exists>ok con' ft' w'. connect_via_ssh_socks5 con t w = Inr (ok, con', ft', w') \<and> req_ok con' \<and> answers n w'"
proof -
  have "peer_live w1 (cc_fd_out c)" by fact
  then obtain ok2 w2 where 2: "sock5_client_negotiate_auth c w1 = Inr (ok2, w2)" "answers n w2"
    "ok2 \<longrightarrow> peer_live w2 (cc_fd_out c)" using negotiate_live [of w1 c n] assms(3) by auto
  show ?thesis
  proof (cases ok2)
    case False
    then have "connect_via_ssh_socks5 con t w = Inr (False, c, Some SOCKS5_REPLY_SERVER_FAILURE, w2)"
      using dialled c 2(1) by (simp add: connect_via_ssh_socks5_def Let_def)
    with rq 2(2) show ?thesis by blast
  next
    case t2: True
    then obtain ok3 w3 where 3: "socks5_client_send_command c w2 = Inr (ok3, w3)" "answers n w3"
      "ok3 \<longrightarrow> peer_live w3 (cc_fd_out c)"
      using send_command_live [of w2 c n] rq 2 by auto
    show ?thesis
    proof (cases ok3)
      case False
      then have "connect_via_ssh_socks5 con t w = Inr (False, c, Some SOCKS5_REPLY_SERVER_FAILURE, w3)"
        using dialled c 2(1) 3(1) t2 by (simp add: connect_via_ssh_socks5_def Let_def)
      with rq 3(2) show ?thesis by blast
    next
      case t3: True
      then obtain ok4 c4 ft4 w4 where
        4: "socks5_client_get_command_response c (Some SOCKS5_REPLY_SERVER_FAILURE) w3 = Inr (ok4, c4, ft4, w4)"
        "answers n w4" using response_live [of w3 c "Some SOCKS5_REPLY_SERVER_FAILURE" n] 3 by auto
      have "sock5_client_negotiate_auth c w1 = Inr (True, w2)" "socks5_client_send_command c w2 = Inr (True, w3)"
        using 2(1) 3(1) t2 t3 by simp_all
      note run = connect_via_ssh_run [OF dialled c this 4(1)]
      note f4 = response_frame [OF 4(1)]
      have "req_ok (if ok4 then set_client_connection_status c4 CCSTATUS_OKAY None None else c4)"
        by (rule req) (use f4 in auto)
      with run 4(2) show ?thesis by blast
    qed
  qed
qed

lemma connect_via_ssh_returns:
  assumes "req_ok con" and "answers (Suc n) w"
  shows "\<exists>ok con' ft' w'. connect_via_ssh_socks5 con t w = Inr (ok, con', ft', w') \<and> req_ok con' \<and> answers n w'"
proof -
  let ?start = "set_client_connection_status con CCSTATUS_OKAY (Some ''Connecting'')
                  (Some ''Connecting to SSH SOCKS5 server'')"
  let ?st = "\<lambda>c. set_client_connection_status c CCSTATUS_OKAY (Some ''Negotiating'')
                       (Some ''Negotiating connection with SSH SOCKS5 server'')"
  have req: "req_ok c'" if "con_rest c' = con_rest con" "cc_dst_host c' = cc_dst_host con" for c'
    using assms(1) that by (simp add: req_ok_def con_rest_def)
  obtain r w1 where d: "dial_out w \<lparr>sin_port = htons (st_socks_port t), sin_addr = htonl 0x7F000001\<rparr> = Inr (r, w1)"
    "answers n w1" "\<forall>fd. r = Dial_ok fd \<longrightarrow> peer_live w1 fd"
    using dial_out_live [OF assms(2)] by blast
  show ?thesis
  proof (cases r)
    case (Dial_ok fd)
    let ?c = "?st (?start\<lparr>cc_fd_out := fd\<rparr>)"
    have 1: "connect_to_ssh_socks5_proxy ?start t w = Inr (True, ?start\<lparr>cc_fd_out := fd\<rparr>, w1)"
      using d Dial_ok by (simp add: connect_to_ssh_socks5_proxy_def)
    have fd: "cc_fd_out ?c = fd" by simp
    have "peer_live w1 (cc_fd_out ?c)" using d(3) Dial_ok unfolding fd by simp
    from negotiation_returns [OF refl 1 d(2) this] show ?thesis by (simp add: req)
  next
    case (Dial_no_socket e)
    let ?c = "set_client_connection_status (?start\<lparr>cc_fd_out := -1\<rparr>) e (Some ''Error'') (Some (w_strerror w1 e))"
    have "connect_via_ssh_socks5 con t w = Inr (False, ?c, Some SOCKS5_REPLY_SERVER_FAILURE, w1)"
      using d(1) Dial_no_socket by (simp add: connect_via_ssh_socks5_def connect_to_ssh_socks5_proxy_def Let_def)
    moreover have "req_ok ?c" by (rule req) simp_all
    ultimately show ?thesis using d(2) by blast
  next
    case (Dial_failed e)
    let ?c = "if e = ECONNREFUSED
              then set_client_connection_status (?start\<lparr>cc_fd_out := -1\<rparr>) CCSTATUS_OKAY (Some ''Waiting'')
                     (Some ''SSH SOCKS5 proxy connection refused.'')
              else set_client_connection_status (?start\<lparr>cc_fd_out := -1\<rparr>) CCSTATUS_ERROR None
                     (Some (w_strerror w1 e))"
    have "connect_via_ssh_socks5 con t w = Inr (False, ?c, Some SOCKS5_REPLY_SERVER_FAILURE, w1)"
      using d(1) Dial_failed by (simp add: connect_via_ssh_socks5_def connect_to_ssh_socks5_proxy_def Let_def)
    moreover have "req_ok ?c" by (rule req) simp_all
    ultimately show ?thesis using d(2) by blast
  qed
qed

interpretation live_tun: live_connector connect_tunnel known_tunnel
proof
  show "\<exists>ok con' ft' w'. connect_tunnel e t con ft w = Inr (ok, con', ft', w') \<and> req_ok con' \<and> answers n w'"
    if "known_tunnel e t" "req_ok con" "answers (Suc n) w" for e t con ft n w
    using that connect_direct_returns [of con n w] connect_via_ssh_returns [of con n w] answers_Suc [of n w]
    by (auto simp: connect_tunnel_def connect_null_def known_tunnel_def)
qed

lemma have_ssh_tunnel_returns:
  "\<forall>t \<in> set ts. known_tunnel env t \<Longrightarrow> \<exists>b. have_ssh_tunnel env ts = Inr b"
  by (induction ts) (auto simp: known_tunnel_def)

text \<open>
  C7: connecting comes to an end, whatever fails: when the world answers 101 attempts (each
  is made, refused or fails, and a proxy that is reached answers, closes or fails), the
  route names known tunnels and the request is consistent, \<open>socks_connect\<close> returns, without
  undefined behaviour.
\<close>

theorem socks_connect_returns:
  assumes "cc_route con = Some r" and "\<forall>t \<in> set (rr_tunnel r). known_tunnel env t"
    and "req_ok con" and "answers 101 w"
  shows "\<exists>ok con' ft' w'. socks_connect env con ft w = Inr (ok, con', ft', w')"
proof (cases "rr_tunnel r = []")
  case True
  with assms(1) show ?thesis by (simp add: socks_connect_def ex_bool_eq)
next
  case False
  obtain b where b: "have_ssh_tunnel env (rr_tunnel r) = Inr b"
    using have_ssh_tunnel_returns [OF assms(2)] by blast
  let ?w = "if b then w\<lparr>w_msgs := w_msgs w + 1\<rparr> else w"
  have "answers (101 - 0) ?w" using assms(4) by simp
  from live_tun.socks_connect_loop_returns [OF assms(2) False assms(3) _ this, of ft] obtain x
    where "socks_connect_loop (connect_tunnel env) (rr_tunnel r) 0 con ft ?w = Inr x" by auto
  with assms(1) b False show ?thesis by (cases x) (auto simp: socks_connect_def Let_def)
qed

theorem socks_connect_returns_witness:
  "let con = (con_routed [1, 7, 3] (con_to ''db'' AF_UNSPEC 80))\<lparr>cc_socks_address_type := 3\<rparr>;
       w = quiet_world\<lparr>w_dials := replicate 101 (No_socket 24)\<rparr> in
   \<exists>x. socks_connect (three_tunnels, [zero_tunnel\<lparr>st_id := 7\<rparr>]) con None w = Inr x"
proof -
  let ?con = "(con_routed [1, 7, 3] (con_to ''db'' AF_UNSPEC 80))\<lparr>cc_socks_address_type := 3\<rparr>"
  let ?w = "quiet_world\<lparr>w_dials := replicate 101 (No_socket 24)\<rparr>"
  have r: "cc_route ?con = Some (plain_rule\<lparr>rr_tunnel := [1, 7, 3]\<rparr>)" by (simp add: con_routed_def)
  have k: "\<forall>t \<in> set (rr_tunnel (plain_rule\<lparr>rr_tunnel := [1, 7, 3]\<rparr>)).
             known_tunnel (three_tunnels, [zero_tunnel\<lparr>st_id := 7\<rparr>]) t"
    by (simp add: known_tunnel_def three_tunnels_def deref_ssh_def)
  have q: "req_ok ?con" by (simp add: req_ok_def)
  have a: "answers 101 ?w"
    by (simp add: answers_def quiet_world_def resolver_ok_def answers_ok_def list_all_length)
  from socks_connect_returns [OF r k q a, of None] show ?thesis unfolding Let_def by blast
qed

end
