(* ===== verification/Http.thy ===== *)
theory Http
  imports Handlers Outgoing
begin

text \<open>
  \<open>src/service_http.c\<close>: the web server that hands out the status page. A connection sends one
  request line and gets one answer. The file system is a parameter: a name that does not
  exist, one that cannot be opened, or the outcomes of the reads of the open file, a script as
  for a socket (a directory opens and its reads fail). The state document comes from the main
  thread, which sets three fields of the connection while this thread sleeps.
\<close>

type_synonym http_files = "string \<Rightarrow> rd_event list option option"

section \<open>Strings to the client\<close>

definition bytes_of :: "string \<Rightarrow> byte list" where
  "bytes_of s = map byte_of_char s"

text \<open>A null string counts as sent.\<close>

definition send_string :: "client_connection \<Rightarrow> string option \<Rightarrow> world \<Rightarrow> (bool \<times> world) cres" where
  "send_string con str w =
     (case str of
        None \<Rightarrow> Inr (True, w)
      | Some s \<Rightarrow>
          let size = length s
          in cmap (\<lambda>(rc, w). (rc = int size, w)) (sb_write_len w (cc_fd_in con) (bytes_of s)))"

text \<open>The statements \<open>if (ok) ok = send_string (...)\<close> one behind the other.\<close>

fun send_strings :: "client_connection \<Rightarrow> string option list \<Rightarrow> bool \<Rightarrow> world \<Rightarrow> (bool \<times> world) cres" where
  "send_strings con [] ok w = Inr (ok, w)"
| "send_strings con (s # strs) ok w =
     (if ok then cbind (send_string con s w) (\<lambda>(ok, w). send_strings con strs ok w)
      else send_strings con strs ok w)"

definition basic_response :: "client_connection \<Rightarrow> string \<Rightarrow> string option \<Rightarrow> world \<Rightarrow> (bool \<times> world) cres" where
  "basic_response con responseStr content_type w =
     send_strings con
       ([Some ''HTTP/1.1 '', Some responseStr, Some [chr_lf],
         Some (''Server: SmartSOCKSProxy/1.0'' @ [chr_lf]),
         Some (''Connection: Closed'' @ [chr_lf]),
         Some (''Transfer-Encoding: identity'' @ [chr_lf])] @
        (case content_type of None \<Rightarrow> []
         | Some t \<Rightarrow> [Some ''Content-Type: '', Some t, Some [chr_lf]]) @
        [Some [chr_lf]]) True w"

section \<open>The request line\<close>

text \<open>
  Up to \<open>n\<close> characters, one read each, to the first carriage return or line feed. The result
  is the last return code, the characters before the end of the line, and the world.
\<close>

fun read_line_loop :: "nat \<Rightarrow> int \<Rightarrow> world \<Rightarrow> (int \<times> byte list \<times> world) cres" where
  "read_line_loop 0 fd w = Inr (1, [], w)"
| "read_line_loop (Suc n) fd w =
     cbind (sb_read_len w fd 1) (\<lambda>(rc, d, w).
       if rc > 0 then
         (if d = [10] \<or> d = [13] then Inr (rc, [], w)
          else cmap (\<lambda>(rc, line, w). (rc, d @ line, w)) (read_line_loop n fd w))
       else Inr (rc, [], w))"

definition read_one_line_safely :: "int \<Rightarrow> nat \<Rightarrow> world \<Rightarrow> (int \<times> byte list \<times> world) cres" where
  "read_one_line_safely fd buflen w =
     (if buflen < 1 then Inr (0, [], w)
      else cmap (\<lambda>(rc, line, w). (if rc > 0 then int (length line) else rc, line, w)) (read_line_loop buflen fd w))"

text \<open>Loop and white list of \<open>get_safe_filename_from_request\<close>; \<open>room\<close> is what \<open>filename\<close> still takes.\<close>

definition filename_char :: "char \<Rightarrow> bool" where
  "filename_char chr \<longleftrightarrow>
     (ccode (CHR ''a'') \<le> ccode chr \<and> ccode chr \<le> ccode (CHR ''z'')) \<or>
     (ccode (CHR ''A'') \<le> ccode chr \<and> ccode chr \<le> ccode (CHR ''Z'')) \<or>
     (ccode (CHR ''0'') \<le> ccode chr \<and> ccode chr \<le> ccode (CHR ''9'')) \<or>
     chr = CHR ''_'' \<or> chr = CHR ''-'' \<or> chr = CHR ''.'' \<or> chr = CHR ''+'' \<or> chr = CHR '':''"

fun filename_loop :: "nat \<Rightarrow> string \<Rightarrow> string" where
  "filename_loop room [] = []"
| "filename_loop room (chr # src) =
     (if chr = CHR '' '' \<or> room = 0 then []
      else if filename_char chr then chr # filename_loop (room - 1) src
      else filename_loop room src)"

definition get_safe_filename_from_request :: "string \<Rightarrow> nat \<Rightarrow> string" where
  "get_safe_filename_from_request request len = filename_loop (len - 1) (drop 5 request)"

section \<open>Files\<close>

definition content_types :: "(string \<times> string) list" where
  "content_types =
     [(''.html'', ''text/html; charset=utf-8''),
      (''.css'', ''text/css; charset=utf-8''),
      (''.txt'', ''text/plain''),
      (''.js'', ''application/javascript; charset=utf-8''),
      (''.json'', ''application/javascript; charset=utf-8''),
      (''.xml'', ''text/xml''),
      (''.xhtml'', ''application/xhtml+xml''),
      (''.gif'', ''image/gif''),
      (''.png'', ''image/png''),
      (''.jpg'', ''image/jpeg''),
      (''.jpeg'', ''image/jpeg''),
      (''.svg'', ''image/svg+xml'')]"

fun content_type_of :: "(string \<times> string) list \<Rightarrow> string \<Rightarrow> string option cres" where
  "content_type_of [] filename = Inr None"
| "content_type_of ((ext, t) # table) filename =
     cbind (string_ends_with filename ext) (\<lambda>b. if b then Inr (Some t) else content_type_of table filename)"

text \<open>
  One \<open>read\<close> of a file. Its script has one outcome for each call: at the end of the file every
  call finds the end anew, and what a script says behind an end is what the calls after it
  find, more of the file or a failure.
\<close>

definition read_from_file :: "nat \<Rightarrow> rd_event list \<times> int \<Rightarrow> (int \<times> byte list \<times> rd_event list \<times> int) cres" where
  "read_from_file n s = cmap (\<lambda>(rc, buf, es, en). (rc, buf, if rc = 0 then drop 1 es else es, en)) (sys_read n s)"

lemma sys_read_at_end: "sys_read n (es, en) = Inr (0, buf, es', en') \<Longrightarrow> 0 < n \<Longrightarrow> \<exists>r. es' = Rd_eof # r \<and> rx_size es' \<le> rx_size es"
proof (induction n "(es, en)" arbitrary: es rule: sys_read.induct)
  case (2 n bs es)
  then show ?case by (cases "bs = []") (auto split: if_splits)
qed (auto split: if_splits)

lemma read_from_file_size:
  assumes "read_from_file n (es, en) = Inr (rc, buf, es', en')" and "0 < n"
  shows "rx_size es' < rx_size es"
proof -
  obtain es1 where r: "sys_read n (es, en) = Inr (rc, buf, es1, en')" "es' = (if rc = 0 then drop 1 es1 else es1)"
    using assms(1) by (auto simp: read_from_file_def cmap_def elim!: cbind_InrE)
  show ?thesis
  proof (cases "rc = 0")
    case True
    with r sys_read_at_end [of n es en buf es1 en'] assms(2) show ?thesis by auto
  qed (use r sys_read_size [OF r(1) assms(2)] in simp)
qed

text \<open>
  The loop that copies the file. Behind a read it goes on when the read gave something or
  \<open>errno\<close> is \<open>EINTR\<close>, whoever set it: a read that finds the end leaves \<open>errno\<close> alone.
\<close>

function copy_file_loop :: "client_connection \<Rightarrow> bool \<Rightarrow> rd_event list \<Rightarrow> world \<Rightarrow> (bool \<times> world) cres" where
  "copy_file_loop con ok es w =
     cbind (read_from_file 999 (es, w_errno w)) (\<lambda>(rc, buf, es', en).
     cbind (if rc > 0
            then cmap (\<lambda>(wrc, w). (if wrc \<noteq> rc then False else ok, w)) (sb_write_len (w\<lparr>w_errno := en\<rparr>) (cc_fd_in con) buf)
            else Inr (ok, w\<lparr>w_errno := en\<rparr>)) (\<lambda>(ok, w).
     if ok \<and> (rc > 0 \<or> w_errno w = EINTR) then copy_file_loop con ok es' w
     else Inr (ok, w)))"
  by pat_completeness auto
termination
  by (relation "measure (\<lambda>(con, ok, es, w). rx_size es)") (auto dest: read_from_file_size)

declare copy_file_loop.simps [simp del]

definition HTTP_PATH_MAX :: nat where "HTTP_PATH_MAX = 9000"

definition http_full_filename :: "service_http \<Rightarrow> string \<Rightarrow> string" where
  "http_full_filename http filename = snprintf_cut (HTTP_PATH_MAX - 1) (http_base_dir http @ ''/'' @ filename)"

definition return_file_contents ::
  "http_files \<Rightarrow> service_http \<Rightarrow> client_connection \<Rightarrow> string \<Rightarrow> world \<Rightarrow> (string \<times> client_connection \<times> world) cres" where
  "return_file_contents fs http con request w =
     (let (filename, con) =
            (if string_starts_with request ''GET / '' then (''index.html'', con)
             else let filename = get_safe_filename_from_request request 4095
                  in (filename, con\<lparr>cc_urlPath := take 4095 filename\<rparr>))
      in cbind (content_type_of content_types filename) (\<lambda>content_type.
         let full_filename = http_full_filename http filename
         in case fs full_filename of
              None \<Rightarrow> cmap (\<lambda>(ok, w). (''404 Not Found'', con, w)) (basic_response con ''404 Not Found'' None w)
            | Some None \<Rightarrow> cmap (\<lambda>(ok, w). (''404 Not Found'', con, w)) (basic_response con ''404 Not Found'' None w)
            | Some (Some es) \<Rightarrow>
                cbind (basic_response con ''200 OK'' content_type w) (\<lambda>(ok, w).
                cmap (\<lambda>(ok, w). (''200 OK'', con, w)) (copy_file_loop con ok es w))))"

section \<open>The state document\<close>

text \<open>
  What the main thread does to the connection during sleep number \<open>i\<close> is \<open>main i\<close>; the thread
  looks at the flag before each of at most 100 sleeps of 10 ms. The flag is not looked at
  under the mutex; behind the loop the fields are taken as they are then.
\<close>

fun json_wait ::
  "nat \<Rightarrow> (nat \<Rightarrow> client_connection \<Rightarrow> client_connection) \<Rightarrow> nat \<Rightarrow> client_connection \<Rightarrow> world
     \<Rightarrow> client_connection \<times> world" where
  "json_wait 0 main i con w = (con, w)"
| "json_wait (Suc n) main i con w =
     (if cc_JSONStatusReady con then (con, w)
      else json_wait n main (i + 1) (main i con) (w\<lparr>w_sleeps := w_sleeps w + 1\<rparr>))"

definition return_connection_state_json ::
  "(nat \<Rightarrow> client_connection \<Rightarrow> client_connection) \<Rightarrow> client_connection \<Rightarrow> world \<Rightarrow> (string \<times> client_connection \<times> world) cres" where
  "return_connection_state_json main con w =
     (let con = con\<lparr>cc_JSONStatusRequested := True\<rparr>;
          w = w\<lparr>w_msgs := w_msgs w + 1\<rparr>;
          (con, w) = json_wait 100 main 0 con w
      in cbind (send_string con (Some ''HTTP/1.1 '') w) (\<lambda>(ok, w).
         let (responseStr, contentType) =
               (if cc_JSONStatusReady con then (''200 OK'', Some '' application/json'')
                else (''503 Service Unavailable'', None))
         in cbind (if ok then basic_response con responseStr contentType w else Inr (ok, w)) (\<lambda>(ok, w).
            cmap (\<lambda>(ok, w). (responseStr, con\<lparr>cc_JSONStatusStr := None\<rparr>, w))
              (if cc_JSONStatusReady con \<and> cc_JSONStatusStr con \<noteq> None \<and> ok
               then send_string con (cc_JSONStatusStr con) w else Inr (ok, w)))))"

section \<open>The handler\<close>

definition http_answer ::
  "http_files \<Rightarrow> (nat \<Rightarrow> client_connection \<Rightarrow> client_connection) \<Rightarrow> service_http \<Rightarrow> client_connection \<Rightarrow> string \<Rightarrow> world
     \<Rightarrow> (string \<times> client_connection \<times> world) cres" where
  "http_answer fs main http con request w =
     (if string_starts_with request ''GET /status.json '' then
        return_connection_state_json main (con\<lparr>cc_urlPath := ''status.json''\<rparr>) w
      else if string_starts_with request ''GET /'' then return_file_contents fs http con request w
      else cmap (\<lambda>(ok, w). (''400 Bad Request'', con, w)) (basic_response con ''400 Bad Request'' None w))"

definition service_http_connection_handler ::
  "http_files \<Rightarrow> (nat \<Rightarrow> client_connection \<Rightarrow> client_connection) \<Rightarrow> service_http \<Rightarrow> client_connection \<Rightarrow> world
     \<Rightarrow> (client_connection \<times> world) cres" where
  "service_http_connection_handler fs main http con w =
     cbind (read_one_line_safely (cc_fd_in con) 999 w) (\<lambda>(rc, line, w).
     cbind (if rc \<le> 0 then Inr (''500 Internal Server Error'', con, w)
            else http_answer fs main http con (cstr_of_bytes line) w) (\<lambda>(responseStr, con, w).
     service_thread_shutdown (con\<lparr>cc_JSONStatusStr := None\<rparr>) True w))"

section \<open>Calls that do not fail\<close>

text \<open>A socket none of whose calls fails: its reads and writes leave \<open>errno\<close> as it is.\<close>

definition rx_calm :: "rd_event list \<Rightarrow> bool" where
  "rx_calm es \<longleftrightarrow> (\<forall>e. Rd_fail e \<notin> set es)"

definition tx_calm :: "wr_event list \<Rightarrow> bool" where
  "tx_calm es \<longleftrightarrow> (\<forall>e. Wr_fail e \<notin> set es)"

definition calm :: "world \<Rightarrow> int \<Rightarrow> bool" where
  "calm w fd \<longleftrightarrow> rx_calm (sk_rx (w_sock w fd)) \<and> tx_calm (sk_wr (w_sock w fd))"

lemma sys_read_calm:
  "sys_read n (es, en) = Inr (rc, d, es', en') \<Longrightarrow> rx_calm es \<Longrightarrow> rx_calm es' \<and> en' = en \<and> 0 \<le> rc"
  by (induction n "(es, en)" arbitrary: es rule: sys_read.induct) (auto simp: rx_calm_def split: if_splits)

lemma sys_write_calm:
  "sys_write buf (es, en) = Inr (rc, d, es', en') \<Longrightarrow> tx_calm es \<Longrightarrow> tx_calm es' \<and> en' = en \<and> 0 \<le> rc"
  by (induction buf "(es, en)" rule: sys_write.induct) (auto simp: tx_calm_def split: if_splits)

lemma sb_read_len_loop_calm:
  "sb_read_len_loop n (es, en) = Inr (rc, d, es', en') \<Longrightarrow> rx_calm es \<Longrightarrow> rx_calm es' \<and> en' = en"
proof (induction n "(es, en)" arbitrary: es en rc d rule: sb_read_len_loop.induct)
  case (1 n es en)
  obtain rc1 d1 es1 en1 where r: "sys_read n (es, en) = Inr (rc1, d1, es1, en1)"
    using "1.prems"(1) by (subst (asm) sb_read_len_loop.simps) (auto elim: cbind_InrE)
  note c = sys_read_calm [OF r "1.prems"(2)]
  note ih = "1.hyps" [OF r refl refl refl refl]
  show ?case
    using "1.prems" r c ih by (subst (asm) sb_read_len_loop.simps)
      (auto simp: Let_def cmap_def split: if_splits elim!: cbind_InrE)
qed

lemma sb_write_len_loop_calm:
  "sb_write_len_loop buf (es, en) = Inr (rc, d, es', en') \<Longrightarrow> tx_calm es \<Longrightarrow> tx_calm es' \<and> en' = en"
proof (induction buf "(es, en)" arbitrary: es en rc d rule: sb_write_len_loop.induct)
  case (1 buf es en)
  obtain rc1 d1 es1 en1 where r: "sys_write buf (es, en) = Inr (rc1, d1, es1, en1)"
    using "1.prems"(1) by (subst (asm) sb_write_len_loop.simps) (auto elim: cbind_InrE)
  note c = sys_write_calm [OF r "1.prems"(2)]
  note ih = "1.hyps" [OF r refl refl refl refl]
  show ?case
    using "1.prems" r c ih by (subst (asm) sb_write_len_loop.simps)
      (auto simp: Let_def cmap_def split: if_splits elim!: cbind_InrE)
qed

lemma sb_read_len_calm:
  assumes "sb_read_len w fd n = Inr (rc, d, w')" and "calm w fd"
  shows "calm w' fd \<and> w_errno w' = w_errno w"
  using assms sb_read_len_loop_calm by (fastforce simp: sb_read_len_def calm_def cmap_def elim!: cbind_InrE)

text \<open>What has gone out on a calm socket.\<close>

definition sends :: "int \<Rightarrow> world \<Rightarrow> world \<Rightarrow> byte list \<Rightarrow> bool" where
  "sends fd w w' bs \<longleftrightarrow>
     only_tx fd w w' bs \<and> w_errno w' = w_errno w \<and> calm w' fd \<and> tx_room w' fd + length bs = tx_room w fd"

lemma only_tx_append: "only_tx fd w w1 a \<Longrightarrow> only_tx fd w1 w2 b \<Longrightarrow> only_tx fd w w2 (a @ b)"
  unfolding only_tx_def by clarsimp blast

lemma only_tx_refl: "only_tx fd w w []"
  unfolding only_tx_def by (rule exI [of _ "sk_wr (w_sock w fd)"], rule exI [of _ "w_errno w"]) simp

lemma sends_append: "sends fd w w1 a \<Longrightarrow> sends fd w1 w2 b \<Longrightarrow> sends fd w w2 (a @ b)"
  by (auto simp: sends_def intro: only_tx_append)

lemma sb_write_len_sends:
  assumes "calm w fd" and "length buf \<le> tx_room w fd" and "buf \<noteq> []"
  shows "\<exists>w'. sb_write_len w fd buf = Inr (int (length buf), w') \<and> sends fd w w' buf"
proof -
  obtain w' where w': "sb_write_len w fd buf = Inr (int (length buf), w')" "only_tx fd w w' buf"
    "tx_room w' fd = tx_room w fd - length buf"
    using sb_write_len_room [OF assms(2,3)] by blast
  have "tx_calm (sk_wr (w_sock w' fd)) \<and> w_errno w' = w_errno w"
    using w'(1) assms(1) sb_write_len_loop_calm
    by (fastforce simp: sb_write_len_def calm_def cmap_def elim!: cbind_InrE)
  moreover have "sk_rx (w_sock w' fd) = sk_rx (w_sock w fd)" by (rule only_tx_frame(3) [OF w'(2)])
  ultimately show ?thesis using w' assms(1,2) by (auto simp: sends_def calm_def)
qed

lemma length_bytes_of [simp]: "length (bytes_of s) = length s"
  by (simp add: bytes_of_def)

lemma bytes_of_simps [simp]:
  "bytes_of [] = []" "bytes_of (c # s) = byte_of_char c # bytes_of s" "bytes_of (s @ t) = bytes_of s @ bytes_of t"
  "bytes_of s = [] \<longleftrightarrow> s = []"
  by (simp_all add: bytes_of_def)

lemma send_string_sends:
  assumes "calm w (cc_fd_in con)" and "length s \<le> tx_room w (cc_fd_in con)" and "s \<noteq> []"
  shows "\<exists>w'. send_string con (Some s) w = Inr (True, w') \<and> sends (cc_fd_in con) w w' (bytes_of s)"
  using sb_write_len_sends [of w "cc_fd_in con" "bytes_of s"] assms by (auto simp: send_string_def)

lemma send_strings_sends:
  "calm w (cc_fd_in con) \<Longrightarrow> length (concat strs) \<le> tx_room w (cc_fd_in con) \<Longrightarrow> [] \<notin> set strs \<Longrightarrow>
     \<exists>w'. send_strings con (map Some strs) True w = Inr (True, w') \<and> sends (cc_fd_in con) w w' (bytes_of (concat strs))"
proof (induction strs arbitrary: w)
  case Nil
  then show ?case by (auto simp: sends_def only_tx_refl)
next
  case (Cons s strs)
  obtain w1 where w1: "send_string con (Some s) w = Inr (True, w1)" "sends (cc_fd_in con) w w1 (bytes_of s)"
    using send_string_sends [of w con s] Cons.prems by auto
  then have "calm w1 (cc_fd_in con)" "length (concat strs) \<le> tx_room w1 (cc_fd_in con)"
    using Cons.prems by (auto simp: sends_def)
  then obtain w2 where "send_strings con (map Some strs) True w1 = Inr (True, w2)"
    "sends (cc_fd_in con) w1 w2 (bytes_of (concat strs))"
    using Cons.IH [of w1] Cons.prems by auto
  with w1 show ?case by (auto intro: sends_append)
qed

text \<open>The header \<open>basic_response\<close> writes.\<close>

definition http_header :: "string \<Rightarrow> string option \<Rightarrow> string" where
  "http_header responseStr content_type =
     ''HTTP/1.1 '' @ responseStr @ [chr_lf] @ ''Server: SmartSOCKSProxy/1.0'' @ [chr_lf] @
     ''Connection: Closed'' @ [chr_lf] @ ''Transfer-Encoding: identity'' @ [chr_lf] @
     (case content_type of None \<Rightarrow> [] | Some t \<Rightarrow> ''Content-Type: '' @ t @ [chr_lf]) @ [chr_lf]"

lemma basic_response_sends:
  assumes "calm w (cc_fd_in con)" and "length (http_header r ct) \<le> tx_room w (cc_fd_in con)"
    and "r \<noteq> []" and "ct \<noteq> Some []"
  shows "\<exists>w'. basic_response con r ct w = Inr (True, w') \<and> sends (cc_fd_in con) w w' (bytes_of (http_header r ct))"
proof -
  define strs where "strs = [''HTTP/1.1 '', r, [chr_lf], ''Server: SmartSOCKSProxy/1.0'' @ [chr_lf],
      ''Connection: Closed'' @ [chr_lf], ''Transfer-Encoding: identity'' @ [chr_lf]] @
      (case ct of None \<Rightarrow> [] | Some t \<Rightarrow> [''Content-Type: '', t, [chr_lf]]) @ [[chr_lf]]"
  have run: "basic_response con r ct w = send_strings con (map Some strs) True w"
    by (cases ct) (simp_all add: basic_response_def strs_def del: send_strings.simps)
  have whole: "concat strs = http_header r ct" by (cases ct) (simp_all add: strs_def http_header_def)
  have "[] \<notin> set strs" using assms(3,4) by (cases ct) (auto simp: strs_def)
  from send_strings_sends [OF assms(1) _ this] assms(2) show ?thesis by (simp add: run whole)
qed

section \<open>Reading the request, copying the file\<close>

lemma read_line_loop_line:
  "rx_has w fd (line @ e # rest) \<Longrightarrow> calm w fd \<Longrightarrow> e = 10 \<or> e = 13 \<Longrightarrow> 10 \<notin> set line \<Longrightarrow> 13 \<notin> set line \<Longrightarrow>
     length line < n \<Longrightarrow>
     \<exists>w'. read_line_loop n fd w = Inr (1, line, w') \<and> only_rx fd w w' \<and> calm w' fd \<and> w_errno w' = w_errno w"
proof (induction line arbitrary: n w)
  case Nil
  then obtain m where n: "n = Suc m" by (cases n) auto
  obtain w' where w': "sb_read_len w fd 1 = Inr (1, [e], w')" "only_rx fd w w'"
    using sb_read_len_has [of w fd "[e]" rest 1] Nil.prems(1) by auto
  with n Nil.prems sb_read_len_calm [OF w'(1)] show ?case by auto
next
  case (Cons b line)
  then obtain m where n: "n = Suc m" by (cases n) auto
  obtain w1 where w1: "sb_read_len w fd 1 = Inr (1, [b], w1)" "only_rx fd w w1" "rx_has w1 fd (line @ e # rest)"
    using sb_read_len_has [of w fd "[b]" "line @ e # rest" 1] Cons.prems(1) by auto
  note c = sb_read_len_calm [OF w1(1) Cons.prems(2)]
  obtain w2 where "read_line_loop m fd w1 = Inr (1, line, w2)" "only_rx fd w1 w2" "calm w2 fd" "w_errno w2 = w_errno w1"
    using Cons.IH [OF w1(3), of m] c Cons.prems n by auto
  with n w1 c Cons.prems show ?case by (auto intro: only_rx_trans)
qed

text \<open>The data of a file, and what the loop does with it: with room on the socket all its bytes are sent.\<close>

definition only_data :: "rd_event list \<Rightarrow> bool" where
  "only_data es \<longleftrightarrow> list_all (\<lambda>e. case e of Rd_data bs \<Rightarrow> True | _ \<Rightarrow> False) es"

lemma only_data_simps [simp]:
  "only_data []" "only_data (Rd_data bs # es) = only_data es" "\<not> only_data (Rd_eof # es)" "\<not> only_data (Rd_fail e # es)"
  by (simp_all add: only_data_def)

lemma file_data:
  "rx_calm es \<Longrightarrow> rx_end_of es = End_eof \<Longrightarrow> \<exists>pre rest. es = pre @ Rd_eof # rest \<and> only_data pre \<and> rx_stream pre = rx_stream es"
proof (induction es)
  case (Cons e es)
  show ?case
  proof (cases e)
    case (Rd_data bs)
    with Cons obtain pre rest where "es = pre @ Rd_eof # rest" "only_data pre" "rx_stream pre = rx_stream es"
      by (auto simp: rx_calm_def)
    with Rd_data show ?thesis by (intro exI [of _ "Rd_data bs # pre"] exI [of _ rest]) simp
  next
    case Rd_eof
    then show ?thesis by (intro exI [of _ "[]"] exI [of _ es]) simp
  qed (use Cons.prems in \<open>auto simp: rx_calm_def\<close>)
qed simp

lemma copy_file_loop_copies:
  "calm w (cc_fd_in con) \<Longrightarrow> only_data pre \<Longrightarrow> length (rx_stream pre) \<le> tx_room w (cc_fd_in con) \<Longrightarrow>
     \<exists>w'. copy_file_loop con True (pre @ tail) w = copy_file_loop con True tail w' \<and>
       sends (cc_fd_in con) w w' (rx_stream pre)"
proof (induction "rx_size pre" arbitrary: pre w rule: less_induct)
  case less
  show ?case
  proof (cases pre)
    case Nil
    with less.prems(1) show ?thesis by (auto simp: sends_def only_tx_refl)
  next
    case (Cons e es)
    then obtain bs where e: "e = Rd_data bs" using less.prems(2) by (cases e) auto
    show ?thesis
    proof (cases "bs = []")
      case True
      have "copy_file_loop con True (pre @ tail) w = copy_file_loop con True (es @ tail) w"
        by (subst (1 2) copy_file_loop.simps) (simp add: Cons e True read_from_file_def)
      with less.hyps [of es w] less.prems show ?thesis by (simp add: Cons e True)
    next
      case False
      let ?d = "take 999 bs" and ?es = "if length bs \<le> 999 then es else Rd_data (drop 999 bs) # es"
      have len: "int (length ?d) = int (min 999 (length bs))" "0 < length ?d" using False by simp_all
      have stream: "rx_stream pre = ?d @ rx_stream ?es" by (simp add: Cons e)
      obtain w1 where w1: "sb_write_len w (cc_fd_in con) ?d = Inr (int (length ?d), w1)" "sends (cc_fd_in con) w w1 ?d"
        using sb_write_len_sends [of w "cc_fd_in con" ?d] less.prems False by (auto simp: stream)
      have "read_from_file 999 (pre @ tail, w_errno w) = Inr (int (length ?d), ?d, ?es @ tail, w_errno w)"
        using False by (simp add: read_from_file_def Cons e)
      then have step: "copy_file_loop con True (pre @ tail) w = copy_file_loop con True (?es @ tail) w1"
        using len(2) w1(1) by (subst copy_file_loop.simps) (simp add: world.update_convs)
      have "rx_size ?es < rx_size pre" "only_data ?es" using False less.prems(2) by (auto simp: Cons e)
      moreover have "calm w1 (cc_fd_in con)" "length (rx_stream ?es) \<le> tx_room w1 (cc_fd_in con)"
        using w1(2) less.prems(3) by (auto simp: sends_def stream)
      ultimately obtain w2 where "copy_file_loop con True (?es @ tail) w1 = copy_file_loop con True tail w2"
        "sends (cc_fd_in con) w1 w2 (rx_stream ?es)"
        using less.hyps [of ?es w1] by blast
      with step sends_append [OF w1(2), of w2 "rx_stream ?es"] show ?thesis unfolding stream by (intro exI [of _ w2]) (simp only: simp_thms)
    qed
  qed
qed

lemma copy_file_loop_end: "w_errno w \<noteq> EINTR \<Longrightarrow> copy_file_loop con True (Rd_eof # rest) w = Inr (True, w)"
  by (subst copy_file_loop.simps) (simp add: read_from_file_def)

text \<open>With a stale \<open>EINTR\<close> the end of the file does not end the loop; only a read that fails does.\<close>

lemma copy_file_loop_stale:
  assumes "w_errno w = EINTR" and "stop \<noteq> Some EINTR"
  shows "copy_file_loop con True (replicate n Rd_eof @ map Rd_fail (case stop of None \<Rightarrow> [] | Some e \<Rightarrow> [e])) w =
    (case stop of None \<Rightarrow> Inl Hang | Some e \<Rightarrow> Inr (True, w\<lparr>w_errno := e\<rparr>))"
proof (induction n)
  case 0
  show ?case using assms(2) by (subst copy_file_loop.simps) (auto simp: read_from_file_def split: option.split)
next
  case (Suc n)
  have stale: "w\<lparr>w_errno := 4\<rparr> = w" using assms(1) by (cases w) simp
  show ?case by (subst replicate_Suc, subst copy_file_loop.simps) (simp add: read_from_file_def assms(1) stale Suc)
qed

section \<open>The file that is served\<close>

lemma filename_loop_chars: "c \<in> set (filename_loop room s) \<Longrightarrow> filename_char c"
  by (induction room s rule: filename_loop.induct) (auto split: if_splits)

lemma length_filename_loop: "length (filename_loop room s) \<le> room \<and> length (filename_loop room s) \<le> length s"
proof (induction room s rule: filename_loop.induct)
  case (2 room c s)
  then show ?case by (cases room) auto
qed simp

lemma filename_no_slash: "filename_char c \<Longrightarrow> c \<noteq> CHR ''/''"
  by (auto simp: filename_char_def)

text \<open>The name the request asks for, as the handler takes it.\<close>

definition requested_name :: "string \<Rightarrow> string" where
  "requested_name request =
     (if string_starts_with request ''GET / '' then ''index.html'' else get_safe_filename_from_request request 4095)"

lemma requested_name_safe:
  "CHR ''/'' \<notin> set (requested_name request)" "length (requested_name request) < 4095"
proof -
  show "CHR ''/'' \<notin> set (requested_name request)"
    using filename_loop_chars filename_no_slash
    by (auto simp: requested_name_def get_safe_filename_from_request_def)
  show "length (requested_name request) < 4095"
    using length_filename_loop [of 4094 "drop 5 request"]
    by (simp add: requested_name_def get_safe_filename_from_request_def)
qed

lemma full_filename_uncut:
  "length (http_base_dir http) < 4096 \<Longrightarrow> length n < 4095 \<Longrightarrow> http_full_filename http n = http_base_dir http @ ''/'' @ n"
  by (simp add: http_full_filename_def HTTP_PATH_MAX_def snprintf_cut_def)

lemma return_file_contents_name:
  "return_file_contents fs http con request w =
     (let con = (if string_starts_with request ''GET / '' then con
                 else con\<lparr>cc_urlPath := take 4095 (requested_name request)\<rparr>)
      in cbind (content_type_of content_types (requested_name request)) (\<lambda>content_type.
         case fs (http_full_filename http (requested_name request)) of
           Some (Some es) \<Rightarrow>
             cbind (basic_response con ''200 OK'' content_type w) (\<lambda>(ok, w).
             cmap (\<lambda>(ok, w). (''200 OK'', con, w)) (copy_file_loop con ok es w))
         | _ \<Rightarrow> cmap (\<lambda>(ok, w). (''404 Not Found'', con, w)) (basic_response con ''404 Not Found'' None w)))"
  by (cases "string_starts_with request ''GET / ''")
    (simp_all add: return_file_contents_def requested_name_def Let_def split: option.split)

text \<open>
  C13: the web server never looks outside its directory: whatever bytes the client sends, two file
  systems that agree on the names directly in the base directory (without a slash) make the
  handler behave in the same way, down to every byte it answers.
\<close>

theorem http_stays_in_directory:
  assumes "\<And>n. CHR ''/'' \<notin> set n \<Longrightarrow> fs (http_base_dir http @ ''/'' @ n) = fs' (http_base_dir http @ ''/'' @ n)"
    and "length (http_base_dir http) < 4096"
  shows "service_http_connection_handler fs main http con w = service_http_connection_handler fs' main http con w"
proof -
  have "fs (http_full_filename http (requested_name r)) = fs' (http_full_filename http (requested_name r))" for r
    using assms requested_name_safe [of r] by (simp add: full_filename_uncut)
  then show ?thesis
    by (simp add: service_http_connection_handler_def http_answer_def return_file_contents_name cong: if_cong)
qed

theorem http_stays_in_directory_witness:
  "let http = (fst (new_service_http 0))\<lparr>http_base_dir := ''/www''\<rparr>;
       fs = (\<lambda>p. if p = ''/www/a.txt'' then Some (Some [Rd_data [65], Rd_eof]) else None)
   in service_http_connection_handler fs (\<lambda>_ c. c) http blank_connection quiet_world =
      service_http_connection_handler (fs(''/etc/passwd'' := Some (Some [Rd_data [66], Rd_eof]))) (\<lambda>_ c. c) http
        blank_connection quiet_world"
proof -
  let ?http = "(fst (new_service_http 0))\<lparr>http_base_dir := ''/www''\<rparr>"
  let ?fs = "\<lambda>p. if p = ''/www/a.txt'' then Some (Some [Rd_data [65 :: byte], Rd_eof]) else None"
  have "?fs (http_base_dir ?http @ ''/'' @ n) =
      (?fs(''/etc/passwd'' := Some (Some [Rd_data [66], Rd_eof]))) (http_base_dir ?http @ ''/'' @ n)" for n
    by simp
  then show ?thesis unfolding Let_def by (rule http_stays_in_directory) simp
qed

section \<open>One request\<close>

definition http_line_ok :: "string \<Rightarrow> bool" where
  "http_line_ok request \<longleftrightarrow>
     request \<noteq> [] \<and> length request < 999 \<and> list_all (\<lambda>c. c \<noteq> CHR 0x00 \<and> c \<noteq> chr_lf \<and> c \<noteq> chr_cr) request"

text \<open>The client has sent a request line, and no call on its socket fails.\<close>

definition http_asks :: "world \<Rightarrow> int \<Rightarrow> string \<Rightarrow> bool" where
  "http_asks w fd request \<longleftrightarrow>
     calm w fd \<and> http_line_ok request \<and>
     (\<exists>e rest. (e = 10 \<or> e = 13) \<and> rx_has w fd (bytes_of request @ e # rest))"

lemma byte_of_char_inj: "byte_of_char c = byte_of_char d \<longleftrightarrow> c = d"
proof
  assume "byte_of_char c = byte_of_char d"
  then have "unat (byte_of_char c) = unat (byte_of_char d)" by simp
  then have "(of_char c :: nat) = of_char d" by (simp only: unat_byte_of_char)
  then show "c = d" by (simp only: of_char_eq_iff)
qed simp

lemma special_bytes:
  "byte_of_char c = 10 \<longleftrightarrow> c = chr_lf" "byte_of_char c = 13 \<longleftrightarrow> c = chr_cr"
  using byte_of_char_inj [of c chr_lf] byte_of_char_inj [of c chr_cr] by simp_all

lemma http_line_bytes:
  assumes "http_line_ok request" and "b \<in> set (bytes_of request)"
  shows "b \<noteq> 0 \<and> b \<noteq> 10 \<and> b \<noteq> 13"
proof -
  obtain c where c: "b = byte_of_char c" "c \<in> set request" using assms(2) by (auto simp: bytes_of_def)
  then have "c \<noteq> CHR 0x00" "c \<noteq> chr_lf" "c \<noteq> chr_cr" using assms(1) by (auto simp: http_line_ok_def list_all_iff)
  then show ?thesis unfolding c(1) special_bytes byte_of_char_zero by blast
qed

lemma read_request:
  assumes "http_asks w fd request"
  shows "\<exists>w'. read_one_line_safely fd 999 w = Inr (int (length request), bytes_of request, w') \<and>
           only_rx fd w w' \<and> calm w' fd \<and> w_errno w' = w_errno w \<and> tx_room w' fd = tx_room w fd"
proof -
  obtain e rest where e: "e = 10 \<or> e = 13" "rx_has w fd (bytes_of request @ e # rest)"
    and ok: "calm w fd" "http_line_ok request"
    using assms by (auto simp: http_asks_def)
  have "10 \<notin> set (bytes_of request)" "13 \<notin> set (bytes_of request)"
    using http_line_bytes [OF ok(2)] by blast+
  then obtain w' where "read_line_loop 999 fd w = Inr (1, bytes_of request, w')" "only_rx fd w w'" "calm w' fd"
    "w_errno w' = w_errno w"
    using read_line_loop_line [OF e(2) ok(1) e(1), of 999] ok(2) by (auto simp: http_line_ok_def)
  then show ?thesis
    using only_rx_frame(13) [of fd w w' fd] by (auto simp: read_one_line_safely_def)
qed

lemma request_text: "http_line_ok request \<Longrightarrow> cstr_of_bytes (bytes_of request) = request"
proof -
  assume "http_line_ok request"
  then have "takeWhile (\<lambda>b. b \<noteq> 0) (bytes_of request) = bytes_of request"
    using http_line_bytes by (simp only: takeWhile_eq_all_conv) blast
  then show ?thesis unfolding cstr_of_bytes_def by (simp only:) (simp add: bytes_of_def o_def)
qed

text \<open>The handler is its answer, then the end of the thread.\<close>

lemma handler_run:
  assumes "http_line_ok request"
    and "read_one_line_safely (cc_fd_in con) 999 w = Inr (int (length request), bytes_of request, w1)"
  shows "service_http_connection_handler fs main http con w =
    cbind (http_answer fs main http con request w1) (\<lambda>(responseStr, con, w).
      service_thread_shutdown (con\<lparr>cc_JSONStatusStr := None\<rparr>) True w)"
proof -
  have "\<not> int (length request) \<le> 0" using assms(1) by (simp add: http_line_ok_def)
  with assms show ?thesis by (simp add: service_http_connection_handler_def request_text)
qed

text \<open>What a client sees of a finished handler.\<close>

definition http_done :: "client_connection \<Rightarrow> world \<Rightarrow> byte list \<Rightarrow> client_connection \<times> world \<Rightarrow> bool" where
  "http_done con w answer r \<longleftrightarrow>
     (case r of (con', w') \<Rightarrow>
        sk_sent (w_sock w' (cc_fd_in con)) = sk_sent (w_sock w (cc_fd_in con)) @ answer \<and>
        \<not> sk_open (w_sock w' (cc_fd_in con)) \<and> cc_thread_has_exited con' \<and> cc_fd_in con' = -1)"

lemma handler_done_from:
  assumes "http_line_ok request" and "0 \<le> cc_fd_in con"
    and "read_one_line_safely (cc_fd_in con) 999 w = Inr (int (length request), bytes_of request, w1)"
    and "only_rx (cc_fd_in con) w w1"
    and a: "http_answer fs main http con request w1 = Inr (r, con2, w2)" "cc_fd_in con2 = cc_fd_in con"
      "sk_sent (w_sock w2 (cc_fd_in con)) = sk_sent (w_sock w1 (cc_fd_in con)) @ answer"
  shows "\<exists>r. service_http_connection_handler fs main http con w = Inr r \<and> http_done con w answer r"
proof -
  let ?fd = "cc_fd_in con"
  have sent: "sk_sent (w_sock w2 ?fd) = sk_sent (w_sock w ?fd) @ answer"
    using a(3) only_rx_frame(2) [OF assms(4)] by simp
  obtain con' w3 w' where s: "service_thread_shutdown (con2\<lparr>cc_JSONStatusStr := None\<rparr>) True w2 = Inr (con', w')"
    "closed_only ?fd w2 w3" "closed_only (cc_fd_out con2) w3 w'" "cc_fd_in con' = -1" "cc_thread_has_exited con'"
    using shutdown_returns [of "con2\<lparr>cc_JSONStatusStr := None\<rparr>" True w2] a(2) by auto
  have "\<not> sk_open (w_sock w' ?fd)" "sk_sent (w_sock w' ?fd) = sk_sent (w_sock w2 ?fd)"
    using s(2,3) assms(2) unfolding closed_only_def by auto
  with a(1) s sent show ?thesis by (auto simp: handler_run [OF assms(1,3)] http_done_def)
qed

lemma handler_done:
  assumes "http_asks w (cc_fd_in con) request" and "0 \<le> cc_fd_in con"
    and "\<And>w1. calm w1 (cc_fd_in con) \<Longrightarrow> w_errno w1 = w_errno w \<Longrightarrow> tx_room w1 (cc_fd_in con) = tx_room w (cc_fd_in con) \<Longrightarrow>
           \<exists>r con2 w2. http_answer fs main http con request w1 = Inr (r, con2, w2) \<and>
             cc_fd_in con2 = cc_fd_in con \<and> only_tx (cc_fd_in con) (w1\<lparr>w_sleeps := w_sleeps w2, w_msgs := w_msgs w2\<rparr>) w2 answer"
  shows "\<exists>r. service_http_connection_handler fs main http con w = Inr r \<and> http_done con w answer r"
proof -
  let ?fd = "cc_fd_in con"
  obtain w1 where w1: "read_one_line_safely ?fd 999 w = Inr (int (length request), bytes_of request, w1)"
    "only_rx ?fd w w1" "calm w1 ?fd" "w_errno w1 = w_errno w" "tx_room w1 ?fd = tx_room w ?fd"
    using read_request [OF assms(1)] by blast
  obtain r con2 w2 where a: "http_answer fs main http con request w1 = Inr (r, con2, w2)" "cc_fd_in con2 = ?fd"
    "only_tx ?fd (w1\<lparr>w_sleeps := w_sleeps w2, w_msgs := w_msgs w2\<rparr>) w2 answer"
    using assms(3) [OF w1(3-5)] by blast
  have "sk_sent (w_sock w2 ?fd) = sk_sent (w_sock w1 ?fd) @ answer" using only_tx_frame(2) [OF a(3)] by simp
  moreover have "http_line_ok request" using assms(1) by (simp add: http_asks_def)
  ultimately show ?thesis using handler_done_from [OF _ assms(2) w1(1,2) a(1,2)] by blast
qed

section \<open>Serving a file\<close>

lemma content_type_nonempty: "content_type_of table n = Inr ct \<Longrightarrow> list_all (\<lambda>(e, t). t \<noteq> []) table \<Longrightarrow> ct \<noteq> Some []"
  by (induction table n rule: content_type_of.induct) (auto split: if_splits elim!: cbind_InrE)

lemma content_types_nonempty: "content_type_of content_types n = Inr ct \<Longrightarrow> ct \<noteq> Some []"
  by (erule content_type_nonempty) (simp add: content_types_def)

text \<open>The request is one for a file that exists and can be opened; and it is read to its end.\<close>

definition asks_for_reads :: "http_files \<Rightarrow> service_http \<Rightarrow> string \<Rightarrow> rd_event list \<Rightarrow> string option \<Rightarrow> bool" where
  "asks_for_reads fs http request es ct \<longleftrightarrow>
     string_starts_with request ''GET /'' \<and> \<not> string_starts_with request ''GET /status.json '' \<and>
     fs (http_full_filename http (requested_name request)) = Some (Some es) \<and>
     content_type_of content_types (requested_name request) = Inr ct"

definition asks_for_file :: "http_files \<Rightarrow> service_http \<Rightarrow> string \<Rightarrow> rd_event list \<Rightarrow> string option \<Rightarrow> bool" where
  "asks_for_file fs http request es ct \<longleftrightarrow> asks_for_reads fs http request es ct \<and> rx_calm es \<and> rx_end_of es = End_eof"

lemma file_answer:
  assumes "asks_for_reads fs http request (pre @ tail) ct" and "calm w (cc_fd_in con)" and "only_data pre"
    and "length (http_header ''200 OK'' ct) + length (rx_stream pre) \<le> tx_room w (cc_fd_in con)"
  shows "\<exists>con' w'. http_answer fs main http con request w =
      cmap (\<lambda>(ok, w). (''200 OK'', con', w)) (copy_file_loop con' True tail w') \<and>
    cc_fd_in con' = cc_fd_in con \<and>
    sends (cc_fd_in con) w w' (bytes_of (http_header ''200 OK'' ct) @ rx_stream pre)"
proof -
  define con1 where "con1 = (if string_starts_with request ''GET / '' then con
      else con\<lparr>cc_urlPath := take 4095 (requested_name request)\<rparr>)"
  have fd: "cc_fd_in con1 = cc_fd_in con" by (simp add: con1_def)
  obtain w1 where w1: "basic_response con1 ''200 OK'' ct w = Inr (True, w1)"
    "sends (cc_fd_in con) w w1 (bytes_of (http_header ''200 OK'' ct))"
    using basic_response_sends [of w con1 "''200 OK''" ct] assms content_types_nonempty
    by (auto simp: fd asks_for_reads_def)
  have run: "http_answer fs main http con request w =
      cmap (\<lambda>(ok, w). (''200 OK'', con1, w)) (copy_file_loop con1 True (pre @ tail) w1)"
    using assms(1) w1(1)
    by (simp add: http_answer_def asks_for_reads_def return_file_contents_name con1_def [symmetric])
  have "calm w1 (cc_fd_in con1)" "length (rx_stream pre) \<le> tx_room w1 (cc_fd_in con1)"
    using w1(2) assms(4) by (simp_all add: sends_def fd)
  from copy_file_loop_copies [OF this(1) assms(3) this(2)] obtain w2 where
    "copy_file_loop con1 True (pre @ tail) w1 = copy_file_loop con1 True tail w2" "sends (cc_fd_in con) w1 w2 (rx_stream pre)"
    unfolding fd by blast
  with sends_append [OF w1(2), of w2 "rx_stream pre"] show ?thesis
    by (intro exI [of _ con1] exI [of _ w2]) (simp only: run fd simp_thms)
qed

text \<open>
  C24: a file is served byte for byte: a client that asks for a file of the directory over a
  connection whose calls do not fail gets the header with the type of the file and then
  exactly the contents of the file, the connection is closed, and the thread has ended.
\<close>

theorem http_file_served:
  assumes "http_asks w (cc_fd_in con) request" and "0 \<le> cc_fd_in con" and "asks_for_file fs http request es ct"
    and "length (http_header ''200 OK'' ct) + length (rx_stream es) \<le> tx_room w (cc_fd_in con)"
    and "w_errno w \<noteq> EINTR"
  shows "\<exists>r. service_http_connection_handler fs main http con w = Inr r \<and>
           http_done con w (bytes_of (http_header ''200 OK'' ct) @ rx_stream es) r"
proof (rule handler_done [OF assms(1,2)])
  fix w1
  assume w1: "calm w1 (cc_fd_in con)" "w_errno w1 = w_errno w" "tx_room w1 (cc_fd_in con) = tx_room w (cc_fd_in con)"
  obtain pre rest where pre: "es = pre @ Rd_eof # rest" "only_data pre" "rx_stream pre = rx_stream es"
    using file_data assms(3) unfolding asks_for_file_def by blast
  with file_answer [of fs http request pre "Rd_eof # rest" ct w1 con main] w1 assms(3,4)
  obtain con' w' where a: "http_answer fs main http con request w1 =
      cmap (\<lambda>(ok, w). (''200 OK'', con', w)) (copy_file_loop con' True (Rd_eof # rest) w')"
    "cc_fd_in con' = cc_fd_in con" "sends (cc_fd_in con) w1 w' (bytes_of (http_header ''200 OK'' ct) @ rx_stream es)"
    by (auto simp: asks_for_file_def)
  have "w_errno w' \<noteq> EINTR" using a(3) w1(2) assms(5) by (simp add: sends_def)
  with a have "http_answer fs main http con request w1 = Inr (''200 OK'', con', w')" "cc_fd_in con' = cc_fd_in con"
    "sends (cc_fd_in con) w1 w' (bytes_of (http_header ''200 OK'' ct) @ rx_stream es)"
    by (simp_all add: copy_file_loop_end)
  moreover from this(3) have "only_tx (cc_fd_in con) w1 w' (bytes_of (http_header ''200 OK'' ct) @ rx_stream es)"
    by (simp add: sends_def)
  moreover from only_tx_frame(9,10) [OF this] have "w1\<lparr>w_sleeps := w_sleeps w', w_msgs := w_msgs w'\<rparr> = w1"
    by simp
  ultimately show "\<exists>r con2 w2. http_answer fs main http con request w1 = Inr (r, con2, w2) \<and>
      cc_fd_in con2 = cc_fd_in con \<and> only_tx (cc_fd_in con) (w1\<lparr>w_sleeps := w_sleeps w2, w_msgs := w_msgs w2\<rparr>) w2
        (bytes_of (http_header ''200 OK'' ct) @ rx_stream es)"
    by metis
qed

definition demo_http :: service_http where
  "demo_http = (fst (new_service_http 0))\<lparr>http_base_dir := ''/www''\<rparr>"

definition demo_files :: http_files where
  "demo_files p = (if p = ''/www/a.txt'' then Some (Some [Rd_data (bytes_of ''hello''), Rd_eof]) else None)"

definition demo_request :: "string \<Rightarrow> int \<Rightarrow> world" where
  "demo_request line en = quiet_world\<lparr>w_errno := en, w_sock := (\<lambda>_. quiet_sock\<lparr>
     sk_rx := [Rd_data (bytes_of (line @ [chr_lf]))], sk_wr := [Wr_take 3000]\<rparr>)\<rparr>"

lemma demo_asks: "http_line_ok line \<Longrightarrow> http_asks (demo_request line en) 5 line"
  using special_bytes(1) [of chr_lf]
  by (auto simp: http_asks_def demo_request_def calm_def rx_calm_def tx_calm_def rx_has_def)

lemma demo_asks_for_file:
  "asks_for_file demo_files demo_http ''GET /a.txt HTTP/1.1'' [Rd_data (bytes_of ''hello''), Rd_eof] (Some ''text/plain'')"
proof -
  have "requested_name ''GET /a.txt HTTP/1.1'' = ''a.txt''"
    by code_simp
  moreover have "content_type_of content_types ''a.txt'' = Inr (Some ''text/plain'')" by code_simp
  ultimately show ?thesis
    by (simp add: asks_for_file_def asks_for_reads_def string_starts_with_def http_full_filename_def HTTP_PATH_MAX_def snprintf_cut_def
        demo_files_def demo_http_def rx_calm_def)
qed

lemma demo_room: "length (http_header ''200 OK'' (Some ''text/plain'')) + length (rx_stream [Rd_data (bytes_of ''hello''), Rd_eof])
    \<le> tx_room (demo_request line en) 5"
  by (simp add: http_header_def tx_room_def demo_request_def)

theorem http_file_served_witness:
  "\<exists>r. service_http_connection_handler demo_files (\<lambda>_ c. c) demo_http blank_connection
         (demo_request ''GET /a.txt HTTP/1.1'' 0) = Inr r \<and>
       http_done blank_connection (demo_request ''GET /a.txt HTTP/1.1'' 0)
         (bytes_of (http_header ''200 OK'' (Some ''text/plain'') @ ''hello'')) r"
proof -
  have fd: "cc_fd_in blank_connection = 5" by (simp add: blank_connection_def Let_def)
  have "http_asks (demo_request ''GET /a.txt HTTP/1.1'' 0) (cc_fd_in blank_connection) ''GET /a.txt HTTP/1.1''"
    unfolding fd by (rule demo_asks) (simp add: http_line_ok_def)
  from http_file_served [OF this _ demo_asks_for_file, where main = "\<lambda>_ c. c"] demo_room
  show ?thesis by (simp add: fd) (simp add: demo_request_def)
qed

section \<open>An interrupted request\<close>

text \<open>
  The client has sent a request line, and one read of it, before its end, is interrupted by a
  signal; no other call on the socket fails.
\<close>

definition http_asks_interrupted :: "world \<Rightarrow> int \<Rightarrow> string \<Rightarrow> bool" where
  "http_asks_interrupted w fd request \<longleftrightarrow>
     http_line_ok request \<and> tx_calm (sk_wr (w_sock w fd)) \<and>
     (\<exists>a b e rest. sk_rx (w_sock w fd) = a @ Rd_fail EINTR # b \<and> only_data a \<and> rx_calm b \<and> (e = 10 \<or> e = 13) \<and>
        rx_stream a @ rx_stream b = bytes_of request @ e # rest \<and> length (rx_stream a) \<le> length request)"

lemma sys_read_data:
  "only_data a \<Longrightarrow> rx_stream a = x # s \<Longrightarrow>
     \<exists>a'. sys_read 1 (a @ t, en) = Inr (1, [x], a' @ t, en) \<and> only_data a' \<and> rx_stream a' = s"
proof (induction a)
  case (Cons e a)
  then obtain bs where e: "e = Rd_data bs" by (cases e) auto
  show ?case
  proof (cases bs)
    case Nil
    with Cons e show ?thesis by auto
  next
    case (Cons y ys)
    with e \<open>only_data (e # a)\<close> \<open>rx_stream (e # a) = x # s\<close> show ?thesis
      by (cases ys) (auto intro: exI [of _ a] exI [of _ "Rd_data ys # a"])
  qed
qed simp

lemma sys_read_no_data: "only_data a \<Longrightarrow> rx_stream a = [] \<Longrightarrow> sys_read 1 (a @ t, en) = sys_read 1 (t, en)"
proof (induction a)
  case (Cons e a)
  then show ?case by (cases e) auto
qed simp

text \<open>Once the data before the interruption is used up, the reads are those of a calm socket with a stale \<open>errno\<close>.\<close>

lemma read_line_loop_stale:
  assumes "sk_rx (w_sock w fd) = a @ Rd_fail EINTR # b" and "only_data a" and "rx_stream a = []"
  shows "read_line_loop (Suc n) fd w =
    read_line_loop (Suc n) fd ((upd_sock w fd ((w_sock w fd)\<lparr>sk_rx := b\<rparr>))\<lparr>w_errno := EINTR\<rparr>)"
proof -
  have "sb_read_len_loop 1 (a @ Rd_fail EINTR # b, w_errno w) = sb_read_len_loop 1 (b, EINTR)"
    by (subst sb_read_len_loop.simps, cases "sb_read_len_loop 1 (b, EINTR)")
      (simp_all add: sys_read_no_data [OF assms(2,3), simplified] Let_def cmap_def split_def)
  then have "sb_read_len w fd 1 = sb_read_len ((upd_sock w fd ((w_sock w fd)\<lparr>sk_rx := b\<rparr>))\<lparr>w_errno := EINTR\<rparr>) fd 1"
    by (simp add: sb_read_len_def assms(1))
  then show ?thesis by (simp only: read_line_loop.simps)
qed

lemma read_line_loop_interrupted_now:
  assumes "sk_rx (w_sock w fd) = a @ Rd_fail EINTR # b" and "only_data a" and "rx_calm b"
    and "tx_calm (sk_wr (w_sock w fd))" and "rx_stream a = []" and "rx_stream a @ rx_stream b = line @ e # rest"
    and "e = 10 \<or> e = 13" and "10 \<notin> set line" and "13 \<notin> set line" and "length line < n"
  shows "\<exists>w'. read_line_loop n fd w = Inr (1, line, w') \<and> only_rx fd w w' \<and> calm w' fd \<and> w_errno w' = EINTR"
proof -
  obtain m where n: "n = Suc m" using assms(10) by (cases n) auto
  let ?w = "(upd_sock w fd ((w_sock w fd)\<lparr>sk_rx := b\<rparr>))\<lparr>w_errno := EINTR\<rparr>"
  have "rx_has ?w fd (line @ e # rest)" "calm ?w fd" using assms(3-6) by (simp_all add: rx_has_def calm_def)
  from read_line_loop_line [OF this assms(7-10)] obtain w' where
    "read_line_loop n fd ?w = Inr (1, line, w')" "only_rx fd ?w w'" "calm w' fd" "w_errno w' = w_errno ?w" by blast
  moreover have "only_rx fd w ?w" by (rule only_rxI)
  ultimately show ?thesis unfolding n read_line_loop_stale [OF assms(1,2,5)] by (auto intro: only_rx_trans)
qed

lemma read_line_loop_interrupted:
  "sk_rx (w_sock w fd) = a @ Rd_fail EINTR # b \<Longrightarrow> only_data a \<Longrightarrow> rx_calm b \<Longrightarrow> tx_calm (sk_wr (w_sock w fd)) \<Longrightarrow>
     rx_stream a @ rx_stream b = line @ e # rest \<Longrightarrow> length (rx_stream a) \<le> length line \<Longrightarrow>
     e = 10 \<or> e = 13 \<Longrightarrow> 10 \<notin> set line \<Longrightarrow> 13 \<notin> set line \<Longrightarrow> length line < n \<Longrightarrow>
     \<exists>w'. read_line_loop n fd w = Inr (1, line, w') \<and> only_rx fd w w' \<and> calm w' fd \<and> w_errno w' = EINTR"
proof (induction line arbitrary: n w a)
  case (Nil n w a)
  show ?case by (rule read_line_loop_interrupted_now [OF Nil.prems(1-4) _ Nil.prems(5,7-10)]) (use Nil.prems(6) in simp)
next
  case (Cons x line n w a)
  show ?case
  proof (cases "rx_stream a")
    case Nil
    show ?thesis by (rule read_line_loop_interrupted_now [OF Cons.prems(1-4) Nil Cons.prems(5,7-10)])
  next
    case (Cons y s)
    then have y: "y = x" "s @ rx_stream b = line @ e # rest" using Cons.prems(5) by simp_all
    obtain a' where a': "sys_read 1 (a @ Rd_fail EINTR # b, w_errno w) = Inr (1, [x], a' @ Rd_fail EINTR # b, w_errno w)"
      "only_data a'" "rx_stream a' = s"
      using sys_read_data [OF Cons.prems(2) Cons] unfolding y by blast
    obtain m where n: "n = Suc m" using Cons.prems(10) by (cases n) auto
    let ?w = "(upd_sock w fd ((w_sock w fd)\<lparr>sk_rx := a' @ Rd_fail EINTR # b\<rparr>))\<lparr>w_errno := w_errno w\<rparr>"
    have "sb_read_len w fd 1 = Inr (1, [x], ?w)"
      using a'(1) by (subst sb_read_len_def, subst sb_read_len_loop.simps) (simp add: Cons.prems(1))
    moreover obtain w' where "read_line_loop m fd ?w = Inr (1, line, w')" "only_rx fd ?w w'" "calm w' fd" "w_errno w' = EINTR"
      using Cons.IH [of ?w a' m] Cons.prems a'(2,3) y(2) Cons n by auto
    moreover have "only_rx fd w ?w" by (rule only_rxI)
    ultimately show ?thesis using Cons.prems(8,9) n by (auto intro: only_rx_trans)
  qed
qed

lemma read_request_interrupted:
  assumes "http_asks_interrupted w fd request"
  shows "\<exists>w'. read_one_line_safely fd 999 w = Inr (int (length request), bytes_of request, w') \<and>
           only_rx fd w w' \<and> calm w' fd \<and> w_errno w' = EINTR \<and> tx_room w' fd = tx_room w fd"
proof -
  obtain a b e rest where r: "sk_rx (w_sock w fd) = a @ Rd_fail EINTR # b" "only_data a" "rx_calm b"
    "tx_calm (sk_wr (w_sock w fd))" "rx_stream a @ rx_stream b = bytes_of request @ e # rest"
    "length (rx_stream a) \<le> length (bytes_of request)" "e = 10 \<or> e = 13" and ok: "http_line_ok request"
    using assms by (auto simp: http_asks_interrupted_def)
  have "10 \<notin> set (bytes_of request)" "13 \<notin> set (bytes_of request)" "length (bytes_of request) < 999"
    using http_line_bytes [OF ok] ok by (auto simp: http_line_ok_def)
  with read_line_loop_interrupted [OF r] obtain w' where "read_line_loop 999 fd w = Inr (1, bytes_of request, w')"
    "only_rx fd w w'" "calm w' fd" "w_errno w' = EINTR" by blast
  then show ?thesis
    using only_rx_frame(13) [of fd w w' fd] by (auto simp: read_one_line_safely_def)
qed

text \<open>
  C27: the loop that copies a file tests \<open>errno\<close> behind a read that gave no error. When a read of
  the request line was interrupted, so that \<open>errno\<close> is \<open>EINTR\<close> since then, the handler sends the
  header and the whole file and then reads the end of the file again and again: however large
  \<open>n\<close> is, it is still running after the end has been found \<open>n\<close> times, and only a read that
  fails ends it; until then the client has got exactly header and contents and the connection
  is not closed.
\<close>

theorem http_stale_errno_hangs:
  assumes "http_asks_interrupted w (cc_fd_in con) request" and "0 \<le> cc_fd_in con" and "only_data contents"
    and "asks_for_reads fs http request
      (contents @ replicate n Rd_eof @ map Rd_fail (case stop of None \<Rightarrow> [] | Some e \<Rightarrow> [e])) ct"
    and "length (http_header ''200 OK'' ct) + length (rx_stream contents) \<le> tx_room w (cc_fd_in con)"
    and "stop \<noteq> Some EINTR"
  shows "case stop of
      None \<Rightarrow> service_http_connection_handler fs main http con w = Inl Hang
    | Some e \<Rightarrow> \<exists>r. service_http_connection_handler fs main http con w = Inr r \<and>
        http_done con w (bytes_of (http_header ''200 OK'' ct) @ rx_stream contents) r"
proof -
  let ?fd = "cc_fd_in con"
  obtain w1 where r: "read_one_line_safely ?fd 999 w = Inr (int (length request), bytes_of request, w1)"
    "only_rx ?fd w w1" "calm w1 ?fd" "w_errno w1 = EINTR" "tx_room w1 ?fd = tx_room w ?fd"
    using read_request_interrupted [OF assms(1)] by blast
  have ok: "http_line_ok request" using assms(1) by (simp add: http_asks_interrupted_def)
  have "length (http_header ''200 OK'' ct) + length (rx_stream contents) \<le> tx_room w1 ?fd" using assms(5) r(5) by simp
  from file_answer [OF assms(4) r(3) assms(3) this, of main] obtain con1 w2 where
    a: "http_answer fs main http con request w1 = cmap (\<lambda>(ok, w). (''200 OK'', con1, w))
        (copy_file_loop con1 True (replicate n Rd_eof @ map Rd_fail (case stop of None \<Rightarrow> [] | Some e \<Rightarrow> [e])) w2)"
    and fd: "cc_fd_in con1 = ?fd" and s: "sends ?fd w1 w2 (bytes_of (http_header ''200 OK'' ct) @ rx_stream contents)"
    by blast
  have "w_errno w2 = EINTR" using s r(4) by (simp add: sends_def)
  note a = a [unfolded copy_file_loop_stale [OF this assms(6)]]
  show ?thesis
  proof (cases stop)
    case None
    with a show ?thesis by (simp add: handler_run [OF ok r(1)])
  next
    case (Some e)
    have "sk_sent (w_sock (w2\<lparr>w_errno := e\<rparr>) ?fd) =
        sk_sent (w_sock w1 ?fd) @ bytes_of (http_header ''200 OK'' ct) @ rx_stream contents"
      using only_tx_frame(2) [of ?fd w1 w2] s by (simp add: sends_def)
    from handler_done_from [OF ok assms(2) r(1,2) _ fd this] a Some show ?thesis by simp
  qed
qed

definition demo_interrupted :: "string \<Rightarrow> world" where
  "demo_interrupted line = quiet_world\<lparr>w_sock := (\<lambda>_. quiet_sock\<lparr>
     sk_rx := [Rd_data (bytes_of (take 3 line)), Rd_fail EINTR, Rd_data (bytes_of (drop 3 line @ [chr_lf]))],
     sk_wr := [Wr_take 3000]\<rparr>)\<rparr>"

theorem http_stale_errno_hangs_witness:
  "service_http_connection_handler
     (demo_files(''/www/a.txt'' := Some (Some [Rd_data (bytes_of ''hello''), Rd_eof, Rd_eof, Rd_eof]))) (\<lambda>_ c. c) demo_http
     blank_connection (demo_interrupted ''GET /a.txt HTTP/1.1'') = Inl Hang"
proof -
  let ?l = "''GET /a.txt HTTP/1.1''"
  let ?fs = "demo_files(''/www/a.txt'' := Some (Some ([Rd_data (bytes_of ''hello'')] @ replicate 3 Rd_eof @
    map Rd_fail (case None of None \<Rightarrow> [] | Some e \<Rightarrow> [e]))))"
  have fd: "cc_fd_in blank_connection = 5" by (simp add: blank_connection_def Let_def)
  have asks: "http_asks_interrupted (demo_interrupted ?l) (cc_fd_in blank_connection) ?l"
    using special_bytes(1) [of chr_lf]
    by (simp add: http_asks_interrupted_def http_line_ok_def demo_interrupted_def tx_calm_def rx_calm_def) 
      (rule exI [of _ "[Rd_data (bytes_of (take 3 ?l))]"], simp)
  have found: "asks_for_reads ?fs demo_http ?l ([Rd_data (bytes_of ''hello'')] @ replicate 3 Rd_eof @
      map Rd_fail (case None of None \<Rightarrow> [] | Some e \<Rightarrow> [e])) (Some ''text/plain'')"
    using demo_asks_for_file
    by (simp add: asks_for_file_def asks_for_reads_def demo_files_def split: if_splits)
  have room: "length (http_header ''200 OK'' (Some ''text/plain'')) + length (rx_stream [Rd_data (bytes_of ''hello'')])
      \<le> tx_room (demo_interrupted ?l) (cc_fd_in blank_connection)"
    unfolding fd by (simp add: http_header_def tx_room_def demo_interrupted_def)
  from http_stale_errno_hangs [OF asks _ _ found room, of "\<lambda>_ c. c"] show ?thesis
    by (simp add: fd numeral_3_eq_3)
qed

section \<open>The status request\<close>

lemma json_wait_answered:
  "i \<le> k \<Longrightarrow> k < i + n \<Longrightarrow> \<not> cc_JSONStatusReady con \<Longrightarrow>
     json_wait n (\<lambda>j. if j = k then answer_status json else (\<lambda>c. c)) i con w =
       (answer_status json con, w\<lparr>w_sleeps := w_sleeps w + (k - i + 1)\<rparr>)"
proof (induction n arbitrary: i w)
  case (Suc n)
  show ?case
  proof (cases "i = k")
    case True
    then show ?thesis using Suc.prems by (cases n) (simp_all add: answer_status_def)
  next
    case False
    then have "k - i = Suc (k - Suc i)" using Suc.prems by simp
    then show ?thesis using Suc.IH [of "Suc i" "w\<lparr>w_sleeps := w_sleeps w + 1\<rparr>"] Suc.prems False by simp
  qed
qed simp

lemma json_wait_silent:
  "\<not> cc_JSONStatusReady con \<Longrightarrow> json_wait n (\<lambda>j c. c) i con w = (con, w\<lparr>w_sleeps := w_sleeps w + n\<rparr>)"
  by (induction n arbitrary: i w) simp_all

text \<open>What the client of a status request gets, from the connection as it is behind the wait.\<close>

definition status_reply :: "client_connection \<Rightarrow> string" where
  "status_reply con =
     ''HTTP/1.1 '' @
     (if cc_JSONStatusReady con
      then http_header ''200 OK'' (Some '' application/json'') @ (case cc_JSONStatusStr con of None \<Rightarrow> [] | Some s \<Rightarrow> s)
      else http_header ''503 Service Unavailable'' None)"

lemma status_answer:
  assumes "calm w (cc_fd_in con)"
    and wait: "json_wait 100 main 0 (con\<lparr>cc_JSONStatusRequested := True\<rparr>) (w\<lparr>w_msgs := w_msgs w + 1\<rparr>) =
      (con1, w\<lparr>w_msgs := w_msgs w + 1, w_sleeps := n\<rparr>)"
    and fd: "cc_fd_in con1 = cc_fd_in con" and "cc_JSONStatusStr con1 \<noteq> Some []"
    and room: "length (status_reply con1) \<le> tx_room w (cc_fd_in con)"
  shows "\<exists>r w'. return_connection_state_json main con w = Inr (r, con1\<lparr>cc_JSONStatusStr := None\<rparr>, w') \<and>
           sends (cc_fd_in con) (w\<lparr>w_msgs := w_msgs w + 1, w_sleeps := n\<rparr>) w' (bytes_of (status_reply con1))"
proof -
  let ?fd = "cc_fd_in con" and ?w = "w\<lparr>w_msgs := w_msgs w + 1, w_sleeps := n\<rparr>"
  obtain r ct where rct: "(r, ct) = (if cc_JSONStatusReady con1 then (''200 OK'', Some '' application/json'')
      else (''503 Service Unavailable'', None))" "r \<noteq> []" "ct \<noteq> Some []"
    by (cases "cc_JSONStatusReady con1") simp_all
  define body where "body = (if cc_JSONStatusReady con1 then (case cc_JSONStatusStr con1 of None \<Rightarrow> [] | Some s \<Rightarrow> s) else [])"
  have reply: "status_reply con1 = ''HTTP/1.1 '' @ http_header r ct @ body"
    using rct(1) by (simp add: status_reply_def body_def split: if_splits)
  have calm: "calm ?w ?fd" and tx: "tx_room ?w ?fd = tx_room w ?fd" using assms(1) by (simp_all add: calm_def tx_room_def)
  obtain w1 where w1: "send_string con1 (Some ''HTTP/1.1 '') ?w = Inr (True, w1)" "sends ?fd ?w w1 (bytes_of ''HTTP/1.1 '')"
    using send_string_sends [of ?w con1 "''HTTP/1.1 ''"] calm tx room by (auto simp: fd reply)
  then have "calm w1 ?fd" "length (http_header r ct) \<le> tx_room w1 ?fd"
    using room tx unfolding reply by (auto simp: sends_def)
  then obtain w2 where w2: "basic_response con1 r ct w1 = Inr (True, w2)" "sends ?fd w1 w2 (bytes_of (http_header r ct))"
    using basic_response_sends [of w1 con1 r ct] rct(2,3) by (auto simp: fd)
  have w12: "sends ?fd ?w w2 (bytes_of (''HTTP/1.1 '' @ http_header r ct))"
    using sends_append [OF w1(2) w2(2)] by simp
  have run: "return_connection_state_json main con w =
      cmap (\<lambda>(ok, w). (r, con1\<lparr>cc_JSONStatusStr := None\<rparr>, w))
        (if cc_JSONStatusReady con1 \<and> cc_JSONStatusStr con1 \<noteq> None
         then send_string con1 (cc_JSONStatusStr con1) w2 else Inr (True, w2))"
    unfolding return_connection_state_json_def Let_def wait prod.case w1(1) cbind_Inr rct(1) [symmetric] if_True w2(1)
    by simp
  show ?thesis
  proof (cases "cc_JSONStatusReady con1 \<and> cc_JSONStatusStr con1 \<noteq> None")
    case True
    then obtain s where s: "cc_JSONStatusStr con1 = Some s" "s \<noteq> []" "body = s" using assms(4) by (auto simp: body_def)
    then have "calm w2 ?fd" "length s \<le> tx_room w2 ?fd" using w12 room tx unfolding reply by (auto simp: sends_def)
    then obtain w3 where w3: "send_string con1 (Some s) w2 = Inr (True, w3)" "sends ?fd w2 w3 (bytes_of s)"
      using send_string_sends [of w2 con1 s] s by (auto simp: fd)
    have "sends ?fd ?w w3 (bytes_of (status_reply con1))"
      using sends_append [OF w12 w3(2)] unfolding reply s(3) by simp
    with True w3(1) s(1) show ?thesis by (auto simp: run)
  next
    case False
    then have "body = []" by (auto simp: body_def split: option.split)
    then have "sends ?fd ?w w2 (bytes_of (status_reply con1))" using w12 unfolding reply by simp
    with False show ?thesis by (auto simp: run)
  qed
qed

definition main_thread :: "(nat \<times> string) option \<Rightarrow> nat \<Rightarrow> client_connection \<Rightarrow> client_connection" where
  "main_thread answer i =
     (case answer of None \<Rightarrow> (\<lambda>c. c) | Some (k, doc) \<Rightarrow> if i = k then answer_status (Some doc) else (\<lambda>c. c))"

definition expected_reply :: "(nat \<times> string) option \<Rightarrow> string" where
  "expected_reply answer =
     ''HTTP/1.1 '' @
     (case answer of None \<Rightarrow> http_header ''503 Service Unavailable'' None
      | Some (k, doc) \<Rightarrow> http_header ''200 OK'' (Some '' application/json'') @ doc)"

lemma json_wait_main:
  assumes "\<not> cc_JSONStatusReady con" and "case answer of None \<Rightarrow> True | Some (k, doc) \<Rightarrow> k < 100 \<and> doc \<noteq> []"
    and "cc_JSONStatusStr con = None"
  shows "\<exists>con1 n. json_wait 100 (main_thread answer) 0 con w = (con1, w\<lparr>w_sleeps := n\<rparr>) \<and>
           cc_fd_in con1 = cc_fd_in con \<and> status_reply con1 = expected_reply answer \<and> cc_JSONStatusStr con1 \<noteq> Some []"
proof (cases answer)
  case None
  have "main_thread answer = (\<lambda>j c. c)" by (rule ext) (simp add: main_thread_def None)
  with json_wait_silent [OF assms(1), of 100 0 w] assms(1,3) None show ?thesis
    by (auto simp: status_reply_def expected_reply_def)
next
  case (Some a)
  obtain k doc where a: "a = (k, doc)" by fastforce
  have "main_thread answer = (\<lambda>j. if j = k then answer_status (Some doc) else (\<lambda>c. c))"
    by (rule ext) (simp add: main_thread_def Some a)
  with json_wait_answered [of 0 k 100 con "Some doc" w] assms(1,2) Some a show ?thesis
    by (auto simp: status_reply_def expected_reply_def answer_status_def)
qed

lemma http_status_answered:
  assumes "http_asks w (cc_fd_in con) request" and "0 \<le> cc_fd_in con"
    and "string_starts_with request ''GET /status.json ''"
    and "\<not> cc_JSONStatusReady con" and "cc_JSONStatusStr con = None"
    and "case answer of None \<Rightarrow> True | Some (k, doc) \<Rightarrow> k < 100 \<and> doc \<noteq> []"
    and "length (expected_reply answer) \<le> tx_room w (cc_fd_in con)"
  shows "\<exists>r. service_http_connection_handler fs (main_thread answer) http con w = Inr r \<and>
           http_done con w (bytes_of (expected_reply answer)) r"
proof (rule handler_done [OF assms(1,2)])
  fix w1
  assume w1: "calm w1 (cc_fd_in con)" "w_errno w1 = w_errno w" "tx_room w1 (cc_fd_in con) = tx_room w (cc_fd_in con)"
  define con0 where "con0 = con\<lparr>cc_urlPath := ''status.json''\<rparr>"
  have fd0: "cc_fd_in con0 = cc_fd_in con" by (simp add: con0_def)
  have "\<not> cc_JSONStatusReady (con0\<lparr>cc_JSONStatusRequested := True\<rparr>)"
    "cc_JSONStatusStr (con0\<lparr>cc_JSONStatusRequested := True\<rparr>) = None" using assms(4,5) by (simp_all add: con0_def)
  from json_wait_main [OF this(1) assms(6) this(2), of "w1\<lparr>w_msgs := w_msgs w1 + 1\<rparr>"]
  obtain con1 n where wait: "json_wait 100 (main_thread answer) 0 (con0\<lparr>cc_JSONStatusRequested := True\<rparr>)
      (w1\<lparr>w_msgs := w_msgs w1 + 1\<rparr>) = (con1, w1\<lparr>w_msgs := w_msgs w1 + 1, w_sleeps := n\<rparr>)"
    and con1: "cc_fd_in con1 = cc_fd_in con0" "status_reply con1 = expected_reply answer" "cc_JSONStatusStr con1 \<noteq> Some []"
    by auto
  have "calm w1 (cc_fd_in con0)" "length (status_reply con1) \<le> tx_room w1 (cc_fd_in con0)"
    using w1 assms(7) by (simp_all add: fd0 con1(2))
  from status_answer [OF this(1) wait con1(1,3) this(2)] obtain r w2 where
    run: "return_connection_state_json (main_thread answer) con0 w1 = Inr (r, con1\<lparr>cc_JSONStatusStr := None\<rparr>, w2)"
    and out: "only_tx (cc_fd_in con) (w1\<lparr>w_msgs := w_msgs w1 + 1, w_sleeps := n\<rparr>) w2 (bytes_of (expected_reply answer))"
    unfolding sends_def fd0 con1(2) by blast
  have "http_answer fs (main_thread answer) http con request w1 = Inr (r, con1\<lparr>cc_JSONStatusStr := None\<rparr>, w2)"
    using run assms(3) by (simp add: http_answer_def con0_def)
  moreover have "w1\<lparr>w_sleeps := w_sleeps w2, w_msgs := w_msgs w2\<rparr> = w1\<lparr>w_msgs := w_msgs w1 + 1, w_sleeps := n\<rparr>"
    using only_tx_frame(9,10) [OF out] by simp
  ultimately show "\<exists>r con2 w2. http_answer fs (main_thread answer) http con request w1 = Inr (r, con2, w2) \<and>
      cc_fd_in con2 = cc_fd_in con \<and> only_tx (cc_fd_in con) (w1\<lparr>w_sleeps := w_sleeps w2, w_msgs := w_msgs w2\<rparr>) w2
        (bytes_of (expected_reply answer))"
    using out con1(1) fd0 by auto
qed

text \<open>
  A request for the status document is answered in every case: with the document when the main
  thread delivers it during one of the hundred waits, with \<open>503 Service Unavailable\<close> when it
  does not; the connection is closed and the thread ends. The status line carries the
  protocol name twice, since both \<open>return_connection_state_json\<close> and \<open>basic_response\<close> write it.
\<close>

theorem http_status_served:
  assumes "http_asks w (cc_fd_in con) request" and "0 \<le> cc_fd_in con"
    and "string_starts_with request ''GET /status.json ''"
    and "\<not> cc_JSONStatusReady con" and "cc_JSONStatusStr con = None"
    and "case answer of None \<Rightarrow> True | Some (k, doc) \<Rightarrow> k < 100 \<and> doc \<noteq> []"
    and "length (expected_reply answer) \<le> tx_room w (cc_fd_in con)"
  shows "\<exists>r. service_http_connection_handler fs (main_thread answer) http con w = Inr r \<and>
           http_done con w (bytes_of (expected_reply answer)) r"
  using assms by (rule http_status_answered)

theorem http_status_served_witness:
  "\<exists>r. service_http_connection_handler demo_files (main_thread (Some (3, ''{}''))) demo_http blank_connection
         (demo_request ''GET /status.json HTTP/1.1'' 0) = Inr r \<and>
       http_done blank_connection (demo_request ''GET /status.json HTTP/1.1'' 0)
         (bytes_of (''HTTP/1.1 '' @ http_header ''200 OK'' (Some '' application/json'') @ ''{}'')) r"
proof -
  have fd: "cc_fd_in blank_connection = 5" by (simp add: blank_connection_def Let_def)
  have asks: "http_asks (demo_request ''GET /status.json HTTP/1.1'' 0) (cc_fd_in blank_connection) ''GET /status.json HTTP/1.1''"
    unfolding fd by (rule demo_asks) (simp add: http_line_ok_def)
  have reply: "expected_reply (Some (3, ''{}'')) = ''HTTP/1.1 '' @ http_header ''200 OK'' (Some '' application/json'') @ ''{}''"
    by (simp add: expected_reply_def)
  have "length (expected_reply (Some (3, ''{}''))) \<le> tx_room (demo_request ''GET /status.json HTTP/1.1'' 0) (cc_fd_in blank_connection)"
    unfolding fd reply by (simp add: http_header_def tx_room_def demo_request_def)
  from http_status_served [OF asks _ _ _ _ _ this, of demo_files demo_http] show ?thesis
    unfolding reply by (simp add: blank_connection_def Let_def string_starts_with_def)
qed

end
