(* ===== verification/Thread_Frame.thy ===== *)
theory Thread_Frame
  imports Http
begin

text \<open>
  What a thread may do to its connection: whatever the client, the destination and the system
  calls do, a handler that returns has kept the number, the service and the source of its
  connection, its identities well-formed, and points to a tunnel of its rules or to none. This
  is what the main thread relies on.
\<close>

section \<open>If it returns\<close>

definition returns :: "('a \<Rightarrow> bool) \<Rightarrow> 'a cres \<Rightarrow> bool" where
  "returns P m \<longleftrightarrow> (\<forall>x. m = Inr x \<longrightarrow> P x)"

named_theorems returns_intros "the results of a function that returns"

lemma returns_simps [simp]: "returns P (Inr x) = P x" "returns P (Inl e)"
  by (simp_all add: returns_def)

lemma returnsD: "returns P m \<Longrightarrow> m = Inr x \<Longrightarrow> P x"
  by (simp add: returns_def)

lemma returns_weaken: "returns P m \<Longrightarrow> (\<And>x. P x \<Longrightarrow> Q x) \<Longrightarrow> returns Q m"
  by (simp add: returns_def)

lemma returns_after: "returns Q m \<Longrightarrow> (\<And>x. Q x \<Longrightarrow> returns P (f x)) \<Longrightarrow> returns P (cbind m f)"
  by (cases m) simp_all

lemma returns_bind [returns_intros]: "(\<And>x. returns P (f x)) \<Longrightarrow> returns P (cbind m f)"
  by (cases m) simp_all

lemma returns_map [returns_intros]: "(\<And>x. P (f x)) \<Longrightarrow> returns P (cmap f m)"
  by (cases m) simp_all

lemma returns_map_after: "returns (\<lambda>x. P (f x)) m \<Longrightarrow> returns P (cmap f m)"
  by (cases m) simp_all

lemma returns_if [returns_intros]: "(c \<Longrightarrow> returns P a) \<Longrightarrow> (\<not> c \<Longrightarrow> returns P b) \<Longrightarrow> returns P (if c then a else b)"
  by simp

section \<open>What is kept\<close>

text \<open>\<open>T\<close>: the tunnels the connection may point to.\<close>

definition kept :: "tun_ref set \<Rightarrow> client_connection \<Rightarrow> client_connection \<Rightarrow> bool" where
  "kept T c c' \<longleftrightarrow>
     cc_id c' = cc_id c \<and> cc_srv c' = cc_srv c \<and> cc_src_host c' = cc_src_host c \<and>
     set_option (cc_tunnel c') \<subseteq> T \<union> set_option (cc_tunnel c) \<and> (con_ok c \<longrightarrow> con_ok c')"

lemma kept_refl [simp]: "kept T c c"
  by (simp add: kept_def)

lemma kept_trans: "kept T a b \<Longrightarrow> kept T b c \<Longrightarrow> kept T a c"
  by (auto simp: kept_def)

lemma kept_status [simp]: "kept T c (set_client_connection_status c' s n d) = kept T c c'"
  by (simp add: kept_def set_client_connection_status_def con_ok_def)

lemma kept_updates [simp]:
  "kept T c (c'\<lparr>cc_fd_in := i\<rparr>) = kept T c c'" "kept T c (c'\<lparr>cc_fd_out := i\<rparr>) = kept T c c'"
  "kept T c (c'\<lparr>cc_bytes_tx := n\<rparr>) = kept T c c'" "kept T c (c'\<lparr>cc_bytes_rx := n\<rparr>) = kept T c c'"
  "kept T c (c'\<lparr>cc_end_time := i\<rparr>) = kept T c c'" "kept T c (c'\<lparr>cc_thread_has_exited := b\<rparr>) = kept T c c'"
  "kept T c (c'\<lparr>cc_route := r\<rparr>) = kept T c c'" "kept T c (c'\<lparr>cc_urlPath := s\<rparr>) = kept T c c'"
  "kept T c (c'\<lparr>cc_socks_version := i\<rparr>) = kept T c c'" "kept T c (c'\<lparr>cc_socks_command := i\<rparr>) = kept T c c'"
  "kept T c (c'\<lparr>cc_socks_command_original := i\<rparr>) = kept T c c'"
  "kept T c (c'\<lparr>cc_socks_address_type := i\<rparr>) = kept T c c'"
  "kept T c (c'\<lparr>cc_socks_address_type_original := i\<rparr>) = kept T c c'"
  "kept T c (c'\<lparr>cc_JSONStatusRequested := b\<rparr>) = kept T c c'" "kept T c (c'\<lparr>cc_JSONStatusStr := j\<rparr>) = kept T c c'"
  by (simp_all add: kept_def con_ok_def)

lemma kept_tunnel [simp]:
  "kept T c c' \<Longrightarrow> kept T c (c'\<lparr>cc_tunnel := None\<rparr>)" "kept T c c' \<Longrightarrow> t \<in> T \<Longrightarrow> kept T c (c'\<lparr>cc_tunnel := Some t\<rparr>)"
  by (auto simp: kept_def con_ok_def)

lemma kept_destination:
  "kept T c c' \<Longrightarrow> (con_ok c \<Longrightarrow> host_id_ok h) \<Longrightarrow> kept T c (c'\<lparr>cc_dst_host := h\<rparr>)"
  "kept T c c' \<Longrightarrow> (con_ok c \<Longrightarrow> host_id_ok h) \<Longrightarrow> kept T c (c'\<lparr>cc_dst_host_original := h\<rparr>)"
  by (auto simp: kept_def con_ok_def)

lemma con_ok_dst: "con_ok c \<Longrightarrow> host_id_ok (cc_dst_host c)"
  by (simp add: con_ok_def)

section \<open>The protocol\<close>

lemma address_returns:
  "returns (\<lambda>h'. host_id_ok h \<longrightarrow> host_id_ok h') (host_id_set_addr_in_from_byte_array h bs p)"
  "returns (\<lambda>h'. host_id_ok h \<longrightarrow> host_id_ok h') (host_id_set_addr_in6_from_byte_array h bs p)"
  by (auto simp: returns_def intro: host_id_ok_set_addr_in_bytes host_id_ok_set_addr_in6_bytes)

lemma socks4_get_command_keeps: "returns (\<lambda>(cmd, con', w'). kept T con con') (socks4_get_command con w)"
  unfolding socks4_get_command_def Let_def
  by (auto intro!: returns_intros returns_after [OF address_returns(1)] kept_destination con_ok_dst
      split: prod.splits option.splits)


lemma socks5_get_command_keeps: "returns (\<lambda>(cmd, con', w'). kept T con con') (socks5_get_command con w)"
proof -
  have store: "returns (\<lambda>(cmd, con', w'). kept T con con') (socks5_store_request con w v cmd ty addr)" for w v cmd ty addr
  proof -
    let ?dst = "\<lambda>port. if ty = SOCKS5_ADDRTYPE_IPV4 then host_id_set_addr_in_from_byte_array (cc_dst_host con) addr port
      else if ty = SOCKS5_ADDRTYPE_IPV6 then host_id_set_addr_in6_from_byte_array (cc_dst_host con) addr port
      else if ty = SOCKS5_ADDRTYPE_DOMAIN
        then Inr (host_id_set_port (host_id_set_name (cc_dst_host con) (cstr_of_bytes addr)) port)
      else Inr (cc_dst_host con)"
    have dst: "returns (\<lambda>h'. host_id_ok (cc_dst_host con) \<longrightarrow> host_id_ok h') (?dst port)" for port
      by (auto intro: address_returns)
    show ?thesis unfolding socks5_store_request_def Let_def
      by (auto intro!: returns_intros returns_after [OF dst] kept_destination con_ok_dst split: prod.splits)
  qed
  show ?thesis unfolding socks5_get_command_def Let_def
    by (auto intro!: returns_intros store split: prod.splits option.splits)
qed

lemma socks_handshake_keeps: "returns (\<lambda>(ok, con', w'). kept T con con') (socks_handshake con w)"
proof -
  have command: "returns (\<lambda>(ok, con', w'). kept T con con')
      (cmap (\<lambda>(cmd, con, w). (cmd \<noteq> SOCKS5_CMD_ERROR, con, w))
        (if v = 4 then socks4_get_command (con\<lparr>cc_socks_version := v\<rparr>) w
         else socks5_get_command (con\<lparr>cc_socks_version := v\<rparr>) w))" for v w
  proof -
    have "returns (\<lambda>(cmd, con', w'). kept T con con')
        (if v = 4 then socks4_get_command (con\<lparr>cc_socks_version := v\<rparr>) w
         else socks5_get_command (con\<lparr>cc_socks_version := v\<rparr>) w)"
    proof -
      have "kept T con con'" if "kept T (con\<lparr>cc_socks_version := v\<rparr>) con'" for con'
        using kept_trans [OF _ that, of con] by simp
      then show ?thesis
        by (auto intro!: returns_weaken [OF socks4_get_command_keeps [of T]] returns_weaken [OF socks5_get_command_keeps [of T]])
    qed
    then show ?thesis by (intro returns_map_after) (rule returns_weaken, assumption, auto)
  qed
  show ?thesis unfolding socks_handshake_def Let_def
    by (auto intro!: returns_intros command split: prod.splits)
qed

section \<open>The route and the way out\<close>

lemma rre_search_keeps:
  "returns (\<lambda>(r, con'). (r = None \<or> the r \<in> set rules) \<and> kept T (fst cv) con')
     (rre_search (resolve_dns_for_host_id env) port rules cv)"
proof (induction rules arbitrary: cv)
  case Nil
  then show ?case by simp
next
  case (Cons r rules)
  have to: "returns (\<lambda>cv'. kept T (fst cv) (fst cv')) (rre_permute_to r cv)" for cv
    unfolding rre_permute_to_def Let_def
    by (auto intro!: returns_intros kept_destination con_ok_dst host_id_ok_set_name host_id_ok_set_addr_in split: prod.splits)
  have dns: "returns (\<lambda>cv'. kept T (fst cv) (fst cv')) (rre_permute_dns (resolve_dns_for_host_id env) r cv)" for cv
  proof -
    have resolved: "returns (\<lambda>(rc, h'). host_id_ok h \<longrightarrow> host_id_ok h') (resolve_dns_for_host_id env h)" for h
      using dns.resolve_keeps_ok by (auto simp: returns_def)
    have "kept T (fst cv) (fst cv\<lparr>cc_dst_host := h\<rparr>)" if "host_id_ok (cc_dst_host (fst cv)) \<longrightarrow> host_id_ok h" for h
      using that by (intro kept_destination) (auto dest: con_ok_dst)
    then have "returns (\<lambda>cv'. kept T (fst cv) (fst cv'))
        (cbind (resolve_dns_for_host_id env (cc_dst_host (fst cv))) (\<lambda>(rc, tmp_id).
         cmap (\<lambda>v'. ((fst cv)\<lparr>cc_dst_host := tmp_id\<rparr>, v')) (rre_view_of tmp_id)))"
      by (intro returns_after [OF resolved]) (auto intro: returns_map)
    then show ?thesis unfolding rre_permute_dns_def by (cases cv) simp
  qed
  let ?P = "\<lambda>(x, con'). (x = None \<or> the x \<in> set (r # rules)) \<and> kept T (fst cv) con'"
  have rest: "returns ?P (rre_search (resolve_dns_for_host_id env) port rules cv')" if "kept T (fst cv) (fst cv')" for cv'
    using Cons.IH [of cv'] kept_trans [OF that] by (auto elim!: returns_weaken)
  have "returns ?P (cbind (rre_permute_to r cv) (\<lambda>cv.
      cbind (rre_permute_dns (resolve_dns_for_host_id env) r cv) (\<lambda>cv.
      if rr_tunnel r \<noteq> [] then Inr (Some r, fst cv) else rre_search (resolve_dns_for_host_id env) port rules cv)))"
    by (rule returns_after [OF to], rule returns_after [OF dns], rule returns_if)
      (auto intro!: rest [simplified] intro: kept_trans)
  with rest [of cv] show ?case by (auto intro!: returns_bind)
qed

lemma decide_keeps:
  "returns (\<lambda>(rc, con', gl'). kept T con con' \<and> (rc \<noteq> 0 \<longrightarrow> (\<exists>r \<in> set rules. cc_route con' = Some r)))
     (decide_applicable_rule env sg gl rules con)"
  unfolding decide_applicable_rule_def
  by (rule returns_bind, rule returns_after [OF rre_search_keeps [of rules T]])
    (auto simp: Let_def split: option.splits)

lemma response_keeps:
  "returns (\<lambda>(ok, con', ft, w'). kept T con con') (socks5_client_get_command_response con ft w)"
  unfolding socks5_client_get_command_response_def Let_def
  by (auto intro!: returns_intros split: prod.splits)

lemma proxy_keeps: "returns (\<lambda>(ok, con', w'). kept T con con') (connect_to_ssh_socks5_proxy con t w)"
  unfolding connect_to_ssh_socks5_proxy_def
  by (auto intro!: returns_intros split: prod.splits dial_result.splits)

lemma connect_via_ssh_socks5_keeps:
  "returns (\<lambda>(ok, con', ft, w'). kept T con con') (connect_via_ssh_socks5 con t w)"
proof -
  let ?con = "set_client_connection_status con CCSTATUS_OKAY (Some ''Connecting'') (Some ''Connecting to SSH SOCKS5 server'')"
  have proxy: "returns (\<lambda>(ok, con', w'). kept T con con') (connect_to_ssh_socks5_proxy ?con t w)"
    by (rule returns_weaken [OF proxy_keeps [of T]]) (auto intro: kept_trans [of T con ?con])
  have response: "returns P (cbind (socks5_client_get_command_response con1 ft w) f)"
    if "kept T con con1" and "\<And>ok con2 ft w. kept T con con2 \<Longrightarrow> returns P (f (ok, con2, ft, w))"
    for con1 ft w f and P :: "bool \<times> client_connection \<times> int option \<times> world \<Rightarrow> bool"
    by (rule returns_after [OF response_keeps [of T]]) (auto intro: kept_trans that)
  show ?thesis unfolding connect_via_ssh_socks5_def Let_def
    by (rule returns_after [OF proxy])
      (auto intro!: returns_bind [where m = "sock5_client_negotiate_auth c w" for c w]
        returns_bind [where m = "socks5_client_send_command c w" for c w] response)
qed

lemma connect_direct_keeps: "returns (\<lambda>(ok, con', ft, w'). kept T con con') (connect_direct con w)"
proof -
  have there: "returns (\<lambda>h'. host_id_ok h \<longrightarrow> host_id_ok h') (direct_destination env h)" for env h
    using dns.resolve_keeps_ok
    by (auto simp: direct_destination_def returns_def cmap_def split: option.splits elim!: cbind_InrE
        intro: host_id_ok_set_addr_in)
  show ?thesis unfolding connect_direct_def Let_def
  proof (rule returns_after [OF there])
    fix dst
    assume "host_id_ok (cc_dst_host con) \<longrightarrow> host_id_ok dst"
    then have "kept T con (con\<lparr>cc_dst_host := dst\<rparr>)" by (intro kept_destination) (auto dest: con_ok_dst)
    then show "returns (\<lambda>(ok, con', ft, w'). kept T con con') (case host_id_get_addr dst of
        AF_INET saddr_in \<Rightarrow>
          cbind (dial_out w saddr_in) (\<lambda>(r, w).
          case r of
            Dial_no_socket e \<Rightarrow> Inr (False, con\<lparr>cc_dst_host := dst, cc_fd_out := -1\<rparr>, Some SOCKS5_REPLY_SERVER_FAILURE, w)
          | Dial_failed e \<Rightarrow>
              Inr (False, con\<lparr>cc_dst_host := dst, cc_fd_out := -1\<rparr>,
                   if e = ECONNREFUSED \<or> e = ECONNRESET then Some SOCKS5_REPLY_CONNECTION_REFUSED
                   else Some SOCKS5_REPLY_SERVER_FAILURE, w)
          | Dial_ok fd \<Rightarrow> Inr (True, con\<lparr>cc_dst_host := dst, cc_fd_out := fd\<rparr>, Some SOCKS5_REPLY_SUCCEED, w))
      | _ \<Rightarrow> Inr (False, con\<lparr>cc_dst_host := dst\<rparr>, Some SOCKS5_REPLY_ADDRESS_TYPE_NOT_SUPPORTED, w))"
      by (auto intro!: returns_bind split: prod.splits dial_result.splits sockaddr.splits)
  qed
qed

lemma connect_tunnel_keeps: "returns (\<lambda>(ok, con', ft, w'). kept T con con') (connect_tunnel env tun con ft w)"
  unfolding connect_tunnel_def
  by (auto intro!: returns_intros connect_direct_keeps connect_via_ssh_socks5_keeps simp: connect_null_def split: option.splits)

lemma socks_connect_loop_keeps:
  assumes "set tunnels \<subseteq> T" and "tunnels \<noteq> []"
    and connect: "\<And>t con ft w. returns (\<lambda>(ok, con', ft', w'). kept T con con') (connect t con ft w)"
  shows "returns (\<lambda>(ok, con', ft', w'). kept T con con') (socks_connect_loop connect tunnels attempt con ft w)"
proof (induction "100 - attempt" arbitrary: attempt con ft w rule: less_induct)
  case less
  let ?tun = "tunnels ! (attempt mod length tunnels)"
  let ?con = "con\<lparr>cc_tunnel := Some ?tun\<rparr>"
  have start: "kept T con con'" if "kept T ?con con'" for con'
    using kept_trans [OF _ that] assms(1,2) by (simp add: subset_eq)
  let ?next = "\<lambda>con1 ft1 f w1.
      let refused = (f = SOCKS5_REPLY_CONNECTION_REFUSED);
          con2 = (if refused
                  then set_client_connection_status con1 CCSTATUS_ERR_NETWORK (Some ''Connection Refused'')
                         (Some ''Connection to remote host was refused.'')
                  else con1);
          (con3, w2) = close_fd_out (con2\<lparr>cc_tunnel := None\<rparr>) w1
      in if attempt \<ge> 100 \<or> refused then Inr (False, con3, ft1, w2)
         else socks_connect_loop connect tunnels (attempt + 1) con3 ft1 (w2\<lparr>w_sleeps := w_sleeps w2 + 1\<rparr>)"
  have closed: "kept T con con3" if "kept T con con2" "close_fd_out (con2\<lparr>cc_tunnel := None\<rparr>) w1 = (con3, w2)" for con2 con3 w1 w2
    using that by (auto simp: close_fd_out_def split: if_splits)
  have again: "returns (\<lambda>(ok, con', ft', w'). kept T con con') (socks_connect_loop connect tunnels (Suc attempt) con3 ft1 w2)"
    if "attempt < 100" "kept T con con3" for con3 ft1 w2
    using that by (intro returns_weaken [OF less]) (auto intro: kept_trans)
  have "returns (\<lambda>(ok, con', ft', w'). kept T con con') (?next con1 ft1 f w1)" if k: "kept T con con1" for con1 ft1 f w1
    using k by (auto simp: Let_def intro!: again returns_if split: prod.splits dest!: closed [rotated])
  then show ?case
    unfolding socks_connect_loop.simps [of connect tunnels attempt] Let_def
    by (intro returns_after [OF connect]) (auto simp: start Let_def split: option.splits)
qed

lemma socks_connect_keeps:
  assumes "\<And>route. cc_route con = Some route \<Longrightarrow> set (rr_tunnel route) \<subseteq> T"
  shows "returns (\<lambda>(ok, con', ft', w'). kept T con con') (socks_connect env con ft w)"
  unfolding socks_connect_def Let_def
  by (auto intro!: returns_intros socks_connect_loop_keeps connect_tunnel_keeps dest: assms split: option.splits)

section \<open>The transfer\<close>

lemma shuttle_keeps: "returns (\<lambda>(rc, con', w'). kept T con con') (shuttle con fd_read fd_write w)"
  unfolding shuttle_def by (auto intro!: returns_intros split: prod.splits)

lemma shuttle_in_out_keeps: "returns (\<lambda>(err, go, con', w'). kept T con con') (shuttle_in_out rd wr con w)"
  unfolding shuttle_in_out_def
  by (auto intro!: returns_if returns_map_after returns_after [OF shuttle_keeps [of T]] split: prod.splits)

lemma shuttle_out_in_keeps: "returns (\<lambda>(err, go, con', w'). kept T con con') (shuttle_out_in rd wr con w)"
  unfolding shuttle_out_in_def
  by (auto intro!: returns_if returns_map_after returns_after [OF shuttle_keeps [of T]] split: prod.splits)

lemma shuttle_loop_keeps: "returns (\<lambda>(rc, con', w'). kept T con con') (shuttle_loop ps i_ok o_ok con w)"
proof (induction ps arbitrary: i_ok o_ok con w)
  case (Cons p ps)
  have again: "returns (\<lambda>(rc, con', w'). kept T con con') (shuttle_loop ps i j con2 w2)" if "kept T con con2" for con2 i j w2
    by (rule returns_weaken [OF Cons.IH]) (auto intro: kept_trans that)
  have backwards: "returns P (cbind (shuttle_out_in rd wr con1 w1) f)"
    if "kept T con con1" and "\<And>err go con2 w2. kept T con con2 \<Longrightarrow> returns P (f (err, go, con2, w2))"
    for con1 w1 rd wr f and P :: "int \<times> client_connection \<times> world \<Rightarrow> bool"
    by (rule returns_after [OF shuttle_out_in_keeps [of T]]) (auto intro: kept_trans that)
  show ?case
  proof (cases p)
    case (Poll_fail e)
    then show ?thesis using again [of con] by simp
  next
    case (Poll_ok ev0 ev1)
    then show ?thesis
      by (auto simp: Let_def intro!: returns_if returns_after [OF shuttle_in_out_keeps [of T]] backwards again)
  qed
qed simp

lemma shuttle_null_keeps: "returns (\<lambda>(rc, con', w'). kept T con con') (shuttle_null_connection con w)"
proof (induction con w rule: shuttle_null_connection.induct)
  case (1 con w)
  let ?con = "con\<lparr>cc_bytes_rx := cc_bytes_rx con + 1\<rparr>"
  have count: "kept T con con'" if "kept T ?con con'" for con' using kept_trans [OF _ that, of con] by simp
  show ?case
  proof (cases "sb_read_len w (cc_fd_in con) 1")
    case (Inr r)
    obtain rc buf w1 where r: "r = (rc, buf, w1)" by (cases r)
    show ?thesis
    proof (cases "rc = 1")
      case True
      then have "returns (\<lambda>(rc, con', w'). kept T ?con con') (shuttle_null_connection ?con w1)"
        using 1 Inr r by auto
      then have "returns (\<lambda>(rc, con', w'). kept T con con') (shuttle_null_connection ?con w1)"
        by (rule returns_weaken) (auto intro: count)
      then show ?thesis using True Inr r by (simp add: shuttle_null_connection.simps [of con w])
    qed (use Inr r in \<open>simp add: shuttle_null_connection.simps [of con w] Let_def\<close>)
  qed (simp add: shuttle_null_connection.simps [of con w])
qed

lemma socks_connect_shuttle_keeps: "returns (\<lambda>(rc, con', w'). kept T con con') (socks_connect_shuttle sg con w)"
  by (simp add: socks_connect_shuttle_def shuttle_data_back_and_forth_def shuttle_null_keeps shuttle_loop_keeps)

section \<open>The handlers\<close>

lemma service_shutdown_keeps: "returns (\<lambda>(con', w'). kept T con con') (service_thread_shutdown con ok w)"
  by (auto simp: service_thread_shutdown_def Let_def intro!: returns_intros)

lemma route_and_relay_keeps:
  assumes "\<And>r. r \<in> set rules \<Longrightarrow> set (rr_tunnel r) \<subseteq> T"
  shows "returns (\<lambda>(ok, con', gl', w'). kept T con con') (route_and_relay reply env gl rules con w)"
proof -
  have connect: "returns P (cbind (socks_connect env con1 ft w) f)"
    if "kept T con con1" "\<exists>r \<in> set rules. cc_route con1 = Some r"
      and "\<And>ok con2 ft w2. kept T con con2 \<Longrightarrow> returns P (f (ok, con2, ft, w2))"
    for con1 ft w f and P :: "bool \<times> client_connection \<times> rre_globals \<times> world \<Rightarrow> bool"
  proof (rule returns_after [OF socks_connect_keeps [of con1 T]])
    show "set (rr_tunnel route) \<subseteq> T" if "cc_route con1 = Some route" for route
      using that assms \<open>\<exists>r \<in> set rules. cc_route con1 = Some r\<close> by auto
  qed (auto intro: that kept_trans)
  have relay: "returns (\<lambda>(ok, con', gl', w'). kept T con con')
      (cmap (\<lambda>(rc, con, w). (rc \<noteq> 0, con, gl1, w)) (socks_connect_shuttle (fst env) con2 w2))"
    if "kept T con con2" for con2 w2 gl1
    by (rule returns_map_after, rule returns_weaken [OF socks_connect_shuttle_keeps [of T]]) (auto intro: kept_trans that)
  show ?thesis unfolding route_and_relay_def
    by (rule returns_after [OF decide_keeps [of T con rules]])
      (auto intro!: connect returns_bind [where m = "if b then f else g" for b f g]
        returns_bind [where m = "case ft of None \<Rightarrow> Inl UB | Some f \<Rightarrow> g f" for ft g] relay)
qed

lemma shut_down_after:
  assumes "returns (\<lambda>(ok, con', gl', w'). kept T con con') m"
  shows "returns (\<lambda>(con', gl', w'). kept T con con')
     (cbind m (\<lambda>(ok, con, gl, w). cmap (\<lambda>(con, w). (con, gl, w)) (service_thread_shutdown con ok w)))"
proof -
  have "returns (\<lambda>(con', gl', w'). kept T con con') (cmap (\<lambda>(con, w). (con, gl, w)) (service_thread_shutdown con1 ok w))"
    if "kept T con con1" for con1 ok w gl
    by (rule returns_map_after, rule returns_weaken [OF service_shutdown_keeps [of T]]) (auto intro: kept_trans that)
  then show ?thesis by (intro returns_after [OF assms]) auto
qed

lemma socks_handler_keeps:
  assumes "\<And>r. r \<in> set rules \<Longrightarrow> set (rr_tunnel r) \<subseteq> T"
  shows "returns (\<lambda>(con', gl', w'). kept T con con') (service_socks_connection_handler env gl rules con w)"
proof -
  let ?con = "con\<lparr>cc_socks_version := SOCKS_VERSION_ERROR, cc_socks_command := SOCKS5_CMD_ERROR,
    cc_socks_command_original := SOCKS5_CMD_ERROR, cc_dst_host := host_id_set_port (cc_dst_host con) 0\<rparr>"
  have start: "kept T con ?con" by (auto simp: kept_def con_ok_def)
  have relay: "returns (\<lambda>(con', gl', w'). kept T con con')
      (cbind (if ok then route_and_relay True env gl rules con1 w1 else Inr (False, con1, gl, w1)) (\<lambda>(ok, con, gl, w).
         cmap (\<lambda>(con, w). (con, gl, w)) (service_thread_shutdown con ok w)))"
    if "kept T ?con con1" for ok con1 w1
  proof (rule shut_down_after)
    have k: "kept T con con1" by (rule kept_trans [OF start that])
    then show "returns (\<lambda>(ok, con', gl', w'). kept T con con')
        (if ok then route_and_relay True env gl rules con1 w1 else Inr (False, con1, gl, w1))"
      by (auto intro!: returns_weaken [OF route_and_relay_keeps [OF assms]] intro: kept_trans)
  qed
  show ?thesis unfolding service_socks_connection_handler_def Let_def
    by (rule returns_after [OF socks_handshake_keeps [of T ?con]]) (auto intro: relay)
qed

lemma port_forward_handler_keeps:
  assumes "\<And>r. r \<in> set rules \<Longrightarrow> set (rr_tunnel r) \<subseteq> T"
  shows "returns (\<lambda>(con', gl', w'). kept T con con') (service_port_forward_connection_handler fwd env gl rules con w)"
proof -
  let ?dst = "host_id_set_port (host_id_set_name (cc_dst_host con) (pf_remote_host fwd)) (pf_remote_port fwd)"
  let ?con = "con\<lparr>cc_socks_version := 5, cc_socks_command := SOCKS5_CMD_CONNECT,
    cc_socks_command_original := SOCKS5_CMD_CONNECT, cc_socks_address_type := SOCKS5_ADDRTYPE_DOMAIN,
    cc_socks_address_type_original := SOCKS5_ADDRTYPE_DOMAIN, cc_dst_host := ?dst, cc_dst_host_original := ?dst\<rparr>"
  have start: "kept T con ?con" by (auto simp: kept_def con_ok_def)
  show ?thesis unfolding service_port_forward_connection_handler_def Let_def
    by (rule shut_down_after, rule returns_weaken [OF route_and_relay_keeps [OF assms]])
      (auto intro: kept_trans [OF start])
qed

text \<open>The main thread fills the fields of the request; it leaves the rest alone.\<close>

lemma json_wait_keeps:
  "(\<And>i c. kept T c (main i c)) \<Longrightarrow> json_wait n main i con w = (con', w') \<Longrightarrow> kept T con con'"
proof (induction n arbitrary: i con w)
  case (Suc n)
  show ?case
  proof (cases "cc_JSONStatusReady con")
    case False
    with Suc.prems(2) have "kept T (main i con) con'" by (intro Suc.IH [OF Suc.prems(1)]) simp
    with Suc.prems(1) show ?thesis by (rule kept_trans)
  qed (use Suc.prems(2) in simp)
qed simp

lemma http_handler_keeps:
  assumes "\<And>i c. kept T c (main i c)"
  shows "returns (\<lambda>(con', w'). kept T con con') (service_http_connection_handler fs main http con w)"
proof -
  have state: "returns (\<lambda>(response, con', w'). kept T con con') (return_connection_state_json main con w)" for con w
  proof -
    have "kept T con con1" if "json_wait 100 main 0 (con\<lparr>cc_JSONStatusRequested := True\<rparr>) w1 = (con1, w2)" for con1 w1 w2
      by (rule kept_trans [OF _ json_wait_keeps [OF assms that]]) simp
    then show ?thesis unfolding return_connection_state_json_def Let_def
      by (auto intro!: returns_intros split: prod.splits)
  qed
  have contents: "returns (\<lambda>(response, con', w'). kept T con con') (return_file_contents fs http con req w)" for con w req
    unfolding return_file_contents_def Let_def
    by (auto intro!: returns_intros split: prod.splits option.splits)
  have answer: "returns (\<lambda>(response, con', w'). kept T con con') (http_answer fs main http con req w)" for con w req
    unfolding http_answer_def
    by (auto intro!: returns_intros contents returns_weaken [OF state] intro: kept_trans [rotated])
  have shut: "returns (\<lambda>(con', w'). kept T con con') (service_thread_shutdown (con1\<lparr>cc_JSONStatusStr := None\<rparr>) True w1)"
    if "kept T con con1" for con1 w1
  proof -
    have "kept T con (con1\<lparr>cc_JSONStatusStr := None\<rparr>)" using that by simp
    from kept_trans [OF this] show ?thesis by (intro returns_weaken [OF service_shutdown_keeps [of T]]) auto
  qed
  have respond: "returns (\<lambda>(con', w'). kept T con con')
      (cbind (if rc \<le> 0 then Inr (''500 Internal Server Error'', con, w1) else http_answer fs main http con req w1)
        (\<lambda>(response, con, w). service_thread_shutdown (con\<lparr>cc_JSONStatusStr := None\<rparr>) True w))" for rc req w1
    by (rule returns_after [where Q = "\<lambda>(response, con', w'). kept T con con'"]) (auto intro: answer shut)
  show ?thesis unfolding service_http_connection_handler_def
    by (rule returns_bind) (auto intro: respond)
qed

end
