(* ===== verification/Relay_Live.thy ===== *)
theory Relay_Live
  imports Shuttle Outgoing
begin

text \<open>
  The relay comes to an end: when both peers go on, close or fail, the chunks leave the buffer
  a spare byte, and some poll fails for good or reports an error, the relay returns.
\<close>

definition short_rx :: "rd_event list \<Rightarrow> bool" where
  "short_rx es = list_all (\<lambda>e. case e of Rd_data bs \<Rightarrow> length bs < shuttle_buf | _ \<Rightarrow> True) es"

lemma short_rx_simps [simp]:
  "short_rx []" "short_rx (Rd_data bs # es) = (length bs < shuttle_buf \<and> short_rx es)"
  "short_rx (Rd_eof # es) = short_rx es" "short_rx (Rd_fail e # es) = short_rx es"
  "short_rx (es @ fs) = (short_rx es \<and> short_rx fs)"
  by (simp_all add: short_rx_def)

definition relay_live :: "world \<Rightarrow> int \<Rightarrow> bool" where
  "relay_live w fd \<longleftrightarrow> peer_live w fd \<and> short_rx (sk_rx (w_sock w fd))"

text \<open>The poll that ends the relay at the latest.\<close>

definition stops :: "poll_event \<Rightarrow> bool" where
  "stops p = (case p of Poll_fail e \<Rightarrow> e \<noteq> EINTR | Poll_ok ev0 ev1 \<Rightarrow> ev_bad ev0 \<or> ev_bad ev1)"

section \<open>Reads and writes of live peers\<close>

lemma sys_read_short:
  "sys_read n (es, en) = Inr (rc, d, es', en') \<Longrightarrow> short_rx es \<Longrightarrow> short_rx es' \<and> length d < shuttle_buf"
proof (induction n "(es, en)" arbitrary: es rule: sys_read.induct)
  case (2 n bs es)
  then show ?case by (auto simp: shuttle_buf_def split: if_splits)
qed (auto simp: shuttle_buf_def split: if_splits)

lemma sb_read_loop_live:
  "rx_end_of es \<noteq> End_block \<Longrightarrow> short_rx es \<Longrightarrow> 0 < n \<Longrightarrow>
     \<exists>rc d es' en'. sb_read_loop n (es, en) = Inr (rc, d, es', en') \<and> short_rx es' \<and> length d < shuttle_buf \<and>
       (0 \<le> rc \<longrightarrow> rx_end_of es' \<noteq> End_block)"
proof (induction n "(es, en)" arbitrary: es en rule: sb_read_loop.induct)
  case (1 n es en)
  obtain rc d es' en' where r: "sys_read n (es, en) = Inr (rc, d, es', en')"
  proof (cases "sys_read n (es, en)")
    case (Inl f)
    with sys_read_blocks [OF "1.prems"(3) Inl] "1.prems"(1) show ?thesis by simp
  next
    case (Inr x)
    with that show ?thesis by (cases x) blast
  qed
  note s = sys_read_stream [OF r "1.prems"(3)] and k = sys_read_short [OF r "1.prems"(2)]
  show ?case
  proof (cases "rc < 0 \<and> en' = EINTR")
    case True
    then have "rx_end_of es' \<noteq> End_block" using s "1.prems"(1) by (auto split: if_splits)
    from "1.hyps" [OF r refl refl refl True this] k "1.prems"(3) r True show ?thesis
      by (subst sb_read_loop.simps) auto
  next
    case False
    have "0 \<le> rc \<longrightarrow> rx_end_of es' \<noteq> End_block" using s "1.prems"(1) by (auto split: if_splits)
    with False r k show ?thesis by (subst sb_read_loop.simps) auto
  qed
qed

lemma sb_read_live:
  assumes "relay_live w fd" and "0 < n"
  shows "\<exists>rc d w'. sb_read w fd n = Inr (rc, d, w') \<and> only_rx fd w w' \<and> length d < shuttle_buf \<and>
    (0 \<le> rc \<longrightarrow> relay_live w' fd)"
  using sb_read_loop_live [of "sk_rx (w_sock w fd)" n "w_errno w"] assms
  by (auto simp: relay_live_def peer_live_def rx_live_def sb_read_def)

lemma sb_write_live:
  assumes "relay_live w fd" and "buf \<noteq> []"
  shows "\<exists>rc w' s. sb_write_len w fd buf = Inr (rc, w') \<and> only_tx fd w w' s \<and> (0 \<le> rc \<longrightarrow> relay_live w' fd)"
proof -
  obtain rc w' where r: "sb_write_len w fd buf = Inr (rc, w')" "0 \<le> rc \<longrightarrow> peer_live w' fd"
    using sb_write_len_live [of w fd buf] assms by (auto simp: relay_live_def)
  obtain s where "only_tx fd w w' s" using sb_write_len_cases [OF r(1) assms(2)] by blast
  moreover from this have "sk_rx (w_sock w' fd) = sk_rx (w_sock w fd)" using only_tx_frame(3) by blast
  ultimately show ?thesis using r assms(1) by (auto simp: relay_live_def)
qed

lemma relay_live_other:
  "only_rx fd w w' \<Longrightarrow> x \<noteq> fd \<Longrightarrow> relay_live w' x = relay_live w x"
  "only_tx fd w w' s \<Longrightarrow> x \<noteq> fd \<Longrightarrow> relay_live w' x = relay_live w x"
  using only_rx_frame(1) only_tx_frame(1) by (auto simp: relay_live_def peer_live_def rx_live_def)

lemma relay_live_close [simp]:
  "relay_live (sys_close w x) fd = relay_live w fd" "relay_live (w\<lparr>w_polls := ps\<rparr>) fd = relay_live w fd"
  by (auto simp: relay_live_def peer_live_def rx_live_def sys_close_def)

section \<open>Transfers\<close>

lemma shuttle_live:
  assumes "relay_live w fr" and "relay_live w fd" and "fr \<noteq> fd" and "0 \<le> fd"
  shows "\<exists>rc con' w'. shuttle con fr (if can then fd else -1) w = Inr (rc, con', w') \<and>
    (0 \<le> rc \<longrightarrow> relay_live w' fr \<and> relay_live w' fd) \<and> relay_fields con' = relay_fields con"
proof -
  obtain n d w1 where r: "sb_read w fr shuttle_buf = Inr (n, d, w1)" "only_rx fr w w1" "length d < shuttle_buf"
    "0 \<le> n \<longrightarrow> relay_live w1 fr"
    using sb_read_live [OF assms(1), of shuttle_buf] by (auto simp: shuttle_buf_def)
  have fd1: "relay_live w1 fd" using relay_live_other(1) [OF r(2), of fd] assms(2,3) by auto
  have n: "0 < n \<longrightarrow> d \<noteq> []" using sb_read_cases [OF r(1)] by (auto simp: shuttle_buf_def split: if_splits)
  show ?thesis
  proof (cases "0 < n \<and> can")
    case True
    then obtain m w2 s where wr: "sb_write_len w1 fd d = Inr (m, w2)" "only_tx fd w1 w2 s" "0 \<le> m \<longrightarrow> relay_live w2 fd"
      using sb_write_live [OF fd1, of d] n by blast
    have "relay_live w2 fr" using relay_live_other(2) [OF wr(2)] assms(3) r(4) True by simp
    then show ?thesis using r(1,3) wr True assms(4) by (auto simp: shuttle_def)
  next
    case False
    with r fd1 assms(4) show ?thesis by (auto simp: shuttle_def)
  qed
qed

lemma shuttle_in_out_live:
  assumes "relay_live w fi" and "relay_live w fo" and "fi \<noteq> fo" and "0 \<le> fo"
    and "cc_fd_in con = fi" and "cc_fd_out con = fo"
  shows "\<exists>err go con' w'. shuttle_in_out ready ocw con w = Inr (err, go, con', w') \<and>
    (\<not> err \<longrightarrow> relay_live w' fi \<and> relay_live w' fo \<and> cc_fd_out con' = fo \<and> cc_fd_in con' = (if go then fi else -1))"
proof (cases ready)
  case True
  obtain rc c1 w1 where "shuttle con fi (if ocw then fo else -1) w = Inr (rc, c1, w1)"
    "0 \<le> rc \<longrightarrow> relay_live w1 fi \<and> relay_live w1 fo" "relay_fields c1 = relay_fields con"
    using shuttle_live [OF assms(1,2,3,4)] by blast
  with True assms(5,6) show ?thesis by (auto simp: shuttle_in_out_def relay_fields_def ex_bool_eq)
qed (use assms in \<open>simp add: shuttle_in_out_def ex_bool_eq\<close>)

lemma shuttle_out_in_live:
  assumes "relay_live w fi" and "relay_live w fo" and "fi \<noteq> fo" and "0 \<le> fi"
    and "cc_fd_in con = (if live then fi else -1)" and "cc_fd_out con = fo"
  shows "\<exists>err go con' w'. shuttle_out_in ready icw con w = Inr (err, go, con', w') \<and>
    (\<not> err \<longrightarrow> relay_live w' fi \<and> relay_live w' fo \<and> cc_fd_in con' = cc_fd_in con \<and> cc_fd_out con' = (if go then fo else -1))"
proof (cases ready)
  case True
  have "(if icw then cc_fd_in con else -1) = (if icw \<and> live then fi else -1)" using assms(5) by simp
  moreover obtain rc c1 w1 where "shuttle con fo (if icw \<and> live then fi else -1) w = Inr (rc, c1, w1)"
    "0 \<le> rc \<longrightarrow> relay_live w1 fo \<and> relay_live w1 fi" "relay_fields c1 = relay_fields con"
    using shuttle_live [OF assms(2,1) assms(3) [symmetric] assms(4)] by blast
  ultimately show ?thesis using True assms(6) by (auto simp: shuttle_out_in_def relay_fields_def ex_bool_eq)
qed (use assms in \<open>simp add: shuttle_out_in_def ex_bool_eq\<close>)

section \<open>Exact reads and writes keep a peer live\<close>

lemma sb_read_len_loop_short_rx:
  "sb_read_len_loop n (es, en) = Inr (rc, d, es', en') \<Longrightarrow> short_rx es \<Longrightarrow> short_rx es'"
proof (induction n "(es, en)" arbitrary: es en rc d rule: sb_read_len_loop.induct)
  case (1 n es en)
  obtain r0 d0 es1 en1 where r: "sys_read n (es, en) = Inr (r0, d0, es1, en1)"
    using "1.prems"(1) by (subst (asm) sb_read_len_loop.simps) (auto simp: cbind_eq_Inr)
  have k: "short_rx es1" using sys_read_short [OF r "1.prems"(2)] by simp
  show ?case
  proof (cases "(r0 > 0 \<and> n - length d0 > 0) \<or> (r0 < 0 \<and> en1 = EINTR)")
    case True
    then obtain rc2 d2 where "sb_read_len_loop (n - length d0) (es1, en1) = Inr (rc2, d2, es', en')"
      using "1.prems"(1) r by (subst (asm) sb_read_len_loop.simps) (auto simp: Let_def cmap_def cbind_eq_Inr)
    from "1.hyps" [OF r refl refl refl refl True this k] show ?thesis .
  next
    case False
    with "1.prems"(1) r k show ?thesis by (subst (asm) sb_read_len_loop.simps) (auto simp: Let_def)
  qed
qed

lemma sb_read_len_relay_live:
  assumes "sb_read_len w fd n = Inr (rc, d, w')" and "0 \<le> rc" and "relay_live w fd"
  shows "relay_live w' fd"
proof -
  have "peer_live w' fd" using sb_read_len_live [of w fd n] assms by (auto simp: relay_live_def)
  moreover have "short_rx (sk_rx (w_sock w' fd))"
    using assms(1,3) sb_read_len_loop_short_rx
    by (fastforce simp: sb_read_len_def cmap_def cbind_eq_Inr relay_live_def)
  ultimately show ?thesis by (simp add: relay_live_def)
qed

lemma sb_write_len_relay_live:
  assumes "sb_write_len w fd buf = Inr (rc, w')" and "0 \<le> rc" and "relay_live w fd" and "buf \<noteq> []"
  shows "relay_live w' fd"
  using sb_write_live [OF assms(3,4)] assms(1,2) by auto

lemma version_relay_live:
  assumes "socks_get_client_version con w = Inr (v, w')" and "v \<noteq> SOCKS_VERSION_ERROR" and "relay_live w (cc_fd_in con)"
  shows "relay_live w' (cc_fd_in con)"
  using assms sb_read_len_relay_live
  by (fastforce simp: socks_get_client_version_def cbind_eq_Inr Let_def split: if_splits)

lemma negotiate_relay_live:
  assumes "socks5_negotiate_auth con w = Inr (SOCKS5_AUTH_NONE_REQUIRED, w')" and "relay_live w (cc_fd_in con)"
  shows "relay_live w' (cc_fd_in con)"
proof -
  have ne: "SOCKS_AUTH_ERROR \<noteq> SOCKS5_AUTH_NONE_REQUIRED" by (simp add: socks_consts)
  obtain c w1 ms w2 where r: "sb_read_len w (cc_fd_in con) 1 = Inr (1, c, w1)"
    "sb_read_len w1 (cc_fd_in con) (unat (c ! 0)) = Inr (int (unat (c ! 0)), ms, w2)"
    "sb_write_len w2 (cc_fd_in con) [0x05, byte_of SOCKS5_AUTH_NONE_REQUIRED] = Inr (2, w')"
    using assms(1) ne by (auto simp: socks5_negotiate_auth_def cbind_eq_Inr Let_def split: if_splits)
  have "relay_live w1 (cc_fd_in con)" by (rule sb_read_len_relay_live [OF r(1) _ assms(2)]) simp
  from sb_read_len_relay_live [OF r(2) _ this] have "relay_live w2 (cc_fd_in con)" by simp
  from sb_write_len_relay_live [OF r(3) _ this] show ?thesis by simp
qed

lemma read_address_relay_live:
  assumes "socks5_read_address con w a = Inr (Some x, w')" and "relay_live w (cc_fd_in con)"
  shows "relay_live w' (cc_fd_in con)"
  using assms sb_read_len_relay_live
  by (fastforce simp: socks5_read_address_def cbind_eq_Inr Let_def split: if_splits)

lemma store_request_relay_live:
  assumes "socks5_store_request con w v c a x = Inr (cmd, con', w')" and "cmd \<noteq> SOCKS5_CMD_ERROR"
    and "relay_live w (cc_fd_in con)"
  shows "relay_live w' (cc_fd_in con)"
proof -
  obtain b where r: "sb_read_len w (cc_fd_in con) 2 = Inr (2, b, w')"
    using assms(1,2) by (auto simp: socks5_store_request_def cbind_eq_Inr Let_def split: if_splits)
  show ?thesis by (rule sb_read_len_relay_live [OF r _ assms(3)]) simp
qed

lemma socks5_get_command_relay_live:
  assumes "socks5_get_command con w = Inr (cmd, con', w')" and "cmd \<noteq> SOCKS5_CMD_ERROR" and "relay_live w (cc_fd_in con)"
  shows "relay_live w' (cc_fd_in con)"
proof -
  obtain b w1 x w2 where r: "sb_read_len w (cc_fd_in con) 4 = Inr (4, b, w1)"
    "socks5_read_address con w1 (uint (b ! 3)) = Inr (Some x, w2)"
    "socks5_store_request con w2 (uint (b ! 0)) (uint (b ! 1)) (uint (b ! 3)) x = Inr (cmd, con', w')"
    using assms(1,2) by (auto simp: socks5_get_command_def cbind_eq_Inr Let_def split: if_splits option.splits)
  have "relay_live w1 (cc_fd_in con)" by (rule sb_read_len_relay_live [OF r(1) _ assms(3)]) simp
  from read_address_relay_live [OF r(2) this] store_request_relay_live [OF r(3) assms(2)] show ?thesis by blast
qed

section \<open>The relay ends\<close>

lemma shuttle_loop_returns:
  assumes "list_ex stops ps" and "relay_live w fi" and "relay_live w fo" and "fi \<noteq> fo" and "0 \<le> fi" and "0 \<le> fo"
    and "cc_fd_in con = fi" and "cc_fd_out con = fo"
  shows "\<exists>x. shuttle_loop ps icw ocw con w = Inr x"
  using assms(1-3,7,8)
proof (induction ps arbitrary: icw ocw con w)
  case (Cons p ps)
  show ?case
  proof (cases p)
    case (Poll_fail e)
    with Cons show ?thesis by (cases "e = EINTR") (auto simp: stops_def)
  next
    case (Poll_ok ev0 ev1)
    define i where "i = (icw \<and> \<not> ev_hup ev0)"
    define b where "b = (ocw \<and> \<not> ev_hup ev1)"
    note io = Poll_ok i_def [symmetric] b_def [symmetric]
    show ?thesis
    proof (cases "ev_bad ev0 \<or> ev_bad ev1")
      case True
      then show ?thesis by (simp add: io Let_def)
    next
      case ok: False
      obtain err1 go1 con1 w1 where 1: "shuttle_in_out (ev_rdnorm ev0) b con w = Inr (err1, go1, con1, w1)"
        "\<not> err1 \<longrightarrow> relay_live w1 fi \<and> relay_live w1 fo \<and> cc_fd_out con1 = fo \<and> cc_fd_in con1 = (if go1 then fi else -1)"
        using shuttle_in_out_live [OF Cons.prems(2,3) assms(4,6) Cons.prems(4,5)] by blast
      show ?thesis
      proof (cases err1)
        case True
        with ok 1 show ?thesis by (simp add: io Let_def)
      next
        case e1: False
        obtain err2 go2 con2 w2 where 2: "shuttle_out_in (ev_rdnorm ev1) i con1 w1 = Inr (err2, go2, con2, w2)"
          "\<not> err2 \<longrightarrow> relay_live w2 fi \<and> relay_live w2 fo \<and> cc_fd_in con2 = cc_fd_in con1 \<and>
             cc_fd_out con2 = (if go2 then fo else -1)"
          using shuttle_out_in_live [of w1 fi fo con1 go1] 1(2) e1 assms(4,5) by blast
        have "list_ex stops ps" using Cons.prems(1) ok Poll_ok stops_def [of p] by simp
        with Cons.IH [of w2 con2 i b] 1 2 e1 ok show ?thesis by (auto simp: io Let_def)
      qed
    qed
  qed
qed simp

text \<open>
  C20: the relay ends: when both sides go on sending and taking, close or fail, no chunk
  fills the buffer, and a poll fails for good or reports an error sooner or later, the relay
  returns, without undefined behaviour and without waiting for ever.
\<close>

theorem relay_returns:
  assumes "list_ex stops (w_polls w)" and "relay_live w (cc_fd_in con)" and "relay_live w (cc_fd_out con)"
    and "cc_fd_in con \<noteq> cc_fd_out con" and "0 \<le> cc_fd_in con" and "0 \<le> cc_fd_out con"
  shows "\<exists>rc con' w'. shuttle_data_back_and_forth con w = Inr (rc, con', w')"
  using shuttle_loop_returns [OF assms refl refl] by (auto simp: shuttle_data_back_and_forth_def)

theorem relay_returns_witness:
  "let w = quiet_world\<lparr>w_sock := (\<lambda>_. quiet_sock\<lparr>sk_rx := [Rd_data [1], Rd_fail 4, Rd_data [2], Rd_eof], sk_wr := [Wr_take 1, Wr_fail 54]\<rparr>),
                        w_polls := [poll_in, Poll_fail 4, poll_in, Poll_fail 9]\<rparr>
   in \<exists>rc con' w'. shuttle_data_back_and_forth con_linked w = Inr (rc, con', w')"
proof -
  let ?w = "quiet_world\<lparr>w_sock := (\<lambda>_. quiet_sock\<lparr>sk_rx := [Rd_data [1], Rd_fail 4, Rd_data [2], Rd_eof], sk_wr := [Wr_take 1, Wr_fail 54]\<rparr>),
                        w_polls := [poll_in, Poll_fail 4, poll_in, Poll_fail 9]\<rparr>"
  have "relay_live ?w fd" for fd by (simp add: relay_live_def peer_live_def rx_live_def shuttle_buf_def)
  then show ?thesis
    using relay_returns [of ?w con_linked] unfolding Let_def by (simp add: con_linked_fds stops_def)
qed

end
