(* ===== verification/Sessions.thy ===== *)
theory Sessions
  imports Handlers Relay_Live
begin

text \<open>
  Whole sessions: the handlers of \<open>Handlers\<close> run from the first byte of the client to the
  closed sockets, over the lemmas of the parts.
\<close>

section \<open>Handshakes\<close>

text \<open>Nothing but one socket and \<open>errno\<close> has changed.\<close>

definition io_frame :: "int \<Rightarrow> world \<Rightarrow> world \<Rightarrow> bool" where
  "io_frame fd w w' \<longleftrightarrow>
     (\<forall>fd'. fd' \<noteq> fd \<longrightarrow> w_sock w' fd' = w_sock w fd') \<and> w_dns w' = w_dns w \<and> w_dials w' = w_dials w \<and>
     w_polls w' = w_polls w \<and> w_dialed w' = w_dialed w \<and> w_now w' = w_now w \<and> w_msgs w' = w_msgs w"

lemma io_frame_refl [simp]: "io_frame fd w w"
  by (simp add: io_frame_def)

lemma io_frame_trans: "io_frame fd w w1 \<Longrightarrow> io_frame fd w1 w2 \<Longrightarrow> io_frame fd w w2"
  by (auto simp: io_frame_def)

lemma io_frame_rx: "only_rx fd w w' \<Longrightarrow> io_frame fd w w'"
  by (auto simp: only_rx_def io_frame_def)

lemma io_frame_tx: "only_tx fd w w' bs \<Longrightarrow> io_frame fd w w'"
  by (auto simp: only_tx_def io_frame_def)

text \<open>A client that has sent \<open>rest\<close> behind the request and has been sent \<open>sent\<close>.\<close>

definition greeted :: "int \<Rightarrow> byte list \<Rightarrow> byte list \<Rightarrow> world \<Rightarrow> world \<Rightarrow> bool" where
  "greeted fd sent rest w w' \<longleftrightarrow>
     io_frame fd w w' \<and> rx_has w' fd rest \<and> sk_sent (w_sock w' fd) = sk_sent (w_sock w fd) @ sent \<and>
     tx_room w' fd = tx_room w fd - length sent"

lemma greeted_rx: "only_rx fd w w' \<Longrightarrow> rx_has w' fd rest \<Longrightarrow> greeted fd [] rest w w'"
  using only_rx_frame(2,13) [of fd w w'] by (simp add: greeted_def io_frame_rx)

lemma greeted_trans: "greeted fd s1 r1 w w1 \<Longrightarrow> greeted fd s2 r2 w1 w2 \<Longrightarrow> greeted fd (s1 @ s2) r2 w w2"
  by (auto simp: greeted_def intro: io_frame_trans)

lemma con_requesting_version: "con_requesting 5 c d p (con\<lparr>cc_socks_version := v\<rparr>) = con_requesting 5 c d p con"
  "con_requesting 4 c d p (con\<lparr>cc_socks_version := v\<rparr>) = con_requesting 4 c d p con"
  by (simp_all add: con_requesting_def Let_def)

lemma handshake_socks5:
  assumes "rx_live w (cc_fd_in con)" and "rx_has w (cc_fd_in con) (5 # n # ms @ s)" and "length ms = unat n"
    and "2 \<le> tx_room w (cc_fd_in con)" and "socks5_request s = Some (cmd, dst, port, rest)" and "known_command cmd \<noteq> 0"
  shows "\<exists>w'. socks_handshake con w = Inr (True, con_requesting 5 cmd dst port con, w') \<and>
    greeted (cc_fd_in con) [5, 0] rest w w' \<and> (relay_live w (cc_fd_in con) \<longrightarrow> relay_live w' (cc_fd_in con))"
proof -
  let ?fd = "cc_fd_in con" and ?c = "con\<lparr>cc_socks_version := 5\<rparr>"
  obtain w1 where 1: "socks_get_client_version con w = Inr (5, w1)" "only_rx ?fd w w1" "rx_has w1 ?fd (n # ms @ s)"
    "rx_live w1 ?fd"
    using socks_get_client_version_known [OF assms(1,2)] by auto
  have fd: "cc_fd_in ?c = ?fd" by simp
  have room: "2 \<le> tx_room w1 (cc_fd_in ?c)" using only_rx_frame(13) [OF 1(2)] assms(4) by simp
  obtain w2 w3 where 2: "socks5_negotiate_auth ?c w1 = Inr (SOCKS5_AUTH_NONE_REQUIRED, w3)" "only_rx ?fd w1 w2"
    "only_tx ?fd w2 w3 [5, 0]" "rx_has w3 ?fd s" "rx_live w3 ?fd" "tx_room w3 ?fd = tx_room w1 ?fd - 2"
    using socks5_negotiate_auth_ok [of w1 ?c, OF _ _ assms(3) room] 1 unfolding fd by blast
  obtain w4 where 3: "socks5_get_command ?c w3 = Inr (known_command cmd, con_requesting 5 cmd dst port ?c, w4)"
    "only_rx ?fd w3 w4" "rx_has w4 ?fd rest"
    using socks5_get_command_spec [of w3 ?c s] 2(4,5) assms(5) unfolding fd by auto
  have run: "socks_handshake con w = Inr (True, con_requesting 5 cmd dst port con, w4)"
    using 1(1) 2(1) 3(1) assms(6)
    by (simp add: socks_handshake_def Let_def socks_consts con_requesting_version)
  have "greeted ?fd [5, 0] s w1 w3"
    using 2 only_rx_frame(2,13) [OF 2(2)] only_tx_frame(2) [OF 2(3)]
    by (simp add: greeted_def io_frame_trans [OF io_frame_rx io_frame_tx])
  with greeted_rx [OF 1(2,3)] greeted_rx [OF 3(2,3)] have "greeted ?fd ([] @ [5, 0] @ []) rest w w4"
    by (meson greeted_trans)
  moreover have "relay_live w4 ?fd" if "relay_live w ?fd"
  proof -
    have "relay_live w1 ?fd" by (rule version_relay_live [OF 1(1) _ that]) (simp add: socks_consts)
    then have "relay_live w3 ?fd" using negotiate_relay_live [OF 2(1)] by simp
    then show ?thesis using socks5_get_command_relay_live [OF 3(1)] assms(6) by (simp add: socks_consts)
  qed
  ultimately show ?thesis using run by auto
qed

lemma handshake_socks4:
  assumes "rx_live w (cc_fd_in con)" and "rx_has w (cc_fd_in con) (4 # s)"
    and "socks4_request s = Some (cmd, dst, port, rest)"
  shows "\<exists>w'. socks_handshake con w = Inr (True, con_requesting 4 cmd dst port con, w') \<and>
    greeted (cc_fd_in con) [] rest w w'"
proof -
  let ?fd = "cc_fd_in con" and ?c = "con\<lparr>cc_socks_version := 4\<rparr>"
  obtain w1 where 1: "socks_get_client_version con w = Inr (4, w1)" "only_rx ?fd w w1" "rx_has w1 ?fd s" "rx_live w1 ?fd"
    using socks_get_client_version_known [OF assms(1,2)] by auto
  have fd: "cc_fd_in ?c = ?fd" by simp
  obtain w4 where 3: "socks4_get_command ?c w1 = Inr (1, con_requesting 4 cmd dst port ?c, w4)"
    "only_rx ?fd w1 w4" "rx_has w4 ?fd rest"
    using socks4_get_command_spec [of w1 ?c s] 1(3,4) assms(3) unfolding fd by (auto simp: socks_consts)
  have run: "socks_handshake con w = Inr (True, con_requesting 4 cmd dst port con, w4)"
    using 1(1) 3(1) by (simp add: socks_handshake_def Let_def socks_consts con_requesting_version)
  from greeted_trans [OF greeted_rx [OF 1(2,3)] greeted_rx [OF 3(2,3)]] run show ?thesis by auto
qed

section \<open>A direct connection at the first attempt\<close>

definition goes_direct :: "ssh_globals \<times> ssh_tunnel list \<Rightarrow> route_rule \<Rightarrow> bool" where
  "goes_direct env r \<longleftrightarrow>
     (\<exists>ts. rr_tunnel r = ssh_tunnel_direct (fst env) # ts) \<and> (\<forall>t \<in> set (rr_tunnel r). known_tunnel env t)"

lemma socks_connect_direct:
  assumes "cc_route con = Some r" and "goes_direct env r" and "direct_target (w_dns w) (cc_dst_host con) sa"
    and "w_dials w = New_socket fd cs # ds" and "sys_connect cs = Inr (Inr s)"
  shows "\<exists>con' w'. socks_connect env con None w = Inr (True, con', Some SOCKS5_REPLY_SUCCEED, w') \<and>
    con_rest con' = con_rest con \<and> cc_fd_out con' = fd \<and> cc_tunnel con' = Some (ssh_tunnel_direct (fst env)) \<and>
    w_sock w' = (w_sock w)(fd := s) \<and> w_dialed w' = w_dialed w @ [(fd, sa)] \<and> w_polls w' = w_polls w"
proof -
  let ?t = "ssh_tunnel_direct (fst env)"
  obtain ts where ts: "rr_tunnel r = ?t # ts" using assms(2) by (auto simp: goes_direct_def)
  obtain b where b: "have_ssh_tunnel env (rr_tunnel r) = Inr b"
    using have_ssh_tunnel_returns [of "rr_tunnel r" env] assms(2) by (auto simp: goes_direct_def)
  obtain h where h: "direct_destination (w_dns w) (cc_dst_host con) = Inr h" "hid_addr h = AF_INET sa"
    using direct_destination_target [OF assms(3)] by blast
  let ?w = "if b then w\<lparr>w_msgs := w_msgs w + 1\<rparr> else w"
  let ?con = "con\<lparr>cc_tunnel := Some ?t, cc_dst_host := h, cc_fd_out := fd\<rparr>"
  let ?w' = "upd_sock (?w\<lparr>w_dials := ds, w_dialed := w_dialed w @ [(fd, sa)]\<rparr>) fd s"
  have d: "connect_tunnel env ?t (con\<lparr>cc_tunnel := Some ?t\<rparr>) None ?w = Inr (True, ?con, Some SOCKS5_REPLY_SUCCEED, ?w')"
    using h assms(4,5) by (simp add: connect_tunnel_def connect_direct_def host_id_get_addr_def dial_out_def Let_def)
  have "socks_connect env con None w = Inr (True, ?con, Some SOCKS5_REPLY_SUCCEED, ?w')"
    using d assms(1) b ts by (simp add: socks_connect_def socks_connect_loop.simps Let_def)
  moreover have "con_rest ?con = con_rest con" by simp
  ultimately show ?thesis by (intro exI [of _ ?con] exI [of _ ?w']) auto
qed

section \<open>The rest of a session, once the route is known\<close>

text \<open>What the reply leaves: the client has been sent it, or the session fails.\<close>

lemma socks_respond_outcome:
  assumes "socks_respond con ft w = Inr (rc, w')"
  shows "\<exists>sent. only_tx (cc_fd_in con) w w' sent \<and>
    (rc = 1 \<longrightarrow> sent = socks_reply (cc_socks_version con) ft) \<and>
    (rc \<noteq> 1 \<longrightarrow> sent = take (length sent) (socks_reply (cc_socks_version con) ft))"
proof -
  let ?buf = "socks_reply (cc_socks_version con) ft"
  obtain n where wr: "sb_write_len w (cc_fd_in con) ?buf = Inr (n, w')"
    and rc: "rc = (if n \<noteq> int (length ?buf) then 0 else 1)"
    using assms by (auto simp: socks_respond_eq Let_def cbind_eq_Inr split: if_splits)
  from sb_write_len_cases [OF wr] rc show ?thesis by fastforce
qed

text \<open>
  What has gone from one side to the other when the session is over: to the destination a
  prefix of the client's bytes, to the client \<open>reply\<close> and a prefix of the destination's bytes.
\<close>

definition exchanged :: "int \<Rightarrow> int \<Rightarrow> byte list \<Rightarrow> world \<Rightarrow> world \<Rightarrow> bool" where
  "exchanged fi fo reply w w' \<longleftrightarrow>
     (\<exists>D1 S1 D2 S2. rx_has w fi (D1 @ S1) \<and> rx_has w fo (D2 @ S2) \<and>
        sk_sent (w_sock w' fo) = sk_sent (w_sock w fo) @ D1 \<and>
        sk_sent (w_sock w' fi) = sk_sent (w_sock w fi) @ reply @ D2)"

lemma exchanged_relay:
  assumes "shuttle_data_back_and_forth con w = Inr (rc, con', w')"
    and "0 \<le> cc_fd_in con" and "0 \<le> cc_fd_out con" and "cc_fd_in con \<noteq> cc_fd_out con"
  shows "exchanged (cc_fd_in con) (cc_fd_out con) [] w w'"
proof -
  have "relay_run (cc_fd_in con) (cc_fd_out con) True True (w_polls w) con w rc con' w'"
    using shuttle_loop_relays [of "w_polls w" True True con w rc con' w', OF _ refl refl assms(4,2,3)] assms(1)
    by (simp add: shuttle_data_back_and_forth_def)
  then obtain D1 X1 D2 X2 where "relayed (cc_fd_in con) (cc_fd_out con) True True w w' D1 X1 D2 X2 (rc = 1)"
    unfolding relay_run_def by blast
  then show ?thesis unfolding relayed_def delivers_def exchanged_def by auto
qed

lemma respond_room:
  assumes "length (socks_reply (cc_socks_version con) ft) \<le> tx_room w (cc_fd_in con)"
  shows "\<exists>w'. socks_respond con ft w = Inr (1, w') \<and>
    only_tx (cc_fd_in con) w w' (socks_reply (cc_socks_version con) ft) \<and>
    (relay_live w (cc_fd_in con) \<longrightarrow> relay_live w' (cc_fd_in con))"
proof -
  let ?buf = "socks_reply (cc_socks_version con) ft"
  obtain w' where w': "sb_write_len w (cc_fd_in con) ?buf = Inr (int (length ?buf), w')" "only_tx (cc_fd_in con) w w' ?buf"
    using sb_write_len_room [OF assms] by auto
  then show ?thesis
    using sb_write_len_relay_live [OF w'(1)] by (auto simp: socks_respond_eq Let_def)
qed

text \<open>The route and the direct connection; the reply is empty for the port forwarder.\<close>

definition reply_of :: "bool \<Rightarrow> int \<Rightarrow> byte list" where
  "reply_of reply version = (if reply then socks_reply version SOCKS5_REPLY_SUCCEED else [])"

text \<open>The connection is there and the client has been answered; the relay comes next.\<close>

definition linked ::
  "bool \<Rightarrow> client_connection \<Rightarrow> world \<Rightarrow> int \<Rightarrow> sock \<Rightarrow> sockaddr_in \<Rightarrow> client_connection \<Rightarrow> world \<Rightarrow> bool" where
  "linked reply con w fd s sa con' w' \<longleftrightarrow>
     cc_fd_in con' = cc_fd_in con \<and> cc_fd_out con' = fd \<and> w_dialed w' = w_dialed w @ [(fd, sa)] \<and>
     w_polls w' = w_polls w \<and> w_sock w' fd = s \<and>
     (\<exists>w0. w_sock w0 = (w_sock w)(fd := s) \<and>
        only_tx (cc_fd_in con) w0 w' (reply_of reply (cc_socks_version con)) \<and>
        (relay_live w0 (cc_fd_in con) \<longrightarrow> relay_live w' (cc_fd_in con)))"

lemma route_and_relay_start:
  assumes "resolver_ok (w_dns w)" and "host_id_ok (cc_dst_host con)"
    and "routed (resolve_dns_for_host_id (w_dns w)) (hid_port (cc_dst_host con)) rules (cc_dst_host con) (Some r) d"
    and "goes_direct env r" and "direct_target (w_dns w) d sa" and "ssh_tunnel_direct (fst env) \<noteq> ssh_tunnel_null (fst env)"
    and "w_dials w = New_socket fd cs # ds" and "sys_connect cs = Inr (Inr s)" and "fd \<noteq> cc_fd_in con"
    and "length (reply_of reply (cc_socks_version con)) \<le> tx_room w (cc_fd_in con)"
  shows "\<exists>con' w' gl'. linked reply con w fd s sa con' w' \<and>
    route_and_relay reply env gl rules con w =
      cmap (\<lambda>(rc, con, w). (rc \<noteq> 0, con, gl', w)) (shuttle_data_back_and_forth con' w')"
proof -
  let ?fi = "cc_fd_in con" and ?rep = "reply_of reply (cc_socks_version con)" and ?gl = "ensure_default_direct (fst env) gl"
  obtain t where "decide_applicable_rule (w_dns w) (fst env) gl rules con =
      Inr (1, con\<lparr>cc_dst_host := d, cc_socks_address_type := t, cc_route := Some r\<rparr>, ?gl)"
    using decide_outcome [OF assms(1-3), of "fst env" gl] by auto
  moreover define con1 where "con1 = con\<lparr>cc_dst_host := d, cc_socks_address_type := t, cc_route := Some r\<rparr>"
  ultimately have dec: "decide_applicable_rule (w_dns w) (fst env) gl rules con = Inr (1, con1, ?gl)" by simp
  have "cc_route con1 = Some r" "direct_target (w_dns w) (cc_dst_host con1) sa" using assms(5) by (simp_all add: con1_def)
  from socks_connect_direct [OF this(1) assms(4) this(2) assms(7,8)] obtain con2 w2 where
    c: "socks_connect env con1 None w = Inr (True, con2, Some SOCKS5_REPLY_SUCCEED, w2)" "con_rest con2 = con_rest con1"
      "cc_fd_out con2 = fd" "cc_tunnel con2 = Some (ssh_tunnel_direct (fst env))" "w_sock w2 = (w_sock w)(fd := s)"
      "w_dialed w2 = w_dialed w @ [(fd, sa)]" "w_polls w2 = w_polls w" by blast
  have con2: "cc_fd_in con2 = ?fi" "cc_socks_version con2 = cc_socks_version con"
    using c(2) by (simp_all add: con_rest_def con1_def)
  obtain w3 where w3: "if reply then socks_respond con2 SOCKS5_REPLY_SUCCEED w2 = Inr (1, w3) else w3 = w2"
    "only_tx ?fi w2 w3 ?rep" "relay_live w2 ?fi \<longrightarrow> relay_live w3 ?fi"
  proof (cases reply)
    case True
    have "length (socks_reply (cc_socks_version con2) SOCKS5_REPLY_SUCCEED) \<le> tx_room w2 (cc_fd_in con2)"
      using assms(9,10) True con2 c(5) by (simp add: reply_of_def tx_room_def)
    from respond_room [OF this] True con2 that show ?thesis by (auto simp: reply_of_def)
  next
    case False
    have "only_tx ?fi w2 w2 []"
      unfolding only_tx_def by (intro exI [of _ "sk_wr (w_sock w2 ?fi)"] exI [of _ "w_errno w2"]) simp
    with False that show ?thesis by (auto simp: reply_of_def)
  qed
  have "linked reply con w fd s sa con2 w3"
    using c con2 w3(2,3) only_tx_frame(1,7,8) [OF w3(2)] assms(9) unfolding linked_def by auto
  moreover have "route_and_relay reply env gl rules con w =
      cmap (\<lambda>(rc, con, w). (rc \<noteq> 0, con, ?gl, w)) (shuttle_data_back_and_forth con2 w3)"
    using dec c(1,4) w3(1) assms(6) by (simp add: route_and_relay_def socks_connect_shuttle_def split: if_splits)
  ultimately show ?thesis by blast
qed

lemma linked_exchanged:
  assumes "linked reply con w fd s sa con2 w2" and "shuttle_data_back_and_forth con2 w2 = Inr (rc, con', w')"
    and "0 \<le> cc_fd_in con" and "0 \<le> fd" and "fd \<noteq> cc_fd_in con"
  shows "w_dialed w' = w_dialed w @ [(fd, sa)] \<and>
    exchanged (cc_fd_in con) fd (reply_of reply (cc_socks_version con)) (upd_sock w fd s) w'"
proof -
  obtain w0 where w0: "w_sock w0 = (w_sock w)(fd := s)"
    "only_tx (cc_fd_in con) w0 w2 (reply_of reply (cc_socks_version con))"
    using assms(1) by (auto simp: linked_def)
  have l: "cc_fd_in con2 = cc_fd_in con" "cc_fd_out con2 = fd" "w_dialed w2 = w_dialed w @ [(fd, sa)]"
    using assms(1) by (auto simp: linked_def)
  have "exchanged (cc_fd_in con) fd [] w2 w'"
    using exchanged_relay [OF assms(2)] l assms(3-5) by auto
  moreover have "rx_has w2 x bs = rx_has (upd_sock w fd s) x bs" for x bs
    using only_tx_frame(13) [OF w0(2)] w0(1) by (simp add: rx_has_def)
  moreover have "sk_sent (w_sock w2 fd) = sk_sent s"
    "sk_sent (w_sock w2 (cc_fd_in con)) = sk_sent (w_sock w (cc_fd_in con)) @ reply_of reply (cc_socks_version con)"
    using only_tx_frame(1,2) [OF w0(2)] assms(5) w0(1) by auto
  ultimately have "exchanged (cc_fd_in con) fd (reply_of reply (cc_socks_version con)) (upd_sock w fd s) w'"
    using assms(5) unfolding exchanged_def by auto
  moreover have "w_dialed w' = w_dialed w @ [(fd, sa)]"
    using shuttle_loop_history [of "w_polls w2"] assms(2) l(3)
    by (fastforce simp: shuttle_data_back_and_forth_def same_history_def)
  ultimately show ?thesis by blast
qed

lemma linked_returns:
  assumes "linked reply con w fd s sa con2 w2" and "list_ex stops (w_polls w)"
    and "relay_live w (cc_fd_in con)" and "relay_live (upd_sock w fd s) fd"
    and "0 \<le> cc_fd_in con" and "0 \<le> fd" and "fd \<noteq> cc_fd_in con"
  shows "\<exists>x. shuttle_data_back_and_forth con2 w2 = Inr x"
proof -
  have "relay_live w2 fd" "relay_live w2 (cc_fd_in con)"
    using assms(1,3,4,7) by (auto simp: linked_def relay_live_def peer_live_def rx_live_def)
  then show ?thesis
    using shuttle_loop_returns [of "w_polls w2" w2 "cc_fd_in con" fd con2 True True] assms
    by (auto simp: linked_def shuttle_data_back_and_forth_def)
qed

section \<open>Complete sessions\<close>

lemma shutdown_keeps:
  assumes "service_thread_shutdown con ok w = Inr (con', w')"
  shows "w_dialed w' = w_dialed w \<and> (\<forall>fd. sk_sent (w_sock w' fd) = sk_sent (w_sock w fd)) \<and>
    cc_fd_in con' = -1 \<and> cc_fd_out con' = -1 \<and> cc_thread_has_exited con'"
  using shutdown_returns [of con ok w] assms by (fastforce simp: closed_only_def)

lemma exchanged_sent:
  assumes "exchanged fi fo reply w w'" and "\<forall>fd. sk_sent (w_sock w'' fd) = sk_sent (w_sock w' fd)"
  shows "exchanged fi fo reply w w''"
  using assms by (simp add: exchanged_def)

text \<open>A connection as it was accepted: no destination yet.\<close>

definition fresh_dst :: "client_connection \<Rightarrow> bool" where
  "fresh_dst con \<longleftrightarrow> hid_name (cc_dst_host con) = [] \<and> hid_addr (cc_dst_host con) = AF_UNSPEC"

text \<open>The destination a request asks for.\<close>

definition asked :: "socks_dst \<Rightarrow> int \<Rightarrow> host_id" where
  "asked dst port = dst_host_of dst port \<lparr>hid_name = [], hid_addr = AF_UNSPEC, hid_port = 0\<rparr>"

lemma socks5_request_dst:
  "socks5_request s = Some (cmd, dst, port, rest) \<Longrightarrow> (case dst of Dst_ipv4 bs \<Rightarrow> length bs = 4 | _ \<Rightarrow> True)"
  by (auto simp: socks5_request_def Let_def split: if_splits)

lemma asked_ok:
  assumes "case dst of Dst_ipv4 bs \<Rightarrow> length bs = 4 | _ \<Rightarrow> True"
  shows "host_id_ok (asked dst port)" and "hid_port (asked dst port) = port"
proof -
  have "host_id_ok \<lparr>hid_name = [], hid_addr = AF_UNSPEC, hid_port = 0\<rparr>" by (rule host_id_ok_name) simp
  then show "host_id_ok (asked dst port)" unfolding asked_def using assms by (rule host_id_ok_dst_host_of)
  show "hid_port (asked dst port) = port"
    by (cases dst) (simp_all add: asked_def host_id_set_port_def host_id_set_name_def)
qed

lemma con_requesting_asked:
  assumes "fresh_dst con"
  shows "cc_dst_host (con_requesting v cmd dst port (con\<lparr>cc_socks_version := a, cc_socks_command := b,
      cc_socks_command_original := c, cc_dst_host := host_id_set_port (cc_dst_host con) 0\<rparr>)) = asked dst port"
proof -
  have "host_id_set_port (cc_dst_host con) 0 = \<lparr>hid_name = [], hid_addr = AF_UNSPEC, hid_port = 0\<rparr>"
    using assms by (cases "cc_dst_host con") (simp add: fresh_dst_def host_id_set_port_def)
  then show ?thesis by (simp add: con_requesting_def asked_def Let_def)
qed

text \<open>The SOCKS5 session up to the choice of the route, and up to the relay.\<close>

lemma socks5_session_asks:
  assumes "rx_live w (cc_fd_in con)" "rx_has w (cc_fd_in con) (5 # n # ms @ req)" "length ms = unat n"
      "socks5_request req = Some (cmd, dst, port, payload)" "known_command cmd \<noteq> 0" "2 \<le> tx_room w (cc_fd_in con)"
    and "fresh_dst con"
  obtains con1 w1 where "cc_fd_in con1 = cc_fd_in con" "cc_fd_out con1 = cc_fd_out con" "cc_socks_version con1 = 5"
    "cc_dst_host con1 = asked dst port" "greeted (cc_fd_in con) [5, 0] payload w w1"
    "relay_live w (cc_fd_in con) \<longrightarrow> relay_live w1 (cc_fd_in con)"
    "service_socks_connection_handler env gl rules con w =
      cbind (route_and_relay True env gl rules con1 w1) (\<lambda>(ok, con, gl, w).
      cmap (\<lambda>(con, w). (con, gl, w)) (service_thread_shutdown con ok w))"
proof -
  let ?con = "con\<lparr>cc_socks_version := SOCKS_VERSION_ERROR, cc_socks_command := SOCKS5_CMD_ERROR,
    cc_socks_command_original := SOCKS5_CMD_ERROR, cc_dst_host := host_id_set_port (cc_dst_host con) 0\<rparr>"
  let ?req = "con_requesting 5 cmd dst port ?con"
  have fi: "cc_fd_in ?con = cc_fd_in con" by simp
  obtain w1 where hs: "socks_handshake ?con w = Inr (True, ?req, w1)" "greeted (cc_fd_in con) [5, 0] payload w w1"
    "relay_live w (cc_fd_in con) \<longrightarrow> relay_live w1 (cc_fd_in con)"
    using handshake_socks5 [of w ?con n ms req cmd dst port payload] assms(1-6) unfolding fi by auto
  show ?thesis
  proof (rule that)
    show "cc_dst_host ?req = asked dst port" by (rule con_requesting_asked [OF assms(7)])
    show "service_socks_connection_handler env gl rules con w =
      cbind (route_and_relay True env gl rules ?req w1) (\<lambda>(ok, con, gl, w).
      cmap (\<lambda>(con, w). (con, gl, w)) (service_thread_shutdown con ok w))"
      using hs(1) by (simp add: service_socks_connection_handler_def Let_def)
  qed (use hs in \<open>simp_all add: con_requesting_def Let_def\<close>)
qed

lemma socks5_session_start:
  assumes client: "rx_live w (cc_fd_in con)" "rx_has w (cc_fd_in con) (5 # n # ms @ req)" "length ms = unat n"
      "socks5_request req = Some (cmd, dst, port, payload)" "known_command cmd \<noteq> 0" "12 \<le> tx_room w (cc_fd_in con)"
    and con: "fresh_dst con"
    and route: "resolver_ok (w_dns w)"
      "routed (resolve_dns_for_host_id (w_dns w)) port rules (asked dst port) (Some r) d" "goes_direct env r"
      "direct_target (w_dns w) d sa" "ssh_tunnel_direct (fst env) \<noteq> ssh_tunnel_null (fst env)"
    and dial: "w_dials w = New_socket fd cs # ds" "sys_connect cs = Inr (Inr s)" "fd \<noteq> cc_fd_in con"
  shows "\<exists>con1 w1 con2 w2 gl'. cc_fd_in con1 = cc_fd_in con \<and> cc_socks_version con1 = 5 \<and>
    greeted (cc_fd_in con) [5, 0] payload w w1 \<and>
    (relay_live w (cc_fd_in con) \<longrightarrow> relay_live w1 (cc_fd_in con)) \<and>
    linked True con1 w1 fd s sa con2 w2 \<and>
    service_socks_connection_handler env gl rules con w =
      cbind (shuttle_data_back_and_forth con2 w2) (\<lambda>(rc, con, w).
      cmap (\<lambda>(con, w). (con, gl', w)) (service_thread_shutdown con (rc \<noteq> 0) w))"
proof -
  have "2 \<le> tx_room w (cc_fd_in con)" using client(6) by simp
  from socks5_session_asks [OF client(1-5) this con] obtain con1 w1 where
    a: "cc_fd_in con1 = cc_fd_in con" "cc_fd_out con1 = cc_fd_out con" "cc_socks_version con1 = 5"
    "cc_dst_host con1 = asked dst port" "greeted (cc_fd_in con) [5, 0] payload w w1"
    "relay_live w (cc_fd_in con) \<longrightarrow> relay_live w1 (cc_fd_in con)"
    "service_socks_connection_handler env gl rules con w =
      cbind (route_and_relay True env gl rules con1 w1) (\<lambda>(ok, con, gl, w).
      cmap (\<lambda>(con, w). (con, gl, w)) (service_thread_shutdown con ok w))" by blast
  then have w1: "w_dns w1 = w_dns w" "w_dials w1 = w_dials w" "tx_room w1 (cc_fd_in con) = tx_room w (cc_fd_in con) - 2"
    by (auto simp: greeted_def io_frame_def)
  note ok = asked_ok [OF socks5_request_dst [OF client(4)]]
  have room: "length (reply_of True (cc_socks_version con1)) \<le> tx_room w1 (cc_fd_in con1)"
    using w1(3) client(6) unfolding a(1,3) by (simp add: reply_of_def socks_reply_def)
  obtain con2 w2 gl' where l: "linked True con1 w1 fd s sa con2 w2" "route_and_relay True env gl rules con1 w1 =
      cmap (\<lambda>(rc, con, w). (rc \<noteq> 0, con, gl', w)) (shuttle_data_back_and_forth con2 w2)"
    using route_and_relay_start [of w1 con1 rules r d env sa fd cs ds s True gl] room ok route dial w1(1,2)
    unfolding a(1,4) by auto
  have "service_socks_connection_handler env gl rules con w =
      cbind (shuttle_data_back_and_forth con2 w2) (\<lambda>(rc, con, w).
      cmap (\<lambda>(con, w). (con, gl', w)) (service_thread_shutdown con (rc \<noteq> 0) w))"
    using a(7) l(2) by (simp add: cmap_def cbind_assoc split_def)
  with a l(1) show ?thesis by blast
qed

lemma socks5_session_returns:
  assumes "rx_live w (cc_fd_in con)" "rx_has w (cc_fd_in con) (5 # n # ms @ req)" "length ms = unat n"
      "socks5_request req = Some (cmd, dst, port, payload)" "known_command cmd \<noteq> 0" "12 \<le> tx_room w (cc_fd_in con)"
      "fresh_dst con" "resolver_ok (w_dns w)"
      "routed (resolve_dns_for_host_id (w_dns w)) port rules (asked dst port) (Some r) d" "goes_direct env r"
      "direct_target (w_dns w) d sa" "ssh_tunnel_direct (fst env) \<noteq> ssh_tunnel_null (fst env)"
      "w_dials w = New_socket fd cs # ds" "sys_connect cs = Inr (Inr s)" "fd \<noteq> cc_fd_in con"
    and "0 \<le> cc_fd_in con" and "0 \<le> fd" and "list_ex stops (w_polls w)"
    and "relay_live w (cc_fd_in con)" and "relay_live (upd_sock w fd s) fd"
  shows "\<exists>con' gl' w'. service_socks_connection_handler env gl rules con w = Inr (con', gl', w')"
proof -
  obtain con1 w1 con2 w2 gl' where st: "cc_fd_in con1 = cc_fd_in con" "greeted (cc_fd_in con) [5, 0] payload w w1"
    "relay_live w (cc_fd_in con) \<longrightarrow> relay_live w1 (cc_fd_in con)" "linked True con1 w1 fd s sa con2 w2"
    "service_socks_connection_handler env gl rules con w =
      cbind (shuttle_data_back_and_forth con2 w2) (\<lambda>(rc, con, w).
      cmap (\<lambda>(con, w). (con, gl', w)) (service_thread_shutdown con (rc \<noteq> 0) w))"
    using socks5_session_start [OF assms(1-15), of gl] by blast
  have "w_polls w1 = w_polls w" using st(2) by (simp add: greeted_def io_frame_def)
  moreover have "relay_live (upd_sock w1 fd s) fd" using assms(20) by (simp add: relay_live_def peer_live_def rx_live_def)
  ultimately obtain rc c w3 where "shuttle_data_back_and_forth con2 w2 = Inr (rc, c, w3)"
    using linked_returns [OF st(4)] st(1,3) assms(15-19) by auto
  moreover obtain con' w' where "service_thread_shutdown c (rc \<noteq> 0) w3 = Inr (con', w')"
    using shutdown_returns by blast
  ultimately show ?thesis using st(5) by simp
qed

text \<open>
  C1: a complete SOCKS5 session over a direct route. The client greets, asks for a
  destination and sends its payload (in whatever chunks); the rules, as specified, decide on
  a route that goes direct to what the destination stands for, and that connection is made.
  Whenever the handler's thread ends, exactly that address has been connected to, once; the
  destination has been sent a prefix of the payload, and the client the method choice, the
  success reply and a prefix of what the destination delivered; both descriptors are
  forgotten and the thread has exited.
\<close>

theorem socks5_session_direct:
  assumes client: "rx_live w (cc_fd_in con)" "rx_has w (cc_fd_in con) (5 # n # ms @ req)" "length ms = unat n"
      "socks5_request req = Some (cmd, dst, port, payload)" "known_command cmd \<noteq> 0" "12 \<le> tx_room w (cc_fd_in con)"
    and con: "fresh_dst con" "0 \<le> cc_fd_in con"
    and route: "resolver_ok (w_dns w)"
      "routed (resolve_dns_for_host_id (w_dns w)) port rules (asked dst port) (Some r) d" "goes_direct env r"
      "direct_target (w_dns w) d sa" "ssh_tunnel_direct (fst env) \<noteq> ssh_tunnel_null (fst env)"
    and dial: "w_dials w = New_socket fd cs # ds" "sys_connect cs = Inr (Inr s)" "0 \<le> fd" "fd \<noteq> cc_fd_in con"
    and run: "service_socks_connection_handler env gl rules con w = Inr (con', gl', w')"
  shows "w_dialed w' = w_dialed w @ [(fd, sa)] \<and>
    (\<exists>D1 S1 D2 S2. payload = D1 @ S1 \<and> rx_stream (sk_rx s) = D2 @ S2 \<and>
       sk_sent (w_sock w' fd) = sk_sent s @ D1 \<and>
       sk_sent (w_sock w' (cc_fd_in con)) =
         sk_sent (w_sock w (cc_fd_in con)) @ [5, 0] @ [5, 0, 0, 1, 0, 0, 0, 0, 0, 0] @ D2) \<and>
    cc_fd_in con' = -1 \<and> cc_fd_out con' = -1 \<and> cc_thread_has_exited con'"
proof -
  let ?fi = "cc_fd_in con"
  obtain con1 w1 con2 w2 gl2 where st: "cc_fd_in con1 = ?fi" "cc_socks_version con1 = 5"
    "greeted ?fi [5, 0] payload w w1" "linked True con1 w1 fd s sa con2 w2"
    "service_socks_connection_handler env gl rules con w =
      cbind (shuttle_data_back_and_forth con2 w2) (\<lambda>(rc, con, w).
      cmap (\<lambda>(con, w). (con, gl2, w)) (service_thread_shutdown con (rc \<noteq> 0) w))"
    using socks5_session_start [OF client con(1) route dial(1,2,4), of gl] by blast
  obtain rc c w3 where sh: "shuttle_data_back_and_forth con2 w2 = Inr (rc, c, w3)"
    and cl: "service_thread_shutdown c (rc \<noteq> 0) w3 = Inr (con', w')"
    using run st(5) by (auto simp: cmap_def cbind_eq_Inr)
  note k = shutdown_keeps [OF cl]
  have "w_dialed w3 = w_dialed w1 @ [(fd, sa)]" "exchanged ?fi fd (reply_of True 5) (upd_sock w1 fd s) w3"
    using linked_exchanged [OF st(4) sh] st(1,2) con(2) dial(3,4) by auto
  then have "w_dialed w' = w_dialed w @ [(fd, sa)]" "exchanged ?fi fd (reply_of True 5) (upd_sock w1 fd s) w'"
    using exchanged_sent k st(3) by (auto simp: greeted_def io_frame_def)
  moreover have "rx_has w1 ?fi payload" "sk_sent (w_sock w1 ?fi) = sk_sent (w_sock w ?fi) @ [5, 0]"
    using st(3) by (auto simp: greeted_def)
  ultimately show ?thesis
    using k dial(4) by (auto simp: exchanged_def rx_has_def reply_of_def socks_reply_def socks_consts)
qed

text \<open>A small session: the client's bytes in awkward chunks, an answer from the server.\<close>

definition demo_client :: sock where
  "demo_client = quiet_sock\<lparr>sk_rx := [Rd_data [5, 1], Rd_data [0, 5, 1, 0, 1, 10, 0, 0], Rd_fail EINTR,
      Rd_data [1, 0, 80, 71], Rd_data [69], Rd_eof], sk_wr := [Wr_take 2, Wr_take 40, Wr_fail ECONNRESET]\<rparr>"

definition demo_server :: sock where
  "demo_server = quiet_sock\<lparr>sk_rx := [Rd_data [72, 73], Rd_eof], sk_wr := [Wr_take 40, Wr_fail ECONNRESET]\<rparr>"

definition demo_world :: world where
  "demo_world = quiet_world\<lparr>w_sock := (\<lambda>_. demo_client), w_dials := [New_socket 7 [Conn_fail EINTR, Conn_ok demo_server]],
      w_polls := [poll_in, poll_in, poll_in, Poll_fail 9]\<rparr>"

definition demo_globals :: rre_globals where
  "demo_globals = \<lparr>route_rule_id_pool = 0, default_direct = None\<rparr>"

definition demo_rule :: route_rule where
  "demo_rule = plain_rule\<lparr>rr_match_port := 80, rr_tunnel := [1]\<rparr>"

definition demo_dst :: socks_dst where
  "demo_dst = Dst_ipv4 [10, 0, 0, 1]"

lemma demo_request: "socks5_request [5, 1, 0, 1, 10, 0, 0, 1, 0, 80, 71, 69] = Some (1, demo_dst, 80, [71, 69])"
  by (simp add: socks5_request_def demo_dst_def Let_def port_of_eq)

lemma demo_facts:
  "cc_fd_in (con_to [] AF_UNSPEC 0) = 5" "fresh_dst (con_to [] AF_UNSPEC 0)"
  "rx_live demo_world 5" "rx_has demo_world 5 (5 # 1 # [0] @ [5, 1, 0, 1, 10, 0, 0, 1, 0, 80, 71, 69])"
  "12 \<le> tx_room demo_world 5" "resolver_ok (w_dns demo_world)"
  "w_dials demo_world = New_socket 7 [Conn_fail EINTR, Conn_ok demo_server] # []"
  "list_ex stops (w_polls demo_world)" "relay_live demo_world 5" "relay_live (upd_sock demo_world 7 demo_server) 7"
  by (simp_all add: con_to_def blank_connection_def fresh_dst_def Let_def demo_world_def demo_client_def demo_server_def
      quiet_sock_def quiet_world_def rx_live_def rx_has_def tx_room_def resolver_ok_def answers_ok_def stops_def
      relay_live_def peer_live_def shuttle_buf_def)

lemma demo_route:
  "routed f 80 [demo_rule] (asked demo_dst 80) (Some demo_rule) (asked demo_dst 80)"
  "goes_direct (three_tunnels, []) demo_rule"
  "direct_target env (asked demo_dst 80) \<lparr>sin_port = htons 80, sin_addr = htonl (of_octets 10 0 0 1)\<rparr>"
  "ssh_tunnel_direct (fst (three_tunnels, [] :: ssh_tunnel list)) \<noteq> ssh_tunnel_null (fst (three_tunnels, [] :: ssh_tunnel list))"
  by (auto simp: routed_Cons demo_rule_def rule_matches_def resolved_def translated_def goes_direct_def known_tunnel_def
      three_tunnels_def direct_target_def asked_def demo_dst_def)

theorem socks5_session_direct_witness:
  "\<exists>con' gl' w' D1 S1. service_socks_connection_handler (three_tunnels, []) demo_globals [demo_rule]
       (con_to [] AF_UNSPEC 0) demo_world = Inr (con', gl', w') \<and>
     map fst (w_dialed w') = [7] \<and> [71, 69] = D1 @ S1 \<and> sk_sent (w_sock w' 7) = D1 \<and> cc_thread_has_exited con'"
proof -
  let ?con = "con_to [] AF_UNSPEC 0"
  note f = demo_facts and r = demo_route
  have s: "sys_connect [Conn_fail EINTR, Conn_ok demo_server] = Inr (Inr demo_server)" by simp
  have k: "known_command 1 \<noteq> 0" "length [0 :: byte] = unat (1 :: byte)" by (simp_all add: known_command_def)
  note client = f(3-5) [folded f(1)]
  obtain con' gl' w' where run: "service_socks_connection_handler (three_tunnels, []) demo_globals [demo_rule]
       ?con demo_world = Inr (con', gl', w')"
    using socks5_session_returns [OF client(1,2) k(2) demo_request k(1) client(3) f(2,6) r f(7) s, of demo_globals] f by auto
  have "w_dialed demo_world = []" "sk_sent demo_server = []"
    by (simp_all add: demo_world_def quiet_world_def demo_server_def quiet_sock_def)
  with socks5_session_direct [OF client(1,2) k(2) demo_request k(1) client(3) f(2) _ f(6) r f(7) s _ _ run] run f(1)
  show ?thesis by auto
qed

text \<open>
  C8: and such a session does end: when the client and the destination go on, close or fail,
  no chunk fills the relay's buffer, and some poll fails or reports an error sooner or later,
  the handler returns, without undefined behaviour.
\<close>

theorem socks5_session_ends:
  assumes "rx_live w (cc_fd_in con)" "rx_has w (cc_fd_in con) (5 # n # ms @ req)" "length ms = unat n"
      "socks5_request req = Some (cmd, dst, port, payload)" "known_command cmd \<noteq> 0" "12 \<le> tx_room w (cc_fd_in con)"
      "fresh_dst con" "resolver_ok (w_dns w)"
      "routed (resolve_dns_for_host_id (w_dns w)) port rules (asked dst port) (Some r) d" "goes_direct env r"
      "direct_target (w_dns w) d sa" "ssh_tunnel_direct (fst env) \<noteq> ssh_tunnel_null (fst env)"
      "w_dials w = New_socket fd cs # ds" "sys_connect cs = Inr (Inr s)" "fd \<noteq> cc_fd_in con"
    and "0 \<le> cc_fd_in con" and "0 \<le> fd" and "list_ex stops (w_polls w)"
    and "relay_live w (cc_fd_in con)" and "relay_live (upd_sock w fd s) fd"
  shows "\<exists>con' gl' w'. service_socks_connection_handler env gl rules con w = Inr (con', gl', w')"
  by (rule socks5_session_returns [OF assms])

theorem socks5_session_ends_witness:
  "\<exists>con' gl' w'. service_socks_connection_handler (three_tunnels, []) demo_globals [demo_rule]
       (con_to [] AF_UNSPEC 0) demo_world = Inr (con', gl', w')"
proof -
  note f = demo_facts
  have s: "sys_connect [Conn_fail EINTR, Conn_ok demo_server] = Inr (Inr demo_server)" by simp
  have k: "known_command 1 \<noteq> 0" "length [0 :: byte] = unat (1 :: byte)" by (simp_all add: known_command_def)
  note client = f(3-5) [folded f(1)]
  show ?thesis
    using socks5_session_ends [OF client(1,2) k(2) demo_request k(1) client(3) f(2,6) demo_route f(7) s, of demo_globals] f by auto
qed

section \<open>Sessions that find no way\<close>

lemma unmatched_routed:
  assumes "\<forall>r \<in> set rules. \<not> rule_matches port h r"
  shows "routed f port rules h None h"
  using routed_skip_prefix [OF assms, of f "[]" None h] by simp

text \<open>
  C18: when no rule matches what the client asks for, the default route is not used: the
  handler ends, nothing has been connected to, the client has been sent the method choice and
  no reply to its request, and the connection has an error status.
\<close>

theorem socks5_session_unrouted:
  assumes "rx_live w (cc_fd_in con)" "rx_has w (cc_fd_in con) (5 # n # ms @ req)" "length ms = unat n"
      "socks5_request req = Some (cmd, dst, port, payload)" "known_command cmd \<noteq> 0" "2 \<le> tx_room w (cc_fd_in con)"
      "fresh_dst con" "resolver_ok (w_dns w)" "cc_fd_out con < 0"
    and "\<forall>r \<in> set rules. \<not> rule_matches port (asked dst port) r"
  shows "\<exists>con' gl' w'. service_socks_connection_handler env gl rules con w = Inr (con', gl', w') \<and>
    w_dialed w' = w_dialed w \<and> sk_sent (w_sock w' (cc_fd_in con)) = sk_sent (w_sock w (cc_fd_in con)) @ [5, 0] \<and>
    cc_status con' \<noteq> CCSTATUS_OKAY \<and> cc_thread_has_exited con' \<and> cc_fd_in con' = -1"
proof -
  obtain con1 w1 where a: "cc_fd_in con1 = cc_fd_in con" "cc_fd_out con1 = cc_fd_out con"
    "cc_dst_host con1 = asked dst port" "greeted (cc_fd_in con) [5, 0] payload w w1"
    "service_socks_connection_handler env gl rules con w =
      cbind (route_and_relay True env gl rules con1 w1) (\<lambda>(ok, con, gl, w).
      cmap (\<lambda>(con, w). (con, gl, w)) (service_thread_shutdown con ok w))"
    using socks5_session_asks [OF assms(1-7)] by blast
  then have w1: "w_dns w1 = w_dns w" "w_dialed w1 = w_dialed w"
    "sk_sent (w_sock w1 (cc_fd_in con)) = sk_sent (w_sock w (cc_fd_in con)) @ [5, 0]"
    by (auto simp: greeted_def io_frame_def)
  note ok = asked_ok [OF socks5_request_dst [OF assms(4)]]
  have r: "resolver_ok (w_dns w1)" "host_id_ok (cc_dst_host con1)" "routed (resolve_dns_for_host_id (w_dns w1))
      (hid_port (cc_dst_host con1)) rules (cc_dst_host con1) None (cc_dst_host con1)"
    using assms(8) ok unmatched_routed [OF assms(10)] unfolding w1(1) a(3) by auto
  obtain c where "route_and_relay True env gl rules con1 w1 = Inr (False, c, ensure_default_direct (fst env) gl, w1)"
    using decide_outcome [OF r, of "fst env" gl] by (auto simp: route_and_relay_def)
  moreover obtain con' w2 w' where "service_thread_shutdown c False w1 = Inr (con', w')"
    "closed_only (cc_fd_in c) w1 w2" "closed_only (cc_fd_out c) w2 w'"
    "cc_fd_in con' = -1" "cc_thread_has_exited con'" "cc_status con' \<noteq> CCSTATUS_OKAY"
    using shutdown_returns [of c False w1] by blast
  ultimately show ?thesis using a(5) w1 by (auto simp: closed_only_def)
qed

theorem socks5_session_unrouted_witness:
  "\<exists>con' gl' w'. service_socks_connection_handler (three_tunnels, []) demo_globals [demo_rule\<lparr>rr_match_port := 443\<rparr>]
       (con_to [] AF_UNSPEC 0) demo_world = Inr (con', gl', w') \<and> w_dialed w' = [] \<and> sk_sent (w_sock w' 5) = [5, 0]"
proof -
  note f = demo_facts
  have k: "known_command 1 \<noteq> 0" "length [0 :: byte] = unat (1 :: byte)" by (simp_all add: known_command_def)
  have m: "\<forall>r \<in> set [demo_rule\<lparr>rr_match_port := 443\<rparr>]. \<not> rule_matches 80 (asked demo_dst 80) r"
    by (simp add: rule_matches_def demo_rule_def)
  note client = f(3-5) [folded f(1)]
  have "2 \<le> tx_room demo_world (cc_fd_in (con_to [] AF_UNSPEC 0))" "cc_fd_out (con_to [] AF_UNSPEC 0) < 0"
    using client(3) by (simp_all add: con_to_def blank_connection_def Let_def)
  from socks5_session_unrouted [OF client(1,2) k(2) demo_request k(1) this(1) f(2,6) this(2) m,
      of "(three_tunnels, [])" demo_globals] f(1)
  show ?thesis by (auto simp: demo_world_def quiet_world_def demo_client_def quiet_sock_def)
qed

text \<open>
  A route to the null tunnel is undefined behaviour for a SOCKS client: the null
  connector leaves the failure type unwritten and the handler answers with it.
\<close>

theorem socks_null_route_undefined:
  assumes "rx_live w (cc_fd_in con)" "rx_has w (cc_fd_in con) (5 # n # ms @ req)" "length ms = unat n"
      "socks5_request req = Some (cmd, dst, port, payload)" "known_command cmd \<noteq> 0" "2 \<le> tx_room w (cc_fd_in con)"
      "fresh_dst con" "resolver_ok (w_dns w)"
      "routed (resolve_dns_for_host_id (w_dns w)) port rules (asked dst port) (Some r) d"
      "rr_tunnel r = [ssh_tunnel_null (fst env)]" "ssh_tunnel_direct (fst env) \<noteq> ssh_tunnel_null (fst env)"
  shows "service_socks_connection_handler env gl rules con w = Inl UB"
proof -
  obtain con1 w1 where a: "cc_dst_host con1 = asked dst port" "greeted (cc_fd_in con) [5, 0] payload w w1"
    "service_socks_connection_handler env gl rules con w =
      cbind (route_and_relay True env gl rules con1 w1) (\<lambda>(ok, con, gl, w).
      cmap (\<lambda>(con, w). (con, gl, w)) (service_thread_shutdown con ok w))"
    using socks5_session_asks [OF assms(1-7)] by blast
  then have w1: "w_dns w1 = w_dns w" by (auto simp: greeted_def io_frame_def)
  note ok = asked_ok [OF socks5_request_dst [OF assms(4)]]
  have r: "resolver_ok (w_dns w1)" "host_id_ok (cc_dst_host con1)" "routed (resolve_dns_for_host_id (w_dns w1))
      (hid_port (cc_dst_host con1)) rules (cc_dst_host con1) (Some r) d"
    using assms(8,9) ok unfolding w1 a(1) by auto
  have "route_and_relay True env gl rules con1 w1 = Inl UB"
    using decide_outcome [OF r, of "fst env" gl] assms(10,11)
    by (auto simp: route_and_relay_def socks_connect_def socks_connect_loop.simps connect_tunnel_def connect_null_def Let_def)
  with a(3) show ?thesis by simp
qed

theorem socks_null_route_undefined_witness:
  "service_socks_connection_handler (three_tunnels, []) demo_globals [plain_rule\<lparr>rr_tunnel := [3]\<rparr>]
       (con_to [] AF_UNSPEC 0) demo_world = Inl UB"
proof -
  note f = demo_facts
  have k: "known_command 1 \<noteq> 0" "length [0 :: byte] = unat (1 :: byte)" by (simp_all add: known_command_def)
  have m: "routed (resolve_dns_for_host_id (w_dns demo_world)) 80 [plain_rule\<lparr>rr_tunnel := [3]\<rparr>] (asked demo_dst 80)
      (Some (plain_rule\<lparr>rr_tunnel := [3]\<rparr>)) (asked demo_dst 80)"
    by (auto simp: routed_Cons rule_matches_def resolved_def translated_def asked_def demo_dst_def)
  note client = f(3-5) [folded f(1)]
  have "2 \<le> tx_room demo_world (cc_fd_in (con_to [] AF_UNSPEC 0))" using client(3) by simp
  from socks_null_route_undefined [OF client(1,2) k(2) demo_request k(1) this f(2,6) m,
      of "(three_tunnels, [])" demo_globals] show ?thesis by (simp add: three_tunnels_def)
qed

section \<open>Port forwarding\<close>

text \<open>The destination of a forwarded connection.\<close>

definition forwarded :: "service_port_forward \<Rightarrow> host_id" where
  "forwarded fwd = asked (Dst_name (pf_remote_host fwd)) (pf_remote_port fwd)"

lemma forward_start:
  assumes "fresh_dst con" and "resolver_ok (w_dns w)"
      "routed (resolve_dns_for_host_id (w_dns w)) (pf_remote_port fwd) rules (forwarded fwd) (Some r) d" "goes_direct env r"
      "direct_target (w_dns w) d sa" "ssh_tunnel_direct (fst env) \<noteq> ssh_tunnel_null (fst env)"
      "w_dials w = New_socket fd cs # ds" "sys_connect cs = Inr (Inr s)" "fd \<noteq> cc_fd_in con"
  shows "\<exists>con1 con2 w2 gl'. cc_fd_in con1 = cc_fd_in con \<and> linked False con1 w fd s sa con2 w2 \<and>
    service_port_forward_connection_handler fwd env gl rules con w =
      cbind (shuttle_data_back_and_forth con2 w2) (\<lambda>(rc, con, w).
      cmap (\<lambda>(con, w). (con, gl', w)) (service_thread_shutdown con (rc \<noteq> 0) w))"
proof -
  let ?dst = "host_id_set_port (host_id_set_name (cc_dst_host con) (pf_remote_host fwd)) (pf_remote_port fwd)"
  let ?con = "con\<lparr>cc_socks_version := 5, cc_socks_command := SOCKS5_CMD_CONNECT,
    cc_socks_command_original := SOCKS5_CMD_CONNECT, cc_socks_address_type := SOCKS5_ADDRTYPE_DOMAIN,
    cc_socks_address_type_original := SOCKS5_ADDRTYPE_DOMAIN, cc_dst_host := ?dst, cc_dst_host_original := ?dst\<rparr>"
  have dst: "?dst = forwarded fwd"
    using assms(1) by (cases "cc_dst_host con")
      (simp add: fresh_dst_def forwarded_def asked_def host_id_set_port_def host_id_set_name_def)
  have ok: "host_id_ok (forwarded fwd)" "hid_port (forwarded fwd) = pf_remote_port fwd"
    unfolding forwarded_def by (simp_all add: asked_ok)
  have room: "length (reply_of False (cc_socks_version ?con)) \<le> tx_room w (cc_fd_in ?con)" by (simp add: reply_of_def)
  have host: "cc_dst_host ?con = forwarded fwd" "cc_fd_in ?con = cc_fd_in con" using dst by simp_all
  obtain con2 w2 gl' where l: "linked False ?con w fd s sa con2 w2" "route_and_relay False env gl rules ?con w =
      cmap (\<lambda>(rc, con, w). (rc \<noteq> 0, con, gl', w)) (shuttle_data_back_and_forth con2 w2)"
    using route_and_relay_start [of w ?con rules r d env sa fd cs ds s False gl] room ok assms(2-9)
    unfolding host by auto
  have "service_port_forward_connection_handler fwd env gl rules con w =
      cbind (shuttle_data_back_and_forth con2 w2) (\<lambda>(rc, con, w).
      cmap (\<lambda>(con, w). (con, gl', w)) (service_thread_shutdown con (rc \<noteq> 0) w))"
    using l(2) by (simp add: service_port_forward_connection_handler_def Let_def cmap_def cbind_assoc split_def)
  with l(1) host(2) show ?thesis by blast
qed

text \<open>
  C17: a forwarded connection is transparent: over a direct route to the configured remote
  host, the handler ends when the relay's conditions hold, exactly the address that host
  stands for has been connected to, and each side has been sent a prefix of the other's
  bytes and nothing else, no SOCKS byte in particular.
\<close>

theorem port_forward_session:
  assumes "fresh_dst con" and "resolver_ok (w_dns w)"
      "routed (resolve_dns_for_host_id (w_dns w)) (pf_remote_port fwd) rules (forwarded fwd) (Some r) d" "goes_direct env r"
      "direct_target (w_dns w) d sa" "ssh_tunnel_direct (fst env) \<noteq> ssh_tunnel_null (fst env)"
      "w_dials w = New_socket fd cs # ds" "sys_connect cs = Inr (Inr s)" "fd \<noteq> cc_fd_in con"
    and "0 \<le> cc_fd_in con" and "0 \<le> fd" and "list_ex stops (w_polls w)"
    and "relay_live w (cc_fd_in con)" and "relay_live (upd_sock w fd s) fd"
  shows "\<exists>con' gl' w' D1 S1 D2 S2.
    service_port_forward_connection_handler fwd env gl rules con w = Inr (con', gl', w') \<and>
    w_dialed w' = w_dialed w @ [(fd, sa)] \<and>
    rx_stream (sk_rx (w_sock w (cc_fd_in con))) = D1 @ S1 \<and> rx_stream (sk_rx s) = D2 @ S2 \<and>
    sk_sent (w_sock w' fd) = sk_sent s @ D1 \<and>
    sk_sent (w_sock w' (cc_fd_in con)) = sk_sent (w_sock w (cc_fd_in con)) @ D2 \<and> cc_thread_has_exited con'"
proof -
  obtain con1 con2 w2 gl' where st: "cc_fd_in con1 = cc_fd_in con" "linked False con1 w fd s sa con2 w2"
    "service_port_forward_connection_handler fwd env gl rules con w =
      cbind (shuttle_data_back_and_forth con2 w2) (\<lambda>(rc, con, w).
      cmap (\<lambda>(con, w). (con, gl', w)) (service_thread_shutdown con (rc \<noteq> 0) w))"
    using forward_start [OF assms(1-9), of gl] by blast
  obtain rc c w3 where sh: "shuttle_data_back_and_forth con2 w2 = Inr (rc, c, w3)"
    using linked_returns [OF st(2)] st(1) assms(9-14) by auto
  obtain con' w' where cl: "service_thread_shutdown c (rc \<noteq> 0) w3 = Inr (con', w')"
    using shutdown_returns by blast
  note k = shutdown_keeps [OF cl]
  have "w_dialed w3 = w_dialed w @ [(fd, sa)]" "exchanged (cc_fd_in con) fd [] (upd_sock w fd s) w3"
    using linked_exchanged [OF st(2) sh] st(1) assms(9-11) by (auto simp: reply_of_def)
  then have "w_dialed w' = w_dialed w @ [(fd, sa)]" "exchanged (cc_fd_in con) fd [] (upd_sock w fd s) w'"
    using k exchanged_sent by auto
  then show ?thesis using st(3) sh cl k assms(9) by (auto simp: exchanged_def rx_has_def)
qed

theorem port_forward_session_witness:
  "let fwd = (fst (new_service_port_forward 0))\<lparr>pf_remote_host := ''10.0.0.1'', pf_remote_port := 80\<rparr> in
   \<exists>con' gl' w'. service_port_forward_connection_handler fwd (three_tunnels, []) demo_globals [demo_rule]
      (con_to [] AF_UNSPEC 0) demo_world = Inr (con', gl', w') \<and> map fst (w_dialed w') = [7]"
proof -
  let ?fwd = "(fst (new_service_port_forward 0))\<lparr>pf_remote_host := ''10.0.0.1'', pf_remote_port := 80\<rparr>"
  let ?sa = "\<lparr>sin_port = htons 80, sin_addr = the (inet_pton4 ''10.0.0.1'')\<rparr>"
  note f = demo_facts
  have a: "inet_pton4 ''10.0.0.1'' \<noteq> None" by code_simp
  have h: "forwarded ?fwd = \<lparr>hid_name = ''10.0.0.1'', hid_addr = AF_UNSPEC, hid_port = 80\<rparr>"
    by (simp add: forwarded_def asked_def host_id_set_name_def host_id_set_port_def MAX_DNS_def strncpy_term_def)
  have p: "pf_remote_port ?fwd = 80" by simp
  have r: "routed (resolve_dns_for_host_id (w_dns demo_world)) (pf_remote_port ?fwd) [demo_rule] (forwarded ?fwd)
      (Some demo_rule) (forwarded ?fwd)"
    unfolding h p by (auto simp: routed_Cons demo_rule_def rule_matches_def resolved_def translated_def)
  have t: "direct_target (w_dns demo_world) (forwarded ?fwd) ?sa"
    unfolding h using a by (auto simp: direct_target_def)
  have s: "sys_connect [Conn_fail EINTR, Conn_ok demo_server] = Inr (Inr demo_server)" by simp
  have fd: "(7::int) \<noteq> cc_fd_in (con_to [] AF_UNSPEC 0)" "0 \<le> cc_fd_in (con_to [] AF_UNSPEC 0)"
    "relay_live demo_world (cc_fd_in (con_to [] AF_UNSPEC 0))" using f(1,9) by simp_all
  have "w_dialed demo_world = []" by (simp add: demo_world_def quiet_world_def)
  with port_forward_session [OF f(2,6) r demo_route(2) t demo_route(4) f(7) s fd(1,2) _ f(8) fd(3) f(10), of demo_globals]
  show ?thesis unfolding Let_def by fastforce
qed

end
