(* ===== verification/Program.thy ===== *)
theory Program
  imports Startup Thread_Frame Sessions
begin

text \<open>
  The whole program: \<open>main\<close>, the main thread and the threads of the connections together. The
  thread of a connection runs the handler of its service (\<open>src/server.c\<close> hands the function
  pointer to \<open>pthread_create\<close>); what it does to the connection is a step that the main thread
  allows for, so the invariant of the program holds in every reachable state.
\<close>

section \<open>The thread of a connection\<close>

text \<open>
  The handler that the service points to. The handlers of the port forwarder and of HTTP take the
  service for the structure of their own kind.
\<close>

definition connection_thread ::
  "ssh_globals \<times> ssh_tunnel list \<Rightarrow> rre_globals \<Rightarrow> route_rule list \<Rightarrow> http_files \<Rightarrow>
     (nat \<Rightarrow> client_connection \<Rightarrow> client_connection) \<Rightarrow> any_service \<Rightarrow> client_connection \<Rightarrow> world
     \<Rightarrow> (client_connection \<times> rre_globals \<times> world) cres" where
  "connection_thread env gl rules fs answering a con w =
     (case srv_connection_handler (any_service_base a) of
        Default_fn \<Rightarrow> cmap (\<lambda>(con, w). (con, gl, w)) (service_default_connection_handler con w)
      | Socks_fn \<Rightarrow> service_socks_connection_handler env gl rules con w
      | Port_forward_fn \<Rightarrow>
          (case a of
             Port_forward_srv fwd \<Rightarrow> service_port_forward_connection_handler fwd env gl rules con w
           | _ \<Rightarrow> Inl UB)
      | Http_fn \<Rightarrow>
          (case a of
             Http_srv http \<Rightarrow>
               cmap (\<lambda>(con, w). (con, gl, w)) (service_http_connection_handler fs answering http con w)
           | _ \<Rightarrow> Inl UB))"

text \<open>What the main thread does to a connection while its thread runs.\<close>

definition main_only_answers :: "(nat \<Rightarrow> client_connection \<Rightarrow> client_connection) \<Rightarrow> bool" where
  "main_only_answers answering \<longleftrightarrow> (\<forall>i c. answering i c = c \<or> (\<exists>json. answering i c = answer_status json c))"

lemma answer_status_kept [simp]: "kept T c (answer_status json c)"
  by (simp add: kept_def answer_status_def con_ok_def)

lemma main_only_answers_kept: "main_only_answers answering \<Longrightarrow> kept T c (answering i c)"
  unfolding main_only_answers_def by (metis answer_status_kept kept_refl)

lemma default_handler_keeps: "returns (\<lambda>(con', w'). kept T con con') (service_default_connection_handler con w)"
  unfolding service_default_connection_handler_def Let_def by (auto intro!: returns_intros)

lemma connection_thread_keeps:
  assumes "\<And>r. r \<in> set rules \<Longrightarrow> set (rr_tunnel r) \<subseteq> T" and "main_only_answers answering"
  shows "returns (\<lambda>(con', gl', w'). kept T con con') (connection_thread env gl rules fs answering a con w)"
proof -
  have http: "returns (\<lambda>(con', w'). kept T con con') (service_http_connection_handler fs answering http con w)" for http
    by (rule http_handler_keeps) (rule main_only_answers_kept [OF assms(2)])
  show ?thesis unfolding connection_thread_def
    by (auto intro!: socks_handler_keeps port_forward_handler_keeps assms(1) returns_map_after
        returns_weaken [OF default_handler_keeps [of T]] returns_weaken [OF http]
        split: service_fn.splits any_service.splits)
qed

text \<open>Whichever handler it is, it ends with the descriptors closed and the connection marked.\<close>

definition shut_down :: "client_connection \<Rightarrow> bool" where
  "shut_down con \<longleftrightarrow> cc_fd_in con = -1 \<and> cc_fd_out con = -1 \<and> cc_thread_has_exited con"

lemma shutdown_shut_down: "returns (\<lambda>(con', w'). shut_down con') (service_thread_shutdown con ok w)"
  by (auto simp: service_thread_shutdown_def shut_down_def Let_def intro!: returns_intros)

lemma connection_thread_ends:
  "returns (\<lambda>(con', gl', w'). shut_down con') (connection_thread env gl rules fs answering a con w)"
proof -
  have "returns (\<lambda>(con', gl', w'). shut_down con') (cmap (\<lambda>(con, w). (con, gl1, w)) (service_thread_shutdown con ok w))"
    for con ok w gl1
    by (rule returns_map_after, rule returns_weaken [OF shutdown_shut_down]) auto
  then have relayed: "returns (\<lambda>(con', gl', w'). shut_down con') (service_socks_connection_handler env gl rules con w)"
    "returns (\<lambda>(con', gl', w'). shut_down con') (service_port_forward_connection_handler fwd env gl rules con w)" for fwd
    by (auto simp: service_socks_connection_handler_def service_port_forward_connection_handler_def Let_def
        intro!: returns_bind)
  have http: "returns (\<lambda>(con', w'). shut_down con') (service_http_connection_handler fs answering http con w)" for http
    by (auto simp: service_http_connection_handler_def intro!: returns_bind shutdown_shut_down)
  have default: "returns (\<lambda>(con', w'). shut_down con') (service_default_connection_handler con w)"
    by (auto simp: service_default_connection_handler_def shut_down_def Let_def intro!: returns_intros)
  show ?thesis unfolding connection_thread_def
    by (auto intro!: relayed returns_map_after returns_weaken [OF http] returns_weaken [OF default] split: service_fn.splits any_service.splits)
qed

section \<open>The thread's run is a step\<close>

lemma deref_ssh_iff: "deref_ssh ts k \<noteq> None \<longleftrightarrow> k \<in> st_id ` set ts"
  by (auto simp: deref_ssh_def find_None_iff)

lemma kept_typed:
  assumes "kept (st_id ` set tunnels) c c'" and "connection_typed services tunnels c"
  shows "connection_typed services tunnels c'"
  using assms
  by (auto simp: kept_def connection_typed_def connection_service_def deref_ssh_iff
      split: option.splits simp del: not_None_eq)

lemma kept_allowed:
  assumes "kept (st_id ` set (ss_tunnels s)) c c'" and "server_ok s"
  shows "thread_allowed (cc_id c) (\<lambda>x. if x = c then c' else x) s"
proof -
  have "connection_typed (pi_service_list p) (ss_tunnels s) x"
    if "p \<in> set (ss_proxies s)" "x \<in> set (pi_client_connection_list p)" for p x
    using assms(2) that by (auto simp: server_ok_def proxy_inv_def conns_ok_def list_all_iff)
  with kept_typed [OF assms(1)] assms(1) show ?thesis by (auto simp: thread_allowed_def kept_def)
qed

text \<open>
  C5: the thread of a connection is one of the steps that the main thread allows for. In any
  well-formed state, for any connection of any instance and whatever the client, the
  destinations, the system calls and the answers of the main thread are: when the handler of the
  connection's service returns, writing its connection back is a step of the server, the state
  is well-formed again, and the connection is closed on both sides and marked, so that the main
  thread takes it off its list.
\<close>

theorem connection_thread_is_step:
  assumes "program_ok s" and "p \<in> set (ss_proxies s)" and "c \<in> set (pi_client_connection_list p)"
    and "connection_service (pi_service_list p) c = Some a" and "main_only_answers answering"
    and "connection_thread (sc_globals cf, ss_tunnels s) gl (pi_route_rule_list p) fs answering a c w = Inr (c', gl', w')"
  shows "let s' = s\<lparr>ss_proxies := map (update_connection (cc_id c) (\<lambda>x. if x = c then c' else x)) (ss_proxies s)\<rparr>
    in server_step cf s s' \<and> program_ok s' \<and> cc_id c' = cc_id c \<and>
       cc_fd_in c' = -1 \<and> cc_fd_out c' = -1 \<and> cc_thread_has_exited c'"
proof -
  have "promised (ss_tunnels s) p" and ok: "server_ok s"
    using assms(1,2) by (auto simp: program_ok_def list_all_iff)
  then have rules: "set (rr_tunnel r) \<subseteq> st_id ` set (ss_tunnels s)" if "r \<in> set (pi_route_rule_list p)" for r
    using that by (auto simp: promised_def rules_ok_def)
  have k: "kept (st_id ` set (ss_tunnels s)) c c'"
    using returnsD [OF connection_thread_keeps [OF rules assms(5)] assms(6)] by simp
  have "shut_down c'" using returnsD [OF connection_thread_ends assms(6)] by simp
  moreover note server_step.thread [OF kept_allowed [OF k ok], of cf]
  ultimately show ?thesis
    using program_steps_ok [OF r_into_rtranclp assms(1)] k by (simp add: Let_def shut_down_def kept_def)
qed

section \<open>The program from its start on\<close>

text \<open>
  C4: from the command line on, for ever: when \<open>main\<close> has read its options and configuration
  files and calls the server, and the server has started, then through any number of turns of
  the main thread and any interleaving with the threads of the connections: names of instances
  and of tunnels stay unique, and so do the numbers of the connections of an instance; every
  service has the type, the functions and the structure of its kind and listens; every
  connection belongs to a service of its own instance; every tunnel that a connection or a
  routing rule points to exists.
\<close>

theorem program_stays_well_formed:
  assumes "main env mem daemon_rc setrlimit_rc opts = Inr (Inr conf)" and "cf_service_pool conf < 2 ^ 64"
    and "server_start senv (cf_main conf) (cf_globals conf) (called_server conf fs en) = Inr (cf, s0)"
    and "(server_step cf)\<^sup>*\<^sup>* s0 s"
  shows "distinct (map pi_name (ss_proxies s)) \<and> distinct (map st_name (ss_tunnels s)) \<and>
    list_all (\<lambda>p.
      distinct (map cc_id (pi_client_connection_list p)) \<and>
      list_all (\<lambda>a. service_made a \<and> 0 \<le> srv_fd (any_service_base a)) (pi_service_list p) \<and>
      list_all (connection_typed (pi_service_list p) (ss_tunnels s)) (pi_client_connection_list p) \<and>
      rules_ok (st_id ` set (ss_tunnels s)) (pi_route_rule_list p)) (ss_proxies s)"
  using program_steps_ok [OF assms(4) program_starts_ok [OF assms(1-3)]]
  by (auto simp: program_ok_def promised_def server_ok_def proxy_inv_def conns_ok_def list_all_iff)

section \<open>A program that runs\<close>

lemma program_runs:
  "\<exists>conf cf s. main main_env main_mem 0 0 [Opt_c ''f'', Opt_v ''debug''] = Inr (Inr conf) \<and> cf_service_pool conf < 2 ^ 64 \<and>
     server_start demo_start_env (cf_main conf) (cf_globals conf) (called_server conf (Map.empty :: unit file_map) 0) = Inr (cf, s) \<and>
     map pi_name (ss_proxies s) = [''p'']"
proof -
  obtain conf where run: "main main_env main_mem 0 0 [Opt_c ''f'', Opt_v ''debug''] = Inr (Inr conf)"
    and conf: "map pi_name (cf_proxies conf) = [''p'']" "map pi_service_list (cf_proxies conf) = [[]]" "cf_service_pool conf = 0"
    using main_runs by (elim exE conjE) (rule that)
  obtain p where p: "cf_proxies conf = [p]" "pi_name p = ''p''" "pi_service_list p = []" using conf(1,2) by auto
  then have "\<exists>cf s. server_start demo_start_env (cf_main conf) (cf_globals conf) (called_server conf (Map.empty :: unit file_map) 0) = Inr (cf, s) \<and>
      map pi_name (ss_proxies s) = [''p'']"
    by (simp add: server_start_def demo_start_env_def called_server_def listen_all_def)
  with run conf(3) show ?thesis by (intro exI [of _ conf]) (simp only: simp_thms ex_simps, simp)
qed

theorem program_stays_well_formed_witness:
  "\<exists>conf cf s. main main_env main_mem 0 0 [Opt_c ''f'', Opt_v ''debug''] = Inr (Inr conf) \<and>
     server_start demo_start_env (cf_main conf) (cf_globals conf) (called_server conf (Map.empty :: unit file_map) 0) = Inr (cf, s) \<and>
     map pi_name (ss_proxies s) = [''p''] \<and> distinct (map st_name (ss_tunnels s)) \<and>
     list_all (\<lambda>p. rules_ok (st_id ` set (ss_tunnels s)) (pi_route_rule_list p)) (ss_proxies s)"
proof -
  obtain conf cf s where run: "main main_env main_mem 0 0 [Opt_c ''f'', Opt_v ''debug''] = Inr (Inr conf)"
    "cf_service_pool conf < 2 ^ 64"
    "server_start demo_start_env (cf_main conf) (cf_globals conf) (called_server conf (Map.empty :: unit file_map) 0) = Inr (cf, s)"
    and p: "map pi_name (ss_proxies s) = [''p'']"
    using program_runs by (elim exE conjE) (rule that)
  from program_stays_well_formed [OF run rtranclp.rtrancl_refl]
  have names: "distinct (map st_name (ss_tunnels s))"
    "list_all (\<lambda>p. rules_ok (st_id ` set (ss_tunnels s)) (pi_route_rule_list p)) (ss_proxies s)"
    by (simp_all add: list_all_iff)
  show ?thesis
    by (rule exI [of _ conf], rule exI [of _ cf], rule exI [of _ s]) (simp only: simp_thms run p names)
qed

text \<open>The client of the first connection speaks SOCKS 5; no rule routes it.\<close>

lemma thread_runs:
  "\<exists>s p c a c' gl' w'. server_turn demo_config (demo_turn 0) demo_listening = Inr (Inr s) \<and> ss_proxies s = [p] \<and>
     pi_client_connection_list p = [c] \<and> connection_service (pi_service_list p) c = Some a \<and>
     connection_thread (sc_globals demo_config, ss_tunnels s) demo_globals (pi_route_rule_list p) (\<lambda>_. None)
       (\<lambda>_. answer_status None) a c demo_world = Inr (c', gl', w')"
proof -
  have "case server_turn demo_config (demo_turn 0) demo_listening of
      Inr (Inr s) \<Rightarrow>
        (case ss_proxies s of
           [p] \<Rightarrow>
             (case pi_client_connection_list p of
                [c] \<Rightarrow>
                  (case connection_service (pi_service_list p) c of
                     Some a \<Rightarrow>
                       (case connection_thread (sc_globals demo_config, ss_tunnels s) demo_globals (pi_route_rule_list p)
                          (\<lambda>_. None) (\<lambda>_. answer_status None) a c demo_world of
                          Inr (c', gl', w') \<Rightarrow> cc_thread_has_exited c' | _ \<Rightarrow> False)
                   | _ \<Rightarrow> False)
              | _ \<Rightarrow> False)
         | _ \<Rightarrow> False)
    | _ \<Rightarrow> False" by code_simp
  then show ?thesis by (auto split: sum.splits list.splits option.splits prod.splits) (metis old.sum.exhaust prod_cases3)
qed

theorem connection_thread_is_step_witness:
  "\<exists>s p c c'. server_turn demo_config (demo_turn 0) demo_listening = Inr (Inr s) \<and> ss_proxies s = [p] \<and>
     pi_client_connection_list p = [c] \<and> cc_id c' = cc_id c \<and> cc_thread_has_exited c' \<and>
     server_step demo_config s
       (s\<lparr>ss_proxies := map (update_connection (cc_id c) (\<lambda>x. if x = c then c' else x)) (ss_proxies s)\<rparr>)"
proof -
  obtain s p c a c' gl' w' where turn: "server_turn demo_config (demo_turn 0) demo_listening = Inr (Inr s)"
    and s: "ss_proxies s = [p]" "pi_client_connection_list p = [c]" "connection_service (pi_service_list p) c = Some a"
    and run: "connection_thread (sc_globals demo_config, ss_tunnels s) demo_globals (pi_route_rule_list p) (\<lambda>_. None)
       (\<lambda>_. answer_status None) a c demo_world = Inr (c', gl', w')"
    using thread_runs by (elim exE conjE) (rule that)
  have "program_ok s"
  proof (rule program_steps_ok [of demo_config demo_listening])
    show "(server_step demo_config)\<^sup>*\<^sup>* demo_listening s" using turn by (blast intro: server_step.turn)
    have "server_ok demo_listening" by (rule server_start_ok [OF demo_start demo_configured])
    then show "program_ok demo_listening"
      by (simp add: program_ok_def promised_def demo_listening_def demo_main_def service_made_def service_typed_def
          service_type_defs rules_ok_def)
  qed
  from connection_thread_is_step [OF this _ _ s(3) _ run] s
  have stepped: "cc_id c' = cc_id c" "cc_thread_has_exited c'"
    "server_step demo_config s
       (s\<lparr>ss_proxies := map (update_connection (cc_id c) (\<lambda>x. if x = c then c' else x)) (ss_proxies s)\<rparr>)"
    by (auto simp: main_only_answers_def Let_def)
  show ?thesis
    by (rule exI [of _ s], rule exI [of _ p], rule exI [of _ c], rule exI [of _ c'])
      (simp only: simp_thms turn s(1,2) stepped [unfolded s(1)])
qed

end
