(* ===== verification/Status_Page.thy ===== *)
theory Status_Page
  imports Server_Inv Http
begin

text \<open>
  The status page from end to end: the thread of \<open>src/service_http.c\<close> that serves the request,
  the main thread of \<open>src/server.c\<close> that answers it, and the document of \<open>src/build_json.c\<close>.
\<close>

text \<open>What the client is sent: the status line twice begun, the header, and the body.\<close>

definition status_page_header :: string where
  "status_page_header = ''HTTP/1.1 '' @ http_header ''200 OK'' (Some '' application/json'')"

text \<open>
  C6: the status page is the state of the program. A client asks for it; the turn of the main
  thread that sees the request, in a well-formed state, comes during one of the waits of the
  connection's thread. Then the client is sent a header and a text which, read as JSON, is
  the document of all instances, services, connections and tunnels of that turn, typed by the
  schema (when no string needs an escape), and the thread ends.
\<close>

theorem status_page_end_to_end:
  assumes "server_ok s" and "server_events cf env s = Inr (Inr (proxies, tunnels, pool, en))" and "pool < 2 ^ 64"
    and "answer_requests (te_json env) (ss_json_size s) (sc_start_time cf) proxies tunnels = Inr (proxies', d')"
    and "json_memory (te_json env)" and "0 < ss_json_size s" and "ss_json_size s \<le> INT_MAX"
    and "p \<in> set proxies" and "c \<in> set (pi_client_connection_list p)" and "wants_json c"
    and "length (json_text (status_json (te_json env) proxies (sc_start_time cf) tunnels)) + 10 < 2 ^ 30"
    and "json_plain (status_json (te_json env) proxies (sc_start_time cf) tunnels)"
    and "http_asks w (cc_fd_in con) request" and "0 \<le> cc_fd_in con"
    and "string_starts_with request ''GET /status.json ''" and "\<not> cc_JSONStatusReady con" and "cc_JSONStatusStr con = None"
    and "k < 100"
    and "length status_page_header + length (json_text (status_json (te_json env) proxies (sc_start_time cf) tunnels))
           \<le> tx_room w (cc_fd_in con)"
  shows "\<exists>body p'. p' \<in> set proxies' \<and> answer_status (Some body) c \<in> set (pi_client_connection_list p') \<and>
    (\<exists>r. service_http_connection_handler fs (main_thread (Some (k, body))) http con w = Inr r \<and>
         http_done con w (bytes_of (status_page_header @ body)) r) \<and>
    read_json body = Some (status_json (te_json env) proxies (sc_start_time cf) tunnels) \<and>
    conforms status_schema (status_json (te_json env) proxies (sc_start_time cf) tunnels)"
proof -
  let ?doc = "status_json (te_json env) proxies (sc_start_time cf) tunnels"
  note ok = server_events_ok [OF assms(1,2)]
  have "proxies' = map (answer_json (Some (json_text ?doc))) proxies"
    using answer_requests_prints [OF ok assms(5-7,11)] assms(4) by auto
  then have "answer_json (Some (json_text ?doc)) p \<in> set proxies'" using assms(8) by simp
  moreover have "answer_status (Some (json_text ?doc)) c \<in> set (pi_client_connection_list (answer_json (Some (json_text ?doc)) p))"
    using assms(9,10) by (force simp: answer_json_def)
  moreover have reply: "expected_reply (Some (k, json_text ?doc)) = status_page_header @ json_text ?doc"
    by (simp add: expected_reply_def status_page_header_def)
  have "json_text ?doc \<noteq> []" by (simp add: status_json_def json_text_JObj)
  then have "\<exists>r. service_http_connection_handler fs (main_thread (Some (k, json_text ?doc))) http con w = Inr r \<and>
      http_done con w (bytes_of (status_page_header @ json_text ?doc)) r"
    using http_status_answered [OF assms(13-17), of "Some (k, json_text ?doc)"] assms(18,19)
    by (simp add: reply)
  ultimately show ?thesis
    using read_json_text [OF assms(12)] status_json_typed [OF instances_keys [OF ok assms(3)]] by blast
qed

theorem status_page_end_to_end_witness:
  "\<exists>body doc r. service_http_connection_handler demo_files (main_thread (Some (2, body))) demo_http blank_connection
       (demo_request ''GET /status.json HTTP/1.1'' 0) = Inr r \<and>
     http_done blank_connection (demo_request ''GET /status.json HTTP/1.1'' 0) (bytes_of (status_page_header @ body)) r \<and>
     read_json body = Some doc \<and> conforms status_schema doc"
proof -
  let ?w = "demo_request ''GET /status.json HTTP/1.1'' 0"
  obtain proxies tunnels pool en where ev:
    "server_events demo_config (demo_turn 0) demo_asking = Inr (Inr (proxies, tunnels, pool, en))"
    "pool < 2 ^ 64" "length (json_text (status_json demo_json_env proxies 7 tunnels)) < 1500"
    "json_plain (status_json demo_json_env proxies 7 tunnels)"
    "list_ex (\<lambda>p. list_ex wants_json (pi_client_connection_list p)) proxies"
    using demo_asking_turn by (auto split: sum.splits)
  have env: "te_json (demo_turn 0) = demo_json_env" "sc_start_time demo_config = 7"
    by (simp_all add: demo_turn_def demo_config_def)
  have mem: "json_memory (te_json (demo_turn 0))" by (simp add: json_memory_def env demo_json_env_def)
  have size: "0 < ss_json_size demo_asking" "ss_json_size demo_asking \<le> INT_MAX"
    by (simp_all add: demo_asking_def demo_listening_def demo_main_def INT_MAX_def)
  have len: "length (json_text (status_json (te_json (demo_turn 0)) proxies (sc_start_time demo_config) tunnels)) + 10 < 2 ^ 30"
    using ev(3) by (simp add: env)
  have plain: "json_plain (status_json (te_json (demo_turn 0)) proxies (sc_start_time demo_config) tunnels)"
    using ev(4) by (simp add: env)
  obtain proxies' d' where ans: "answer_requests (te_json (demo_turn 0)) (ss_json_size demo_asking)
      (sc_start_time demo_config) proxies tunnels = Inr (proxies', d')"
    using answer_requests_prints [OF server_events_ok [OF demo_asking_ok ev(1)] mem size len] by blast
  obtain p c where c: "p \<in> set proxies" "c \<in> set (pi_client_connection_list p)" "wants_json c"
    using ev(5) by (auto simp: list_ex_iff)
  have con: "cc_fd_in blank_connection = 5" "\<not> cc_JSONStatusReady blank_connection" "cc_JSONStatusStr blank_connection = None"
    by (simp_all add: blank_connection_def Let_def)
  have asks: "http_asks ?w (cc_fd_in blank_connection) ''GET /status.json HTTP/1.1''"
    unfolding con by (rule demo_asks) (simp add: http_line_ok_def)
  have room: "length status_page_header + length (json_text (status_json (te_json (demo_turn 0)) proxies
      (sc_start_time demo_config) tunnels)) \<le> tx_room ?w (cc_fd_in blank_connection)"
    using ev(3) by (simp add: env con status_page_header_def http_header_def tx_room_def demo_request_def)
  have "0 \<le> cc_fd_in blank_connection" "string_starts_with ''GET /status.json HTTP/1.1'' ''GET /status.json ''" "(2 :: nat) < 100"
    by (simp_all add: con string_starts_with_def)
  from status_page_end_to_end [OF demo_asking_ok ev(1,2) ans mem size c len plain asks this(1,2) con(2,3) this(3) room]
  show ?thesis by blast
qed

end
