(* ===== verification/Thread_Log.thy ===== *)
theory Thread_Log
  imports Build_Json Net
begin

text \<open>
  \<open>src/thread_local.c\<close>, \<open>src/thread_msg.c\<close>, the writer of \<open>src/log.c\<close> and the byte dump of
  \<open>src/safe_blocking_readwrite.c\<close>: what a thread knows about the work it does, the pipe that
  wakes up the main thread, and how a message becomes a line of a log file. The text of a
  message (the format with its arguments, by \<open>vsnprintf\<close>), the text of the time and the texts
  of \<open>strerror\<close> are arguments.
\<close>

section \<open>Thread-local storage\<close>

record thread_locals =
  tl_proxy_instance :: "proxy_instance option"
  tl_service :: "any_service option"
  tl_client_connection :: "client_connection option"
  tl_ssh_tunnel :: "ssh_tunnel option"
  tl_log_config :: "log_config option"

definition no_locals :: thread_locals where
  "no_locals = \<lparr>tl_proxy_instance = None, tl_service = None, tl_client_connection = None,
     tl_ssh_tunnel = None, tl_log_config = None\<rparr>"

text \<open>
  A key that has no value yet reads as a null pointer. The answers of \<open>pthread_key_create\<close> are
  results with the value of \<open>errno\<close>; the POSIX call returns an error number and never a
  negative value.
\<close>

fun thread_local_init_key :: "(int \<times> int) list \<Rightarrow> int cres" where
  "thread_local_init_key [] = Inl Hang"
| "thread_local_init_key ((rc, en) # rs) =
     (if rc < 0 \<and> en = EINTR then thread_local_init_key rs else Inr rc)"

text \<open>\<open>keys\<close> are the answers for each of the five keys in their order.\<close>

fun thread_local_init_keys :: "(int \<times> int) list list \<Rightarrow> int \<Rightarrow> int cres" where
  "thread_local_init_keys [] rc = Inr rc"
| "thread_local_init_keys (k # ks) rc =
     (if rc = 0 then cbind (thread_local_init_key k) (thread_local_init_keys ks) else thread_local_init_keys ks rc)"

definition thread_local_init ::
  "(int \<times> int) list \<Rightarrow> (int \<times> int) list \<Rightarrow> (int \<times> int) list \<Rightarrow> (int \<times> int) list \<Rightarrow> (int \<times> int) list \<Rightarrow> int cres" where
  "thread_local_init k1 k2 k3 k4 k5 = thread_local_init_keys [k1, k2, k3, k4, k5] 0"

text \<open>\<open>rc\<close> is the answer of \<open>pthread_setspecific\<close>: 0, or an error that leaves the value alone.\<close>

definition thread_local_set_proxy_instance :: "int \<Rightarrow> proxy_instance option \<Rightarrow> thread_locals \<Rightarrow> int \<times> thread_locals" where
  "thread_local_set_proxy_instance rc inst l = (rc, if rc = 0 then l\<lparr>tl_proxy_instance := inst\<rparr> else l)"

definition thread_local_set_service :: "int \<Rightarrow> any_service option \<Rightarrow> thread_locals \<Rightarrow> int \<times> thread_locals" where
  "thread_local_set_service rc srv l = (rc, if rc = 0 then l\<lparr>tl_service := srv\<rparr> else l)"

definition thread_local_set_client_connection ::
  "int \<Rightarrow> client_connection option \<Rightarrow> thread_locals \<Rightarrow> int \<times> thread_locals" where
  "thread_local_set_client_connection rc inst l = (rc, if rc = 0 then l\<lparr>tl_client_connection := inst\<rparr> else l)"

definition thread_local_set_ssh_tunnel :: "int \<Rightarrow> ssh_tunnel option \<Rightarrow> thread_locals \<Rightarrow> int \<times> thread_locals" where
  "thread_local_set_ssh_tunnel rc ssh l = (rc, if rc = 0 then l\<lparr>tl_ssh_tunnel := ssh\<rparr> else l)"

definition thread_local_set_log_config :: "int \<Rightarrow> log_config option \<Rightarrow> thread_locals \<Rightarrow> int \<times> thread_locals" where
  "thread_local_set_log_config rc conf l = (rc, if rc = 0 then l\<lparr>tl_log_config := conf\<rparr> else l)"

text \<open>\<open>service_thread.c\<close>: what the thread of a connection is told; the results are ignored.\<close>

definition service_thread_setup ::
  "int \<Rightarrow> int \<Rightarrow> int \<Rightarrow> proxy_instance \<Rightarrow> any_service \<Rightarrow> client_connection \<Rightarrow> thread_locals \<Rightarrow> thread_locals" where
  "service_thread_setup rc1 rc2 rc3 proxy srv con l =
     (let l = snd (thread_local_set_proxy_instance rc1 (Some proxy) l);
          l = snd (thread_local_set_service rc2 (Some srv) l)
      in snd (thread_local_set_client_connection rc3 (Some con) l))"

section \<open>The message pipe\<close>

text \<open>
  The answers of \<open>write\<close> with their \<open>errno\<close>: the result says which answers are left; a list
  that has run out stands for a call that blocks.
\<close>

fun thread_msg_loop :: "(int \<times> int) list \<Rightarrow> (int \<times> int) list cres" where
  "thread_msg_loop [] = Inl Hang"
| "thread_msg_loop ((rc, en) # rs) = (if rc < 0 \<and> en = EINTR then thread_msg_loop rs else Inr rs)"

definition thread_msg_send :: "string option \<Rightarrow> int \<Rightarrow> (int \<times> int) list \<Rightarrow> (int \<times> int) list cres" where
  "thread_msg_send msg len rs =
     (if msg = None then Inr rs else if len = 0 then Inr rs else thread_msg_loop rs)"

section \<open>The text of a service\<close>

definition service_socks_str :: "service \<Rightarrow> nat \<Rightarrow> string" where
  "service_socks_str socks buflen = service_default_str socks buflen"

text \<open>\<open>srv->str (srv, buf, buflen)\<close>: undefined when the function is that of another kind.\<close>

definition service_str :: "any_service \<Rightarrow> nat \<Rightarrow> string cres" where
  "service_str a buflen =
     (case srv_str (any_service_base a) of
        Default_fn \<Rightarrow> Inr (service_default_str (any_service_base a) buflen)
      | Socks_fn \<Rightarrow> (case a of Socks_srv s \<Rightarrow> Inr (service_socks_str s buflen) | _ \<Rightarrow> Inl UB)
      | Port_forward_fn \<Rightarrow> cmap (\<lambda>f. service_port_forward_str f buflen) (as_port_forward a)
      | Http_fn \<Rightarrow> cmap (\<lambda>h. service_http_str h buflen) (as_http a))"

section \<open>A line of the log\<close>

text \<open>
  The configuration a message is under, or \<open>None\<close> when it is dropped: the thread's own, else
  that of its proxy, else that of its tunnel. Without any the message is written.
\<close>

definition log_conf :: "int \<Rightarrow> thread_locals \<Rightarrow> log_config option option" where
  "log_conf level l =
     (let conf = tl_log_config l;
          above = (\<lambda>c. case c of None \<Rightarrow> False | Some cf \<Rightarrow> lc_level cf > level)
      in if above conf then None
         else
           let conf = (if conf = None then map_option pi_log (tl_proxy_instance l) else conf)
           in if above conf then None
              else
                let conf = (if conf = None then map_option st_log (tl_ssh_tunnel l) else conf)
                in if above conf then None else Some conf)"

text \<open>
  \<open>strncat (line_buf, s, sizeof (line_buf) - 1)\<close>, 8192 bytes. The limit is on what is appended
  and not on the sum, so the buffer overflows when the sum does not fit.
\<close>

definition line_cat :: "string \<Rightarrow> string \<Rightarrow> string cres" where
  "line_cat line_buf s =
     (if length line_buf + length (take 8191 s) < 8192 then Inr (line_buf @ take 8191 s) else Inl UB)"

fun line_cats :: "string list \<Rightarrow> string \<Rightarrow> string cres" where
  "line_cats [] line_buf = Inr line_buf"
| "line_cats (s # ss) line_buf = cbind (line_cat line_buf s) (line_cats ss)"

definition tmp_buf :: "string \<Rightarrow> string" where
  "tmp_buf s = snprintf_cut 4095 s"

record log_env =
  le_now :: string
  le_strerror :: "int \<Rightarrow> string"
  le_open_rc :: int

text \<open>\<open>strftime\<close> writes nothing when its text does not fit the 100 bytes.\<close>

definition now_buf :: "log_env \<Rightarrow> string" where
  "now_buf env = (if length (le_now env) < 100 then le_now env else [])"

record log_call =
  lm_level :: int
  lm_file :: string
  lm_line :: int
  lm_include_errno :: bool
  lm_include_file_line :: bool
  lm_text :: string

definition log_pieces :: "log_env \<Rightarrow> thread_locals \<Rightarrow> string \<Rightarrow> int \<Rightarrow> log_call \<Rightarrow> string list" where
  "log_pieces env l srv_text saved_errno m =
     [now_buf env]
     @ (case tl_proxy_instance l of Some p \<Rightarrow> [tmp_buf (pi_name p @ '' '')] | None \<Rightarrow> [])
     @ (case tl_service l of Some a \<Rightarrow> [tmp_buf (srv_text @ '' '')] | None \<Rightarrow> [])
     @ (case tl_client_connection l of Some c \<Rightarrow> [tmp_buf (show_nat (cc_id c) @ '' '')] | None \<Rightarrow> [])
     @ (case tl_ssh_tunnel l of Some t \<Rightarrow> [tmp_buf (st_name t @ '' '')] | None \<Rightarrow> [])
     @ ['' '', tmp_buf (printf_s (log_level_str_upper_fixedwidth (lm_level m)) @ '' '')]
     @ (if lm_include_file_line m then [tmp_buf (''in '' @ lm_file m @ '' line '' @ show_int (lm_line m) @ '': '')] else [])
     @ [snprintf_cut 1000 (lm_text m)]
     @ (if lm_include_errno m then ['': '', le_strerror env saved_errno] else [])
     @ [[chr_lf]]"

definition log_line :: "log_env \<Rightarrow> thread_locals \<Rightarrow> int \<Rightarrow> log_call \<Rightarrow> string cres" where
  "log_line env l saved_errno m =
     cbind (case tl_service l of Some a \<Rightarrow> service_str a 1023 | None \<Rightarrow> Inr []) (\<lambda>srv_text.
     line_cats (log_pieces env l srv_text saved_errno m) [])"

text \<open>
  The write through the pointer \<open>conf->file\<close>, the name of a file of the list: a null pointer is
  standard output, a name that is not in the list is a pointer to nothing.
\<close>

definition write_line :: "log_env \<Rightarrow> log_file list \<Rightarrow> string option \<Rightarrow> string \<Rightarrow> (log_file list \<times> (int \<times> string) option) cres" where
  "write_line env logs name line =
     (case name of
        None \<Rightarrow> Inr (logs, snd (log_file_write (le_open_rc env) None line))
      | Some n \<Rightarrow>
          (case find (\<lambda>g. lf_file_name g = n) logs of
             None \<Rightarrow> Inl UB
           | Some g \<Rightarrow>
               (let (g', out) = log_file_write (le_open_rc env) (Some g) line
                in Inr (map (\<lambda>x. if lf_file_name x = n then the g' else x) logs, out))))"

text \<open>The log files, what was written and to which descriptor, and \<open>errno\<close>, behind a message.\<close>

definition log_write ::
  "log_env \<Rightarrow> thread_locals \<Rightarrow> log_call \<Rightarrow> log_file list \<Rightarrow> int \<Rightarrow> (log_file list \<times> (int \<times> string) option \<times> int) cres" where
  "log_write env l m logs en =
     (case log_conf (lm_level m) l of
        None \<Rightarrow> Inr (logs, None, en)
      | Some conf \<Rightarrow>
          cbind (log_line env l en m) (\<lambda>line.
          cmap (\<lambda>(logs, out). (logs, out, en))
            (write_line env logs (case conf of None \<Rightarrow> None | Some c \<Rightarrow> lc_file c) line)))"

definition exit_text :: "log_env \<Rightarrow> int \<Rightarrow> int \<Rightarrow> string \<Rightarrow> string" where
  "exit_text env en return_code err_msg =
     snprintf_cut 4095 (''unexpected exit('' @ show_int return_code
       @ '') (probably means we need to handle an edge case somewhere) '' @ err_msg
       @ (if en \<noteq> 0 then '': '' @ le_strerror env en else []))"

text \<open>The message is the format of the call of \<open>error\<close>, without arguments: a percent sign in it is undefined.\<close>

definition unexpected_exit :: "log_env \<Rightarrow> thread_locals \<Rightarrow> log_file list \<Rightarrow> int \<Rightarrow> int \<Rightarrow> string \<Rightarrow> unit cres" where
  "unexpected_exit env l logs en return_code err_msg =
     (let msg = exit_text env en return_code err_msg
      in if CHR ''%'' \<in> set msg then Inl UB
         else cbind (log_write env l \<lparr>lm_level = LOG_LEVEL_ERROR, lm_file = ''log.c'', lm_line = 135,
                       lm_include_errno = False, lm_include_file_line = True, lm_text = msg\<rparr> logs en)
                (\<lambda>_. Inl (Exit return_code)))"

section \<open>The byte dump\<close>

definition hex_digit :: "nat \<Rightarrow> char" where
  "hex_digit n = (if n < 10 then char_of (48 + n) else char_of (55 + n))"

definition dump_byte :: "byte \<Rightarrow> string" where
  "dump_byte b = [CHR '' '', hex_digit (unat b div 16), hex_digit (unat b mod 16)]"

text \<open>The lines of 16 bytes each with the source lines of the calls that print them.\<close>

fun dump_lines :: "nat \<Rightarrow> string \<Rightarrow> byte list \<Rightarrow> (int \<times> string) list" where
  "dump_lines idx line [] = (if line \<noteq> [] then [(45, line)] else [])"
| "dump_lines idx line (b # bs) =
     (let line = line @ dump_byte b
      in if idx mod 16 = 15 then (39, line) # dump_lines (idx + 1) [] bs
         else dump_lines (idx + 1) line bs)"

fun log_all :: "log_env \<Rightarrow> thread_locals \<Rightarrow> log_call list \<Rightarrow> log_file list \<Rightarrow> int
    \<Rightarrow> (log_file list \<times> (int \<times> string) list \<times> int) cres" where
  "log_all env l [] logs en = Inr (logs, [], en)"
| "log_all env l (m # ms) logs en =
     cbind (log_write env l m logs en) (\<lambda>(logs, out, en).
     cmap (\<lambda>(logs, outs, en). (logs, (case out of Some x \<Rightarrow> x # outs | None \<Rightarrow> outs), en)) (log_all env l ms logs en))"

definition byte_dump ::
  "log_env \<Rightarrow> thread_locals \<Rightarrow> int \<Rightarrow> string \<Rightarrow> byte list \<Rightarrow> log_file list \<Rightarrow> int
     \<Rightarrow> (log_file list \<times> (int \<times> string) list \<times> int) cres" where
  "byte_dump env l fd prefix_text buf logs en =
     (if (case tl_log_config l of Some conf \<Rightarrow> lc_level conf \<noteq> LOG_LEVEL_TRACE2 | None \<Rightarrow> False) then Inr (logs, [], en)
      else if (case tl_proxy_instance l of Some p \<Rightarrow> lc_level (pi_log p) \<noteq> LOG_LEVEL_TRACE2 | None \<Rightarrow> False)
      then Inr (logs, [], en)
      else log_all env l
             (map (\<lambda>(n, line). \<lparr>lm_level = LOG_LEVEL_TRACE2, lm_file = ''safe_blocking_readwrite.c'', lm_line = n,
                     lm_include_errno = False, lm_include_file_line = True,
                     lm_text = ''('' @ show_int fd @ '') '' @ prefix_text @ '' '' @ line\<rparr>)
                (dump_lines 0 [] buf))
             logs en)"

section \<open>The configuration in effect\<close>

definition log_config_in_effect :: "thread_locals \<Rightarrow> log_config option" where
  "log_config_in_effect l =
     (case tl_log_config l of
        Some c \<Rightarrow> Some c
      | None \<Rightarrow>
          (case tl_proxy_instance l of
             Some p \<Rightarrow> Some (pi_log p)
           | None \<Rightarrow> map_option st_log (tl_ssh_tunnel l)))"

definition dropped :: "int \<Rightarrow> thread_locals \<Rightarrow> bool" where
  "dropped level l \<longleftrightarrow> (case log_config_in_effect l of None \<Rightarrow> False | Some c \<Rightarrow> lc_level c > level)"

lemma log_conf_in_effect: "log_conf level l = (if dropped level l then None else Some (log_config_in_effect l))"
  by (auto simp: log_conf_def dropped_def log_config_in_effect_def Let_def split: option.splits)

text \<open>The thread of a connection logs the way its proxy says, and names proxy, service and connection.\<close>

lemma connection_thread_logs_by_proxy:
  "log_config_in_effect (service_thread_setup 0 0 0 proxy srv con no_locals) = Some (pi_log proxy)"
  by (simp add: log_config_in_effect_def service_thread_setup_def thread_local_set_proxy_instance_def
      thread_local_set_service_def thread_local_set_client_connection_def no_locals_def)

text \<open>The retry of the key creation never happens: the POSIX call does not fail with a negative result.\<close>

lemma thread_local_init_key_posix: "0 \<le> rc \<Longrightarrow> thread_local_init_key ((rc, en) # rs) = Inr rc"
  by simp

lemma thread_local_init_okay:
  "thread_local_init [(0, e1)] [(0, e2)] [(0, e3)] [(0, e4)] [(0, e5)] = Inr 0"
  by (simp add: thread_local_init_def)

lemma thread_local_init_first_failure:
  assumes "0 < rc"
  shows "thread_local_init [(0, e1)] [(rc, e2)] k3 k4 k5 = Inr rc"
  using assms by (simp add: thread_local_init_def)

section \<open>The line fits its buffer\<close>

definition locals_ok :: "thread_locals \<Rightarrow> bool" where
  "locals_ok l \<longleftrightarrow>
     pred_option (\<lambda>p. length (pi_name p) < 1024) (tl_proxy_instance l) \<and>
     pred_option (\<lambda>a. service_str a 1023 \<noteq> Inl UB) (tl_service l) \<and>
     pred_option (\<lambda>c. cc_id c < 2 ^ 64) (tl_client_connection l) \<and>
     pred_option (\<lambda>t. length (st_name t) < 200) (tl_ssh_tunnel l)"

definition call_ok :: "log_call \<Rightarrow> bool" where
  "call_ok m \<longleftrightarrow> length (lm_file m) < 256 \<and> 0 \<le> lm_line m \<and> lm_line m < 2 ^ 31"

definition log_files_ok :: "thread_locals \<Rightarrow> log_file list \<Rightarrow> bool" where
  "log_files_ok l logs \<longleftrightarrow>
     (case Option.bind (log_config_in_effect l) lc_file of None \<Rightarrow> True | Some n \<Rightarrow> n \<in> lf_file_name ` set logs)"

lemma line_cats_fits:
  "sum_list (map length ss) + length b < 8192 \<Longrightarrow> line_cats ss b = Inr (b @ concat ss)"
  by (induction ss arbitrary: b) (auto simp: line_cat_def)

lemma service_str_length: "service_str a n = Inr s \<Longrightarrow> length s \<le> n - 2"
  by (auto simp: service_str_def service_default_str_def service_socks_str_def service_port_forward_str_def
      service_http_str_def cmap_def split: service_fn.splits any_service.splits elim!: cbind_InrE)

lemma service_str_faults: "service_str a n \<noteq> Inl UB \<Longrightarrow> \<exists>s. service_str a n = Inr s"
  by (auto simp: service_str_def as_port_forward_def as_http_def split: service_fn.splits any_service.splits)

lemma length_level_text: "length (printf_s (log_level_str_upper_fixedwidth level)) \<le> 6"
  by (simp add: printf_s_def log_level_str_upper_fixedwidth_def)

lemma length_tmp_buf: "length (tmp_buf s) \<le> length s"
  by (simp add: tmp_buf_def snprintf_cut_def)

lemma length_show_line: "0 \<le> i \<Longrightarrow> i < 2 ^ 31 \<Longrightarrow> length (show_int i) \<le> 10"
  using length_show_nat_le [of "nat i" 10] by (simp add: show_int_def nat_less_iff)

lemma log_pieces_length:
  assumes "locals_ok l" "call_ok m" "length (le_strerror env en) < 1024" "length srv_text \<le> 1021"
  shows "sum_list (map length (log_pieces env l srv_text en m)) < 8192"
proof -
  let ?o = "\<lambda>p f. case p of Some x \<Rightarrow> [tmp_buf (f x @ '' '')] | None \<Rightarrow> []"
  have opt: "sum_list (map length (?o p f)) \<le> n + 1" if "\<And>x. p = Some x \<Longrightarrow> length (f x) \<le> n" for p f n
    using that le_trans [OF length_tmp_buf] by (cases p) (fastforce)+
  have "sum_list (map length (?o (tl_proxy_instance l) pi_name)) \<le> 1023 + 1"
    using assms(1) by (intro opt) (simp add: locals_ok_def)
  moreover have "sum_list (map length (?o (tl_service l) (\<lambda>_. srv_text))) \<le> 1021 + 1"
    using assms(4) by (intro opt)
  moreover have "sum_list (map length (?o (tl_client_connection l) (\<lambda>c. show_nat (cc_id c)))) \<le> 20 + 1"
    using assms(1) length_show_nat_le [of _ 20] by (intro opt) (fastforce simp: locals_ok_def)
  moreover have "sum_list (map length (?o (tl_ssh_tunnel l) st_name)) \<le> 199 + 1"
    using assms(1) by (intro opt) (simp add: locals_ok_def)
  moreover have "length (tmp_buf (printf_s (log_level_str_upper_fixedwidth (lm_level m)) @ '' '')) \<le> 7"
    using length_level_text [of "lm_level m"] length_tmp_buf [of "printf_s (log_level_str_upper_fixedwidth (lm_level m)) @ '' ''"]
    by simp
  moreover have "length (tmp_buf (''in '' @ lm_file m @ '' line '' @ show_int (lm_line m) @ '': '')) \<le> 276"
    using assms(2) length_show_line [of "lm_line m"]
      length_tmp_buf [of "''in '' @ lm_file m @ '' line '' @ show_int (lm_line m) @ '': ''"]
    by (simp add: call_ok_def)
  moreover have "length (now_buf env) \<le> 99" by (simp add: now_buf_def)
  moreover have "length (snprintf_cut 1000 (lm_text m)) \<le> 999" by (simp add: snprintf_cut_def)
  ultimately show ?thesis
    using assms(3) unfolding log_pieces_def map_append sum_list_append by simp
qed

lemma log_line_fits:
  assumes "locals_ok l" "call_ok m" "length (le_strerror env en) < 1024"
  shows "\<exists>srv_text. log_line env l en m = Inr (concat (log_pieces env l srv_text en m)) \<and>
           length (concat (log_pieces env l srv_text en m)) < 8192"
proof -
  obtain s where s: "(case tl_service l of Some a \<Rightarrow> service_str a 1023 | None \<Rightarrow> Inr []) = Inr s" "length s \<le> 1021"
  proof (cases "tl_service l")
    case None
    with that [of "[]"] show ?thesis by simp
  next
    case (Some a)
    then obtain t where "service_str a 1023 = Inr t"
      using assms(1) service_str_faults [of a 1023] by (auto simp: locals_ok_def)
    with that [of t] Some service_str_length [of a 1023 t] show ?thesis by simp
  qed
  have "sum_list (map length (log_pieces env l s en m)) < 8192"
    using assms s(2) by (rule log_pieces_length)
  then show ?thesis using s(1) line_cats_fits [of "log_pieces env l s en m" "[]"]
    by (auto simp: log_line_def length_concat)
qed

lemma log_pieces_newline: "last (concat (log_pieces env l s en m)) = chr_lf" "concat (log_pieces env l s en m) \<noteq> []"
  by (simp_all add: log_pieces_def)

lemma write_line_known:
  assumes "case name of None \<Rightarrow> True | Some n \<Rightarrow> n \<in> lf_file_name ` set logs"
  shows "\<exists>logs' out. write_line env logs name line = Inr (logs', out)"
proof (cases name)
  case None
  then show ?thesis by (simp add: write_line_def)
next
  case (Some n)
  then have "find (\<lambda>g. lf_file_name g = n) logs \<noteq> None"
    using assms Some unfolding find_None_iff by auto
  then obtain g where "find (\<lambda>g. lf_file_name g = n) logs = Some g" by blast
  then show ?thesis using Some by (simp add: write_line_def split: prod.splits)
qed

lemma log_write_spec:
  assumes "locals_ok l" "call_ok m" "length (le_strerror env en) < 1024"
    and "log_files_ok l logs"
  shows "if dropped (lm_level m) l then log_write env l m logs en = Inr (logs, None, en)
         else \<exists>line logs' out.
           log_line env l en m = Inr line \<and> length line < 8192 \<and> line \<noteq> [] \<and> last line = chr_lf \<and>
           write_line env logs (Option.bind (log_config_in_effect l) lc_file) line = Inr (logs', out) \<and>
           log_write env l m logs en = Inr (logs', out, en)"
proof (cases "dropped (lm_level m) l")
  case True
  then show ?thesis by (simp add: log_write_def log_conf_in_effect)
next
  case False
  obtain s where line: "log_line env l en m = Inr (concat (log_pieces env l s en m))"
    "length (concat (log_pieces env l s en m)) < 8192"
    using log_line_fits [OF assms(1-3)] by blast
  let ?name = "Option.bind (log_config_in_effect l) lc_file"
  obtain logs' out where w: "write_line env logs ?name (concat (log_pieces env l s en m)) = Inr (logs', out)"
    using write_line_known [where name = ?name and logs = logs and env = env] assms(4) unfolding log_files_ok_def by blast
  have "(case log_config_in_effect l of None \<Rightarrow> None | Some c \<Rightarrow> lc_file c) = ?name"
    by (cases "log_config_in_effect l") simp_all
  then show ?thesis using False line w log_pieces_newline
    by (simp add: log_write_def log_conf_in_effect)
qed

section \<open>A message in the log\<close>

text \<open>
  C28: a message is dropped exactly when the configuration in effect (the thread's own, else its
  proxy's, else its tunnel's) asks for a higher level. Otherwise the line fits the 8192 bytes of
  its buffer, whatever the message is, as long as the names have the lengths of their arrays; it
  ends with a newline and goes to the file of that configuration. Either way \<open>errno\<close> is what it
  was.
\<close>
theorem log_write_correct:
  assumes "locals_ok l" "call_ok m" "length (le_strerror env en) < 1024"
    and "log_files_ok l logs"
  shows "if dropped (lm_level m) l then log_write env l m logs en = Inr (logs, None, en)
         else \<exists>line logs' out.
           log_line env l en m = Inr line \<and> length line < 8192 \<and> line \<noteq> [] \<and> last line = chr_lf \<and>
           write_line env logs (Option.bind (log_config_in_effect l) lc_file) line = Inr (logs', out) \<and>
           log_write env l m logs en = Inr (logs', out, en)"
  using assms by (rule log_write_spec)

definition demo_log_env :: log_env where
  "demo_log_env = \<lparr>le_now = ''2018-01-01 12:00:00+0000 '', le_strerror = (\<lambda>_. ''Resource temporarily unavailable''), le_open_rc = 3\<rparr>"

definition demo_log_locals :: thread_locals where
  "demo_log_locals =
     no_locals\<lparr>tl_proxy_instance := Some (new_proxy_instance \<lparr>lc_level = 0, lc_file = None\<rparr>),
       tl_service := Some (Socks_srv (fst (new_service_socks 0)))\<rparr>"

definition demo_log_call :: log_call where
  "demo_log_call = \<lparr>lm_level = LOG_LEVEL_ERROR, lm_file = ''server.c'', lm_line = 79, lm_include_errno = True,
     lm_include_file_line = True, lm_text = ''pthread_create()''\<rparr>"

theorem log_write_correct_witness:
  "\<exists>line logs' out. log_line demo_log_env demo_log_locals 35 demo_log_call = Inr line \<and> length line < 8192 \<and>
     log_write demo_log_env demo_log_locals demo_log_call [] 35 = Inr (logs', out, 35)"
proof -
  have ok: "locals_ok demo_log_locals" "call_ok demo_log_call" "length (le_strerror demo_log_env 35) < 1024"
    by (simp_all add: locals_ok_def call_ok_def demo_log_locals_def demo_log_call_def demo_log_env_def no_locals_def
        new_proxy_instance_def service_str_def new_service_socks_def new_service_def)
  have conf: "log_config_in_effect demo_log_locals = Some \<lparr>lc_level = LOG_LEVEL_ERROR, lc_file = None\<rparr>"
    by (simp add: log_config_in_effect_def demo_log_locals_def no_locals_def new_proxy_instance_def log_config_init_def)
  then have "\<not> dropped (lm_level demo_log_call) demo_log_locals"
    by (simp add: dropped_def demo_log_call_def)
  then show ?thesis using log_write_correct [OF ok, of "[]"] conf by (auto simp: log_files_ok_def)
qed

section \<open>The end of the process\<close>

lemma log_write_returns:
  assumes "locals_ok l" "call_ok m" "length (le_strerror env en) < 1024"
    and "log_files_ok l logs"
  obtains r where "log_write env l m logs en = Inr r"
  using that log_write_spec [OF assms] by (simp split: if_splits) blast

lemma in_set_take_no: "c \<notin> set s \<Longrightarrow> c \<notin> set (take n s)"
  by (meson in_set_takeD)

lemma unexpected_exit_exits:
  assumes "locals_ok l" "length (le_strerror env en) < 1024" "CHR ''%'' \<notin> set (le_strerror env en)"
    and "CHR ''%'' \<notin> set err_msg"
    and "log_files_ok l logs"
  shows "unexpected_exit env l logs en return_code err_msg = Inl (Exit return_code)"
proof -
  let ?msg = "exit_text env en return_code err_msg"
  have "CHR ''%'' \<notin> set (show_int return_code)"
    using show_nat_digits [of "CHR ''%''" "nat return_code"] show_nat_digits [of "CHR ''%''" "nat (- return_code)"]
    by (auto simp: show_int_def c_isdigit_def)
  then have "CHR ''%'' \<notin> set ?msg" using assms(3,4) by (simp add: exit_text_def snprintf_cut_def in_set_take_no)
  moreover have "call_ok \<lparr>lm_level = LOG_LEVEL_ERROR, lm_file = ''log.c'', lm_line = 135,
      lm_include_errno = False, lm_include_file_line = True, lm_text = ?msg\<rparr>"
    by (simp add: call_ok_def)
  then obtain r where "log_write env l \<lparr>lm_level = LOG_LEVEL_ERROR, lm_file = ''log.c'', lm_line = 135,
      lm_include_errno = False, lm_include_file_line = True, lm_text = ?msg\<rparr> logs en = Inr r"
    by (rule log_write_returns [OF assms(1) _ assms(2,5)])
  ultimately show ?thesis by (simp add: unexpected_exit_def Let_def)
qed

section \<open>The dump shows every byte\<close>

lemma dump_lines_hex: "concat (map snd (dump_lines i line bs)) = line @ concat (map dump_byte bs)"
  by (induction i line bs rule: dump_lines.induct) (auto simp: Let_def)

lemma dump_lines_width:
  "length line = 3 * (i mod 16) \<Longrightarrow> x \<in> set (dump_lines i line bs) \<Longrightarrow> length (snd x) \<le> 48"
proof (induction i line bs rule: dump_lines.induct)
  case (1 i line)
  have "i mod 16 < 16" by simp
  then show ?case using 1 by (auto split: if_splits)
next
  case (2 i line b bs)
  have len: "length (line @ dump_byte b) = 3 * (i mod 16) + 3" using "2.prems"(1) by (simp add: dump_byte_def)
  show ?case
  proof (cases "i mod 16 = 15")
    case True
    then have "Suc i mod 16 = 0" by presburger
    then show ?thesis using 2 True len by (auto simp: Let_def)
  next
    case False
    then have "Suc i mod 16 = Suc (i mod 16)" by (simp add: mod_Suc)
    then show ?thesis using 2 False len by (auto simp: Let_def)
  qed
qed

end
