(* ===== verification/Unit_Tests.thy ===== *)
theory Unit_Tests
  imports Config_Line Host_Id String2 Log_Level
begin

text \<open>
  The program's own unit tests, \<open>src/unit_test*.c\<close>, run on the model: every test function of
  the suite is a function of the counters, and its assertions are about the definitions that
  model the code under test. What the tests print is left out.
\<close>

section \<open>The counters and the assertions\<close>

record ut_globals =
  tests_run :: int
  tests_success :: int
  tests_fail :: int

definition ut_stub :: "string \<Rightarrow> bool \<Rightarrow> ut_globals \<Rightarrow> int \<times> ut_globals" where
  "ut_stub test_name status g =
     (let g = g\<lparr>tests_run := tests_run g + 1\<rparr>
      in if status then (0, g\<lparr>tests_success := tests_success g + 1\<rparr>)
         else (1, g\<lparr>tests_fail := tests_fail g + 1\<rparr>))"

definition ut_assert :: "string \<Rightarrow> bool \<Rightarrow> ut_globals \<Rightarrow> int \<times> ut_globals" where
  "ut_assert test_name v g = ut_stub test_name v g"

definition ut_assert_true :: "string \<Rightarrow> bool \<Rightarrow> ut_globals \<Rightarrow> int \<times> ut_globals" where
  "ut_assert_true test_name v g = ut_stub test_name v g"

definition ut_assert_false :: "string \<Rightarrow> bool \<Rightarrow> ut_globals \<Rightarrow> int \<times> ut_globals" where
  "ut_assert_false test_name v g = ut_stub test_name (\<not> v) g"

definition ut_assert_string_match :: "string \<Rightarrow> string \<Rightarrow> string \<Rightarrow> ut_globals \<Rightarrow> int \<times> ut_globals" where
  "ut_assert_string_match test_name expected v g =
     (let match = (expected = v); result = ut_stub test_name match g in result)"

definition ut_assert_int_match :: "string \<Rightarrow> int \<Rightarrow> int \<Rightarrow> ut_globals \<Rightarrow> int \<times> ut_globals" where
  "ut_assert_int_match test_name expected v g =
     (let match = (expected = v); result = ut_stub test_name match g in result)"

text \<open>The tests ignore what the assertions return.\<close>

fun ut_all :: "(ut_globals \<Rightarrow> int \<times> ut_globals) list \<Rightarrow> ut_globals \<Rightarrow> ut_globals" where
  "ut_all [] g = g"
| "ut_all (t # ts) g = ut_all ts (snd (t g))"

text \<open>A pointer that a test hands to \<open>strcmp\<close>: null is undefined.\<close>

definition non_null :: "'a option \<Rightarrow> 'a cres" where
  "non_null p = (case p of None \<Rightarrow> Inl UB | Some x \<Rightarrow> Inr x)"

section \<open>Strings and levels\<close>

definition unit_test_string2 :: "ut_globals \<Rightarrow> ut_globals cres" where
  "unit_test_string2 g =
     cbind (string_ends_with ''abcdefg'' ''efg'') (\<lambda>t1.
     cbind (string_ends_with ''abcdefg'' ''ggg'') (\<lambda>t2.
     cbind (string_ends_with ''ggg'' ''abcggg'') (\<lambda>t3.
     cbind (string_ends_with ''ggg'' ''agg'') (\<lambda>t4.
     cbind (string_ends_with ''ggg'' ''aggg'') (\<lambda>t5.
     cbind (string_ends_with ''ggg'' ''abc'') (\<lambda>t6.
     Inr (ut_all
       [ut_assert ''string_ends_with 01'' t1, ut_assert_false ''string_ends_with 02'' t2,
        ut_assert_false ''string_ends_with 03'' t3, ut_assert_false ''string_ends_with 04'' t4,
        ut_assert_false ''string_ends_with 05'' t5, ut_assert_false ''string_ends_with 06'' t6] g)))))))"

definition unit_test_log_level :: "ut_globals \<Rightarrow> ut_globals cres" where
  "unit_test_log_level g =
     cmap (\<lambda>err. ut_all
       [ut_assert ''invalid log_level_str() 01'' (log_level_str (-2000) = None),
        ut_assert ''invalid log_level_str() 02'' (log_level_str 2000 = None),
        ut_assert_string_match ''log_level_str() 03'' ''error'' err,
        ut_assert_int_match ''log_level_from_str() 01'' LOG_LEVEL_ERROR (log_level_from_str (Some ''error'')),
        ut_assert_int_match ''log_level_from_str() 02'' LOG_LEVEL_WARN (log_level_from_str (Some ''warn'')),
        ut_assert_int_match ''log_level_from_str() 03'' LOG_LEVEL_WARN (log_level_from_str (Some ''WARN'')),
        ut_assert_int_match ''log_level_from_str() 04'' LOG_LEVEL_INVALID (log_level_from_str (Some ''nothing'')),
        ut_assert_int_match ''log_level_from_str() 05'' LOG_LEVEL_INVALID (log_level_from_str None)] g)
       (non_null (log_level_str LOG_LEVEL_ERROR))"

section \<open>Host identities\<close>

text \<open>
  \<open>mem\<close> is the \<open>host_id\<close> on the stack, \<open>sa\<close> what the bytes of its union are as an IPv4 address
  when the test sets the family by hand, \<open>rest\<close> the bytes of \<open>ubuf\<close> behind the first four.
\<close>

definition unit_test_host_id :: "host_id \<Rightarrow> sockaddr_in \<Rightarrow> byte list \<Rightarrow> ut_globals \<Rightarrow> ut_globals cres" where
  "unit_test_host_id mem sa rest g =
     (let ident = host_id_init mem;
          g = ut_all
            [ut_assert ''name'' (hid_name ident = []), ut_assert ''port'' (hid_port ident = 0),
             ut_assert ''addr'' (hid_addr ident = AF_UNSPEC),
             ut_assert_false ''host_id_has_name()'' (host_id_has_name ident),
             ut_assert_false ''host_id_has_addr()'' (host_id_has_addr ident)] g;
          name = ''test.com'';
          ident = host_id_set_name (host_id_init ident) name;
          g = ut_all
            [ut_assert_true ''host_id_has_name()'' (host_id_has_name ident),
             ut_assert_string_match ''host_id_get_name()'' name (host_id_get_name ident),
             ut_assert_string_match ''id->name'' name (hid_name ident)] g;
          port = 1234;
          ident = host_id_set_port (host_id_init ident) port;
          g = ut_all
            [ut_assert_int_match ''host_id_get_port()'' port (host_id_get_port ident),
             ut_assert_int_match ''id->port'' port (hid_port ident),
             ut_assert ''addr'' (hid_addr ident = AF_UNSPEC)] g;
          ident = host_id_set_port ((host_id_init ident)\<lparr>hid_addr := AF_INET sa\<rparr>) port;
          g = ut_all
            [ut_assert_int_match ''host_id_get_port()'' port (host_id_get_port ident),
             ut_assert_int_match ''id->port'' port (hid_port ident),
             ut_assert ''id->addr.sin_addr.s_port'' (addr_port (hid_addr ident) = Some port)] g;
          ip_str = ''1.2.3.4''
      in cbind (non_null (inet_pton4 ip_str)) (\<lambda>ip.
         let ident = host_id_set_addr_in (host_id_init ident) \<lparr>sin_port = htons port, sin_addr = ip\<rparr>;
             buf = (case host_id_addr_str ident 1024 of None \<Rightarrow> [] | Some s \<Rightarrow> s);
             g = ut_all
               [ut_assert_string_match ''host_id_set_addr_in() -> host_id_addr_str()'' ip_str buf,
                ut_assert_int_match ''host_id_get_port()'' port (host_id_get_port ident),
                ut_assert_int_match ''id->port'' port (hid_port ident),
                ut_assert ''id->addr.sin_addr.s_port'' (addr_port (hid_addr ident) = Some port)] g
         in cmap (\<lambda>ident.
              let buf = (case host_id_addr_str ident 1024 of None \<Rightarrow> [] | Some s \<Rightarrow> s);
                  g = ut_all
                    [ut_assert_string_match ''host_id_set_addr_in_from_byte_array() -> host_id_addr_str()'' ip_str buf,
                     ut_assert_int_match ''port'' port (host_id_get_port ident)] g;
                  written = host_id_get_addr_as_byte_array ident 40;
                  ubuf = written @ drop (length written) ([0, 0, 0, 0] @ rest)
              in ut_all
                   [ut_assert_int_match ''host_id_get_addr_as_byte_array()'' 4 (int (length written)),
                    ut_assert_int_match ''..0'' 1 (uint (ubuf ! 0)), ut_assert_int_match ''..1'' 2 (uint (ubuf ! 1)),
                    ut_assert_int_match ''..2'' 3 (uint (ubuf ! 2)), ut_assert_int_match ''..3'' 4 (uint (ubuf ! 3))] g)
              (host_id_set_addr_in_from_byte_array (host_id_init ident) ([1, 2, 3, 4] @ rest) port)))"

section \<open>The lines of a configuration file\<close>

text \<open>The three lines of the test that repeat for each line of the file: its name, return code and contents.\<close>

fun ut_read_lines :: "(string \<times> nat \<times> string) list \<Rightarrow> bool \<Rightarrow> bool \<Rightarrow> file_read list \<Rightarrow> ut_globals \<Rightarrow> ut_globals" where
  "ut_read_lines [] cr lf s g = g"
| "ut_read_lines ((name, expected_rc, expected) # ts) cr lf s g =
     (case read_line 100 [] cr lf s of
        (rc, buf, cr, lf, s) \<Rightarrow>
          ut_read_lines ts cr lf s
            (ut_all [ut_assert name (rc = expected_rc),
                     ut_assert_string_match (name @ '' contents'') expected (c_str buf)] g))"

definition ut_test_string :: string where
  "ut_test_string =
     ''01'' @ [chr_lf] @ ''02'' @ [chr_cr] @ ''03'' @ [chr_lf, chr_cr] @ ''04'' @ [chr_cr, chr_lf] @ ''05''
     @ [chr_lf, chr_lf] @ ''06'' @ [chr_cr, chr_cr] @ ''07'' @ [chr_lf, chr_cr, chr_cr] @ ''08'' @ [chr_cr, chr_lf, chr_lf]"

definition unit_test_config_file_read_line :: "ut_globals \<Rightarrow> ut_globals" where
  "unit_test_config_file_read_line g = ut_read_lines
     [(''line 01'', 1, ''01''), (''line 02'', 1, ''02''), (''line 03'', 1, ''03''),
      (''line 04'', 1, ''04''), (''line 05'', 1, ''05''), (''line 05a'', 1, []),
      (''line 06'', 1, ''06''), (''line 06a'', 1, []), (''line 07'', 1, ''07''),
      (''line 07a'', 1, []), (''line 08'', 1, ''08''), (''line 08a'', 1, []),
      (''line <eof>'', 2, [])]
     False False (file_of ut_test_string) g"

text \<open>A call into a buffer of \<open>n\<close> bytes and the two assertions behind it; the text is only there with return code 1.\<close>

definition ut_text :: "string option cres \<Rightarrow> string \<Rightarrow> string \<Rightarrow> ut_globals \<Rightarrow> ut_globals cres" where
  "ut_text r name expected g =
     cbind r (\<lambda>out. cmap (\<lambda>buf. ut_all
       [ut_assert_string_match name expected buf,
        ut_assert_int_match (name @ '' rc'') 1 (if out \<noteq> None then 1 else 0)] g) (non_null out))"

definition ut_error :: "string option cres \<Rightarrow> string \<Rightarrow> ut_globals \<Rightarrow> ut_globals cres" where
  "ut_error r name g =
     cmap (\<lambda>out. ut_all [ut_assert_int_match name 0 (if out \<noteq> None then 1 else 0)] g) r"

fun ut_steps :: "(ut_globals \<Rightarrow> ut_globals cres) list \<Rightarrow> ut_globals \<Rightarrow> ut_globals cres" where
  "ut_steps [] g = Inr g"
| "ut_steps (t # ts) g = cbind (t g) (ut_steps ts)"

definition unit_test_config_file_remove_extra_spaces_and_comments_from_config_line :: "ut_globals \<Rightarrow> ut_globals cres" where
  "unit_test_config_file_remove_extra_spaces_and_comments_from_config_line = (let
     remove = remove_extra_spaces_and_comments_from_config_line 100
   in ut_steps
     [ut_text (remove []) ''empty string'' [],
      ut_text (remove ''# comment'') ''comment'' [],
      ut_text (remove ''  # comment'') ''comment w/ leading space'' [],
      ut_text (remove ''  one two    three # comment'') ''token 01'' ''one two three'',
      ut_text (remove (''  one '' @ [chr_dquote] @ ''two  three'' @ [chr_dquote] @ '' # comment''))
        ''double quote 01'' (''one '' @ [chr_dquote] @ ''two  three'' @ [chr_dquote]),
      ut_text (remove (''  one '' @ [chr_quote] @ ''two  three'' @ [chr_quote] @ '' # comment''))
        ''single quote 01'' (''one '' @ [chr_quote] @ ''two  three'' @ [chr_quote]),
      ut_error (remove (''  one '' @ [chr_quote] @ ''two  three # comment'')) ''unterminated quote 01 rc'',
      ut_text (remove (''  one '' @ [chr_backslash, chr_dquote] @ ''two  three # comment''))
        ''escape 01'' (''one '' @ [chr_dquote] @ ''two three'')])"

definition ut_replaced :: "string option cres \<Rightarrow> string \<Rightarrow> string \<Rightarrow> ut_globals \<Rightarrow> ut_globals cres" where
  "ut_replaced r name expected g =
     cbind r (\<lambda>out. cmap (\<lambda>buf. ut_all
       [ut_assert_int_match (name @ '' 1'') 1 (if out \<noteq> None then 1 else 0),
        ut_assert_string_match (name @ '' 2'') expected buf] g) (non_null out))"

text \<open>\<open>setenv\<close> puts \<open>testvar\<close> into the environment.\<close>

definition unit_test_replace_environment_variables_in_string :: "(string \<Rightarrow> string option) \<Rightarrow> ut_globals \<Rightarrow> ut_globals cres" where
  "unit_test_replace_environment_variables_in_string getenv = (let
     replace = replace_environment_variables_in_string (getenv(''testvar'' \<mapsto> ''abc'')) 200
   in ut_steps
     [ut_replaced (replace []) ''empty string'' [],
      ut_replaced (replace ''simple'') ''simple'' ''simple'',
      ut_replaced (replace ''xx${testvar}yy'') ''basic replace'' ''xxabcyy'',
      ut_error (replace ''xx${testvar'') ''error A 1'',
      ut_error (replace ''xx${testva-r'') ''error B 1'',
      ut_error (replace ''xx${}yy'') ''error C 1'',
      ut_replaced (replace ''xx${does_not_exists_I_hope}yy'') ''env variable does not exist'' ''xxyy''])"

definition unit_test_config_file :: "(string \<Rightarrow> string option) \<Rightarrow> ut_globals \<Rightarrow> ut_globals cres" where
  "unit_test_config_file getenv g =
     cbind (Inr (unit_test_config_file_read_line g)) (\<lambda>g.
     cbind (unit_test_config_file_remove_extra_spaces_and_comments_from_config_line g) (\<lambda>g.
     unit_test_replace_environment_variables_in_string getenv g))"

section \<open>The suite\<close>

text \<open>What \<open>main\<close> returns (the number of failures) and the counters at its end.\<close>

definition unit_test_main ::
  "(string \<Rightarrow> string option) \<Rightarrow> host_id \<Rightarrow> sockaddr_in \<Rightarrow> byte list \<Rightarrow> (int \<times> ut_globals) cres" where
  "unit_test_main getenv mem sa rest =
     (let g = \<lparr>tests_run = 0, tests_success = 0, tests_fail = 0\<rparr>
      in cbind (unit_test_config_file getenv g) (\<lambda>g.
         cbind (unit_test_log_level g) (\<lambda>g.
         cbind (unit_test_host_id mem sa rest g) (\<lambda>g.
         cmap (\<lambda>g. (tests_fail g, g)) (unit_test_string2 g)))))"

section \<open>The model passes\<close>

definition passes :: "int \<Rightarrow> ut_globals \<Rightarrow> ut_globals" where
  "passes n g = g\<lparr>tests_run := tests_run g + n, tests_success := tests_success g + n\<rparr>"

lemma passes_passes [simp]: "passes m (passes n g) = passes (n + m) g"
  by (simp add: passes_def)

lemma ut_assert_eqs:
  "ut_assert name v = ut_stub name v" "ut_assert_true name v = ut_stub name v"
  "ut_assert_false name v = ut_stub name (\<not> v)" "ut_assert_string_match name s t = ut_stub name (s = t)"
  "ut_assert_int_match name i j = ut_stub name (i = j)"
  by (rule ext, simp add: ut_assert_def ut_assert_true_def ut_assert_false_def ut_assert_string_match_def
      ut_assert_int_match_def)+

lemma ut_stub_passes [simp]: "snd (ut_stub name True g) = passes 1 g"
  by (simp add: ut_stub_def passes_def Let_def)

lemma string2_tests_pass: "unit_test_string2 g = Inr (passes 6 g)"
proof -
  have "string_ends_with ''abcdefg'' ''efg'' = Inr True" "string_ends_with ''abcdefg'' ''ggg'' = Inr False"
    "string_ends_with ''ggg'' ''abcggg'' = Inr False" "string_ends_with ''ggg'' ''agg'' = Inr False"
    "string_ends_with ''ggg'' ''aggg'' = Inr False" "string_ends_with ''ggg'' ''abc'' = Inr False"
    by (simp_all add: string_ends_with_def ends_with_buf_def c_tolower_def)
  then show ?thesis by (simp add: unit_test_string2_def ut_assert_eqs)
qed

lemma log_level_tests_pass: "unit_test_log_level g = Inr (passes 8 g)"
proof -
  have "log_level_str (-2000) = None" "log_level_str 2000 = None" "log_level_str LOG_LEVEL_ERROR = Some ''error''"
    "log_level_from_str (Some ''error'') = LOG_LEVEL_ERROR" "log_level_from_str (Some ''warn'') = LOG_LEVEL_WARN"
    "log_level_from_str (Some ''WARN'') = LOG_LEVEL_WARN" "log_level_from_str (Some ''nothing'') = LOG_LEVEL_INVALID"
    "log_level_from_str None = LOG_LEVEL_INVALID"
    by code_simp+
  then show ?thesis by (simp add: unit_test_log_level_def ut_assert_eqs non_null_def)
qed

lemma read_line_tests_pass: "unit_test_config_file_read_line g = passes 26 g"
  by (simp add: unit_test_config_file_read_line_def ut_test_string_def ut_assert_eqs c_str_def Let_def)

lemma remove_tests_pass:
  "unit_test_config_file_remove_extra_spaces_and_comments_from_config_line g = Inr (passes 15 g)"
  by (simp add: unit_test_config_file_remove_extra_spaces_and_comments_from_config_line_def ut_text_def ut_error_def
      ut_assert_eqs non_null_def remove_extra_spaces_and_comments_from_config_line_def check_for_space_def Let_def)

lemma replace_tests_pass:
  assumes "getenv ''does_not_exists_I_hope'' = None"
  shows "unit_test_replace_environment_variables_in_string getenv g = Inr (passes 11 g)"
proof -
  let ?env = "getenv(''testvar'' \<mapsto> ''abc'')"
  let ?r = "replace_environment_variables_in_string ?env 200"
  have "?env ''testvar'' = Some ''abc''" "?env ''does_not_exists_I_hope'' = None" using assms by simp_all
  then have "?r [] = Inr (Some [])" "?r ''simple'' = Inr (Some ''simple'')" "?r ''xx${testvar}yy'' = Inr (Some ''xxabcyy'')"
    "?r ''xx${testvar'' = Inr None" "?r ''xx${testva-r'' = Inr None" "?r ''xx${}yy'' = Inr None"
    "?r ''xx${does_not_exists_I_hope}yy'' = Inr (Some ''xxyy'')"
    by (simp_all add: replace_environment_variables_in_string_def is_env_char_def strncpy_term_def Let_def)
  then show ?thesis
    by (simp add: unit_test_replace_environment_variables_in_string_def ut_replaced_def ut_error_def ut_assert_eqs
        non_null_def)
qed

lemma host_id_tests_pass: "unit_test_host_id mem sa rest g = Inr (passes 25 g)"
proof -
  have addr: "inet_pton4 ''1.2.3.4'' = Some (htonl 0x01020304)" by code_simp
  have str: "inet_ntop4 (htonl 0x01020304) = ''1.2.3.4''" by code_simp
  have bytes: "push_bit 8 (push_bit 8 (push_bit 8 (0 OR ucast (1 :: byte)) OR ucast (2 :: byte)) OR ucast (3 :: byte))
      OR ucast (4 :: byte) = (0x01020304 :: u32)"
    by code_simp
  have octets: "[octet 3 (ntohl (htonl 0x01020304)), octet 2 (ntohl (htonl 0x01020304)),
      octet 1 (ntohl (htonl 0x01020304)), octet 0 (ntohl (htonl 0x01020304))] = [1, 2, 3, 4]"
    by code_simp
  have port: "ntohs (htons 1234) = 1234" by code_simp
  show ?thesis
    using octets bytes
    by (simp add: unit_test_host_id_def ut_assert_eqs non_null_def addr str port host_id_init_def host_id_has_name_def
        host_id_has_addr_def host_id_set_name_def host_id_get_name_def host_id_set_port_def host_id_get_port_def
        host_id_set_addr_in_def host_id_addr_str_def host_id_set_addr_in_from_byte_array_def
        host_id_get_addr_as_byte_array_def addr_port_def strncpy_term_def MAX_DNS_def)
qed

text \<open>
  The program's own unit tests pass on the model: all 91 assertions of the suite hold and
  its exit code is 0, whatever is in the uninitialised memory the tests use, as long as the
  environment has no variable of the name the tests hope it has not.
\<close>

lemma unit_tests_pass:
  assumes "getenv ''does_not_exists_I_hope'' = None"
  shows "unit_test_main getenv mem sa rest = Inr (0, \<lparr>tests_run = 91, tests_success = 91, tests_fail = 0\<rparr>)"
  using assms
  by (simp add: unit_test_main_def unit_test_config_file_def read_line_tests_pass remove_tests_pass replace_tests_pass
      log_level_tests_pass host_id_tests_pass string2_tests_pass cmap_def passes_def)

end
