(* ===== verification/Spec2Isabelle.thy ===== *)
theory Spec2Isabelle
  imports Program Ssh_Policy Connection_List Status_Page Thread_Log Unit_Tests
begin

text \<open>
  A model of SmartSOCKSProxy (the C program under \<open>src/\<close>) and what it guarantees.

  \<^bold>\<open>The program.\<close> The main thread (\<open>main.c\<close>, \<open>config_file.c\<close>, \<open>server.c\<close>) reads the configuration
  into linked lists of proxy instances (each with its services, its routing rules and its
  connections), ssh tunnels and log files. It listens on every service and, in each turn of its
  loop, polls the descriptors, accepts connections and starts a thread for each, sweeps the
  connections that are over, starts and stops the processes behind the tunnels, answers the
  requests for the status document and rotates the logs. The thread of a connection
  (\<open>service_socks.c\<close>, \<open>service_port_forward.c\<close> or \<open>service_http.c\<close>) learns the destination, asks
  the rules engine for the route (\<open>route_rules_engine.c\<close>, \<open>dns_util.c\<close>), connects along it,
  directly or through the SOCKS proxies at the ends of tunnels (\<open>socks_connection.c\<close>,
  \<open>socks5_client.c\<close>), relays the bytes (\<open>shuttle.c\<close>) and closes its sockets (\<open>safe_close.c\<close>,
  \<open>service_thread.c\<close>).

  \<^bold>\<open>Conventions.\<close> A struct is a record whose fields have the names of the code with a short
  prefix; a C function is a definition of the same name. A function that can go wrong returns
  \<open>'a cres\<close> (theory Prelude): a value, undefined behaviour, a call that blocks for ever, or the
  end of the process. A pointer to a shared object is its id or its unique name; memory that
  the code does not initialise is an argument. What the kernel, the peers and the clock do is
  given by scripts, the outcomes of the successive calls, in the theory Net for the threads of
  connections and in records of outcomes elsewhere; a theorem for all scripts is a theorem
  for all behaviours. Library functions of C that are used are written out in the theories
  CString and Inet; \<open>getaddrinfo\<close>, \<open>gethostbyname\<close>, \<open>getenv\<close>, the file system and
  the allocator are parameters. Text that only goes to the log is left out, except in the
  theory Thread_Log, which models the log itself.
\<close>

text \<open>
  \<^bold>\<open>Theories and what they show.\<close>
  \<^item> Prelude, CString, String2 (\<open>string2.c\<close>), Inet, Log_Level (\<open>log_level.c\<close>, \<open>log.h\<close>): results,
    strings, addresses in network order, levels.
  \<^item> Host_Id (\<open>host_id.c\<close>), Dns_Util (\<open>dns_util.c\<close>): the union of socket addresses with its
    well-formedness invariant; resolving as a locale \<open>resolver\<close> interpreted on the code.
  \<^item> Ssh_Tunnel, Route_Rule, Rule_Syntax (\<open>ssh_tunnel.c\<close>, \<open>route_rule.c\<close>): tunnels and rules; the
    text of every abstract rule parses to the rule.
  \<^item> Client_Connection, Connection_List (\<open>client_connection.c\<close>): the connection, and the doubly
    linked list on a heap, whose sweep refines filtering a list, with the descriptors that it
    closes; it is undefined for a connection at which the code reads a variable it never set.
  \<^item> Rules_Engine (\<open>route_rules_engine.c\<close>): the search over the rules refines the relation
    \<open>routed\<close> (first match, permutations of the destination on the way).
  \<^item> Net, Safe_IO, Socks_Server (\<open>safe_blocking_readwrite.c\<close>, \<open>service_socks.c\<close>): the reads and
    writes, and the protocol towards the client against a reference parser of its bytes.
  \<^item> Socks_Connection, Outgoing (\<open>socks_connection.c\<close>, \<open>socks5_client.c\<close>): connecting always ends,
    stays within the array of tunnels and leaves no socket behind; the requests that are sent
    against the parser of Socks_Server, where the two sides agree and where they do not; the
    contract of a connector is the locale \<open>connector\<close>, extended by \<open>live_connector\<close>.
  \<^item> Shuttle, Relay_Live, Handlers, Sessions (\<open>shuttle.c\<close>, \<open>safe_close.c\<close>, \<open>service_thread.c\<close>, the
    handlers): the relay delivers prefixes of the two streams, all of them when the peers
    behave, and returns; whole sessions from the first byte to the closed sockets.
  \<^item> Service, Proxy_Instance, Log_File, Registry (\<open>service.c\<close>, the service constructors and
    parsers, \<open>listen_socket.c\<close>, \<open>proxy_instance.c\<close>, \<open>main_config.c\<close>, \<open>log_file.c\<close>): the structures;
    the lists that are searched by name are interpretations of the locale \<open>registry\<close>;
    rotation keeps the contents of the newest files.
  \<^item> Config_Line, Config_File, Config_Inv, Rule_Files, Main_Program (\<open>config_file.c\<close>, \<open>main.c\<close>):
    lines, environment variables, entries, sections, included files and rule directories;
    every configuration that reaches \<open>server\<close> is valid.
  \<^item> Ssh_Policy (\<open>ssh_policy.c\<close>): mark and sweep over the connections, one process per tunnel.
  \<^item> Json, Build_Json, Status_Document (\<open>build_json.c\<close>): a grammar and a reader of JSON, the
    growing buffer, and the proof that the code prints the abstract document, typed by a schema,
    which is read back exactly when no string in it needs an escape.
  \<^item> Http, Server, Server_Inv, Status_Page (\<open>service_http.c\<close>, \<open>server.c\<close>): the web server stays
    in its directory; a turn of the main loop as a function of the outcomes of its calls; the
    relation \<open>server_step\<close> interleaves turns with what the threads do to their own
    connections and keeps the state well-formed; the status page from request to body.
  \<^item> Startup, Thread_Frame, Program: the parts together. The services that the configuration makes
    are of one kind each (locale \<open>service_kind\<close>), and \<open>main\<close> hands a well-formed state to
    \<open>server\<close>; a handler that returns has kept what the main thread relies on, so the run of
    the thread of a connection is a \<open>server_step\<close>, and every reachable state is well-formed.
  \<^item> Thread_Log (\<open>log.c\<close>, \<open>thread_local.c\<close>, \<open>thread_msg.c\<close>, the byte dump): the filter of the log
    and the line that fits its buffer.
  \<^item> Unit_Tests (\<open>unit_test*.c\<close>): the program's own test suite runs on the model and passes. It
    validates the definitions at the inputs of the suite and is not a property of the manifest.

  \<^bold>\<open>Loops and fuel.\<close> The loops that wait for calls recurse over the scripts, and one that has
  used up its script is the value \<open>Hang\<close>: it blocks, or still runs after these calls. So
  nothing is proved only for runs that end: the theorems on termination and liveness say from
  which scripts on a value is there. Included configuration files recurse with a measure on
  the stack of file names, as the code bounds it. The reader of JSON has the length of the
  text as its fuel, which \<open>read_json_text\<close> shows to be enough; the walk of the sweep over the
  heap list has a bound on the nodes it visits, and the length of the list is enough.

  \<^bold>\<open>Not modelled.\<close> The page that shows the status document (HTML and JavaScript), the text of
  messages to the log, the mutex of a connection (the operations are the bodies of its
  critical sections), \<open>daemon\<close> and \<open>setrlimit\<close> beyond their results, the help text, and the
  process behind a tunnel beyond its life. Signals are ignored by the program. The counters of
  ids are natural numbers (64 bits in the code; the theorems on the status document suppose that
  they are below that). The main loop tests \<open>errno\<close>, so it is carried along: up to the sweep call by
  call, behind it as one outcome (\<open>te_errno\<close>) whenever a tunnel, a request or a full log makes
  calls that may change it. Logging does not change \<open>errno\<close>: \<open>log_write\<close> saves and restores it,
  which its model states as a result. A thread that waits for the status document takes its
  fields in the step in which it sees the flag, so there is no race between the two.
\<close>

end
